(* ===== verification/Prelude.thy ===== *)
theory Prelude
  imports Main "HOL-Library.Word"
begin

unbundle bit_operations_syntax

section \<open>Shared vocabulary of the development\<close>

text \<open>
  What every component of the library uses: the machine integer types of the C++ code, the
  ways in which a C++ call can fail to return, the arithmetic of \<^verbatim>\<open>size_t\<close>, the object
  representation of integers (what \<^verbatim>\<open>memcpy\<close> reads and writes) together with the byte-order
  functions of \<^verbatim>\<open>arpa/inet.h\<close>, and the generic list lemmas the component theories share.
\<close>

named_theorems size_arith \<open>arithmetic of size_t values\<close>
named_theorems bytes_simps \<open>object representations of integers\<close>

subsection \<open>Machine integers and ways not to return\<close>

type_synonym u8 = "8 word"
type_synonym u16 = "16 word"
type_synonym u32 = "32 word"
type_synonym u64 = "64 word"
type_synonym bytes = "u8 list"

text \<open>
  A C++ call either returns a value (\<open>Inr\<close>) or leaves by one of these ways (\<open>Inl\<close>): the
  standard exceptions the library code can raise, or behaviour the standard leaves undefined.
\<close>

datatype cpp_fault =
    Length_error          \<comment> \<open>\<open>std::length_error\<close>: a string or vector larger than \<open>max_size()\<close>\<close>
  | Out_of_range          \<comment> \<open>\<open>std::out_of_range\<close> of \<open>at()\<close>\<close>
  | Asio_exception        \<comment> \<open>\<open>LcyAsioException\<close>\<close>
  | Bad_function_call     \<comment> \<open>\<open>std::bad_function_call\<close>: an empty \<open>std::function\<close> is called\<close>
  | Undefined_behaviour   \<comment> \<open>signed overflow, reads out of range, null dereference, division by 0\<close>

type_synonym 'a cpp = "cpp_fault + 'a"

text \<open>Sequencing: a fault ends the call, a value is passed on.\<close>

definition cpp_bind :: "'a cpp \<Rightarrow> ('a \<Rightarrow> 'b cpp) \<Rightarrow> 'b cpp" where
  "cpp_bind x f = (case x of Inl e \<Rightarrow> Inl e | Inr a \<Rightarrow> f a)"

lemma cpp_bind_simps [simp]:
  "cpp_bind (Inl e) f = Inl e"
  "cpp_bind (Inr a) f = f a"
  by (simp_all add: cpp_bind_def)

lemma cpp_bind_cong [fundef_cong]:
  "x = x' \<Longrightarrow> (\<And>a. x' = Inr a \<Longrightarrow> f a = g a) \<Longrightarrow> cpp_bind x f = cpp_bind x' g"
  by (cases x') auto

lemma cpp_bind_eq_Inr_iff:
  "cpp_bind x f = Inr b \<longleftrightarrow> (\<exists>a. x = Inr a \<and> f a = Inr b)"
  by (cases x) auto

subsection \<open>The arithmetic of size_t\<close>

text \<open>
  \<^verbatim>\<open>size_t\<close> has 64 bits. Sizes are natural numbers below \<open>2 ^ 64\<close>; wherever the code adds,
  multiplies or subtracts sizes whose result may leave that range, the wrap-around is written out.
\<close>

definition size_mod :: nat where
  "size_mod = 2 ^ 64"

definition size_add :: "nat \<Rightarrow> nat \<Rightarrow> nat" where
  "size_add a b = (a + b) mod size_mod"

definition size_sub :: "nat \<Rightarrow> nat \<Rightarrow> nat" where
  "size_sub a b = (a + (size_mod - b mod size_mod)) mod size_mod"

definition size_mul :: "nat \<Rightarrow> nat \<Rightarrow> nat" where
  "size_mul a b = (a * b) mod size_mod"

text \<open>\<open>max_size()\<close> of \<open>std::string\<close> and \<open>std::vector<char>\<close> on a 64-bit host.\<close>

definition max_size :: nat where
  "max_size = 2 ^ 63 - 1"

text \<open>A signed \<open>int\<close> converted to \<open>size_t\<close>: negative values wrap around.\<close>

definition size_of_int :: "int \<Rightarrow> nat" where
  "size_of_int i = nat (i mod 2 ^ 64)"

lemma size_mod_gt_0 [simp]: "0 < size_mod"
  by (simp add: size_mod_def)

lemma max_size_lt_size_mod: "max_size < size_mod"
  by (simp add: max_size_def size_mod_def)

lemma size_add_id [size_arith]: "a + b < size_mod \<Longrightarrow> size_add a b = a + b"
  by (simp add: size_add_def)

lemma size_sub_id [size_arith]:
  assumes "b \<le> a" and "a < size_mod"
  shows "size_sub a b = a - b"
proof -
  have eq: "a + (size_mod - b mod size_mod) = (a - b) + size_mod"
    using assms by simp
  show ?thesis
    unfolding size_sub_def eq mod_add_self2 using assms by simp
qed

lemma size_mul_id [size_arith]: "a * b < size_mod \<Longrightarrow> size_mul a b = a * b"
  by (simp add: size_mul_def)

lemma size_add_lt [simp]: "size_add a b < size_mod"
  by (simp add: size_add_def)

lemma size_of_int_nonneg [size_arith]: "0 \<le> i \<Longrightarrow> i < 2 ^ 63 \<Longrightarrow> size_of_int i = nat i"
  by (simp add: size_of_int_def)

lemma size_of_int_neg: "i < 0 \<Longrightarrow> - (2 ^ 31) \<le> i \<Longrightarrow> size_of_int i = nat (2 ^ 64 + i)"
proof -
  assume "i < 0" and "- (2 ^ 31) \<le> i"
  then have "(2 ^ 64 + i) mod 2 ^ 64 = 2 ^ 64 + i"
    by (intro mod_pos_pos_trivial) auto
  then show ?thesis
    by (simp add: size_of_int_def)
qed

subsection \<open>Object representation and byte order\<close>

text \<open>
  \<^verbatim>\<open>memcpy(dst, &x, sizeof x)\<close> copies the object representation of \<open>x\<close>, which depends on the
  host's byte order; \<open>le_repr n w\<close> lists the \<open>n\<close> bytes of \<open>w\<close> from the least significant one.
\<close>

datatype endian = Little_endian | Big_endian

definition le_repr :: "nat \<Rightarrow> 'a::len word \<Rightarrow> bytes" where
  "le_repr n w = map (\<lambda>i. ucast (drop_bit (8 * i) w)) [0..<n]"

fun from_le :: "bytes \<Rightarrow> 'a::len word" where
  "from_le [] = 0"
| "from_le (b # bs) = ucast b OR push_bit 8 (from_le bs)"

fun object_repr :: "endian \<Rightarrow> nat \<Rightarrow> 'a::len word \<Rightarrow> bytes" where
  "object_repr Little_endian n w = le_repr n w"
| "object_repr Big_endian n w = rev (le_repr n w)"

fun from_object :: "endian \<Rightarrow> bytes \<Rightarrow> 'a::len word" where
  "from_object Little_endian bs = from_le bs"
| "from_object Big_endian bs = from_le (rev bs)"

text \<open>
  \<open>htons\<close>, \<open>htonl\<close> and their inverses: the identity on a big-endian host, a byte swap on a
  little-endian one.
\<close>

fun byte_order_swap :: "endian \<Rightarrow> nat \<Rightarrow> 'a::len word \<Rightarrow> 'a word" where
  "byte_order_swap Big_endian n w = w"
| "byte_order_swap Little_endian n w = from_le (rev (le_repr n w))"

definition htons :: "endian \<Rightarrow> u16 \<Rightarrow> u16" where "htons e w = byte_order_swap e 2 w"
definition ntohs :: "endian \<Rightarrow> u16 \<Rightarrow> u16" where "ntohs e w = byte_order_swap e 2 w"
definition htonl :: "endian \<Rightarrow> u32 \<Rightarrow> u32" where "htonl e w = byte_order_swap e 4 w"
definition ntohl :: "endian \<Rightarrow> u32 \<Rightarrow> u32" where "ntohl e w = byte_order_swap e 4 w"

lemma length_le_repr [simp]: "length (le_repr n w) = n"
  by (simp add: le_repr_def)

lemma length_object_repr [simp]: "length (object_repr e n w) = n"
  by (cases e) simp_all

lemma bit_from_le:
  "bit (from_le bs :: 'a::len word) i \<longleftrightarrow>
     i < LENGTH('a) \<and> i div 8 < length bs \<and> bit (bs ! (i div 8)) (i mod 8)"
proof (induction bs arbitrary: i)
  case Nil
  then show ?case by simp
next
  case (Cons b bs)
  show ?case
  proof (cases "i < 8")
    case True
    then show ?thesis
      by (auto simp: bit_or_iff bit_push_bit_iff bit_ucast_iff dest: bit_imp_le_length)
  next
    case False
    then have "i div 8 = Suc ((i - 8) div 8)" and "i mod 8 = (i - 8) mod 8"
      by (simp_all add: div_if mod_if)
    then show ?thesis
      using False Cons.IH [of "i - 8"]
      by (auto simp: bit_or_iff bit_push_bit_iff bit_ucast_iff dest: bit_imp_le_length)
  qed
qed

lemma bit_le_repr_nth:
  "k < n \<Longrightarrow> j < 8 \<Longrightarrow> bit (le_repr n w ! k) j \<longleftrightarrow> bit w (8 * k + j)"
  by (auto simp: le_repr_def bit_ucast_iff bit_drop_bit_eq)

lemma from_le_le_repr [bytes_simps]:
  fixes w :: "'a::len word"
  assumes "LENGTH('a) = 8 * n"
  shows "from_le (le_repr n w) = w"
proof (rule bit_word_eqI)
  fix i
  assume i: "i < LENGTH('a)"
  then have "i div 8 < n"
    using assms by (simp add: less_mult_imp_div_less mult.commute)
  then show "bit (from_le (le_repr n w) :: 'a word) i \<longleftrightarrow> bit w i"
    using i by (simp add: bit_from_le bit_le_repr_nth)
qed

lemma le_repr_from_le [bytes_simps]:
  assumes "LENGTH('a::len) = 8 * n" and "length bs = n"
  shows "le_repr n (from_le bs :: 'a word) = bs"
proof (rule nth_equalityI)
  show "length (le_repr n (from_le bs :: 'a word)) = length bs"
    by (simp add: assms)
next
  fix k
  assume "k < length (le_repr n (from_le bs :: 'a word))"
  then have k: "k < n" by simp
  show "le_repr n (from_le bs :: 'a word) ! k = bs ! k"
  proof (rule bit_word_eqI)
    fix j
    assume "j < LENGTH(8)"
    then have j: "j < 8" by simp
    then have "8 * k + j < LENGTH('a)"
      using k assms(1) by simp
    then show "bit (le_repr n (from_le bs :: 'a word) ! k) j \<longleftrightarrow> bit (bs ! k) j"
      using j k assms(2) by (simp add: bit_le_repr_nth bit_from_le)
  qed
qed

lemma from_object_object_repr [bytes_simps]:
  "LENGTH('a::len) = 8 * n \<Longrightarrow> from_object e (object_repr e n (w :: 'a word)) = w"
  by (cases e) (simp_all add: from_le_le_repr)

lemma object_repr_swap:
  "LENGTH('a::len) = 8 * n \<Longrightarrow> object_repr e n (byte_order_swap e n (w :: 'a word)) = rev (le_repr n w)"
  by (cases e) (simp_all add: le_repr_from_le)

lemma swap_from_object:
  "LENGTH('a::len) = 8 * n \<Longrightarrow> length bs = n \<Longrightarrow>
     byte_order_swap e n (from_object e bs :: 'a word) = from_le (rev bs)"
  by (cases e) (simp_all add: le_repr_from_le)

text \<open>On either host the bytes of a converted integer are in network order.\<close>

definition be_bytes :: "nat \<Rightarrow> 'a::len word \<Rightarrow> bytes" where
  "be_bytes n w = rev (le_repr n w)"

definition from_be :: "bytes \<Rightarrow> 'a::len word" where
  "from_be bs = from_le (rev bs)"

lemma length_be_bytes [simp]: "length (be_bytes n w) = n"
  by (simp add: be_bytes_def)

lemma from_be_be_bytes [bytes_simps]:
  "LENGTH('a::len) = 8 * n \<Longrightarrow> from_be (be_bytes n (w :: 'a word)) = w"
  by (simp add: from_be_def be_bytes_def from_le_le_repr)

lemma be_bytes_from_be [bytes_simps]:
  "LENGTH('a::len) = 8 * n \<Longrightarrow> length bs = n \<Longrightarrow> be_bytes n (from_be bs :: 'a word) = bs"
  by (simp add: from_be_def be_bytes_def le_repr_from_le)

lemma object_repr_hton [bytes_simps]:
  "object_repr e 2 (htons e t) = be_bytes 2 t"
  "object_repr e 4 (htonl e l) = be_bytes 4 l"
  by (simp_all add: htons_def htonl_def be_bytes_def object_repr_swap)

lemma ntoh_from_object [bytes_simps]:
  "length bs = 2 \<Longrightarrow> ntohs e (from_object e bs) = from_be bs"
  "length bs = 4 \<Longrightarrow> ntohl e (from_object e bs) = from_be bs"
  by (simp_all add: ntohs_def ntohl_def from_be_def swap_from_object)

subsection \<open>Lists\<close>

lemma take_append_prefix [simp]: "n \<le> length xs \<Longrightarrow> take n (xs @ ys) = take n xs"
  by simp

lemma take_drop_append_prefix [simp]:
  "a + k \<le> length d \<Longrightarrow> take k (drop a (d @ x)) = take k (drop a d)"
  by simp

lemma take_drop_append_prefix_le [simp]:
  "a \<le> length d \<Longrightarrow> k \<le> length d - a \<Longrightarrow> take k (drop a (d @ x)) = take k (drop a d)"
  by simp

lemma take_drop_ConsD:
  assumes "take (Suc n) (drop i xs) = y # ys"
  shows "i < length xs" and "xs ! i = y" and "take n (drop (Suc i) xs) = ys"
proof -
  show i: "i < length xs"
    using assms by (cases "i < length xs") auto
  then have "drop i xs = xs ! i # drop (Suc i) xs"
    by (simp add: Cons_nth_drop_Suc)
  then show "xs ! i = y" and "take n (drop (Suc i) xs) = ys"
    using assms by simp_all
qed

lemma takeWhile_no: "\<forall>x \<in> set xs. P x \<Longrightarrow> \<not> P y \<Longrightarrow> takeWhile P (xs @ y # ys) = xs"
  by (induction xs) auto

lemma dropWhile_no: "\<forall>x \<in> set xs. P x \<Longrightarrow> \<not> P y \<Longrightarrow> dropWhile P (xs @ y # ys) = y # ys"
  by (induction xs) auto

subsection \<open>Decimal output\<close>

text \<open>Decimal output of an \<^verbatim>\<open>int\<close> by \<^verbatim>\<open>ostream::operator<<\<close> and \<^verbatim>\<open>printf\<close>.\<close>

fun show_nat :: "nat \<Rightarrow> string" where
  "show_nat n = (if n < 10 then [char_of (48 + n)] else show_nat (n div 10) @ [char_of (48 + n mod 10)])"

declare show_nat.simps [simp del]

definition show_int :: "int \<Rightarrow> string" where
  "show_int i = (if i < 0 then CHR ''-'' # show_nat (nat (- i)) else show_nat (nat i))"

lemma show_nat_length: "n < 10 ^ k \<Longrightarrow> 0 < k \<Longrightarrow> length (show_nat n) \<le> k"
proof (induction n arbitrary: k rule: show_nat.induct)
  case (1 n)
  show ?case
  proof (cases "n < 10")
    case True
    with 1(3) show ?thesis by (subst show_nat.simps) simp
  next
    case False
    with 1(2,3) obtain j where j: "k = Suc j" "0 < j" by (cases k; cases "k - 1") auto
    with 1(2) have "n div 10 < 10 ^ j" by simp
    from 1(1) [OF False this j(2)] False j show ?thesis by (subst show_nat.simps) simp
  qed
qed

end
