(* ===== verification/Tlv_Variant.thy ===== *)
theory Tlv_Variant
  imports Prelude
begin

section \<open>Zigzag and variable-length integers (protocol/src/tlv/variant_encode.cc)\<close>

text \<open>
  The macros \<open>ZIGZAG_ENCODE\<close>, \<open>ZIGZAG_DECODE\<close>, \<open>VARIANT_ENCODE\<close> and \<open>VARIANT_DECODE\<close> are
  definitions over any word length; the functions the file generates from them are their instances
  at 8, 16, 32 and 64 bits. Signed integers are words read by \<^const>\<open>sint\<close>. The macros compute in
  the promoted type of their argument (32 bits for \<^verbatim>\<open>int8_t\<close>, \<^verbatim>\<open>int16_t\<close> and \<^verbatim>\<open>int32_t\<close>, 64 for
  \<^verbatim>\<open>int64_t\<close>): a signed negation or subtraction that overflows there is undefined, and conversions
  to a narrower type wrap. The lemmas show the round trip of both encodings, for which
  arguments zigzag is undefined or wrong, and that the variable-length encoder never writes
  outside the buffer it is given.
\<close>

unbundle bit_operations_syntax

subsection \<open>Zigzag\<close>

text \<open>Signed negation and subtraction in a type of \<open>W\<close> bits.\<close>

definition neg_signed :: "nat \<Rightarrow> int \<Rightarrow> int cpp" where
  "neg_signed W x = (if x = - (2 ^ (W - 1)) then Inl Undefined_behaviour else Inr (- x))"

definition pred_signed :: "nat \<Rightarrow> int \<Rightarrow> int cpp" where
  "pred_signed W x = (if x = - (2 ^ (W - 1)) then Inl Undefined_behaviour else Inr (x - 1))"

definition shl1_signed :: "nat \<Rightarrow> int \<Rightarrow> int" where
  "shl1_signed W x = signed_take_bit (W - 1) (2 * x)"

definition ZIGZAG_ENCODE :: "nat \<Rightarrow> 'a::len word \<Rightarrow> 'a word cpp" where
  "ZIGZAG_ENCODE W v =
     (if 0 \<le> sint v then Inr (word_of_int (shl1_signed W (sint v)))
      else case neg_signed W (sint v) of
             Inl e \<Rightarrow> Inl e
           | Inr m \<Rightarrow> (case pred_signed W (shl1_signed W m) of
                         Inl e \<Rightarrow> Inl e
                       | Inr r \<Rightarrow> Inr (word_of_int r)))"

text \<open>
  The decoder's \<open>v + 1\<close> is computed in \<^verbatim>\<open>int\<close> when \<open>v\<close> is narrower (\<open>promoted\<close>) and wraps in the
  unsigned type otherwise.
\<close>

definition ZIGZAG_DECODE :: "bool \<Rightarrow> nat \<Rightarrow> 'a::len word \<Rightarrow> 'a word cpp" where
  "ZIGZAG_DECODE promoted W v =
     (if v AND 1 \<noteq> 0 then
        (let s = (if promoted then uint v + 1 else (uint v + 1) mod 2 ^ LENGTH('a)) div 2
         in case neg_signed W (signed_take_bit (LENGTH('a) - 1) s) of
              Inl e \<Rightarrow> Inl e
            | Inr r \<Rightarrow> Inr (word_of_int r))
      else Inr (word_of_int (signed_take_bit (LENGTH('a) - 1) (uint v div 2))))"

definition ZigzagEncodeInt8 :: "u8 \<Rightarrow> u8 cpp" where "ZigzagEncodeInt8 v = ZIGZAG_ENCODE 32 v"
definition ZigzagDecodeUint8 :: "u8 \<Rightarrow> u8 cpp" where "ZigzagDecodeUint8 v = ZIGZAG_DECODE True 32 v"
definition ZigzagEncodeInt16 :: "u16 \<Rightarrow> u16 cpp" where "ZigzagEncodeInt16 v = ZIGZAG_ENCODE 32 v"
definition ZigzagDecodeUint16 :: "u16 \<Rightarrow> u16 cpp" where "ZigzagDecodeUint16 v = ZIGZAG_DECODE True 32 v"
definition ZigzagEncodeInt32 :: "u32 \<Rightarrow> u32 cpp" where "ZigzagEncodeInt32 v = ZIGZAG_ENCODE 32 v"
definition ZigzagDecodeUint32 :: "u32 \<Rightarrow> u32 cpp" where "ZigzagDecodeUint32 v = ZIGZAG_DECODE False 32 v"
definition ZigzagEncodeInt64 :: "u64 \<Rightarrow> u64 cpp" where "ZigzagEncodeInt64 v = ZIGZAG_ENCODE 64 v"
definition ZigzagDecodeUint64 :: "u64 \<Rightarrow> u64 cpp" where "ZigzagDecodeUint64 v = ZIGZAG_DECODE False 64 v"

subsection \<open>Variable-length integers\<close>

text \<open>
  \<open>buf\<close> is the memory the caller passes, \<open>len\<close> its claimed length; a store outside \<open>buf\<close> is
  undefined. The results are the count (0: refused) with the new memory, and the decoded value
  (\<open>None\<close>: \<^verbatim>\<open>false\<close>, the caller's variable is untouched).
\<close>

function VARIANT_ENCODE_loop :: "'a::len word \<Rightarrow> bytes \<Rightarrow> nat \<Rightarrow> (nat \<times> bytes) cpp" where
  "VARIANT_ENCODE_loop v buf count =
     (if \<not> count < length buf then Inl Undefined_behaviour
      else if 127 < unat v then
        VARIANT_ENCODE_loop (drop_bit 7 v) (buf[count := (ucast v AND 127) OR 128]) (count + 1)
      else Inr (count + 1, buf[count := ucast v]))"
  by pat_completeness auto
termination
  by (relation "measure (\<lambda>(v, buf, count). length buf - count)") auto

declare VARIANT_ENCODE_loop.simps [simp del]

definition VARIANT_ENCODE :: "nat \<Rightarrow> 'a::len word \<Rightarrow> bytes \<Rightarrow> nat \<Rightarrow> (nat \<times> bytes) cpp" where
  "VARIANT_ENCODE min_len v buf len =
     (if len < min_len then Inr (0, buf) else VARIANT_ENCODE_loop v buf 0)"

function VARIANT_DECODE_loop ::
  "nat \<Rightarrow> bytes \<Rightarrow> nat \<Rightarrow> nat \<Rightarrow> nat \<Rightarrow> 'a::len word \<Rightarrow> 'a word option cpp" where
  "VARIANT_DECODE_loop max_len buf len i shift tmp =
     (if i < max_len \<and> i < len then
        if \<not> i < length buf then Inl Undefined_behaviour
        else
          (let tmp' = tmp OR push_bit shift (ucast (buf ! i AND 127))
           in if buf ! i AND 128 = 0 then Inr (Some tmp')
              else VARIANT_DECODE_loop max_len buf len (i + 1) (shift + 7) tmp')
      else Inr None)"
  by pat_completeness auto
termination
  by (relation "measure (\<lambda>(max_len, buf, len, i, shift, tmp). len - i)") auto

declare VARIANT_DECODE_loop.simps [simp del]

definition VARIANT_DECODE :: "nat \<Rightarrow> bytes \<Rightarrow> nat \<Rightarrow> 'a::len word option cpp" where
  "VARIANT_DECODE max_len buf len = VARIANT_DECODE_loop max_len buf len 0 0 0"

definition BUFLEN_UINT8 :: nat where "BUFLEN_UINT8 = 1 * 8 div 7 + 1"
definition BUFLEN_UINT16 :: nat where "BUFLEN_UINT16 = 2 * 8 div 7 + 1"
definition BUFLEN_UINT32 :: nat where "BUFLEN_UINT32 = 4 * 8 div 7 + 1"
definition BUFLEN_UINT64 :: nat where "BUFLEN_UINT64 = 8 * 8 div 7 + 1"

definition VariantEncodeUint8 :: "u8 \<Rightarrow> bytes \<Rightarrow> nat \<Rightarrow> (nat \<times> bytes) cpp" where
  "VariantEncodeUint8 v buf len = VARIANT_ENCODE BUFLEN_UINT8 v buf len"
definition VariantDecodeUint8 :: "bytes \<Rightarrow> nat \<Rightarrow> u8 option cpp" where
  "VariantDecodeUint8 buf len = VARIANT_DECODE BUFLEN_UINT8 buf len"
definition VariantEncodeUint16 :: "u16 \<Rightarrow> bytes \<Rightarrow> nat \<Rightarrow> (nat \<times> bytes) cpp" where
  "VariantEncodeUint16 v buf len = VARIANT_ENCODE BUFLEN_UINT16 v buf len"
definition VariantDecodeUint16 :: "bytes \<Rightarrow> nat \<Rightarrow> u16 option cpp" where
  "VariantDecodeUint16 buf len = VARIANT_DECODE BUFLEN_UINT16 buf len"
definition VariantEncodeUint32 :: "u32 \<Rightarrow> bytes \<Rightarrow> nat \<Rightarrow> (nat \<times> bytes) cpp" where
  "VariantEncodeUint32 v buf len = VARIANT_ENCODE BUFLEN_UINT32 v buf len"
definition VariantDecodeUint32 :: "bytes \<Rightarrow> nat \<Rightarrow> u32 option cpp" where
  "VariantDecodeUint32 buf len = VARIANT_DECODE BUFLEN_UINT32 buf len"
definition VariantEncodeUint64 :: "u64 \<Rightarrow> bytes \<Rightarrow> nat \<Rightarrow> (nat \<times> bytes) cpp" where
  "VariantEncodeUint64 v buf len = VARIANT_ENCODE BUFLEN_UINT64 v buf len"
definition VariantDecodeUint64 :: "bytes \<Rightarrow> nat \<Rightarrow> u64 option cpp" where
  "VariantDecodeUint64 buf len = VARIANT_DECODE BUFLEN_UINT64 buf len"

lemmas zigzag_defs =
  ZigzagEncodeInt8_def ZigzagDecodeUint8_def ZigzagEncodeInt16_def ZigzagDecodeUint16_def
  ZigzagEncodeInt32_def ZigzagDecodeUint32_def ZigzagEncodeInt64_def ZigzagDecodeUint64_def

lemmas variant_defs =
  VariantEncodeUint8_def VariantDecodeUint8_def VariantEncodeUint16_def VariantDecodeUint16_def
  VariantEncodeUint32_def VariantDecodeUint32_def VariantEncodeUint64_def VariantDecodeUint64_def
  BUFLEN_UINT8_def BUFLEN_UINT16_def BUFLEN_UINT32_def BUFLEN_UINT64_def

subsection \<open>The zigzag map on integers\<close>

definition zigzag :: "int \<Rightarrow> int" where
  "zigzag x = (if 0 \<le> x then 2 * x else - 2 * x - 1)"

lemma zigzag_range:
  assumes "- (2 ^ n) \<le> x" and "x < 2 ^ n"
  shows "0 \<le> zigzag x" and "zigzag x < 2 ^ Suc n"
  using assms by (auto simp: zigzag_def)

lemma word_of_int_signed_take_bit:
  assumes "LENGTH('a::len) \<le> W"
  shows "(word_of_int (signed_take_bit (W - 1) k) :: 'a word) = word_of_int k"
proof (rule bit_word_eqI)
  fix i
  assume "i < LENGTH('a)"
  then have "min i (W - 1) = i" and "i \<noteq> W - 1 \<Longrightarrow> i < W - 1"
    using assms by auto
  then show "bit (word_of_int (signed_take_bit (W - 1) k) :: 'a word) i \<longleftrightarrow> bit (word_of_int k :: 'a word) i"
    by (simp add: bit_word_of_int_iff bit_signed_take_bit_iff)
qed

lemma word_of_int_signed_take_bit_pred:
  assumes "LENGTH('a::len) \<le> W"
  shows "(word_of_int (signed_take_bit (W - 1) k - 1) :: 'a word) = word_of_int (k - 1)"
  using word_of_int_signed_take_bit [OF assms, of k]
  by (simp only: of_int_diff)

text \<open>Where the encoder is defined it computes the zigzag map.\<close>

lemma ZIGZAG_ENCODE_eq:
  fixes v :: "'a::len word"
  assumes "LENGTH('a) \<le> W"
    and "sint v < 0 \<Longrightarrow> sint v \<noteq> - (2 ^ (W - 1))"
    and "sint v < 0 \<Longrightarrow> shl1_signed W (- sint v) \<noteq> - (2 ^ (W - 1))"
  shows "ZIGZAG_ENCODE W v = Inr (word_of_int (zigzag (sint v)))"
proof (cases "0 \<le> sint v")
  case True
  then show ?thesis
    using word_of_int_signed_take_bit [OF assms(1), of "2 * sint v"]
    by (simp add: ZIGZAG_ENCODE_def zigzag_def shl1_signed_def)
next
  case False
  then have neg: "sint v < 0" by simp
  have "(word_of_int (shl1_signed W (- sint v) - 1) :: 'a word) = word_of_int (2 * (- sint v) - 1)"
    unfolding shl1_signed_def by (rule word_of_int_signed_take_bit_pred [OF assms(1)])
  then show ?thesis
    using neg assms(2,3)
    by (simp add: ZIGZAG_ENCODE_def neg_signed_def pred_signed_def zigzag_def)
qed

lemma sint_range:
  "- (2 ^ (LENGTH('a) - 1)) \<le> sint (v :: 'a::len word)" "sint (v :: 'a::len word) < 2 ^ (LENGTH('a) - 1)"
  using sint_ge [of v] sint_lt [of v] by auto

lemma uint_zigzag:
  "uint (word_of_int (zigzag (sint v)) :: 'a::len word) = zigzag (sint (v :: 'a word))"
proof -
  have "0 \<le> zigzag (sint v)" "zigzag (sint v) < 2 ^ LENGTH('a)"
    using zigzag_range [OF sint_range [of v]] by simp_all
  then show ?thesis
    by (simp add: uint_word_of_int)
qed

lemma odd_zigzag: "odd (zigzag x) \<longleftrightarrow> x < 0"
  by (auto simp: zigzag_def)

lemma and_1_eq_odd: "(v AND 1 \<noteq> (0 :: 'a::len word)) \<longleftrightarrow> odd (uint v)"
proof -
  have "v AND 1 \<noteq> 0 \<longleftrightarrow> bit v 0"
    by (simp add: and_one_eq bit_0 mod2_eq_if)
  also have "\<dots> \<longleftrightarrow> bit (uint v) 0"
    by (simp add: bit_uint_iff)
  finally show ?thesis
    by (simp add: bit_0)
qed

lemma sint_word_of_int_signed_take_bit:
  "- (2 ^ (n - 1)) \<le> (k :: int) \<Longrightarrow> k < 2 ^ (n - 1) \<Longrightarrow> signed_take_bit (n - 1) k = k"
  by (simp add: signed_take_bit_int_eq_self_iff)

lemma word_of_int_neg_signed_take_bit:
  "(word_of_int (- signed_take_bit (LENGTH('a::len) - 1) k) :: 'a word) = word_of_int (- k)"
  using word_of_int_signed_take_bit [where ?'a = 'a and W = "LENGTH('a)" and k = k]
  by (simp only: of_int_minus)

lemma ZIGZAG_DECODE_odd:
  fixes w :: "'a::len word"
  assumes "odd (uint w)"
    and "(if promoted then uint w + 1 else (uint w + 1) mod 2 ^ LENGTH('a)) div 2 = s"
    and "signed_take_bit (LENGTH('a) - 1) s \<noteq> - (2 ^ (W - 1))"
  shows "ZIGZAG_DECODE promoted W w = Inr (word_of_int (- s))"
  unfolding ZIGZAG_DECODE_def and_1_eq_odd assms(2) Let_def neg_signed_def
  using assms(1,3) word_of_int_neg_signed_take_bit [where ?'a = 'a and k = s] by simp

lemma ZIGZAG_DECODE_zigzag:
  fixes v :: "'a::len word"
  assumes "if promoted then LENGTH('a) < W
           else W = LENGTH('a) \<and> zigzag (sint v) + 1 < 2 ^ LENGTH('a)"
  shows "ZIGZAG_DECODE promoted W (word_of_int (zigzag (sint v)) :: 'a word) = Inr v"
proof (cases "sint v < 0")
  case False
  define w where "w = (word_of_int (zigzag (sint v)) :: 'a word)"
  have "uint w = 2 * sint v"
    using False uint_zigzag [of v] by (simp add: w_def zigzag_def)
  then have "ZIGZAG_DECODE promoted W w = Inr v"
    using word_of_int_signed_take_bit [where ?'a = 'a and W = "LENGTH('a)" and k = "sint v"]
    by (simp add: ZIGZAG_DECODE_def and_1_eq_odd)
  then show ?thesis by (simp add: w_def)
next
  case True
  define N where "N = LENGTH('a)"
  have N: "0 < N" by (simp add: N_def)
  have s: "(if promoted then zigzag (sint v) + 1 else (zigzag (sint v) + 1) mod 2 ^ N) div 2 = - sint v"
    using assms True by (auto simp: zigzag_def N_def split: if_splits)
  have "signed_take_bit (N - 1) (- sint v) \<noteq> - (2 ^ (W - 1))"
  proof (cases promoted)
    case True
    then have "(2 :: int) ^ (N - 1) < 2 ^ (W - 1)"
      using assms N by (intro power_strict_increasing) (auto simp: N_def)
    then show ?thesis
      using signed_take_bit_int_greater_eq_minus_exp [of "N - 1" "- sint v"] by linarith
  next
    case False
    then have "- sint v < 2 ^ (N - 1)"
      using assms True N by (auto simp: zigzag_def N_def power_eq_if)
    then have "signed_take_bit (N - 1) (- sint v) = - sint v"
      using True by (intro sint_word_of_int_signed_take_bit) (auto intro: order_trans [of _ 0])
    then show ?thesis
      using True by (metis neg_le_0_iff_le not_less zero_le_numeral zero_le_power neg_0_le_iff_le)
  qed
  then have "ZIGZAG_DECODE promoted W (word_of_int (zigzag (sint v)) :: 'a word)
               = Inr (word_of_int (- (- sint v)))"
    using True s by (intro ZIGZAG_DECODE_odd) (simp_all only: uint_zigzag odd_zigzag N_def simp_thms not_False_eq_True)
  then show ?thesis by simp
qed

lemma ZIGZAG_ENCODE_narrow:
  fixes v :: "'a::len word"
  assumes "LENGTH('a) + 1 < W"
  shows "ZIGZAG_ENCODE W v = Inr (word_of_int (zigzag (sint v)))"
proof (rule ZIGZAG_ENCODE_eq)
  show "LENGTH('a) \<le> W" using assms by simp
  have lt: "(2 :: int) ^ LENGTH('a) < 2 ^ (W - 1)"
    using assms by (intro power_strict_increasing) auto
  have half: "(2 :: int) ^ LENGTH('a) = 2 * 2 ^ (LENGTH('a) - 1)"
    by (simp flip: power_Suc)
  show "sint v \<noteq> - (2 ^ (W - 1))"
    using sint_range [of v] lt half by (smt (verit) zero_less_power)
  assume neg: "sint v < 0"
  have "2 * (- sint v) < 2 ^ (W - 1)"
    using sint_range [of v] lt half by linarith
  then have "shl1_signed W (- sint v) = 2 * (- sint v)"
    unfolding shl1_signed_def
    using neg by (intro sint_word_of_int_signed_take_bit) (auto intro: order_trans [of _ 0])
  then show "shl1_signed W (- sint v) \<noteq> - (2 ^ (W - 1))"
    using neg by (smt (verit) zero_less_power)
qed

lemma shl1_signed_eq_min_iff:
  assumes "1 < W" and "0 < m" and "m < 2 ^ (W - 1)"
  shows "shl1_signed W m = - (2 ^ (W - 1)) \<longleftrightarrow> m = 2 ^ (W - 2)"
proof -
  obtain n where W: "W = Suc (Suc n)" using assms(1) by (cases W; cases "W - 1") auto
  define p :: int where "p = 2 ^ n"
  have p: "0 < p" by (simp add: p_def)
  have "m = p" if dvd: "4 * p dvd 2 * m + 2 * p"
  proof -
    obtain k where k: "2 * m + 2 * p = 4 * p * k" using dvd by (auto elim: dvdE)
    have "m < 2 * p" using assms(3) by (simp add: W p_def)
    then have "0 < p * k" and "p * k < p * 2"
      using k p assms(2) by linarith+
    then have "0 < k" and "k < 2"
      using p by (simp_all only: zero_less_mult_iff mult_less_cancel_left_pos) simp
    then have "k = 1" by simp
    then show ?thesis using k by simp
  qed
  then show ?thesis
    using assms(2,3)
    by (auto simp: shl1_signed_def W signed_take_bit_eq_take_bit_shift take_bit_eq_mod p_def)
qed

subsection \<open>The byte sequence of a variable-length integer\<close>

text \<open>The encoding as a pure function of the value: seven bits per byte, lowest first.\<close>

lemma unat_drop_bit_7: "unat (drop_bit 7 v) = unat (v :: 'a::len word) div 128"
proof -
  have "unat (drop_bit 7 v) = drop_bit 7 (unat v)"
    by (rule unat_drop_bit_eq)
  also have "\<dots> = unat v div 128"
    by (simp add: drop_bit_eq_div)
  finally show ?thesis .
qed

function varint :: "'a::len word \<Rightarrow> bytes" where
  "varint v = (if 127 < unat v then ((ucast v AND 127) OR 128) # varint (drop_bit 7 v) else [ucast v])"
  by pat_completeness auto
termination
  by (relation "measure unat") (simp_all add: unat_drop_bit_7)

declare varint.simps [simp del]

lemma varint_not_Nil [simp]: "varint v \<noteq> []"
  by (subst varint.simps) simp

lemma length_varint_pos: "0 < length (varint v)"
  by simp

lemma length_varint_le: "unat v < 128 ^ k \<Longrightarrow> 0 < k \<Longrightarrow> length (varint v) \<le> k"
proof (induction k arbitrary: v)
  case 0
  then show ?case by simp
next
  case (Suc k)
  show ?case
  proof (cases "127 < unat v")
    case True
    have "0 < k"
      using True Suc.prems(1) by (cases k) auto
    moreover have "unat (drop_bit 7 v) < 128 ^ k"
      using Suc.prems(1) by (simp add: unat_drop_bit_7 less_mult_imp_div_less mult.commute)
    ultimately have "length (varint (drop_bit 7 v)) \<le> k" by (intro Suc.IH)
    then show ?thesis by (subst varint.simps) simp
  next
    case False
    then show ?thesis by (subst varint.simps) simp
  qed
qed

lemma VARIANT_ENCODE_loop_eq:
  "count + length (varint v) \<le> length buf \<Longrightarrow>
   VARIANT_ENCODE_loop v buf count =
     Inr (count + length (varint v), take count buf @ varint v @ drop (count + length (varint v)) buf)"
proof (induction v arbitrary: buf count rule: varint.induct)
  case (1 v)
  have lt: "count < length buf"
    using 1(2) length_varint_pos [of v] by linarith
  show ?case
  proof (cases "127 < unat v")
    case True
    define b :: u8 where "b = (ucast v AND 127) OR 128"
    have v: "varint v = b # varint (drop_bit 7 v)"
      using True by (subst varint.simps) (simp add: b_def)
    have "VARIANT_ENCODE_loop v buf count = VARIANT_ENCODE_loop (drop_bit 7 v) (buf[count := b]) (count + 1)"
      using lt True by (subst VARIANT_ENCODE_loop.simps) (simp add: b_def)
    also have "\<dots> = Inr (count + 1 + length (varint (drop_bit 7 v)),
        take (count + 1) (buf[count := b]) @ varint (drop_bit 7 v) @
        drop (count + 1 + length (varint (drop_bit 7 v))) (buf[count := b]))"
      using 1(2) v by (intro 1(1) True) simp
    finally show ?thesis
      using lt by (simp add: v take_Suc_conv_app_nth)
  next
    case False
    then have v: "varint v = [ucast v]" by (subst varint.simps) simp
    show ?thesis
      using lt False by (subst VARIANT_ENCODE_loop.simps) (simp add: v upd_conv_take_nth_drop)
  qed
qed

lemma mask_7: "(127 :: 'a::len word) = mask 7"
  by (simp add: mask_eq_exp_minus_1)

lemma bit_128: "bit (128 :: 'a::len word) n \<longleftrightarrow> n = 7 \<and> 7 < LENGTH('a)"
proof -
  have "(128 :: 'a word) = 2 ^ 7" by simp
  then show ?thesis by (simp only: bit_exp_iff) auto
qed

lemma varint_more_byte:
  fixes v :: "'a::len word"
  assumes "8 \<le> LENGTH('a)"
  shows "ucast (((ucast v AND 127) OR 128 :: u8) AND 127) = take_bit 7 v"
    and "((ucast v AND 127) OR 128 :: u8) AND 128 \<noteq> 0"
proof -
  define B :: u8 where "B = (ucast v AND 127) OR 128"
  have B: "bit B n \<longleftrightarrow> n = 7 \<or> n < 7 \<and> bit v n" for n
    unfolding B_def using assms
    by (auto simp only: bit_or_iff bit_and_iff bit_128 mask_7 bit_mask_iff bit_ucast_iff; simp)
  show "ucast (((ucast v AND 127) OR 128 :: u8) AND 127) = take_bit 7 v"
    unfolding B_def [symmetric] using assms
    by (intro bit_word_eqI) (auto simp: mask_7 bit_ucast_iff bit_and_iff B bit_take_bit_iff bit_mask_iff)
  have "bit (B AND 128) 7"
    by (simp add: bit_and_iff B bit_128)
  then show "((ucast v AND 127) OR 128 :: u8) AND 128 \<noteq> 0"
    unfolding B_def by auto
qed

lemma varint_last_byte:
  fixes v :: "'a::len word"
  assumes "8 \<le> LENGTH('a)" and "\<not> 127 < unat v"
  shows "ucast ((ucast v :: u8) AND 127) = v"
    and "(ucast v :: u8) AND 128 = 0"
proof -
  have "unat (take_bit 7 v) = take_bit 7 (unat v)"
    by (rule unsigned_take_bit_eq)
  also have "\<dots> = unat v"
    using assms(2) by (simp add: take_bit_eq_mod)
  finally have "unat (take_bit 7 v) = unat v" .
  then have "take_bit 7 v = v" by (simp only: word_unat_eq_iff)
  then have bits: "\<And>n. bit v n \<Longrightarrow> n < 7"
    by (metis bit_take_bit_iff)
  show "ucast ((ucast v :: u8) AND 127) = v"
    using assms(1)
    by (intro bit_word_eqI) (auto simp: mask_7 bit_ucast_iff bit_and_iff bit_mask_iff dest: bits)
  show "(ucast v :: u8) AND 128 = 0"
    by (intro bit_word_eqI)
       (auto simp: bit_ucast_iff bit_and_iff bit_128 simp del: bit_numeral_word_iff dest: bits)
qed

lemma push_bit_split_7:
  "(tmp OR push_bit s (take_bit 7 v)) OR push_bit (s + 7) (drop_bit 7 v) = tmp OR push_bit s (v :: 'a::len word)"
proof (rule bit_word_eqI)
  fix n
  assume "n < LENGTH('a)"
  then show "bit ((tmp OR push_bit s (take_bit 7 v)) OR push_bit (s + 7) (drop_bit 7 v)) n
        \<longleftrightarrow> bit (tmp OR push_bit s v) n"
    by (cases "n - s < 7")
       (auto simp: bit_or_iff bit_push_bit_iff bit_take_bit_iff bit_drop_bit_eq le_diff_conv2
          intro: Nat.diff_diff_eq)
qed

lemma VARIANT_DECODE_loop_varint:
  fixes v tmp :: "'a::len word"
  assumes "8 \<le> LENGTH('a)"
  shows "take (length (varint v)) (drop i buf) = varint v \<Longrightarrow> i + length (varint v) \<le> max_len \<Longrightarrow>
         i + length (varint v) \<le> len \<Longrightarrow>
         VARIANT_DECODE_loop max_len buf len i shift tmp = Inr (Some (tmp OR push_bit shift v))"
proof (induction v arbitrary: i shift tmp rule: varint.induct)
  case (1 v)
  obtain b bs where bs: "varint v = b # bs"
    by (cases "varint v") auto
  have "take (Suc (length bs)) (drop i buf) = b # bs"
    using 1(2) by (simp add: bs)
  note d = take_drop_ConsD [OF this]
  have len_i: "i < length buf" and b: "buf ! i = b" and "take (length bs) (drop (i + 1) buf) = bs"
    using d by simp_all
  have i: "i < max_len" "i < len"
    using 1(3,4) bs by auto
  show ?case
  proof (cases "127 < unat v")
    case True
    then have vb: "b = (ucast v AND 127) OR 128" "bs = varint (drop_bit 7 v)"
      using bs by (subst (asm) varint.simps, simp)+
    have "VARIANT_DECODE_loop max_len buf len i shift tmp
        = VARIANT_DECODE_loop max_len buf len (i + 1) (shift + 7) (tmp OR push_bit shift (take_bit 7 v))"
      using i len_i varint_more_byte [OF assms, of v]
      by (subst VARIANT_DECODE_loop.simps) (simp add: b vb(1) Let_def)
    also have "\<dots> = Inr (Some ((tmp OR push_bit shift (take_bit 7 v)) OR push_bit (shift + 7) (drop_bit 7 v)))"
      using 1(3,4) \<open>take (length bs) (drop (i + 1) buf) = bs\<close> bs by (intro 1(1) True) (simp_all add: vb(2))
    finally show ?thesis
      by (simp only: push_bit_split_7)
  next
    case False
    then have vb: "b = ucast v" "bs = []"
      using bs by (subst (asm) varint.simps, simp)+
    show ?thesis
      using i len_i varint_last_byte [OF assms False]
      by (subst VARIANT_DECODE_loop.simps) (simp add: b vb(1) Let_def)
  qed
qed

lemma VARIANT_DECODE_loop_truncated:
  fixes v tmp :: "'a::len word"
  assumes "8 \<le> LENGTH('a)"
  shows "take (length (varint v)) (drop i buf) = varint v \<Longrightarrow> len < i + length (varint v) \<Longrightarrow>
         VARIANT_DECODE_loop max_len buf len i shift tmp = Inr None"
proof (induction v arbitrary: i shift tmp rule: varint.induct)
  case (1 v)
  obtain b bs where bs: "varint v = b # bs"
    by (cases "varint v") auto
  have "take (Suc (length bs)) (drop i buf) = b # bs"
    using 1(2) by (simp add: bs)
  note d = take_drop_ConsD [OF this]
  show ?case
  proof (cases "i < max_len \<and> i < len")
    case False
    then show ?thesis by (subst VARIANT_DECODE_loop.simps) auto
  next
    case True
    then have "bs \<noteq> []" using 1(3) bs by auto
    then have big: "127 < unat v"
      using bs by (subst (asm) varint.simps) (simp split: if_splits)
    then have vb: "b = (ucast v AND 127) OR 128" "bs = varint (drop_bit 7 v)"
      using bs by (subst (asm) varint.simps, simp)+
    have "VARIANT_DECODE_loop max_len buf len i shift tmp
        = VARIANT_DECODE_loop max_len buf len (i + 1) (shift + 7) (tmp OR push_bit shift (take_bit 7 v))"
      using True d(1,2) varint_more_byte [OF assms, of v]
      by (subst VARIANT_DECODE_loop.simps) (simp add: vb(1) Let_def)
    also have "\<dots> = Inr None"
      using 1(3) d(3) bs by (intro 1(1) big) (simp_all add: vb(2))
    finally show ?thesis .
  qed
qed

text \<open>
  What an encoder/decoder pair with buffer length \<open>K\<close> promises for a value and a buffer: a buffer
  shorter than \<open>K\<close> is refused and untouched; otherwise between 1 and \<open>K\<close> bytes are written, the
  rest of the buffer keeps its contents, and decoding any prefix of the result gives the value back
  if the prefix holds the whole encoding and \<^verbatim>\<open>false\<close> if it was cut short.
\<close>

definition variant_codec_ok ::
  "('w \<Rightarrow> bytes \<Rightarrow> nat \<Rightarrow> (nat \<times> bytes) cpp) \<Rightarrow> (bytes \<Rightarrow> nat \<Rightarrow> 'w option cpp) \<Rightarrow> nat \<Rightarrow>
   'w \<Rightarrow> bytes \<Rightarrow> bool" where
  "variant_codec_ok enc dec K v buf \<longleftrightarrow>
     (case enc v buf (length buf) of
        Inl e \<Rightarrow> False
      | Inr (n, buf') \<Rightarrow>
          if length buf < K then n = 0 \<and> buf' = buf
          else 0 < n \<and> n \<le> K \<and> length buf' = length buf \<and> drop n buf' = drop n buf \<and>
               (\<forall>m. dec buf' m = Inr (if n \<le> m then Some v else None)))"

lemma VARIANT_codec:
  fixes v :: "'a::len word"
  assumes "8 \<le> LENGTH('a)" and K: "LENGTH('a) \<le> 7 * K"
  shows "variant_codec_ok (VARIANT_ENCODE K) (VARIANT_DECODE K) K v buf"
proof (cases "length buf < K")
  case True
  then show ?thesis by (simp add: variant_codec_ok_def VARIANT_ENCODE_def)
next
  case False
  have "unat v < 2 ^ LENGTH('a)" by (rule unsigned_less)
  also have "\<dots> \<le> 2 ^ (7 * K)" using K by (intro power_increasing) auto
  also have "\<dots> = 128 ^ K" by (simp add: power_mult)
  finally have n: "length (varint v) \<le> K"
    using assms by (intro length_varint_le) (auto intro: Suc_leI)
  define n where "n = length (varint v)"
  define buf' where "buf' = varint v @ drop n buf"
  have enc: "VARIANT_ENCODE K v buf (length buf) = Inr (n, buf')"
    using False n VARIANT_ENCODE_loop_eq [of 0 v buf]
    by (simp add: VARIANT_ENCODE_def n_def buf'_def)
  have "VARIANT_DECODE K buf' m = Inr (if n \<le> m then Some v else None)" for m
    using VARIANT_DECODE_loop_varint [OF assms(1), of v 0 buf' K m 0 0]
      VARIANT_DECODE_loop_truncated [OF assms(1), of v 0 buf' m K 0 0] n
    by (simp add: VARIANT_DECODE_def n_def buf'_def)
  then show ?thesis
    using False n length_varint_pos [of v]
    by (simp add: variant_codec_ok_def enc) (simp add: n_def buf'_def)
qed

lemma variant_instances:
  "VariantEncodeUint8 = VARIANT_ENCODE BUFLEN_UINT8" "VariantDecodeUint8 = VARIANT_DECODE BUFLEN_UINT8"
  "VariantEncodeUint16 = VARIANT_ENCODE BUFLEN_UINT16" "VariantDecodeUint16 = VARIANT_DECODE BUFLEN_UINT16"
  "VariantEncodeUint32 = VARIANT_ENCODE BUFLEN_UINT32" "VariantDecodeUint32 = VARIANT_DECODE BUFLEN_UINT32"
  "VariantEncodeUint64 = VARIANT_ENCODE BUFLEN_UINT64" "VariantDecodeUint64 = VARIANT_DECODE BUFLEN_UINT64"
  by (simp_all add: fun_eq_iff variant_defs)

lemma BUFLEN_values:
  "BUFLEN_UINT8 = 2" "BUFLEN_UINT16 = 3" "BUFLEN_UINT32 = 5" "BUFLEN_UINT64 = 10"
  by (simp_all add: variant_defs)

subsection \<open>Properties\<close>

text \<open>C33: for every value of each width and every buffer, the variable-length encoder refuses a buffer
  shorter than its \<open>BUFLEN\<close> constant and otherwise writes at most that many bytes, never outside
  the buffer; the decoder returns the value on every prefix that holds the encoding and reports
  failure on every shorter prefix.
\<close>
theorem variant_roundtrip:
  "variant_codec_ok VariantEncodeUint8 VariantDecodeUint8 BUFLEN_UINT8 a buf \<and>
   variant_codec_ok VariantEncodeUint16 VariantDecodeUint16 BUFLEN_UINT16 b buf \<and>
   variant_codec_ok VariantEncodeUint32 VariantDecodeUint32 BUFLEN_UINT32 c buf \<and>
   variant_codec_ok VariantEncodeUint64 VariantDecodeUint64 BUFLEN_UINT64 d buf"
  by (simp add: variant_instances VARIANT_codec BUFLEN_values)

text \<open>8- and 16-bit zigzag is defined and exact on every value: decoding the encoding of any
  \<^verbatim>\<open>int8_t\<close> or \<^verbatim>\<open>int16_t\<close>, the minima included, gives it back (the computation happens in \<^verbatim>\<open>int\<close>).
\<close>
lemma zigzag_roundtrip_narrow:
  "cpp_bind (ZigzagEncodeInt8 a) ZigzagDecodeUint8 = Inr a \<and>
   cpp_bind (ZigzagEncodeInt16 b) ZigzagDecodeUint16 = Inr b"
  using ZIGZAG_DECODE_zigzag [of True 32 a] ZIGZAG_DECODE_zigzag [of True 32 b]
  by (simp add: zigzag_defs ZIGZAG_ENCODE_narrow)

lemma ZIGZAG_ENCODE_wide:
  fixes v :: "'a::len word"
  assumes "W = LENGTH('a)" and "1 < W"
  shows "ZIGZAG_ENCODE W v =
    (if sint v = - (2 ^ (W - 1)) \<or> sint v = - (2 ^ (W - 2)) then Inl Undefined_behaviour
     else Inr (word_of_int (zigzag (sint v))))"
proof (cases "sint v = - (2 ^ (W - 1)) \<or> sint v = - (2 ^ (W - 2))")
  case True
  have neg: "sint v < 0" using True by (auto simp: not_le [symmetric] intro: order_trans)
  show ?thesis
  proof (cases "sint v = - (2 ^ (W - 1))")
    case True
    then show ?thesis using neg by (simp add: ZIGZAG_ENCODE_def neg_signed_def)
  next
    case False
    then have v: "sint v = - (2 ^ (W - 2))" using \<open>_ \<or> _\<close> by blast
    have "(2 :: int) ^ (W - 2) < 2 ^ (W - 1)"
      using assms by (intro power_strict_increasing) auto
    then have "shl1_signed W (- sint v) = - (2 ^ (W - 1))"
      using shl1_signed_eq_min_iff [of W "- sint v"] assms(2) v by simp
    then show ?thesis
      using neg False v by (simp add: ZIGZAG_ENCODE_def neg_signed_def pred_signed_def)
  qed
next
  case False
  have "shl1_signed W (- sint v) \<noteq> - (2 ^ (W - 1))" if "sint v < 0"
    using shl1_signed_eq_min_iff [of W "- sint v"] sint_range [of v] that False assms by auto
  then show ?thesis
    using False assms by (simp add: ZIGZAG_ENCODE_eq)
qed

text \<open>32- and 64-bit zigzag round-trips every value except the two on which the encoder's signed
  arithmetic overflows, the minimum and a half of it; on exactly these the call is undefined.
\<close>
lemma zigzag_roundtrip_wide:
  "cpp_bind (ZigzagEncodeInt32 a) ZigzagDecodeUint32 =
     (if sint a = - (2 ^ 31) \<or> sint a = - (2 ^ 30) then Inl Undefined_behaviour else Inr a) \<and>
   cpp_bind (ZigzagEncodeInt64 b) ZigzagDecodeUint64 =
     (if sint b = - (2 ^ 63) \<or> sint b = - (2 ^ 62) then Inl Undefined_behaviour else Inr b)"
proof -
  have "zigzag (sint a) + 1 < 2 ^ 32" if "sint a \<noteq> - (2 ^ 31)"
    using sint_range [of a] that by (simp add: zigzag_def)
  moreover have "zigzag (sint b) + 1 < 2 ^ 64" if "sint b \<noteq> - (2 ^ 63)"
    using sint_range [of b] that by (simp add: zigzag_def)
  ultimately show ?thesis
    using ZIGZAG_DECODE_zigzag [of False 32 a] ZIGZAG_DECODE_zigzag [of False 64 b]
    by (simp add: zigzag_defs ZIGZAG_ENCODE_wide)
qed

text \<open>Decoding undoes zigzag encoding at every width. 8- and 16-bit integers, computed in \<^verbatim>\<open>int\<close>, come back on
  every value; 32- and 64-bit ones on every value but two, the minimum and a half of it, on which the encoder's signed arithmetic
  overflows and the call is undefined.\<close>

lemma zigzag_roundtrip:
  "cpp_bind (ZigzagEncodeInt8 a) ZigzagDecodeUint8 = Inr a \<and>
   cpp_bind (ZigzagEncodeInt16 b) ZigzagDecodeUint16 = Inr b \<and>
   cpp_bind (ZigzagEncodeInt32 c) ZigzagDecodeUint32 =
     (if sint c = - (2 ^ 31) \<or> sint c = - (2 ^ 30) then Inl Undefined_behaviour else Inr c) \<and>
   cpp_bind (ZigzagEncodeInt64 d) ZigzagDecodeUint64 =
     (if sint d = - (2 ^ 63) \<or> sint d = - (2 ^ 62) then Inl Undefined_behaviour else Inr d)"
  using zigzag_roundtrip_narrow zigzag_roundtrip_wide by blast

lemma ZIGZAG_DECODE_misses_min:
  fixes w :: "'a::len word"
  assumes "1 < LENGTH('a)"
  shows "ZIGZAG_DECODE False LENGTH('a) w \<noteq> Inr (word_of_int (- (2 ^ (LENGTH('a) - 1))))"
proof -
  define N where "N = LENGTH('a)"
  have N: "(2 :: int) ^ N = 2 * 2 ^ (N - 1)"
    using assms by (simp add: N_def flip: power_Suc)
  have no_min: "(word_of_int k :: 'a word) \<noteq> word_of_int (- (2 ^ (N - 1)))"
    if "- (2 ^ (N - 1)) < k" and "k < 2 ^ (N - 1)" for k
  proof
    assume "(word_of_int k :: 'a word) = word_of_int (- (2 ^ (N - 1)))"
    then have "signed_take_bit (N - 1) k = signed_take_bit (N - 1) (- (2 ^ (N - 1)))"
      by (metis N_def One_nat_def sint_sbintrunc')
    then show False
      using that by (simp add: signed_take_bit_int_eq_self)
  qed
  have range: "0 \<le> uint w" "uint w < 2 ^ N"
    by (simp_all add: N_def)
  show ?thesis
  proof (cases "odd (uint w)")
    case True
    define s where "s = (uint w + 1) mod 2 ^ N div 2"
    have "uint w + 1 = 2 ^ N \<or> uint w + 1 < 2 ^ N" using range by linarith
    then have s: "0 \<le> s" "s < 2 ^ (N - 1)"
      using range N by (auto simp: s_def)
    then have t: "signed_take_bit (N - 1) s = s"
      by (intro sint_word_of_int_signed_take_bit) (auto intro: order_trans [of _ 0])
    have "ZIGZAG_DECODE False N w = Inr (word_of_int (- s))"
    proof -
      have ne: "signed_take_bit (N - 1) s \<noteq> - (2 ^ (N - 1))"
        using s(1) t by (smt (verit) zero_less_power)
      show ?thesis
        using ZIGZAG_DECODE_odd [OF True, of False s N] ne by (simp add: s_def N_def)
    qed
    then show ?thesis
      using no_min [of "- s"] s by (simp add: N_def)
  next
    case False
    have "uint w div 2 < 2 ^ (N - 1)" "0 \<le> uint w div 2" using range N by auto
    moreover from this have "signed_take_bit (N - 1) (uint w div 2) = uint w div 2"
      by (intro sint_word_of_int_signed_take_bit) (auto intro: order_trans [of _ 0])
    moreover have "- (2 ^ (N - 1)) < uint w div 2"
      using range(1) by (smt (verit) zero_less_power pos_imp_zdiv_nonneg_iff)
    ultimately show ?thesis
      using False no_min [of "uint w div 2"]
      by (simp add: ZIGZAG_DECODE_def and_1_eq_odd N_def)
  qed
qed

text \<open>The 32- and 64-bit zigzag decoders never return the minimum of the signed type: its code, the
  largest one, decodes to 0, because \<open>v + 1\<close> wraps in the unsigned type before it is halved. The
  8- and 16-bit decoders, which compute in \<^verbatim>\<open>int\<close>, do return the minimum for it.
\<close>
lemma zigzag_decode_minimum:
  "ZigzagDecodeUint32 u \<noteq> Inr (word_of_int (- (2 ^ 31))) \<and> ZigzagDecodeUint32 0xFFFFFFFF = Inr 0 \<and>
   ZigzagDecodeUint64 w \<noteq> Inr (word_of_int (- (2 ^ 63))) \<and> ZigzagDecodeUint64 0xFFFFFFFFFFFFFFFF = Inr 0 \<and>
   ZigzagDecodeUint8 0xFF = Inr (word_of_int (- (2 ^ 7))) \<and>
   ZigzagDecodeUint16 0xFFFF = Inr (word_of_int (- (2 ^ 15)))"
proof -
  have "ZigzagDecodeUint32 u \<noteq> Inr (word_of_int (- (2 ^ 31)))"
    "ZigzagDecodeUint64 w \<noteq> Inr (word_of_int (- (2 ^ 63)))"
    using ZIGZAG_DECODE_misses_min [of u] ZIGZAG_DECODE_misses_min [of w]
    by (simp_all only: zigzag_defs) simp_all
  then show ?thesis
    by (simp add: zigzag_defs) (simp add: ZIGZAG_DECODE_def neg_signed_def Let_def)
qed

end
