(* ===== verification/Parser_Contract.thy ===== *)
theory Parser_Contract
  imports Prelude
begin

section \<open>The contract of the incremental parsers\<close>

text \<open>
  \<^verbatim>\<open>http::Parser\<close> and \<^verbatim>\<open>tlv::Parser\<close> share an interface: \<open>parse(data, len, msg)\<close> is called with
  everything received so far, remembers in the parser object how much of it has been consumed
  (\<open>nparse()\<close>) and answers \<open>READY\<close>, \<open>WAITING_DATA\<close> or \<open>ERROR\<close>; after \<open>WAITING_DATA\<close> the caller
  appends what arrives next and calls again. The locale states what a caller relies on, \<open>feed\<close> is
  the caller's loop, and the lemmas of the locale show that the way the network cuts the data
  into pieces does not matter. The theories of the two parsers interpret it.
\<close>

datatype RetCode = READY | WAITING_DATA | ERROR

text \<open>
  The caller's loop: each piece is appended to the receive buffer and the whole buffer is parsed
  again, until the parser answers something else than \<open>WAITING_DATA\<close>.
\<close>

fun feed ::
  "('p \<Rightarrow> 'c list \<Rightarrow> 'm \<Rightarrow> (RetCode \<times> 'p \<times> 'm) cpp) \<Rightarrow> 'p \<Rightarrow> 'c list \<Rightarrow> 'm \<Rightarrow> 'c list list \<Rightarrow>
   (RetCode \<times> 'p \<times> 'm) cpp" where
  "feed parse p buf m [] = Inr (WAITING_DATA, p, m)"
| "feed parse p buf m (c # cs) =
     cpp_bind (parse p (buf @ c) m)
       (\<lambda>(r, p', m'). if r = WAITING_DATA then feed parse p' (buf @ c) m' cs else Inr (r, p', m'))"

text \<open>
  Two calls give the same answer when their results are equal; after \<open>ERROR\<close> the parser objects, which are
  of no further use before \<^verbatim>\<open>reset()\<close>, may differ as far as \<open>eqv\<close> allows.
\<close>

definition same_answer :: "('p \<Rightarrow> 'p \<Rightarrow> bool) \<Rightarrow> (RetCode \<times> 'p \<times> 'm) cpp \<Rightarrow> (RetCode \<times> 'p \<times> 'm) cpp \<Rightarrow> bool" where
  "same_answer eqv a b \<longleftrightarrow>
     a = b \<or> (\<exists>p q m. a = Inr (ERROR, p, m) \<and> b = Inr (ERROR, q, m) \<and> eqv p q)"

lemma same_answer_refl [simp]: "same_answer eqv a a"
  by (simp add: same_answer_def)

lemma same_answer_eq [simp]: "same_answer (=) a b \<longleftrightarrow> a = b"
  by (auto simp: same_answer_def)

lemma same_answer_InrD:
  "same_answer eqv (Inr (r, p, m)) b \<Longrightarrow> \<exists>q. b = Inr (r, q, m) \<and> (p = q \<or> r = ERROR \<and> eqv p q)"
  by (auto simp: same_answer_def)

lemma same_answer_trans:
  "transp eqv \<Longrightarrow> same_answer eqv a b \<Longrightarrow> same_answer eqv b c \<Longrightarrow> same_answer eqv a c"
  by (auto simp: same_answer_def dest: transpD)

text \<open>
  The laws, for a parser object in a valid state (\<open>valid\<close>, kept by every call): consumption stays within
  the data and only grows; a call that answered \<open>WAITING_DATA\<close> in a \<open>safe\<close> state can be continued
  with more data as if it had seen all of it at once; any other answer, or a fault, is not
  changed by data that follows.
\<close>

locale resumable_parser =
  fixes parse :: "'p \<Rightarrow> 'c list \<Rightarrow> 'm \<Rightarrow> (RetCode \<times> 'p \<times> 'm) cpp"
    and nparse :: "'p \<Rightarrow> nat"
    and valid :: "'p \<Rightarrow> bool"
    and safe :: "'p \<Rightarrow> bool"
    and eqv :: "'p \<Rightarrow> 'p \<Rightarrow> bool"
  assumes eqv_trans: "transp eqv"
    and parse_bounded: "valid p \<Longrightarrow> nparse p \<le> length d \<Longrightarrow> parse p d m = Inr (r, p', m') \<Longrightarrow>
      nparse p \<le> nparse p' \<and> nparse p' \<le> length d \<and> valid p'"
    and parse_resume: "valid p \<Longrightarrow> nparse p \<le> length d \<Longrightarrow> parse p d m = Inr (WAITING_DATA, p', m') \<Longrightarrow>
      safe p' \<Longrightarrow> same_answer eqv (parse p' (d @ e) m') (parse p (d @ e) m)"
    and parse_stable: "valid p \<Longrightarrow> nparse p \<le> length d \<Longrightarrow> parse p d m = Inr (r, p', m') \<Longrightarrow>
      r \<noteq> WAITING_DATA \<Longrightarrow> parse p (d @ e) m = Inr (r, p', m')"
    and parse_stable_fault: "valid p \<Longrightarrow> nparse p \<le> length d \<Longrightarrow> parse p d m = Inl f \<Longrightarrow>
      parse p (d @ e) m = Inl f"
    and safe_before: "valid p \<Longrightarrow> nparse p \<le> length d \<Longrightarrow> parse p d m = Inr (r, p', m') \<Longrightarrow>
      safe p' \<Longrightarrow> safe p"
    and parse_unsafe: "valid p \<Longrightarrow> nparse p \<le> length d \<Longrightarrow> parse p d m = Inr (WAITING_DATA, p', m') \<Longrightarrow>
      \<not> safe p' \<Longrightarrow> parse p (d @ e) m = Inr (r, q, m2) \<Longrightarrow> \<not> safe q"
begin

lemma feed_Cons_cases:
  assumes "feed parse p buf m (c # cs) = Inr (r, p', m')"
  obtains (stop) "parse p (buf @ c) m = Inr (r, p', m')" and "r \<noteq> WAITING_DATA"
  | (more) p1 m1 where "parse p (buf @ c) m = Inr (WAITING_DATA, p1, m1)"
      and "feed parse p1 (buf @ c) m1 cs = Inr (r, p', m')"
  using assms by (auto simp: cpp_bind_eq_Inr_iff split: if_splits)

lemma feed_safe_before:
  "valid p \<Longrightarrow> nparse p \<le> length buf \<Longrightarrow> feed parse p buf m cs = Inr (r, p', m') \<Longrightarrow> safe p' \<Longrightarrow> safe p"
proof (induction cs arbitrary: p buf m)
  case Nil
  then show ?case by simp
next
  case (Cons c cs)
  have b: "nparse p \<le> length (buf @ c)" using Cons.prems(2) by simp
  show ?case
  proof (use Cons.prems(3) in \<open>cases rule: feed_Cons_cases\<close>)
    case stop
    then show ?thesis using safe_before [OF Cons.prems(1) b] Cons.prems(4) by blast
  next
    case (more p1 m1)
    then have "safe p1"
      using parse_bounded [OF Cons.prems(1) b] Cons.IH Cons.prems(4) by blast
    then show ?thesis using safe_before [OF Cons.prems(1) b] more by blast
  qed
qed

text \<open>A feed that ends in a safe state has the result of one call on all the data.\<close>

lemma feed_sound:
  "valid p \<Longrightarrow> nparse p \<le> length buf \<Longrightarrow> cs \<noteq> [] \<Longrightarrow> feed parse p buf m cs = Inr (r, p', m') \<Longrightarrow>
   safe p' \<Longrightarrow> same_answer eqv (Inr (r, p', m')) (parse p (buf @ concat cs) m)"
proof (induction cs arbitrary: p buf m)
  case Nil
  then show ?case by simp
next
  case (Cons c cs)
  have b: "nparse p \<le> length (buf @ c)" using Cons.prems(2) by simp
  show ?case
  proof (use Cons.prems(4) in \<open>cases rule: feed_Cons_cases\<close>)
    case stop
    then show ?thesis using parse_stable [OF Cons.prems(1) b, of m r p' m' "concat cs"] by simp
  next
    case (more p1 m1)
    have p1: "valid p1" "nparse p1 \<le> length (buf @ c)"
      using parse_bounded [OF Cons.prems(1) b more(1)] by simp_all
    show ?thesis
    proof (cases "cs = []")
      case True
      then show ?thesis using more by simp
    next
      case False
      have "safe p1" by (rule feed_safe_before [OF p1 more(2) Cons.prems(5)])
      then have "same_answer eqv (parse p1 ((buf @ c) @ concat cs) m1) (parse p ((buf @ c) @ concat cs) m)"
        by (rule parse_resume [OF Cons.prems(1) b more(1)])
      moreover have "same_answer eqv (Inr (r, p', m')) (parse p1 ((buf @ c) @ concat cs) m1)"
        by (rule Cons.IH [OF p1 False more(2) Cons.prems(5)])
      ultimately show ?thesis using same_answer_trans [OF eqv_trans] by fastforce
    qed
  qed
qed

text \<open>Conversely, when one call on all the data ends in a safe state, so does every feed of its pieces.\<close>

lemma feed_complete:
  "valid p \<Longrightarrow> nparse p \<le> length buf \<Longrightarrow> cs \<noteq> [] \<Longrightarrow> parse p (buf @ concat cs) m = Inr (r, p', m') \<Longrightarrow>
   safe p' \<Longrightarrow> (\<And>p q. eqv p q \<Longrightarrow> safe p \<longleftrightarrow> safe q) \<Longrightarrow>
   same_answer eqv (feed parse p buf m cs) (Inr (r, p', m'))"
proof (induction cs arbitrary: p buf m p')
  case Nil
  then show ?case by simp
next
  case (Cons c cs)
  have b: "nparse p \<le> length (buf @ c)" using Cons.prems(2) by simp
  have whole: "parse p ((buf @ c) @ concat cs) m = Inr (r, p', m')"
    using Cons.prems(4) by simp
  consider (fault) f where "parse p (buf @ c) m = Inl f"
    | (final) r1 p1 m1 where "parse p (buf @ c) m = Inr (r1, p1, m1)" "r1 \<noteq> WAITING_DATA"
    | (wait) p1 m1 where "parse p (buf @ c) m = Inr (WAITING_DATA, p1, m1)"
    by (cases "parse p (buf @ c) m") (auto intro: that)
  then show ?case
  proof cases
    case fault
    then show ?thesis using parse_stable_fault [OF Cons.prems(1) b fault] whole by simp
  next
    case final
    then show ?thesis using parse_stable [OF Cons.prems(1) b final] whole by simp
  next
    case wait
    have p1: "valid p1" "nparse p1 \<le> length (buf @ c)"
      using parse_bounded [OF Cons.prems(1) b wait] by simp_all
    have safe: "safe p1"
      using parse_unsafe [OF Cons.prems(1) b wait _ whole] Cons.prems(5) by blast
    show ?thesis
    proof (cases "cs = []")
      case True
      then show ?thesis using wait whole by simp
    next
      case False
      have "same_answer eqv (parse p1 ((buf @ c) @ concat cs) m1) (Inr (r, p', m'))"
        using parse_resume [OF Cons.prems(1) b wait safe, of "concat cs"] whole by simp
      then obtain q where q: "parse p1 ((buf @ c) @ concat cs) m1 = Inr (r, q, m')"
        "same_answer eqv (Inr (r, q, m')) (Inr (r, p', m'))" "safe q"
        using Cons.prems(5,6) by (auto simp: same_answer_def)
      have "same_answer eqv (feed parse p1 (buf @ c) m1 cs) (Inr (r, q, m'))"
        by (rule Cons.IH [OF p1 False q(1,3) Cons.prems(6)])
      then show ?thesis
        using wait same_answer_trans [OF eqv_trans _ q(2)] by simp
    qed
  qed
qed

lemma feed_bounded:
  "valid p \<Longrightarrow> nparse p \<le> length buf \<Longrightarrow> feed parse p buf m cs = Inr (r, p', m') \<Longrightarrow>
   nparse p \<le> nparse p' \<and> nparse p' \<le> length (buf @ concat cs) \<and> valid p'"
proof (induction cs arbitrary: p buf m)
  case Nil
  then show ?case by simp
next
  case (Cons c cs)
  have b: "nparse p \<le> length (buf @ c)" using Cons.prems(2) by simp
  show ?case
  proof (use Cons.prems(3) in \<open>cases rule: feed_Cons_cases\<close>)
    case stop
    then show ?thesis using parse_bounded [OF Cons.prems(1) b] by fastforce
  next
    case (more p1 m1)
    then show ?thesis
      using parse_bounded [OF Cons.prems(1) b more(1)] Cons.IH [of p1 "buf @ c" m1] by fastforce
  qed
qed

end

text \<open>
  Both parsers run a loop over stages. \<open>call_ok\<close> collects the laws for one call; a stage that is
  complete hands its obligation to the next one (\<open>call_ok_step\<close>), so the laws are shown stage by
  stage, from the last to the first.
\<close>

definition ends_unsafe :: "('p \<Rightarrow> bool) \<Rightarrow> (RetCode \<times> 'p \<times> 'm) cpp \<Rightarrow> bool" where
  "ends_unsafe safe res = (case res of Inl f \<Rightarrow> True | Inr (r, p, m) \<Rightarrow> \<not> safe p)"

definition call_ok ::
  "('p \<Rightarrow> 'c list \<Rightarrow> 'm \<Rightarrow> (RetCode \<times> 'p \<times> 'm) cpp) \<Rightarrow> ('p \<Rightarrow> nat) \<Rightarrow> ('p \<Rightarrow> bool) \<Rightarrow>
   ('p \<Rightarrow> bool) \<Rightarrow> ('p \<Rightarrow> 'p \<Rightarrow> bool) \<Rightarrow> 'p \<Rightarrow> 'c list \<Rightarrow> 'm \<Rightarrow> bool" where
  "call_ok parse nparse valid safe eqv p d m \<longleftrightarrow>
     (case parse p d m of
        Inl f \<Rightarrow> \<forall>x. parse p (d @ x) m = Inl f
      | Inr (r, p', m') \<Rightarrow>
          nparse p \<le> nparse p' \<and> nparse p' \<le> length d \<and> valid p' \<and> (safe p' \<longrightarrow> safe p) \<and>
          (if r = WAITING_DATA then
             (if safe p' then \<forall>x. same_answer eqv (parse p' (d @ x) m') (parse p (d @ x) m)
              else \<forall>x. ends_unsafe safe (parse p (d @ x) m))
           else \<forall>x. parse p (d @ x) m = Inr (r, p', m')))"

lemma call_ok_step:
  assumes "\<And>x. parse p (d @ x) m = parse q (d @ x) m2"
    and "nparse p \<le> nparse q" and "safe q \<Longrightarrow> safe p"
    and "call_ok parse nparse valid safe eqv q d m2"
  shows "call_ok parse nparse valid safe eqv p d m"
proof -
  have "parse p d m = parse q d m2" using assms(1) [of "[]"] by simp
  then show ?thesis
    using assms by (auto simp: call_ok_def split: sum.splits)
qed

lemma resumable_parserI:
  fixes parse :: "'p \<Rightarrow> 'c list \<Rightarrow> 'm \<Rightarrow> (RetCode \<times> 'p \<times> 'm) cpp"
  assumes "transp eqv"
    and "\<And>p d m. valid p \<Longrightarrow> nparse p \<le> length d \<Longrightarrow> call_ok parse nparse valid safe eqv p d m"
  shows "resumable_parser parse nparse valid safe eqv"
proof unfold_locales
  show "transp eqv" by (rule assms(1))
next
  fix p p' :: 'p and d e :: "'c list" and m m' :: 'm and r f
  assume len: "valid p" "nparse p \<le> length d"
  note ok = assms(2) [OF len, unfolded call_ok_def]
  show "nparse p \<le> nparse p' \<and> nparse p' \<le> length d \<and> valid p'" if "parse p d m = Inr (r, p', m')"
    using ok [of m] that by auto
  show "same_answer eqv (parse p' (d @ e) m') (parse p (d @ e) m)"
    if "parse p d m = Inr (WAITING_DATA, p', m')" and "safe p'"
    using ok [of m] that by auto
  show "parse p (d @ e) m = Inr (r, p', m')"
    if "parse p d m = Inr (r, p', m')" and "r \<noteq> WAITING_DATA"
    using ok [of m] that by auto
  show "parse p (d @ e) m = Inl f" if "parse p d m = Inl f"
    using ok [of m] that by auto
  show "safe p" if "parse p d m = Inr (r, p', m')" and "safe p'"
    using ok [of m] that by auto
  show "\<not> safe q"
    if "parse p d m = Inr (WAITING_DATA, p', m')" and "\<not> safe p'" and "parse p (d @ e) m = Inr (r, q, m2)"
    for q m2
    using ok [of m] that by (auto simp: ends_unsafe_def split: sum.splits)
qed

text \<open>A parser that never faults and whose every state is safe.\<close>

locale total_parser = resumable_parser +
  assumes parse_total: "valid p \<Longrightarrow> nparse p \<le> length d \<Longrightarrow> \<exists>r p' m'. parse p d m = Inr (r, p', m')"
    and all_safe: "safe p"
begin

lemma feed_total:
  "valid p \<Longrightarrow> nparse p \<le> length buf \<Longrightarrow> \<exists>r p' m'. feed parse p buf m cs = Inr (r, p', m')"
proof (induction cs arbitrary: p buf m)
  case Nil
  then show ?case by simp
next
  case (Cons c cs)
  have b: "nparse p \<le> length (buf @ c)" using Cons.prems by simp
  obtain r1 p1 m1 where p1: "parse p (buf @ c) m = Inr (r1, p1, m1)"
    using parse_total [OF Cons.prems(1) b] by blast
  then show ?case
    using Cons.IH [of p1 "buf @ c" m1] parse_bounded [OF Cons.prems(1) b p1] by simp
qed

lemma feed_eq_parse:
  assumes "valid p" and "nparse p \<le> length buf" and "cs \<noteq> []"
  shows "same_answer eqv (feed parse p buf m cs) (parse p (buf @ concat cs) m)"
proof -
  obtain r p' m' where feed: "feed parse p buf m cs = Inr (r, p', m')"
    using feed_total [OF assms(1,2)] by blast
  then show ?thesis
    using feed_sound [OF assms feed all_safe] by (auto simp: feed)
qed

end

end
