(* ===== verification/Tlv_Message.thy ===== *)
theory Tlv_Message
  imports Prelude
begin

section \<open>TLV messages (protocol/src/tlv/message.h, message.cc)\<close>

text \<open>
  A message holds a type, a length and a value; \<open>dump()\<close> writes type and length in network order
  and the first \<open>length\<close> bytes of the value. The length is set independently of the value, and a
  value shorter than the length is refused with the empty string. The byte order of the host is
  a parameter; the lemmas show that the dumped bytes do not depend on it.
\<close>

record tlv_message =
  tm_type :: u16
  tm_length :: u32
  tm_value :: bytes

definition tlv_Message :: tlv_message where
  "tlv_Message = \<lparr>tm_type = 0, tm_length = 0, tm_value = []\<rparr>"

definition tlv_setType :: "u16 \<Rightarrow> tlv_message \<Rightarrow> tlv_message" where
  "tlv_setType t msg = msg\<lparr>tm_type := t\<rparr>"

definition tlv_setLength :: "u32 \<Rightarrow> tlv_message \<Rightarrow> tlv_message" where
  "tlv_setLength l msg = msg\<lparr>tm_length := l\<rparr>"

definition tlv_setValue :: "bytes \<Rightarrow> tlv_message \<Rightarrow> tlv_message" where
  "tlv_setValue v msg = msg\<lparr>tm_value := v\<rparr>"

definition tlv_dump :: "endian \<Rightarrow> tlv_message \<Rightarrow> bytes" where
  "tlv_dump e msg =
     (if length (tm_value msg) < unat (tm_length msg) then []
      else
        (let type_tmp = htons e (tm_type msg);
             length_tmp = htonl e (tm_length msg)
         in object_repr e 2 type_tmp @ object_repr e 4 length_tmp @
            take (unat (tm_length msg)) (tm_value msg)))"

lemmas tlv_setters = tlv_setType_def tlv_setLength_def tlv_setValue_def

lemma tlv_dump_eq:
  "unat (tm_length msg) \<le> length (tm_value msg) \<Longrightarrow>
   tlv_dump e msg = be_bytes 2 (tm_type msg) @ be_bytes 4 (tm_length msg) @
                    take (unat (tm_length msg)) (tm_value msg)"
  by (simp add: tlv_dump_def bytes_simps)

lemma length_tlv_dump:
  "length (tlv_dump e msg) =
     (if length (tm_value msg) < unat (tm_length msg) then 0 else 6 + unat (tm_length msg))"
  by (simp add: tlv_dump_def)

end
