(* ===== verification/Tlv_Parser.thy ===== *)
theory Tlv_Parser
  imports Parser_Contract Tlv_Message
begin

section \<open>The TLV parser (protocol/src/tlv/parser.h, parser.cc)\<close>

text \<open>
  The parser object holds a tag (which field comes next) and the number of bytes consumed.
  \<open>parse\<close> runs a loop over the tag; each of the stages \<open>parseType\<close>, \<open>parseLength\<close> and
  \<open>parseValue\<close> either waits or consumes its field. A data argument shorter than what was already
  consumed makes the code read outside it, which the model reports as undefined. The lemmas give
  the parser in closed form, interpret the contract of incremental parsing, and show the round
  trip with \<open>dump()\<close> between hosts of any byte order.
\<close>

datatype tlv_tag = TAG_TYPE | TAG_LENGTH | TAG_VALUE | TAG_READY

record tlv_parser =
  tp_tag :: tlv_tag
  tp_already :: nat

definition tlv_Parser :: tlv_parser where
  "tlv_Parser = \<lparr>tp_tag = TAG_TYPE, tp_already = 0\<rparr>"

definition tlv_reset :: "tlv_parser \<Rightarrow> tlv_parser" where
  "tlv_reset p = p\<lparr>tp_tag := TAG_TYPE, tp_already := 0\<rparr>"

definition tlv_nparse :: "tlv_parser \<Rightarrow> nat" where
  "tlv_nparse p = tp_already p"

definition tlv_parseType :: "endian \<Rightarrow> bytes \<Rightarrow> tlv_message \<Rightarrow> nat \<Rightarrow> RetCode \<times> tlv_message \<times> nat" where
  "tlv_parseType e data msg np =
     (if length data < 2 then (WAITING_DATA, msg, np)
      else (let type = from_object e (take 2 data)
            in (READY, tlv_setType (ntohs e type) msg, np + 2)))"

definition tlv_parseLength :: "endian \<Rightarrow> bytes \<Rightarrow> tlv_message \<Rightarrow> nat \<Rightarrow> RetCode \<times> tlv_message \<times> nat" where
  "tlv_parseLength e data msg np =
     (if length data < 4 then (WAITING_DATA, msg, np)
      else (let len = from_object e (take 4 data)
            in (READY, tlv_setLength (ntohl e len) msg, np + 4)))"

definition tlv_parseValue :: "bytes \<Rightarrow> tlv_message \<Rightarrow> nat \<Rightarrow> RetCode \<times> tlv_message \<times> nat" where
  "tlv_parseValue data msg np =
     (let len = unat (tm_length msg)
      in if length data < len then (WAITING_DATA, msg, np)
         else (READY, tlv_setValue (take len data) msg, np + len))"

fun tlv_tag_rank :: "tlv_tag \<Rightarrow> nat" where
  "tlv_tag_rank TAG_TYPE = 3"
| "tlv_tag_rank TAG_LENGTH = 2"
| "tlv_tag_rank TAG_VALUE = 1"
| "tlv_tag_rank TAG_READY = 0"

function tlv_parse ::
  "endian \<Rightarrow> tlv_parser \<Rightarrow> bytes \<Rightarrow> tlv_message \<Rightarrow> (RetCode \<times> tlv_parser \<times> tlv_message) cpp" where
  "tlv_parse e p data msg =
     (if tp_tag p = TAG_READY then Inr (READY, p, msg)
      else if length data < tp_already p then Inl Undefined_behaviour
      else
        (case tp_tag p of
           TAG_TYPE \<Rightarrow>
             (case tlv_parseType e (drop (tp_already p) data) msg 0 of (retcode, msg', np) \<Rightarrow>
                if retcode = READY
                then tlv_parse e (p\<lparr>tp_already := tp_already p + np, tp_tag := TAG_LENGTH\<rparr>) data msg'
                else Inr (retcode, p, msg'))
         | TAG_LENGTH \<Rightarrow>
             (case tlv_parseLength e (drop (tp_already p) data) msg 0 of (retcode, msg', np) \<Rightarrow>
                if retcode = READY
                then tlv_parse e (p\<lparr>tp_already := tp_already p + np, tp_tag := TAG_VALUE\<rparr>) data msg'
                else Inr (retcode, p, msg'))
         | TAG_VALUE \<Rightarrow>
             (case tlv_parseValue (drop (tp_already p) data) msg 0 of (retcode, msg', np) \<Rightarrow>
                if retcode = READY
                then tlv_parse e (p\<lparr>tp_already := tp_already p + np, tp_tag := TAG_READY\<rparr>) data msg'
                else Inr (retcode, p, msg'))))"
  by pat_completeness auto
termination
  by (relation "measure (\<lambda>(e, p, data, msg). tlv_tag_rank (tp_tag p))") auto

declare tlv_parse.simps [simp del]

subsection \<open>The stages\<close>

lemma tlv_parse_READY [simp]: "tp_tag p = TAG_READY \<Longrightarrow> tlv_parse e p data msg = Inr (READY, p, msg)"
  by (subst tlv_parse.simps) simp

lemma tlv_parse_VALUE:
  "tp_tag p = TAG_VALUE \<Longrightarrow> tp_already p \<le> length data \<Longrightarrow>
   tlv_parse e p data msg =
     (if length data - tp_already p < unat (tm_length msg) then Inr (WAITING_DATA, p, msg)
      else Inr (READY, \<lparr>tp_tag = TAG_READY, tp_already = tp_already p + unat (tm_length msg)\<rparr>,
                msg\<lparr>tm_value := take (unat (tm_length msg)) (drop (tp_already p) data)\<rparr>))"
  by (cases p, subst tlv_parse.simps) (simp add: tlv_parseValue_def tlv_setters Let_def)

lemma tlv_parse_LENGTH:
  "tp_tag p = TAG_LENGTH \<Longrightarrow> tp_already p \<le> length data \<Longrightarrow>
   tlv_parse e p data msg =
     (if length data - tp_already p < 4 then Inr (WAITING_DATA, p, msg)
      else tlv_parse e \<lparr>tp_tag = TAG_VALUE, tp_already = tp_already p + 4\<rparr> data
             (msg\<lparr>tm_length := from_be (take 4 (drop (tp_already p) data))\<rparr>))"
  by (cases p, subst tlv_parse.simps) (simp add: tlv_parseLength_def tlv_setters bytes_simps Let_def)

lemma tlv_parse_TYPE:
  "tp_tag p = TAG_TYPE \<Longrightarrow> tp_already p \<le> length data \<Longrightarrow>
   tlv_parse e p data msg =
     (if length data - tp_already p < 2 then Inr (WAITING_DATA, p, msg)
      else tlv_parse e \<lparr>tp_tag = TAG_LENGTH, tp_already = tp_already p + 2\<rparr> data
             (msg\<lparr>tm_type := from_be (take 2 (drop (tp_already p) data))\<rparr>))"
  by (cases p, subst tlv_parse.simps) (simp add: tlv_parseType_def tlv_setters bytes_simps Let_def)

lemmas tlv_stages = tlv_parse_VALUE tlv_parse_LENGTH tlv_parse_TYPE

lemma tlv_stage_cases:
  obtains "tp_tag p = TAG_READY" | "tp_tag p = TAG_VALUE" | "tp_tag p = TAG_LENGTH" | "tp_tag p = TAG_TYPE"
  by (cases "tp_tag p") auto

subsection \<open>The laws of incremental parsing\<close>

abbreviation tlv_call_ok :: "endian \<Rightarrow> tlv_parser \<Rightarrow> bytes \<Rightarrow> tlv_message \<Rightarrow> bool" where
  "tlv_call_ok e \<equiv> call_ok (tlv_parse e) tlv_nparse (\<lambda>_. True) (\<lambda>_. True) (=)"

lemma tlv_call_ok_VALUE:
  "tp_tag p = TAG_VALUE \<Longrightarrow> tp_already p \<le> length d \<Longrightarrow> tlv_call_ok e p d m"
  by (auto simp: call_ok_def tlv_nparse_def tlv_parse_VALUE simp del: take_append drop_append)

lemma tlv_parse_LENGTH_more:
  assumes "tp_tag p = TAG_LENGTH" and "tp_already p + 4 \<le> length d"
  shows "tlv_parse e p (d @ x) m =
    tlv_parse e \<lparr>tp_tag = TAG_VALUE, tp_already = tp_already p + 4\<rparr> (d @ x)
      (m\<lparr>tm_length := from_be (take 4 (drop (tp_already p) d))\<rparr>)"
proof -
  have t: "take 4 (drop (tp_already p) (d @ x)) = take 4 (drop (tp_already p) d)"
    using assms(2) by (rule take_drop_append_prefix)
  have "tp_already p \<le> length (d @ x)" "\<not> length (d @ x) - tp_already p < 4"
    using assms(2) by simp_all
  then show ?thesis
    by (simp only: tlv_parse_LENGTH [OF assms(1)] if_False t)
qed

lemma tlv_call_ok_LENGTH:
  assumes "tp_tag p = TAG_LENGTH" and "tp_already p \<le> length d"
  shows "tlv_call_ok e p d m"
proof (cases "tp_already p + 4 \<le> length d")
  case True
  show ?thesis
    by (rule call_ok_step, rule tlv_parse_LENGTH_more [OF assms(1) True])
       (use True in \<open>simp_all add: tlv_nparse_def tlv_call_ok_VALUE\<close>)
next
  case False
  then show ?thesis
    using assms by (simp add: call_ok_def tlv_nparse_def tlv_parse_LENGTH)
qed

lemma tlv_parse_TYPE_more:
  assumes "tp_tag p = TAG_TYPE" and "tp_already p + 2 \<le> length d"
  shows "tlv_parse e p (d @ x) m =
    tlv_parse e \<lparr>tp_tag = TAG_LENGTH, tp_already = tp_already p + 2\<rparr> (d @ x)
      (m\<lparr>tm_type := from_be (take 2 (drop (tp_already p) d))\<rparr>)"
proof -
  have t: "take 2 (drop (tp_already p) (d @ x)) = take 2 (drop (tp_already p) d)"
    using assms(2) by (rule take_drop_append_prefix)
  have "tp_already p \<le> length (d @ x)" "\<not> length (d @ x) - tp_already p < 2"
    using assms(2) by simp_all
  then show ?thesis
    by (simp only: tlv_parse_TYPE [OF assms(1)] if_False t)
qed

lemma tlv_call_ok_TYPE:
  assumes "tp_tag p = TAG_TYPE" and "tp_already p \<le> length d"
  shows "tlv_call_ok e p d m"
proof (cases "tp_already p + 2 \<le> length d")
  case True
  show ?thesis
    by (rule call_ok_step, rule tlv_parse_TYPE_more [OF assms(1) True])
       (use True in \<open>simp_all add: tlv_nparse_def tlv_call_ok_LENGTH\<close>)
next
  case False
  then show ?thesis
    using assms by (simp add: call_ok_def tlv_nparse_def tlv_parse_TYPE)
qed

lemma tlv_call_ok:
  assumes "tlv_nparse p \<le> length d"
  shows "tlv_call_ok e p d m"
proof (cases "tp_tag p")
  case TAG_READY
  then show ?thesis using assms by (simp add: call_ok_def)
qed (use assms in \<open>auto simp: tlv_nparse_def intro: tlv_call_ok_VALUE tlv_call_ok_LENGTH tlv_call_ok_TYPE\<close>)

lemma tlv_parse_total:
  assumes "tp_already p \<le> length d"
  shows "\<exists>r p' m'. tlv_parse e p d m = Inr (r, p', m') \<and> r \<noteq> ERROR"
proof (cases "tp_tag p")
  case TAG_TYPE
  then show ?thesis
    using assms by (simp add: tlv_stages)
qed (use assms in \<open>simp_all add: tlv_stages\<close>)

text \<open>The TLV parser provides the contract for incremental callers, with every state safe.\<close>

interpretation tlv: resumable_parser "tlv_parse e" tlv_nparse "\<lambda>_. True" "\<lambda>_. True" "(=)" for e
  by (rule resumable_parserI) (simp_all add: tlv_call_ok transp_def)

interpretation tlv: total_parser "tlv_parse e" tlv_nparse "\<lambda>_. True" "\<lambda>_. True" "(=)" for e
proof unfold_locales
  fix p :: tlv_parser and d :: bytes and m
  assume "tlv_nparse p \<le> length d"
  then show "\<exists>r p' m'. tlv_parse e p d m = Inr (r, p', m')"
    using tlv_parse_total [of p d e m] by (auto simp: tlv_nparse_def)
qed simp

subsection \<open>Properties\<close>

lemma tlv_Parser_simps [simp]:
  "tp_tag tlv_Parser = TAG_TYPE" "tp_already tlv_Parser = 0" "tlv_nparse tlv_Parser = 0"
  "tlv_reset p = tlv_Parser"
  by (simp_all add: tlv_Parser_def tlv_nparse_def tlv_reset_def)

text \<open>the TLV parser in closed form: from a fresh or reset parser one call answers
  \<open>WAITING_DATA\<close> exactly when the two type bytes, the four length bytes or the announced number
  of value bytes are not all there, having stored the complete fields, and otherwise \<open>READY\<close> with
  the three fields of the message, 6 plus the announced length bytes consumed. It never answers
  \<open>ERROR\<close> and never reads outside the data.
\<close>
lemma tlv_parse_spec:
  "tlv_parse e (tlv_reset p) data msg =
     (let t = from_be (take 2 data); l = from_be (take 4 (drop 2 data))
      in if length data < 2 then Inr (WAITING_DATA, tlv_Parser, msg)
         else if length data < 6 then
           Inr (WAITING_DATA, \<lparr>tp_tag = TAG_LENGTH, tp_already = 2\<rparr>, tlv_setType t msg)
         else if length data < 6 + unat l then
           Inr (WAITING_DATA, \<lparr>tp_tag = TAG_VALUE, tp_already = 6\<rparr>, tlv_setLength l (tlv_setType t msg))
         else
           Inr (READY, \<lparr>tp_tag = TAG_READY, tp_already = 6 + unat l\<rparr>,
                tlv_setValue (take (unat l) (drop 6 data)) (tlv_setLength l (tlv_setType t msg))))"
  by (auto simp: tlv_stages tlv_setters Let_def simp flip: numeral_2_eq_2)

lemma tlv_parse_dump:
  assumes "unat (tm_length msg) \<le> length (tm_value msg)"
  shows "tlv_parse e tlv_Parser (tlv_dump e' msg @ rest) msg0 =
    Inr (READY, \<lparr>tp_tag = TAG_READY, tp_already = 6 + unat (tm_length msg)\<rparr>,
         tlv_setValue (take (unat (tm_length msg)) (tm_value msg))
           (tlv_setLength (tm_length msg) (tlv_setType (tm_type msg) msg0)))"
proof -
  define l v where "l = unat (tm_length msg)" and "v = take l (tm_value msg)"
  have d: "tlv_dump e' msg @ rest = be_bytes 2 (tm_type msg) @ be_bytes 4 (tm_length msg) @ v @ rest"
    using assms by (simp add: tlv_dump_eq l_def v_def)
  have v: "length v = l"
    using assms by (simp add: l_def v_def)
  have f: "take 2 (tlv_dump e' msg @ rest) = be_bytes 2 (tm_type msg)"
    "take 4 (drop 2 (tlv_dump e' msg @ rest)) = be_bytes 4 (tm_length msg)"
    "take l (drop 6 (tlv_dump e' msg @ rest)) = v"
    "\<not> length (tlv_dump e' msg @ rest) < 6 + l"
    unfolding d by (simp_all add: v)
  then have "\<not> length (tlv_dump e' msg @ rest) < 2" "\<not> length (tlv_dump e' msg @ rest) < 6"
    by linarith+
  then show ?thesis
    using f tlv_parse_spec [of e tlv_Parser "tlv_dump e' msg @ rest" msg0]
    by (simp only: Let_def if_False from_be_be_bytes len_num1 tlv_Parser_simps)
       (simp add: bytes_simps l_def v_def)
qed

text \<open>C19: cutting the data of the TLV parser into pieces does not change the outcome: feeding it piece
  by piece, each time parsing the whole receive buffer again, gives the answer, the consumed
  count and the message of a single call on all of it.
\<close>
theorem tlv_feed_eq_parse:
  "tlv_nparse p \<le> length buf \<Longrightarrow> pieces \<noteq> [] \<Longrightarrow>
   feed (tlv_parse e) p buf msg pieces = tlv_parse e p (buf @ concat pieces) msg"
  by (rule tlv.feed_eq_parse [OF TrueI, unfolded same_answer_eq])

theorem tlv_feed_eq_parse_witness:
  "feed (tlv_parse Little_endian) tlv_Parser [] tlv_Message [[0, 7, 0], [0, 0, 1], [9, 5]] =
   tlv_parse Little_endian tlv_Parser [0, 7, 0, 0, 0, 1, 9, 5] tlv_Message"
  by (subst tlv_feed_eq_parse) simp_all

text \<open>C20: a dumped TLV message that arrives in any pieces, followed by any other data, on a host of
  any byte order, is parsed back: the parser answers \<open>READY\<close> with the sender's type and length and
  the first \<open>length\<close> bytes of its value, and has consumed exactly the dumped bytes.
\<close>
theorem tlv_dump_feed_roundtrip:
  assumes "unat (tm_length msg) \<le> length (tm_value msg)"
    and "concat pieces = tlv_dump sender msg @ rest"
  shows "feed (tlv_parse receiver) tlv_Parser [] msg0 pieces =
    Inr (READY, \<lparr>tp_tag = TAG_READY, tp_already = length (tlv_dump sender msg)\<rparr>,
         tlv_setValue (take (unat (tm_length msg)) (tm_value msg))
           (tlv_setLength (tm_length msg) (tlv_setType (tm_type msg) msg0)))"
proof -
  have "length (tlv_dump sender msg) = 6 + unat (tm_length msg)"
    using assms(1) by (simp add: length_tlv_dump)
  moreover from this have "pieces \<noteq> []"
    using assms(2) by auto
  ultimately show ?thesis
    using assms tlv_parse_dump [OF assms(1)] by (simp add: tlv.feed_eq_parse [unfolded same_answer_eq])
qed

theorem tlv_dump_feed_roundtrip_witness:
  "feed (tlv_parse Little_endian) tlv_Parser [] tlv_Message [[0, 7, 0], [0, 0, 1, 9], [5]] =
   Inr (READY, \<lparr>tp_tag = TAG_READY, tp_already = 7\<rparr>, \<lparr>tm_type = 7, tm_length = 1, tm_value = [9]\<rparr>)"
proof -
  define msg where "msg = \<lparr>tm_type = 7, tm_length = 1, tm_value = [9, 8]\<rparr>"
  have dump: "tlv_dump Big_endian msg = [0, 7, 0, 0, 0, 1, 9]"
    by (simp add: msg_def tlv_dump_def htons_def htonl_def le_repr_def upt_rec)
  show ?thesis
    by (subst tlv_dump_feed_roundtrip [where msg = msg and sender = Big_endian and rest = "[5]"])
       (simp_all add: dump, simp_all add: msg_def tlv_setters tlv_Message_def)
qed

end
