(* ===== verification/Unordered_Map.thy ===== *)
theory Unordered_Map
  imports Prelude "HOL-Library.Multiset"
begin

section \<open>std::unordered_map\<close>

text \<open>
  The standard library's hash map as the code uses it: \<open>find\<close>, assignment through \<open>operator[]\<close>,
  \<open>erase\<close> by key and iteration. A map is a list of key/value pairs with distinct keys; the order
  of iteration is unspecified in C++, so every model of a loop over a map takes a reordering
  function (\<open>iteration_order\<close>) as a parameter. The locale is the contract the components rely on,
  with the lemmas they share; it is interpreted on the three operations.
\<close>

type_synonym ('k, 'v) umap = "('k \<times> 'v) list"

definition umap_find :: "'k \<Rightarrow> ('k, 'v) umap \<Rightarrow> 'v option" where
  "umap_find k m = map_of m k"

fun umap_assign :: "'k \<Rightarrow> 'v \<Rightarrow> ('k, 'v) umap \<Rightarrow> ('k, 'v) umap" where
  "umap_assign k v [] = [(k, v)]"
| "umap_assign k v ((k', v') # m) =
     (if k' = k then (k, v) # m else (k', v') # umap_assign k v m)"

definition umap_erase :: "'k \<Rightarrow> ('k, 'v) umap \<Rightarrow> ('k, 'v) umap" where
  "umap_erase k m = filter (\<lambda>(k', v). k' \<noteq> k) m"

definition umap_ok :: "('k, 'v) umap \<Rightarrow> bool" where
  "umap_ok m \<longleftrightarrow> distinct (map fst m)"

definition iteration_order :: "(('k, 'v) umap \<Rightarrow> ('k, 'v) umap) \<Rightarrow> bool" where
  "iteration_order order \<longleftrightarrow> (\<forall>m. mset (order m) = mset m)"

subsection \<open>The contract\<close>

locale key_value_store =
  fixes empty :: "'m"
    and find :: "'k \<Rightarrow> 'm \<Rightarrow> 'v option"
    and assign :: "'k \<Rightarrow> 'v \<Rightarrow> 'm \<Rightarrow> 'm"
    and erase :: "'k \<Rightarrow> 'm \<Rightarrow> 'm"
    and ok :: "'m \<Rightarrow> bool"
  assumes find_empty: "find k empty = None"
    and find_assign: "ok m \<Longrightarrow> find k' (assign k v m) = (if k' = k then Some v else find k' m)"
    and find_erase: "ok m \<Longrightarrow> find k' (erase k m) = (if k' = k then None else find k' m)"
    and ok_empty: "ok empty"
    and ok_assign: "ok m \<Longrightarrow> ok (assign k v m)"
    and ok_erase: "ok m \<Longrightarrow> ok (erase k m)"
begin

lemma find_assign_same: "ok m \<Longrightarrow> find k (assign k v m) = Some v"
  by (simp add: find_assign)

lemma find_assign_other: "ok m \<Longrightarrow> k' \<noteq> k \<Longrightarrow> find k' (assign k v m) = find k' m"
  by (simp add: find_assign)

lemma find_assign_erase: "ok m \<Longrightarrow> find k' (erase k (assign k v m)) = find k' (erase k m)"
  by (simp add: find_assign find_erase ok_assign)

text \<open>A loop of assignments: the last one for a key counts.\<close>

lemma ok_fold_assign: "ok m \<Longrightarrow> ok (fold (\<lambda>(k, v). assign k v) kvs m)"
  by (induction kvs arbitrary: m) (auto simp: ok_assign)

lemma find_fold_assign:
  "ok m \<Longrightarrow> find k (fold (\<lambda>(k, v). assign k v) kvs m) =
     (case map_of (rev kvs) k of Some v \<Rightarrow> Some v | None \<Rightarrow> find k m)"
proof (induction kvs arbitrary: m)
  case Nil
  then show ?case by simp
next
  case (Cons kv kvs)
  then show ?case
    by (cases kv) (auto simp: ok_assign find_assign map_add_def split: option.splits)
qed

end

subsection \<open>The model provides it\<close>

lemma fst_set_umap_assign: "fst ` set (umap_assign k v m) = insert k (fst ` set m)"
  by (induction k v m rule: umap_assign.induct) auto

lemma umap_ok_assign: "umap_ok m \<Longrightarrow> umap_ok (umap_assign k v m)"
  by (induction k v m rule: umap_assign.induct)
     (auto simp: umap_ok_def fst_set_umap_assign)

lemma umap_find_assign: "umap_find k' (umap_assign k v m) = (if k' = k then Some v else umap_find k' m)"
  by (induction k v m rule: umap_assign.induct) (auto simp: umap_find_def)

lemma umap_find_erase: "umap_find k' (umap_erase k m) = (if k' = k then None else umap_find k' m)"
  by (induction m) (auto simp: umap_find_def umap_erase_def)

lemma umap_ok_erase: "umap_ok m \<Longrightarrow> umap_ok (umap_erase k m)"
  by (induction m) (auto simp: umap_ok_def umap_erase_def)

interpretation umap: key_value_store "[]" umap_find umap_assign umap_erase umap_ok
  by unfold_locales
     (simp_all add: umap_find_assign umap_find_erase umap_ok_assign umap_ok_erase,
      simp_all add: umap_find_def umap_ok_def)

text \<open>Assigning fresh keys one after the other rebuilds the list.\<close>

lemma umap_assign_fresh: "k \<notin> fst ` set m \<Longrightarrow> umap_assign k v m = m @ [(k, v)]"
  by (induction k v m rule: umap_assign.induct) auto

lemma fold_umap_assign_fresh:
  "distinct (map fst kvs) \<Longrightarrow> fst ` set kvs \<inter> fst ` set m = {} \<Longrightarrow>
   fold (\<lambda>(k, v). umap_assign k v) kvs m = m @ kvs"
proof (induction kvs arbitrary: m)
  case Nil
  then show ?case by simp
next
  case (Cons kv kvs)
  obtain k v where kv: "kv = (k, v)" by (cases kv)
  have "umap_assign k v m = m @ [(k, v)]"
    using Cons.prems by (intro umap_assign_fresh) (auto simp: kv)
  moreover have "fold (\<lambda>(k, v). umap_assign k v) kvs (m @ [(k, v)]) = (m @ [(k, v)]) @ kvs"
    using Cons.prems by (intro Cons.IH) (auto simp: kv)
  ultimately show ?case by (simp add: kv)
qed

lemma iteration_order_set: "iteration_order order \<Longrightarrow> set (order m) = set m"
  unfolding iteration_order_def by (metis set_mset_mset)

lemma iteration_order_distinct:
  "iteration_order order \<Longrightarrow> umap_ok m \<Longrightarrow> distinct (map fst (order m))"
  unfolding iteration_order_def umap_ok_def
  by (metis mset_map mset_eq_imp_distinct_iff)

lemma iteration_order_find:
  assumes "iteration_order order" and "umap_ok m"
  shows "umap_find k (order m) = umap_find k m"
proof -
  have "distinct (map fst m)" "distinct (map fst (order m))" "set (order m) = set m"
    using assms(2) iteration_order_distinct [OF assms] iteration_order_set [OF assms(1)]
    by (simp_all add: umap_ok_def)
  then have "map_of (order m) = map_of m"
    by (simp add: map_of_inject_set)
  then show ?thesis
    by (simp add: umap_find_def)
qed

end
