(* ===== verification/Http_Message.thy ===== *)
theory Http_Message
  imports Unordered_Map
begin

section \<open>HTTP messages (protocol/src/http: message, request, response, servlet)\<close>

text \<open>
  \<^verbatim>\<open>Message\<close> is the record of body, version and headers; \<^verbatim>\<open>Request\<close> and \<^verbatim>\<open>Response\<close> extend it as the
  classes do, so the message operations are polymorphic in the extension. The parser's
  \<^verbatim>\<open>Message&\<close> argument is the datatype \<open>http_object\<close>, whose constructor is what \<open>type()\<close> returns.
  \<^verbatim>\<open>enum class method\<close> and \<^verbatim>\<open>enum class state\<close> have \<^verbatim>\<open>int\<close> as underlying type and are created by casts
  from any \<^verbatim>\<open>int\<close>, so they are integers here, and the \<^verbatim>\<open>XX\<close> tables of the headers are the lists
  \<open>HTTP_METHOD_MAP\<close> and \<open>HTTP_STATUS_MAP\<close>. The lemmas relate the conversion functions of these
  tables and give the header and servlet maps through the contract of \<open>Unordered_Map\<close>.
\<close>

datatype version_type = HTTP_ERR | HTTP_1_0 | HTTP_1_1

type_synonym method_type = int
type_synonym state_type = int

subsection \<open>Messages (message.h, message.cc)\<close>

definition VersionToString :: "version_type \<Rightarrow> string" where
  "VersionToString v =
     (if v = HTTP_1_0 then ''HTTP/1.0''
      else if v = HTTP_1_1 then ''HTTP/1.1''
      else ''HTTP/1.1'')"

definition StringToVersion :: "string \<Rightarrow> version_type" where
  "StringToVersion v_str =
     (if v_str = ''HTTP/1.0'' then HTTP_1_0
      else if v_str = ''HTTP/1.1'' then HTTP_1_1
      else HTTP_1_1)"

record http_message =
  hm_body :: string
  hm_version :: version_type
  hm_headers :: "(string, string) umap"

record http_request = http_message +
  hr_method :: method_type
  hr_uri :: string

record http_response = http_message +
  hs_state :: state_type

definition setBody :: "string \<Rightarrow> 'a http_message_scheme \<Rightarrow> 'a http_message_scheme" where
  "setBody body msg = msg\<lparr>hm_body := body\<rparr>"

definition setVersion :: "version_type \<Rightarrow> 'a http_message_scheme \<Rightarrow> 'a http_message_scheme" where
  "setVersion v msg = msg\<lparr>hm_version := v\<rparr>"

definition getHeader :: "string \<Rightarrow> string \<Rightarrow> 'a http_message_scheme \<Rightarrow> string" where
  "getHeader key def msg =
     (case umap_find key (hm_headers msg) of Some v \<Rightarrow> v | None \<Rightarrow> def)"

definition removeHeader :: "string \<Rightarrow> 'a http_message_scheme \<Rightarrow> 'a http_message_scheme" where
  "removeHeader key msg = msg\<lparr>hm_headers := umap_erase key (hm_headers msg)\<rparr>"

definition setHeader :: "string \<Rightarrow> string \<Rightarrow> 'a http_message_scheme \<Rightarrow> 'a http_message_scheme" where
  "setHeader key value msg = msg\<lparr>hm_headers := umap_assign key value (hm_headers msg)\<rparr>"

definition message_clear :: "'a http_message_scheme \<Rightarrow> 'a http_message_scheme" where
  "message_clear msg = msg\<lparr>hm_body := [], hm_version := HTTP_ERR, hm_headers := []\<rparr>"

subsection \<open>Requests (request.h, request.cc)\<close>

text \<open>Code, enumerator and description of each method.\<close>

definition HTTP_METHOD_MAP :: "(method_type \<times> string \<times> string) list" where
  "HTTP_METHOD_MAP =
    [
     (0, ''DELETE'', ''DELETE''),
     (1, ''GET'', ''GET''),
     (2, ''HEAD'', ''HEAD''),
     (3, ''POST'', ''POST''),
     (4, ''PUT'', ''PUT''),
     (5, ''CONNECT'', ''CONNECT''),
     (6, ''OPTIONS'', ''OPTIONS''),
     (7, ''TRACE'', ''TRACE''),
     (8, ''COPY'', ''COPY''),
     (9, ''LOCK'', ''LOCK''),
     (10, ''MKCOL'', ''MKCOL''),
     (11, ''MOVE'', ''MOVE''),
     (12, ''PROPFIND'', ''PROPFIND''),
     (13, ''PROPPATCH'', ''PROPPATCH''),
     (14, ''SEARCH'', ''SEARCH''),
     (15, ''UNLOCK'', ''UNLOCK''),
     (16, ''BIND'', ''BIND''),
     (17, ''REBIND'', ''REBIND''),
     (18, ''UNBIND'', ''UNBIND''),
     (19, ''ACL'', ''ACL''),
     (20, ''REPORT'', ''REPORT''),
     (21, ''MKACTIVITY'', ''MKACTIVITY''),
     (22, ''CHECKOUT'', ''CHECKOUT''),
     (23, ''MERGE'', ''MERGE''),
     (24, ''MSEARCH'', ''M-SEARCH''),
     (25, ''NOTIFY'', ''NOTIFY''),
     (26, ''SUBSCRIBE'', ''SUBSCRIBE''),
     (27, ''UNSUBSCRIBE'', ''UNSUBSCRIBE''),
     (28, ''PATCH'', ''PATCH''),
     (29, ''PURGE'', ''PURGE''),
     (30, ''MKCALENDAR'', ''MKCALENDAR''),
     (31, ''LINK'', ''LINK''),
     (32, ''UNLINK'', ''UNLINK''),
     (33, ''SOURCE'', ''SOURCE'')]"

definition method_INVALID :: method_type where
  "method_INVALID = 34"

definition MethodToString :: "method_type \<Rightarrow> string" where
  "MethodToString method =
     (case find (\<lambda>(code, name, desc). method = code) HTTP_METHOD_MAP of
        Some (code, name, desc) \<Rightarrow> name | None \<Rightarrow> [])"

definition StringToMethod :: "string \<Rightarrow> method_type" where
  "StringToMethod method_str =
     (case find (\<lambda>(code, name, desc). name = method_str) HTTP_METHOD_MAP of
        Some (code, name, desc) \<Rightarrow> code | None \<Rightarrow> method_INVALID)"

definition http_Request :: http_request where
  "http_Request = \<lparr>hm_body = [], hm_version = HTTP_ERR, hm_headers = [],
                   hr_method = method_INVALID, hr_uri = []\<rparr>"

definition setMethod :: "method_type \<Rightarrow> http_request \<Rightarrow> http_request" where
  "setMethod method req = req\<lparr>hr_method := method\<rparr>"

definition setUri :: "string \<Rightarrow> http_request \<Rightarrow> http_request" where
  "setUri uri req = req\<lparr>hr_uri := uri\<rparr>"

definition request_clear :: "http_request \<Rightarrow> http_request" where
  "request_clear req = (message_clear req)\<lparr>hr_method := method_INVALID, hr_uri := []\<rparr>"

definition CRLF_str :: string where
  "CRLF_str = [CHR 0x0D, CHR 0x0A]"

text \<open>\<open>order\<close> is the iteration order of the header map.\<close>

definition dump_headers ::
  "((string, string) umap \<Rightarrow> (string, string) umap) \<Rightarrow> (string, string) umap \<Rightarrow> string" where
  "dump_headers order headers = concat (map (\<lambda>(k, v). k @ '': '' @ v @ CRLF_str) (order headers))"

definition request_dump ::
  "((string, string) umap \<Rightarrow> (string, string) umap) \<Rightarrow> http_request \<Rightarrow> string" where
  "request_dump order req =
     MethodToString (hr_method req) @ '' '' @ hr_uri req @ '' '' @ VersionToString (hm_version req) @ CRLF_str @
     dump_headers order (hm_headers req) @ CRLF_str @ hm_body req"

subsection \<open>Responses (response.h, response.cc)\<close>

text \<open>Code, enumerator and description of each status.\<close>

definition HTTP_STATUS_MAP :: "(state_type \<times> string \<times> string) list" where
  "HTTP_STATUS_MAP =
    [
     (100, ''CONTINUE'', ''Continue''),
     (101, ''SWITCHING_PROTOCOLS'', ''Switching Protocols''),
     (102, ''PROCESSING'', ''Processing''),
     (200, ''OK'', ''OK''),
     (201, ''CREATED'', ''Created''),
     (202, ''ACCEPTED'', ''Accepted''),
     (203, ''NON_AUTHORITATIVE_INFORMATION'', ''Non-Authoritative Information''),
     (204, ''NO_CONTENT'', ''No Content''),
     (205, ''RESET_CONTENT'', ''Reset Content''),
     (206, ''PARTIAL_CONTENT'', ''Partial Content''),
     (207, ''MULTI_STATUS'', ''Multi-Status''),
     (208, ''ALREADY_REPORTED'', ''Already Reported''),
     (226, ''IM_USED'', ''IM Used''),
     (300, ''MULTIPLE_CHOICES'', ''Multiple Choices''),
     (301, ''MOVED_PERMANENTLY'', ''Moved Permanently''),
     (302, ''FOUND'', ''Found''),
     (303, ''SEE_OTHER'', ''See Other''),
     (304, ''NOT_MODIFIED'', ''Not Modified''),
     (305, ''USE_PROXY'', ''Use Proxy''),
     (307, ''TEMPORARY_REDIRECT'', ''Temporary Redirect''),
     (308, ''PERMANENT_REDIRECT'', ''Permanent Redirect''),
     (400, ''BAD_REQUEST'', ''Bad Request''),
     (401, ''UNAUTHORIZED'', ''Unauthorized''),
     (402, ''PAYMENT_REQUIRED'', ''Payment Required''),
     (403, ''FORBIDDEN'', ''Forbidden''),
     (404, ''NOT_FOUND'', ''Not Found''),
     (405, ''METHOD_NOT_ALLOWED'', ''Method Not Allowed''),
     (406, ''NOT_ACCEPTABLE'', ''Not Acceptable''),
     (407, ''PROXY_AUTHENTICATION_REQUIRED'', ''Proxy Authentication Required''),
     (408, ''REQUEST_TIMEOUT'', ''Request Timeout''),
     (409, ''CONFLICT'', ''Conflict''),
     (410, ''GONE'', ''Gone''),
     (411, ''LENGTH_REQUIRED'', ''Length Required''),
     (412, ''PRECONDITION_FAILED'', ''Precondition Failed''),
     (413, ''PAYLOAD_TOO_LARGE'', ''Payload Too Large''),
     (414, ''URI_TOO_LONG'', ''URI Too Long''),
     (415, ''UNSUPPORTED_MEDIA_TYPE'', ''Unsupported Media Type''),
     (416, ''RANGE_NOT_SATISFIABLE'', ''Range Not Satisfiable''),
     (417, ''EXPECTATION_FAILED'', ''Expectation Failed''),
     (421, ''MISDIRECTED_REQUEST'', ''Misdirected Request''),
     (422, ''UNPROCESSABLE_ENTITY'', ''Unprocessable Entity''),
     (423, ''LOCKED'', ''Locked''),
     (424, ''FAILED_DEPENDENCY'', ''Failed Dependency''),
     (426, ''UPGRADE_REQUIRED'', ''Upgrade Required''),
     (428, ''PRECONDITION_REQUIRED'', ''Precondition Required''),
     (429, ''TOO_MANY_REQUESTS'', ''Too Many Requests''),
     (431, ''REQUEST_HEADER_FIELDS_TOO_LARGE'', ''Request Header Fields Too Large''),
     (451, ''UNAVAILABLE_FOR_LEGAL_REASONS'', ''Unavailable For Legal Reasons''),
     (500, ''INTERNAL_SERVER_ERROR'', ''Internal Server Error''),
     (501, ''NOT_IMPLEMENTED'', ''Not Implemented''),
     (502, ''BAD_GATEWAY'', ''Bad Gateway''),
     (503, ''SERVICE_UNAVAILABLE'', ''Service Unavailable''),
     (504, ''GATEWAY_TIMEOUT'', ''Gateway Timeout''),
     (505, ''HTTP_VERSION_NOT_SUPPORTED'', ''HTTP Version Not Supported''),
     (506, ''VARIANT_ALSO_NEGOTIATES'', ''Variant Also Negotiates''),
     (507, ''INSUFFICIENT_STORAGE'', ''Insufficient Storage''),
     (508, ''LOOP_DETECTED'', ''Loop Detected''),
     (510, ''NOT_EXTENDED'', ''Not Extended''),
     (511, ''NETWORK_AUTHENTICATION_REQUIRED'', ''Network Authentication Required'')]"

definition state_INVALID :: state_type where
  "state_INVALID = 512"

definition StateToString :: "state_type \<Rightarrow> string" where
  "StateToString state =
     (case find (\<lambda>(code, name, desc). code = state) HTTP_STATUS_MAP of
        Some (code, name, desc) \<Rightarrow> name | None \<Rightarrow> [])"

definition StringToState :: "string \<Rightarrow> state_type" where
  "StringToState state_str =
     (case find (\<lambda>(code, name, desc). name = state_str) HTTP_STATUS_MAP of
        Some (code, name, desc) \<Rightarrow> code | None \<Rightarrow> state_INVALID)"

definition StateToDesc :: "state_type \<Rightarrow> string" where
  "StateToDesc state =
     (case find (\<lambda>(code, name, desc). code = state) HTTP_STATUS_MAP of
        Some (code, name, desc) \<Rightarrow> desc | None \<Rightarrow> [])"

definition http_Response :: http_response where
  "http_Response = \<lparr>hm_body = [], hm_version = HTTP_ERR, hm_headers = [], hs_state = state_INVALID\<rparr>"

definition setState :: "state_type \<Rightarrow> http_response \<Rightarrow> http_response" where
  "setState state resp = resp\<lparr>hs_state := state\<rparr>"

definition response_clear :: "http_response \<Rightarrow> http_response" where
  "response_clear resp = (message_clear resp)\<lparr>hs_state := state_INVALID\<rparr>"

definition response_dump ::
  "((string, string) umap \<Rightarrow> (string, string) umap) \<Rightarrow> http_response \<Rightarrow> string" where
  "response_dump order resp =
     VersionToString (hm_version resp) @ '' '' @ show_int (hs_state resp) @ '' '' @
     StateToDesc (hs_state resp) @ CRLF_str @
     dump_headers order (hm_headers resp) @ CRLF_str @ hm_body resp"

subsection \<open>The object behind a Message reference\<close>

datatype http_object =
    RequestObject http_request
  | ResponseObject http_response
  | UnknownObject http_message

fun object_setHeader :: "string \<Rightarrow> string \<Rightarrow> http_object \<Rightarrow> http_object" where
  "object_setHeader k v (RequestObject r) = RequestObject (setHeader k v r)"
| "object_setHeader k v (ResponseObject r) = ResponseObject (setHeader k v r)"
| "object_setHeader k v (UnknownObject r) = UnknownObject (setHeader k v r)"

fun object_setBody :: "string \<Rightarrow> http_object \<Rightarrow> http_object" where
  "object_setBody b (RequestObject r) = RequestObject (setBody b r)"
| "object_setBody b (ResponseObject r) = ResponseObject (setBody b r)"
| "object_setBody b (UnknownObject r) = UnknownObject (setBody b r)"

fun object_getHeader :: "string \<Rightarrow> string \<Rightarrow> http_object \<Rightarrow> string" where
  "object_getHeader k d (RequestObject r) = getHeader k d r"
| "object_getHeader k d (ResponseObject r) = getHeader k d r"
| "object_getHeader k d (UnknownObject r) = getHeader k d r"

subsection \<open>Servlets (servlet.h, servlet.cc)\<close>

text \<open>
  A servlet maps URIs to \<^verbatim>\<open>std::function\<close> objects, which may be empty (\<open>None\<close>); an unknown URI gives the
  empty one.
\<close>

type_synonym 'f servlet = "(string, 'f option) umap"

definition setFunction :: "string \<Rightarrow> 'f option \<Rightarrow> 'f servlet \<Rightarrow> 'f servlet" where
  "setFunction uri func s = umap_assign uri func s"

definition removeFunction :: "string \<Rightarrow> 'f servlet \<Rightarrow> 'f servlet" where
  "removeFunction uri s = umap_erase uri s"

definition getFunction :: "string \<Rightarrow> 'f servlet \<Rightarrow> 'f option" where
  "getFunction uri s = (case umap_find uri s of Some f \<Rightarrow> f | None \<Rightarrow> None)"

lemmas message_setters = setBody_def setVersion_def setHeader_def setMethod_def setUri_def setState_def

end
