(* ===== verification/Http_Parser.thy ===== *)
theory Http_Parser
  imports Parser_Contract Http_Message
begin

section \<open>The HTTP parser (protocol/src/http/parser.h, parser.cc)\<close>

text \<open>
  The functions of parser.cc in their order: validation, splitting and trimming of lines, the
  stages \<open>parseLine\<close>, \<open>parseHeader\<close> and \<open>parseBody\<close>, and \<open>Parser::Impl\<close> with its loop over the tag.
  Data are strings of bytes; a pointer with its remaining length is the suffix of the data it
  points to. Sizes that the code adds or multiplies freely (the chunk size) are reduced modulo
  \<open>2 ^ 64\<close>. Faults are an \<^verbatim>\<open>atoi\<close> whose value does not fit an \<^verbatim>\<open>int\<close> (undefined in C), a line end that is not
  found before the \<^verbatim>\<open>int\<close> indices of \<open>CRLF\<close> overflow, a
  \<^verbatim>\<open>reserve\<close> or \<^verbatim>\<open>append\<close> beyond \<open>max_size\<close>, and reads outside the data.
  This theory holds the definitions and the bounds every call respects; Http_Properties holds the
  laws of incremental parsing and the properties of the parser.
\<close>

abbreviation CR :: char where "CR \<equiv> CHR 0x0D"
abbreviation LF :: char where "LF \<equiv> CHR 0x0A"
abbreviation SP :: char where "SP \<equiv> CHR '' ''"

subsection \<open>Validation\<close>

definition isspace :: "char \<Rightarrow> bool" where
  "isspace c \<longleftrightarrow> c \<in> {SP, CHR 0x09, CHR 0x0A, CHR 0x0B, CHR 0x0C, CHR 0x0D}"

definition isdigit :: "char \<Rightarrow> bool" where
  "isdigit c \<longleftrightarrow> 48 \<le> (of_char c :: nat) \<and> (of_char c :: nat) \<le> 57"

text \<open>The regular expressions \<^verbatim>\<open>^/\S*$\<close> and \<^verbatim>\<open>^HTTP/\d+\.\d+$\<close>, matched against the whole string.\<close>

fun isValidURI :: "string \<Rightarrow> bool" where
  "isValidURI [] = False"
| "isValidURI (c # cs) = (c = CHR ''/'' \<and> list_all (\<lambda>x. \<not> isspace x) cs)"

definition isValidHTTPVersion :: "string \<Rightarrow> bool" where
  "isValidHTTPVersion version =
     (take 5 version = ''HTTP/'' \<and>
      (let major = takeWhile isdigit (drop 5 version); rest = dropWhile isdigit (drop 5 version)
       in major \<noteq> [] \<and> rest \<noteq> [] \<and> hd rest = CHR ''.'' \<and> tl rest \<noteq> [] \<and> list_all isdigit (tl rest)))"

subsection \<open>Lines\<close>

text \<open>
  The loop of \<open>lineSplit\<close>: the number of spaces seen, the field being read, and the fields
  completed; a third space ends it.
\<close>

fun lineSplit_loop ::
  "string \<Rightarrow> nat \<Rightarrow> string \<Rightarrow> string \<Rightarrow> string \<Rightarrow> (nat \<times> string \<times> string \<times> string) option" where
  "lineSplit_loop [] spaces tmp field1 field2 = Some (spaces, field1, field2, tmp)"
| "lineSplit_loop (c # cs) spaces tmp field1 field2 =
     (if c = SP then
        if spaces + 1 = 1 then lineSplit_loop cs 1 [] tmp field2
        else if spaces + 1 = 2 then lineSplit_loop cs 2 [] field1 tmp
        else None
      else lineSplit_loop cs spaces (tmp @ [c]) field1 field2)"

definition lineSplit :: "string \<Rightarrow> (string \<times> string \<times> string) option" where
  "lineSplit line =
     (case lineSplit_loop line 0 [] [] [] of
        None \<Rightarrow> None
      | Some (spaces, field1, field2, field3) \<Rightarrow>
          if spaces \<noteq> 2 \<or> field3 = [] then None else Some (field1, field2, field3))"

definition trim :: "string \<Rightarrow> string" where
  "trim str = takeWhile (\<lambda>c. c \<noteq> SP) (dropWhile (\<lambda>c. c = SP) str)"

definition headerSplit :: "string \<Rightarrow> (string \<times> string) option" where
  "headerSplit line =
     (let colon = length (takeWhile (\<lambda>c. c \<noteq> CHR '':'') line)
      in if colon \<ge> length line then None
         else Some (trim (take colon line), trim (drop (colon + 1) line)))"

text \<open>
  \<^verbatim>\<open>std::atoi\<close>: leading white space, an optional sign, decimal digits; a value outside \<^verbatim>\<open>int\<close> is
  undefined.
\<close>

fun digits_value :: "string \<Rightarrow> int \<Rightarrow> int" where
  "digits_value [] acc = acc"
| "digits_value (c # cs) acc =
     (if isdigit c then digits_value cs (acc * 10 + (of_char c - 48)) else acc)"

definition atoi :: "string \<Rightarrow> int cpp" where
  "atoi str =
     (let s = dropWhile isspace str;
          v = (case s of
                 [] \<Rightarrow> 0
               | c # cs \<Rightarrow> if c = CHR ''-'' then - digits_value cs 0
                           else if c = CHR ''+'' then digits_value cs 0
                           else digits_value s 0)
      in if - (2 ^ 31) \<le> v \<and> v < 2 ^ 31 then Inr v else Inl Undefined_behaviour)"

definition parseRequestLine :: "string \<Rightarrow> http_request \<Rightarrow> RetCode \<times> http_request" where
  "parseRequestLine line request =
     (case lineSplit line of
        Some (method, uri, version) \<Rightarrow>
          if \<not> isValidURI uri \<or> \<not> isValidHTTPVersion version then (ERROR, request)
          else
            (let method_tmp = StringToMethod method
             in if method_tmp = method_INVALID then (ERROR, request)
                else (READY, setVersion (StringToVersion version) (setUri uri (setMethod method_tmp request))))
      | None \<Rightarrow> (ERROR, request))"

definition parseResponseLine :: "string \<Rightarrow> http_response \<Rightarrow> (RetCode \<times> http_response) cpp" where
  "parseResponseLine line response =
     (case lineSplit line of
        Some (version, state, description) \<Rightarrow>
          if \<not> isValidHTTPVersion version then Inr (ERROR, response)
          else
            cpp_bind (atoi state) (\<lambda>tmp_state.
              if StateToString tmp_state = [] then Inr (ERROR, response)
              else Inr (READY, setState tmp_state (setVersion (StringToVersion version) response)))
      | None \<Rightarrow> Inr (ERROR, response))"

text \<open>
  The loop of \<open>CRLF\<close> over the suffix at \<open>i\<close>. Both indices are of type \<^verbatim>\<open>int\<close> and \<open>j\<close> is \<open>i + 1\<close>: advancing \<open>j\<close>
  beyond \<^verbatim>\<open>INT_MAX\<close> is undefined.
\<close>

definition INT_MAX :: nat where
  "INT_MAX = 2 ^ 31 - 1"

fun CRLF_loop :: "string \<Rightarrow> nat \<Rightarrow> nat option cpp" where
  "CRLF_loop [] i = Inr None"
| "CRLF_loop [c] i = Inr None"
| "CRLF_loop (c # d # cs) i =
     (if c = CR \<and> d = LF then Inr (Some i)
      else if i + 1 = INT_MAX then Inl Undefined_behaviour
      else CRLF_loop (d # cs) (i + 1))"

definition CRLF :: "string \<Rightarrow> nat option cpp" where
  "CRLF data = CRLF_loop data 0"

subsection \<open>The stages\<close>

fun parseObjectLine :: "string \<Rightarrow> http_object \<Rightarrow> (RetCode \<times> http_object) cpp" where
  "parseObjectLine line (RequestObject r) =
     (case parseRequestLine line r of (rc, r') \<Rightarrow> Inr (rc, RequestObject r'))"
| "parseObjectLine line (ResponseObject r) =
     cpp_bind (parseResponseLine line r) (\<lambda>(rc, r'). Inr (rc, ResponseObject r'))"
| "parseObjectLine line (UnknownObject m) = Inr (ERROR, UnknownObject m)"

definition parseLine :: "string \<Rightarrow> http_object \<Rightarrow> (RetCode \<times> http_object \<times> nat) cpp" where
  "parseLine data msg =
     cpp_bind (CRLF data) (\<lambda>crlf.
       case crlf of
         None \<Rightarrow> Inr (WAITING_DATA, msg, 0)
       | Some data_len \<Rightarrow>
           cpp_bind (parseObjectLine (take data_len data) msg) (\<lambda>(retcode, msg').
             Inr (retcode, msg', if retcode = READY then data_len + 2 else 0)))"

lemma CRLF_loop_bound: "CRLF_loop s i = Inr (Some k) \<Longrightarrow> i \<le> k \<and> k + 2 \<le> i + length s"
proof (induction s i rule: CRLF_loop.induct)
  case (3 c d cs i)
  then show ?case by (auto split: if_splits)
qed simp_all

lemma CRLF_bound: "CRLF s = Inr (Some k) \<Longrightarrow> k + 2 \<le> length s"
  using CRLF_loop_bound [of s 0 k] by (simp add: CRLF_def)

function parseHeader :: "string \<Rightarrow> http_object \<Rightarrow> nat \<Rightarrow> (RetCode \<times> http_object \<times> nat) cpp" where
  "parseHeader data msg nparse =
     (case CRLF (drop nparse data) of
        Inl f \<Rightarrow> Inl f
      | Inr None \<Rightarrow> Inr (WAITING_DATA, msg, nparse)
      | Inr (Some header_len) \<Rightarrow>
          if header_len = 0 then Inr (READY, msg, nparse + 2)
          else
            (case headerSplit (take header_len (drop nparse data)) of
               Some (key, value) \<Rightarrow>
                 parseHeader data (object_setHeader key value msg) (nparse + (header_len + 2))
             | None \<Rightarrow> Inr (ERROR, msg, nparse)))"
  by pat_completeness auto
termination
  by (relation "measure (\<lambda>(data, msg, nparse). length data - nparse)") (auto dest: CRLF_bound)

declare parseHeader.simps [simp del]

text \<open>The chunk size: hexadecimal digits up to a \<^verbatim>\<open>;\<close>, in \<^verbatim>\<open>size_t\<close>.\<close>

definition hex_digit :: "char \<Rightarrow> nat option" where
  "hex_digit c =
     (let v = of_char c :: nat
      in if 48 \<le> v \<and> v \<le> 57 then Some (v - 48)
         else if 97 \<le> v \<and> v \<le> 102 then Some (v - 97 + 10)
         else if 65 \<le> v \<and> v \<le> 70 then Some (v - 65 + 10)
         else None)"

fun chunk_size_loop :: "string \<Rightarrow> nat \<Rightarrow> nat option" where
  "chunk_size_loop [] chunk_size = Some chunk_size"
| "chunk_size_loop (c # cs) chunk_size =
     (if c = CHR '';'' then Some chunk_size
      else case hex_digit c of
             Some v \<Rightarrow> chunk_size_loop cs (size_add (size_mul chunk_size 16) v)
           | None \<Rightarrow> None)"

text \<open>The trailer after the last chunk; the fields are split and ignored.\<close>

function trailer_loop :: "string \<Rightarrow> nat \<Rightarrow> (RetCode \<times> nat) cpp" where
  "trailer_loop ptr nparse =
     (if 2 \<le> length ptr then
        (case CRLF ptr of
           Inl f \<Rightarrow> Inl f
         | Inr None \<Rightarrow> Inr (WAITING_DATA, nparse)
         | Inr (Some trailer_line_len) \<Rightarrow>
             if trailer_line_len = 0 then Inr (READY, nparse + 2)
             else
               (let trailer_line_total = trailer_line_len + 2
                in trailer_loop (drop trailer_line_total ptr) (nparse + trailer_line_total)))
      else Inr (WAITING_DATA, nparse))"
  by pat_completeness auto
termination
  by (relation "measure (\<lambda>(ptr, nparse). length ptr)") (auto dest: CRLF_bound)

declare trailer_loop.simps [simp del]

text \<open>\<^verbatim>\<open>body_buf.append(ptr, n)\<close>: \<open>length_error\<close> beyond \<open>max_size\<close>, otherwise \<open>n\<close> bytes are read.\<close>

definition string_append :: "string \<Rightarrow> string \<Rightarrow> nat \<Rightarrow> string cpp" where
  "string_append buf ptr n =
     (if max_size < length buf + n then Inl Length_error
      else if length ptr < n then Inl Undefined_behaviour
      else Inr (buf @ take n ptr))"

function chunk_loop ::
  "string \<Rightarrow> http_object \<Rightarrow> nat \<Rightarrow> string \<Rightarrow> (RetCode \<times> http_object \<times> nat \<times> string) cpp" where
  "chunk_loop ptr msg nparse body_buf =
     (if ptr = [] then Inr (WAITING_DATA, msg, nparse, body_buf)
      else
        (case CRLF ptr of
           Inl f \<Rightarrow> Inl f
         | Inr None \<Rightarrow> Inr (WAITING_DATA, msg, nparse, body_buf)
         | Inr (Some size_line_len) \<Rightarrow>
             if size_line_len = 0 then Inr (ERROR, msg, nparse, body_buf)
             else
               (case chunk_size_loop (take size_line_len ptr) 0 of
                  None \<Rightarrow> Inr (ERROR, msg, nparse, body_buf)
                | Some chunk_size \<Rightarrow>
                    (let size_line_total = size_line_len + 2
                     in if size_add (size_add size_line_total chunk_size) 2 > length ptr
                        then Inr (WAITING_DATA, msg, nparse, body_buf)
                        else
                          (let ptr1 = drop size_line_total ptr; nparse1 = nparse + size_line_total
                           in if chunk_size = 0 then
                                cpp_bind (trailer_loop ptr1 nparse1) (\<lambda>(retcode, nparse2).
                                   if retcode = READY
                                   then Inr (READY, object_setBody body_buf msg, nparse2, [])
                                   else Inr (retcode, msg, nparse2, body_buf))
                              else if length ptr1 < size_add chunk_size 2
                              then Inr (WAITING_DATA, msg, nparse1, body_buf)
                              else
                                cpp_bind (string_append body_buf ptr1 chunk_size) (\<lambda>body_buf1.
                                  if \<not> chunk_size + 1 < length ptr1 then Inl Undefined_behaviour
                                  else if ptr1 ! chunk_size \<noteq> CR \<or> ptr1 ! (chunk_size + 1) \<noteq> LF
                                  then Inr (ERROR, msg, nparse1, body_buf1)
                                  else chunk_loop (drop (chunk_size + 2) ptr1) msg
                                         (nparse1 + (chunk_size + 2)) body_buf1))))))"
  by pat_completeness auto
termination
  by (relation "measure (\<lambda>(ptr, msg, nparse, body_buf). length ptr)") (auto dest: CRLF_bound)

declare chunk_loop.simps [simp del]

definition parseBody ::
  "string \<Rightarrow> http_object \<Rightarrow> nat \<Rightarrow> bool \<Rightarrow> string \<Rightarrow> (RetCode \<times> http_object \<times> nat \<times> string) cpp" where
  "parseBody data msg content_len is_chunk body_buf =
     (if \<not> is_chunk then
        if content_len = 0 then Inr (READY, object_setBody body_buf msg, 0, [])
        else
          (let need_len = size_sub content_len (length body_buf);
               read_len = min need_len (length data)
           in cpp_bind (if read_len > 0 then string_append body_buf data read_len else Inr body_buf) (\<lambda>body_buf1.
                if length body_buf1 \<ge> content_len
                then Inr (READY, object_setBody (take content_len body_buf1) msg, read_len, [])
                else Inr (WAITING_DATA, msg, read_len, body_buf1)))
      else chunk_loop data msg 0 body_buf)"

subsection \<open>Parser::Impl\<close>

datatype http_tag = LINE | HEADER | BODY | DONE

text \<open>\<open>DONE\<close> is the source's \<^verbatim>\<open>Tag::READY\<close>.\<close>

record http_parser =
  hp_tag :: http_tag
  hp_already_parse :: nat
  hp_content_length :: nat
  hp_chunked_transfer :: bool
  hp_body_buf :: string

definition http_Parser :: http_parser where
  "http_Parser = \<lparr>hp_tag = LINE, hp_already_parse = 0, hp_content_length = 0,
                  hp_chunked_transfer = False, hp_body_buf = []\<rparr>"

definition http_reset :: "http_parser \<Rightarrow> http_parser" where
  "http_reset p = p\<lparr>hp_tag := LINE, hp_already_parse := 0, hp_content_length := 0,
                    hp_chunked_transfer := False, hp_body_buf := []\<rparr>"

definition http_nparse :: "http_parser \<Rightarrow> nat" where
  "http_nparse p = hp_already_parse p"

fun http_tag_rank :: "http_tag \<Rightarrow> nat" where
  "http_tag_rank LINE = 3"
| "http_tag_rank HEADER = 2"
| "http_tag_rank BODY = 1"
| "http_tag_rank DONE = 0"

text \<open>What \<open>Impl::parse\<close> does when the headers are complete: the body's length and coding.\<close>

definition enter_body :: "http_parser \<Rightarrow> nat \<Rightarrow> http_object \<Rightarrow> http_parser cpp" where
  "enter_body p np msg =
     cpp_bind (atoi (object_getHeader ''Content-Length'' ''0'' msg)) (\<lambda>n.
       let content_length = size_of_int n;
           p1 = p\<lparr>hp_already_parse := hp_already_parse p + np, hp_tag := BODY,
                  hp_content_length := content_length,
                  hp_chunked_transfer :=
                    (if object_getHeader ''Transfer-Encoding'' ''No Transfer-Encoding'' msg = ''chunked''
                     then True else hp_chunked_transfer p)\<rparr>
       in if max_size < content_length then Inl Length_error else Inr p1)"

lemma enter_body_tag: "enter_body p np msg = Inr p1 \<Longrightarrow> hp_tag p1 = BODY"
  by (auto simp: enter_body_def cpp_bind_eq_Inr_iff Let_def split: if_splits)

function http_parse ::
  "http_parser \<Rightarrow> string \<Rightarrow> http_object \<Rightarrow> (RetCode \<times> http_parser \<times> http_object) cpp" where
  "http_parse p data msg =
     (if hp_tag p = DONE then Inr (READY, p, msg)
      else if length data < hp_already_parse p then Inl Undefined_behaviour
      else
        (case hp_tag p of
           LINE \<Rightarrow>
             cpp_bind (parseLine data msg) (\<lambda>(retcode, msg', np).
               if retcode = READY
               then http_parse (p\<lparr>hp_already_parse := hp_already_parse p + np, hp_tag := HEADER\<rparr>) data msg'
               else Inr (retcode, p, msg'))
         | HEADER \<Rightarrow>
             cpp_bind (parseHeader (drop (hp_already_parse p) data) msg 0) (\<lambda>(retcode, msg', np).
               if retcode = READY then
                 cpp_bind (enter_body p np msg') (\<lambda>p1. http_parse p1 data msg')
               else if retcode = WAITING_DATA
               then Inr (retcode, p\<lparr>hp_already_parse := hp_already_parse p + np\<rparr>, msg')
               else Inr (retcode, p, msg'))
         | BODY \<Rightarrow>
             cpp_bind (parseBody (drop (hp_already_parse p) data) msg (hp_content_length p)
                         (hp_chunked_transfer p) (hp_body_buf p))
               (\<lambda>(retcode, msg', np, body_buf).
               if retcode = READY
               then http_parse (p\<lparr>hp_already_parse := hp_already_parse p + np, hp_tag := DONE,
                                  hp_body_buf := body_buf\<rparr>) data msg'
               else if retcode = WAITING_DATA
               then Inr (retcode, p\<lparr>hp_already_parse := hp_already_parse p + np,
                                    hp_body_buf := body_buf\<rparr>, msg')
               else Inr (retcode, p\<lparr>hp_body_buf := body_buf\<rparr>, msg'))))"
  by pat_completeness auto
termination
  by (relation "measure (\<lambda>(p, data, msg). http_tag_rank (hp_tag p))") (auto dest: enter_body_tag)

declare http_parse.simps [simp del]

end
