(* ===== verification/Http_Laws.thy ===== *)
theory Http_Laws
  imports Http_Parser
begin

section \<open>Bounds and incremental laws of the HTTP parser\<close>

text \<open>
  Each stage consumes no more than it is given, its final answers do not change when more data
  follow, and after \<open>WAITING_DATA\<close> it continues where it stopped, for the start line, the headers
  and a body with a length. The stages compose to the contract of incremental parsing. Chunked
  bodies keep all laws but the last one, so the contract's safe states are those of
  messages that are not chunked.
\<close>

lemma CRLF_Nil [simp]: "CRLF [] = Inr None"
  by (simp add: CRLF_def)

lemma CRLF_loop_append: "CRLF_loop s i \<noteq> Inr None \<Longrightarrow> CRLF_loop (s @ x) i = CRLF_loop s i"
  by (induction s i rule: CRLF_loop.induct) (auto split: if_splits)

lemma CRLF_append:
  "CRLF s = Inr (Some k) \<Longrightarrow> CRLF (s @ x) = Inr (Some k)" "CRLF s = Inl f \<Longrightarrow> CRLF (s @ x) = Inl f"
  using CRLF_loop_append [of s 0 x] by (auto simp: CRLF_def)

lemma CRLF_SomeD: "CRLF s = Inr (Some k) \<Longrightarrow> k \<le> length s" "CRLF s = Inr (Some k) \<Longrightarrow> k + 2 \<le> length s"
  using CRLF_bound [of s k] by auto

text \<open>The search faults only on data longer than \<^verbatim>\<open>INT_MAX\<close>.\<close>

lemma CRLF_loop_small: "i + length s \<le> INT_MAX \<Longrightarrow> CRLF_loop s i \<noteq> Inl f"
  by (induction s i rule: CRLF_loop.induct) auto

lemma CRLF_small: "length s \<le> INT_MAX \<Longrightarrow> CRLF s \<noteq> Inl f"
  using CRLF_loop_small [of 0 s f] by (simp add: CRLF_def)

subsection \<open>Headers\<close>

lemma parseHeader_fault: "CRLF (drop np data) = Inl f \<Longrightarrow> parseHeader data msg np = Inl f"
  by (subst parseHeader.simps) simp

lemma parseHeader_wait: "CRLF (drop np data) = Inr None \<Longrightarrow> parseHeader data msg np = Inr (WAITING_DATA, msg, np)"
  by (subst parseHeader.simps) simp

lemma parseHeader_end: "CRLF (drop np data) = Inr (Some 0) \<Longrightarrow> parseHeader data msg np = Inr (READY, msg, np + 2)"
  by (subst parseHeader.simps) simp

lemma parseHeader_bad:
  "CRLF (drop np data) = Inr (Some k) \<Longrightarrow> k \<noteq> 0 \<Longrightarrow> headerSplit (take k (drop np data)) = None \<Longrightarrow>
   parseHeader data msg np = Inr (ERROR, msg, np)"
  by (subst parseHeader.simps) simp

lemma parseHeader_next:
  "CRLF (drop np data) = Inr (Some k) \<Longrightarrow> k \<noteq> 0 \<Longrightarrow> headerSplit (take k (drop np data)) = Some (key, val) \<Longrightarrow>
   parseHeader data msg np = parseHeader data (object_setHeader key val msg) (np + (k + 2))"
  by (subst parseHeader.simps) simp

lemmas parseHeader_steps = parseHeader_fault parseHeader_wait parseHeader_end parseHeader_bad parseHeader_next

lemma parseHeader_induct [case_names faulted waiting finished bad more]:
  assumes "\<And>msg np f. CRLF (drop np data) = Inl f \<Longrightarrow> P msg np"
    and "\<And>msg np. CRLF (drop np data) = Inr None \<Longrightarrow> P msg np"
    and "\<And>msg np. CRLF (drop np data) = Inr (Some 0) \<Longrightarrow> np + 2 \<le> length data \<Longrightarrow> P msg np"
    and "\<And>msg np k. CRLF (drop np data) = Inr (Some k) \<Longrightarrow> k \<noteq> 0 \<Longrightarrow> np + (k + 2) \<le> length data \<Longrightarrow>
           headerSplit (take k (drop np data)) = None \<Longrightarrow> P msg np"
    and "\<And>msg np k key val. CRLF (drop np data) = Inr (Some k) \<Longrightarrow> k \<noteq> 0 \<Longrightarrow> np + (k + 2) \<le> length data \<Longrightarrow>
           headerSplit (take k (drop np data)) = Some (key, val) \<Longrightarrow>
           P (object_setHeader key val msg) (np + (k + 2)) \<Longrightarrow> P msg np"
  shows "P msg np"
proof (induction "length data - np" arbitrary: msg np rule: less_induct)
  case less
  consider (faulted) f where "CRLF (drop np data) = Inl f" | (waiting) "CRLF (drop np data) = Inr None"
    | (found) k where "CRLF (drop np data) = Inr (Some k)"
    by (metis not_None_eq sumE)
  then show ?case
  proof cases
    case faulted
    then show ?thesis by (rule assms(1))
  next
    case waiting
    then show ?thesis by (rule assms(2))
  next
    case (found k)
    have k: "np + (k + 2) \<le> length data" using CRLF_SomeD(2) [OF found] by simp
    then have IH: "P m (np + (k + 2))" for m by (intro less) simp
    show ?thesis
    proof (cases "k = 0")
      case True
      then show ?thesis using assms(3) found k by simp
    next
      case False
      show ?thesis
      proof (cases "headerSplit (take k (drop np data))")
        case None
        then show ?thesis using assms(4) [OF found False k] by simp
      next
        case (Some kv)
        then show ?thesis
          using assms(5) [OF found False k] IH by (cases kv) simp
      qed
    qed
  qed
qed

lemma parseHeader_bounds:
  "parseHeader data msg np = Inr (rc, msg', np') \<Longrightarrow> np \<le> length data \<Longrightarrow> np \<le> np' \<and> np' \<le> length data"
  by (induction msg np rule: parseHeader_induct [where data = data]) (auto simp: parseHeader_steps)

lemma parseHeader_shift:
  "parseHeader data msg (k + np) =
     cpp_bind (parseHeader (drop k data) msg np) (\<lambda>(rc, msg', n). Inr (rc, msg', k + n))"
proof (induction msg np rule: parseHeader_induct [where data = "drop k data"])
  case (more msg np l key val)
  then show ?case by (simp add: parseHeader_next add.assoc add.commute [of _ k])
qed (simp_all add: parseHeader_steps add.commute [of _ k] split: prod.splits)

lemma parseHeader_append:
  "np \<le> length data \<Longrightarrow>
   parseHeader (data @ x) msg np =
     cpp_bind (parseHeader data msg np) (\<lambda>(rc, msg', np').
       if rc = WAITING_DATA then parseHeader (data @ x) msg' np' else Inr (rc, msg', np'))"
proof (induction msg np rule: parseHeader_induct [where data = data])
  case (faulted msg np f)
  then have "CRLF (drop np (data @ x)) = Inl f"
    using CRLF_append(2) [OF faulted(1)] by simp
  then show ?case using faulted by (simp add: parseHeader_fault del: drop_append)
next
  case (waiting msg np)
  then show ?case by (simp add: parseHeader_wait)
next
  case (finished msg np)
  then have "CRLF (drop np (data @ x)) = Inr (Some 0)"
    using CRLF_append(1) [OF finished(1)] by simp
  then show ?case using finished by (auto simp: parseHeader_end)
next
  case (bad msg np k)
  then have "CRLF (drop np (data @ x)) = Inr (Some k)" "take k (drop np (data @ x)) = take k (drop np data)"
    using CRLF_append(1) [OF bad(1)] by simp_all
  then show ?case using bad by (auto simp: parseHeader_bad simp del: take_append drop_append)
next
  case (more msg np k key val)
  then have "CRLF (drop np (data @ x)) = Inr (Some k)" "take k (drop np (data @ x)) = take k (drop np data)"
    using CRLF_append(1) [OF more(1)] by simp_all
  then show ?case using more by (auto simp: parseHeader_next simp del: take_append drop_append)
qed

subsection \<open>Chunked bodies\<close>

lemma trailer_loop_step:
  "trailer_loop ptr np =
     (case CRLF ptr of
        Inl f \<Rightarrow> Inl f
      | Inr None \<Rightarrow> Inr (WAITING_DATA, np)
      | Inr (Some k) \<Rightarrow> if k = 0 then Inr (READY, np + 2) else trailer_loop (drop (k + 2) ptr) (np + (k + 2)))"
proof (cases "2 \<le> length ptr")
  case False
  then have "CRLF ptr = Inr None"
    by (cases ptr rule: remdups_adj.cases) (auto simp: CRLF_def)
  then show ?thesis by (subst trailer_loop.simps) simp
qed (subst trailer_loop.simps, simp add: Let_def split: option.split sum.split)

lemma trailer_loop_laws:
  "case trailer_loop ptr np of
     Inl f \<Rightarrow> trailer_loop (ptr @ x) np = Inl f
   | Inr (rc, np') \<Rightarrow>
       rc \<noteq> ERROR \<and> np \<le> np' \<and> np' \<le> np + length ptr \<and>
       (rc = READY \<longrightarrow> np + 2 \<le> np' \<and> trailer_loop (ptr @ x) np = Inr (READY, np'))"
proof (induction "length ptr" arbitrary: ptr np rule: less_induct)
  case less
  consider (faulted) f where "CRLF ptr = Inl f" | (waiting) "CRLF ptr = Inr None" | (found) k where "CRLF ptr = Inr (Some k)"
    by (metis not_None_eq sumE)
  then show ?case
  proof cases
    case faulted
    then show ?thesis using CRLF_append(2) [OF faulted, of x] by (simp add: trailer_loop_step)
  next
    case waiting
    then show ?thesis by (simp add: trailer_loop_step)
  next
    case (found k)
    note k = CRLF_SomeD(2) [OF found] and app = CRLF_append(1) [OF found, of x]
    show ?thesis
    proof (cases "k = 0")
      case True
      then show ?thesis
        using found k app by (simp add: trailer_loop_step [of ptr] trailer_loop_step [of "ptr @ x"])
    next
      case False
      then have r: "trailer_loop ptr np = trailer_loop (drop (k + 2) ptr) (np + (k + 2))"
        using found by (subst trailer_loop_step) simp
      have "trailer_loop (ptr @ x) np = trailer_loop (drop (k + 2) ptr @ x) (np + (k + 2))"
        using False app k by (subst trailer_loop_step) simp
      moreover have "length (drop (k + 2) ptr) < length ptr" using k by simp
      note less(1) [OF this, of "np + (k + 2)"]
      ultimately show ?thesis
        using k unfolding r by (auto split: sum.splits)
    qed
  qed
qed

lemma chunk_size_loop_lt: "chunk_size_loop s acc = Some c \<Longrightarrow> acc < size_mod \<Longrightarrow> c < size_mod"
  by (induction s acc rule: chunk_size_loop.induct) (auto split: if_splits option.splits)

text \<open>A size line of \<open>k\<close> characters that announces \<open>cs\<close> bytes and passes the first length check.\<close>

definition chunk_at :: "string \<Rightarrow> nat \<Rightarrow> nat \<Rightarrow> bool" where
  "chunk_at ptr k cs \<longleftrightarrow>
     CRLF ptr = Inr (Some k) \<and> k \<noteq> 0 \<and> chunk_size_loop (take k ptr) 0 = Some cs \<and>
     size_add (size_add (k + 2) cs) 2 \<le> length ptr"

lemma chunk_atD:
  assumes "chunk_at ptr k cs"
  shows "k + 2 \<le> length ptr" and "cs < size_mod" and "chunk_at (ptr @ x) k cs"
proof -
  show k: "k + 2 \<le> length ptr"
    using assms CRLF_SomeD(2) by (auto simp: chunk_at_def)
  show "cs < size_mod"
    using assms chunk_size_loop_lt by (auto simp: chunk_at_def)
  show "chunk_at (ptr @ x) k cs"
    using assms k CRLF_append by (auto simp: chunk_at_def)
qed

text \<open>If the second length check passes without wrapping, the chunk and its line end are there.\<close>

lemma size_add_2_le:
  assumes "size_add cs 2 \<le> n" and "cs < size_mod" and "\<not> max_size < b + cs"
  shows "cs + 2 \<le> n"
  using assms by (simp add: size_add_def size_mod_def max_size_def)

lemma chunk_loop_last:
  "chunk_at ptr k 0 \<Longrightarrow>
   chunk_loop ptr msg np body =
     cpp_bind (trailer_loop (drop (k + 2) ptr) (np + (k + 2))) (\<lambda>(rc, np2).
        if rc = READY then Inr (READY, object_setBody body msg, np2, []) else Inr (rc, msg, np2, body))"
  by (subst chunk_loop.simps) (auto simp: chunk_at_def Let_def split: prod.splits)

lemma chunk_loop_chunk:
  assumes "chunk_at ptr k cs" and "cs \<noteq> 0"
  shows "chunk_loop ptr msg np body =
     (if length (drop (k + 2) ptr) < size_add cs 2 then Inr (WAITING_DATA, msg, np + (k + 2), body)
      else if max_size < length body + cs then Inl Length_error
      else if take 2 (drop cs (drop (k + 2) ptr)) \<noteq> CRLF_str
      then Inr (ERROR, msg, np + (k + 2), body @ take cs (drop (k + 2) ptr))
      else chunk_loop (drop (cs + 2) (drop (k + 2) ptr)) msg (np + (k + 2) + (cs + 2))
             (body @ take cs (drop (k + 2) ptr)))"
proof -
  define ptr1 where "ptr1 = drop (k + 2) ptr"
  have f: "ptr \<noteq> []" "CRLF ptr = Inr (Some k)" "chunk_size_loop (take k ptr) 0 = Some cs"
    "\<not> length ptr < size_add (size_add (k + 2) cs) 2" "k \<noteq> 0"
    using assms(1) by (auto simp: chunk_at_def)
  note unfold = chunk_loop.simps [of ptr msg np body, unfolded f(2) sum.case option.case, unfolded f(3) option.case Let_def,
      folded ptr1_def]
  consider (short) "length ptr1 < size_add cs 2" | (huge) "\<not> length ptr1 < size_add cs 2" "max_size < length body + cs"
    | (there) "\<not> length ptr1 < size_add cs 2" "\<not> max_size < length body + cs"
    by blast
  then show ?thesis
  proof cases
    case short
    then show ?thesis
      unfolding ptr1_def [symmetric] using f assms(2) by (subst unfold) simp
  next
    case huge
    then show ?thesis
      unfolding ptr1_def [symmetric] using f assms(2)
      by (subst unfold) (simp add: string_append_def)
  next
    case there
    have len: "cs + 2 \<le> length ptr1"
      using there chunk_atD(2) [OF assms(1)] size_add_2_le by (meson not_less)
    have "take 2 (drop cs ptr1) = [ptr1 ! cs, ptr1 ! (cs + 1)]"
      using len by (simp add: numeral_2_eq_2 take_Suc_conv_app_nth)
    then have eq: "take 2 (drop cs ptr1) \<noteq> CRLF_str \<longleftrightarrow> ptr1 ! cs \<noteq> CR \<or> ptr1 ! (cs + 1) \<noteq> LF"
      by (simp add: CRLF_str_def)
    show ?thesis
      unfolding ptr1_def [symmetric] using f there len assms(2)
      by (subst unfold) (simp add: string_append_def eq del: drop_drop)
  qed
qed

lemma chunk_loop_bad:
  "CRLF ptr = Inr (Some k) \<Longrightarrow> k = 0 \<or> chunk_size_loop (take k ptr) 0 = None \<Longrightarrow>
   chunk_loop ptr msg np body = Inr (ERROR, msg, np, body)"
  by (subst chunk_loop.simps) auto

lemma chunk_loop_wait:
  "CRLF ptr = Inr None \<or> (\<exists>k cs. CRLF ptr = Inr (Some k) \<and> k \<noteq> 0 \<and> chunk_size_loop (take k ptr) 0 = Some cs \<and>
     \<not> chunk_at ptr k cs) \<Longrightarrow>
   chunk_loop ptr msg np body = Inr (WAITING_DATA, msg, np, body)"
  by (subst chunk_loop.simps) (auto simp: chunk_at_def Let_def)

lemma chunk_loop_fault: "CRLF ptr = Inl f \<Longrightarrow> chunk_loop ptr msg np body = Inl f"
  by (subst chunk_loop.simps) auto

lemma chunk_loop_cases:
  obtains (waiting) "chunk_loop ptr msg np body = Inr (WAITING_DATA, msg, np, body)"
  | (faulted) f where "CRLF ptr = Inl f"
  | (bad) k where "CRLF ptr = Inr (Some k)" and "k = 0 \<or> chunk_size_loop (take k ptr) 0 = None"
  | (last) k where "chunk_at ptr k 0"
  | (chunk) k cs where "chunk_at ptr k cs" and "cs \<noteq> 0"
  using chunk_loop_wait [of ptr msg np body] chunk_at_def [of ptr]
  by (cases "CRLF ptr"; cases "projr (CRLF ptr)"; cases "chunk_size_loop (take (the (projr (CRLF ptr))) ptr) 0") auto

lemma chunk_loop_laws:
  "case chunk_loop ptr msg np body of
     Inl f \<Rightarrow> chunk_loop (ptr @ x) msg np body = Inl f
   | Inr (rc, msg', np', body') \<Rightarrow>
       np \<le> np' \<and> np' \<le> np + length ptr \<and>
       (rc \<noteq> WAITING_DATA \<longrightarrow> chunk_loop (ptr @ x) msg np body = Inr (rc, msg', np', body'))"
proof (induction "length ptr" arbitrary: ptr np body rule: less_induct)
  case less
  show ?case
  proof (cases ptr msg np body rule: chunk_loop_cases)
    case waiting
    then show ?thesis by simp
  next
    case (faulted f)
    then show ?thesis using CRLF_append(2) [OF faulted, of x] by (simp add: chunk_loop_fault)
  next
    case (bad k)
    then have "chunk_loop (ptr @ x) msg np body = Inr (ERROR, msg, np, body)"
      using CRLF_append(1) [OF bad(1)] CRLF_SomeD(1) [OF bad(1)] by (intro chunk_loop_bad) auto
    then show ?thesis using chunk_loop_bad [OF bad] by simp
  next
    case (last k)
    define rest where "rest = drop (k + 2) ptr"
    have app: "drop (k + 2) (ptr @ x) = rest @ x" and len: "length rest + (k + 2) = length ptr"
      using chunk_atD(1) [OF last] by (simp_all add: rest_def)
    note laws = trailer_loop_laws [where ptr = rest and np = "np + (k + 2)" and x = x]
      and step = chunk_loop_last [OF last, of msg np body, folded rest_def]
      and step_x = chunk_loop_last [OF chunk_atD(3) [OF last], of x msg np body, unfolded app]
    show ?thesis
    proof (cases "trailer_loop rest (np + (k + 2))")
      case (Inl f)
      then show ?thesis using laws by (simp add: step step_x)
    next
      case (Inr res)
      obtain rc np2 where "res = (rc, np2)" by (cases res)
      then show ?thesis
        using laws len Inr by (cases rc) (simp_all add: step step_x)
    qed
  next
    case (chunk k cs)
    define ptr1 where "ptr1 = drop (k + 2) ptr"
    note k = chunk_atD(1) [OF chunk(1)] and lt = chunk_atD(2) [OF chunk(1)]
    have app: "drop (k + 2) (ptr @ x) = ptr1 @ x"
      using k by (simp add: ptr1_def)
    note step = chunk_loop_chunk [OF chunk, of msg np body, folded ptr1_def]
      and step_x = chunk_loop_chunk [OF chunk_atD(3) [OF chunk(1)] chunk(2), of x msg np body, unfolded app]
    show ?thesis
    proof (cases "length ptr1 < size_add cs 2 \<or> max_size < length body + cs")
      case True
      then show ?thesis using k by (auto simp: step step_x)
    next
      case False
      note fits = this
      then have len: "cs + 2 \<le> length ptr1"
        using size_add_2_le [OF _ lt] by (meson not_less)
      then have tk: "take cs (ptr1 @ x) = take cs ptr1"
        "take 2 (drop cs (ptr1 @ x)) = take 2 (drop cs ptr1)"
        "drop (cs + 2) (ptr1 @ x) = drop (cs + 2) ptr1 @ x"
        by simp_all
      have l1: "length ptr1 + (k + 2) = length ptr" using k by (simp add: ptr1_def)
      show ?thesis
      proof (cases "take 2 (drop cs ptr1) = CRLF_str")
        case False
        then show ?thesis using fits l1 unfolding step step_x tk by auto
      next
        case True
        have "length (drop (cs + 2) ptr1) < length ptr" using l1 by simp
        note IH = less(1) [OF this, of "np + (k + 2) + (cs + 2)" "body @ take cs ptr1"]
        have "chunk_loop ptr msg np body
            = chunk_loop (drop (cs + 2) ptr1) msg (np + (k + 2) + (cs + 2)) (body @ take cs ptr1)"
          using True fits by (simp only: step) auto
        moreover have "chunk_loop (ptr @ x) msg np body
            = chunk_loop (drop (cs + 2) ptr1 @ x) msg (np + (k + 2) + (cs + 2)) (body @ take cs ptr1)"
          using True fits by (simp only: step_x tk) auto
        ultimately show ?thesis
          using IH len l1 by (auto split: sum.splits prod.splits)
      qed
    qed
  qed
qed

subsection \<open>The stages of Impl::parse\<close>

definition http_valid :: "http_parser \<Rightarrow> bool" where
  "http_valid p \<longleftrightarrow>
     (hp_tag p = LINE \<longrightarrow> hp_already_parse p = 0) \<and>
     (hp_tag p = LINE \<or> hp_tag p = HEADER \<longrightarrow> hp_body_buf p = []) \<and>
     (hp_tag p = BODY \<and> \<not> hp_chunked_transfer p \<longrightarrow>
        length (hp_body_buf p) \<le> hp_content_length p \<and> hp_content_length p \<le> max_size)"

definition http_safe :: "http_parser \<Rightarrow> bool" where
  "http_safe p \<longleftrightarrow> \<not> hp_chunked_transfer p"

abbreviation http_call_ok :: "http_parser \<Rightarrow> string \<Rightarrow> http_object \<Rightarrow> bool" where
  "http_call_ok \<equiv> call_ok http_parse http_nparse http_valid http_safe (\<lambda>p q. http_safe p = http_safe q)"

lemma http_valid_Parser [simp]: "http_valid http_Parser" "http_nparse http_Parser = 0" "http_reset p = http_Parser"
  by (simp_all add: http_valid_def http_Parser_def http_nparse_def http_reset_def)

lemma http_parse_DONE [simp]: "hp_tag p = DONE \<Longrightarrow> http_parse p data msg = Inr (READY, p, msg)"
  by (subst http_parse.simps) simp

lemma http_parse_BODY:
  "hp_tag p = BODY \<Longrightarrow> hp_already_parse p \<le> length data \<Longrightarrow>
   http_parse p data msg =
     cpp_bind (parseBody (drop (hp_already_parse p) data) msg (hp_content_length p)
                 (hp_chunked_transfer p) (hp_body_buf p))
       (\<lambda>(rc, msg', np, body).
          Inr (rc,
            (if rc = READY then p\<lparr>hp_already_parse := hp_already_parse p + np, hp_tag := DONE, hp_body_buf := body\<rparr>
             else if rc = WAITING_DATA
             then p\<lparr>hp_already_parse := hp_already_parse p + np, hp_body_buf := body\<rparr>
             else p\<lparr>hp_body_buf := body\<rparr>), msg'))"
  by (subst http_parse.simps)
     (cases "parseBody (drop (hp_already_parse p) data) msg (hp_content_length p)
               (hp_chunked_transfer p) (hp_body_buf p)", auto)

lemma http_parse_HEADER:
  "hp_tag p = HEADER \<Longrightarrow> hp_already_parse p \<le> length data \<Longrightarrow>
   http_parse p data msg =
     cpp_bind (parseHeader (drop (hp_already_parse p) data) msg 0) (\<lambda>(rc, msg', np).
        if rc = READY then cpp_bind (enter_body p np msg') (\<lambda>p1. http_parse p1 data msg')
        else if rc = WAITING_DATA then Inr (rc, p\<lparr>hp_already_parse := hp_already_parse p + np\<rparr>, msg')
        else Inr (rc, p, msg'))"
  by (subst http_parse.simps) simp

lemma http_parse_LINE:
  "hp_tag p = LINE \<Longrightarrow> hp_already_parse p \<le> length data \<Longrightarrow>
   http_parse p data msg =
     cpp_bind (parseLine data msg) (\<lambda>(rc, msg', np).
       if rc = READY
       then http_parse (p\<lparr>hp_already_parse := hp_already_parse p + np, hp_tag := HEADER\<rparr>) data msg'
       else Inr (rc, p, msg'))"
  by (subst http_parse.simps) simp

lemma enter_body_chunked: "enter_body p np m = Inr p1 \<Longrightarrow> hp_chunked_transfer p \<Longrightarrow> hp_chunked_transfer p1"
  by (auto simp: enter_body_def cpp_bind_eq_Inr_iff Let_def split: if_splits)

text \<open>Once a body is chunked it stays so.\<close>

lemma http_parse_chunked:
  "http_parse p d m = Inr (r, q, m') \<Longrightarrow> hp_chunked_transfer p \<Longrightarrow> hp_chunked_transfer q"
proof (induction p d m rule: http_parse.induct)
  case (1 p d m)
  show ?case
    using 1(4,5) 1(1-3)
    by (subst (asm) http_parse.simps)
       (auto simp: cpp_bind_eq_Inr_iff enter_body_chunked split: if_splits prod.splits http_tag.splits)
qed

lemma http_ends_unsafe: "hp_chunked_transfer p \<Longrightarrow> ends_unsafe http_safe (http_parse p d m)"
  using http_parse_chunked [of p d m] by (auto simp: ends_unsafe_def http_safe_def split: sum.split)

lemma http_call_ok_chunked:
  assumes "hp_tag p = BODY" and "hp_chunked_transfer p" and "hp_already_parse p \<le> length d"
  shows "http_call_ok p d m"
proof -
  define a where "a = hp_already_parse p"
  have eq: "http_parse p (d @ x) m =
     cpp_bind (chunk_loop (drop a d @ x) m 0 (hp_body_buf p))
       (\<lambda>(rc, msg', np, body).
          Inr (rc,
            (if rc = READY then p\<lparr>hp_already_parse := a + np, hp_tag := DONE, hp_body_buf := body\<rparr>
             else if rc = WAITING_DATA
             then p\<lparr>hp_already_parse := a + np, hp_body_buf := body\<rparr>
             else p\<lparr>hp_body_buf := body\<rparr>), msg'))" for x
    unfolding a_def using assms by (simp add: http_parse_BODY parseBody_def)
  note laws = chunk_loop_laws [where ptr = "drop a d" and msg = m and np = 0 and body = "hp_body_buf p"]
  have eq0: "http_parse p d m = http_parse p (d @ []) m" by simp
  have unsafe: "ends_unsafe http_safe (http_parse p (d @ x) m)" for x
    by (rule http_ends_unsafe [OF assms(2)])
  note unsafe = this [unfolded eq]
  show ?thesis
  proof (cases "chunk_loop (drop a d) m 0 (hp_body_buf p)")
    case (Inl f)
    then show ?thesis
      using laws unfolding call_ok_def eq0 eq by simp
  next
    case (Inr res)
    obtain rc m' n b where res: "res = (rc, m', n, b)" by (cases res) auto
    have "n \<le> length (drop a d)"
      using laws [of "[]"] by (simp add: Inr res)
    then have n: "a + n \<le> length d"
      using assms(3) by (simp add: a_def)
    have stable: "chunk_loop (drop a d @ x) m 0 (hp_body_buf p) = Inr (rc, m', n, b)" if "rc \<noteq> WAITING_DATA" for x
      using laws that by (simp add: Inr res)
    show ?thesis
      unfolding call_ok_def eq0 eq
      using n stable assms unsafe
      by (cases rc) (simp_all add: Inr res http_nparse_def http_valid_def http_safe_def flip: a_def)
  qed
qed

text \<open>A body with a length: the bytes still needed are taken when they are all there.\<close>

definition body_need :: "http_parser \<Rightarrow> nat" where
  "body_need p = hp_content_length p - length (hp_body_buf p)"

lemma http_parse_length:
  assumes "hp_tag p = BODY" and "\<not> hp_chunked_transfer p" and "http_valid p"
    and "hp_already_parse p \<le> length data"
  shows "http_parse p data m =
    (if hp_already_parse p + body_need p \<le> length data
     then Inr (READY, p\<lparr>hp_already_parse := hp_already_parse p + body_need p, hp_tag := DONE, hp_body_buf := []\<rparr>,
               object_setBody (hp_body_buf p @ take (body_need p) (drop (hp_already_parse p) data)) m)
     else Inr (WAITING_DATA, p\<lparr>hp_already_parse := length data,
                 hp_body_buf := hp_body_buf p @ drop (hp_already_parse p) data\<rparr>, m))"
proof -
  have cl: "length (hp_body_buf p) \<le> hp_content_length p" "hp_content_length p < size_mod"
    using assms max_size_lt_size_mod by (auto simp: http_valid_def)
  then have need: "size_sub (hp_content_length p) (length (hp_body_buf p)) = body_need p"
    by (simp add: size_arith body_need_def)
  have sum: "length (hp_body_buf p) + body_need p = hp_content_length p"
    and diff: "hp_content_length p - length (hp_body_buf p) = body_need p"
    using cl by (simp_all add: body_need_def)
  have "parseBody (drop (hp_already_parse p) data) m (hp_content_length p) False (hp_body_buf p) =
    (if hp_already_parse p + body_need p \<le> length data
     then Inr (READY, object_setBody (hp_body_buf p @ take (body_need p) (drop (hp_already_parse p) data)) m,
               body_need p, [])
     else Inr (WAITING_DATA, m, length data - hp_already_parse p, hp_body_buf p @ drop (hp_already_parse p) data))"
    using sum need diff assms(3,4) by (auto simp: parseBody_def Let_def min_def string_append_def http_valid_def assms(1,2))
  then show ?thesis
    using assms by (simp add: http_parse_BODY)
qed

lemma http_call_ok_length:
  assumes p: "hp_tag p = BODY" "\<not> hp_chunked_transfer p" "http_valid p"
    and len: "hp_already_parse p \<le> length d"
  shows "http_call_ok p d m"
proof (cases "hp_already_parse p + body_need p \<le> length d")
  case True
  then show ?thesis
    using True p len
    by (simp add: call_ok_def http_parse_length http_nparse_def http_valid_def http_safe_def
        del: take_append drop_append)
next
  case False
  define p' where "p' = p\<lparr>hp_already_parse := length d,
    hp_body_buf := hp_body_buf p @ drop (hp_already_parse p) d\<rparr>"
  have p': "hp_tag p' = BODY" "\<not> hp_chunked_transfer p'" "http_valid p'"
    "hp_already_parse p' = length d" "hp_body_buf p' = hp_body_buf p @ drop (hp_already_parse p) d"
    using p False by (auto simp: p'_def http_valid_def body_need_def)
  have need: "body_need p = length (drop (hp_already_parse p) d) + body_need p'"
    using False len by (simp add: body_need_def p'_def)
  have "http_parse p' (d @ x) m = http_parse p (d @ x) m" for x
    using p p' len need
    by (simp add: http_parse_length) (auto simp: p'_def)
  then show ?thesis
    using False p len p'
    by (simp add: call_ok_def http_parse_length http_nparse_def http_safe_def p'_def)
qed

lemma http_call_ok_BODY:
  "hp_tag p = BODY \<Longrightarrow> http_valid p \<Longrightarrow> hp_already_parse p \<le> length d \<Longrightarrow> http_call_ok p d m"
  using http_call_ok_chunked http_call_ok_length by blast

lemma enter_body_laws:
  assumes "enter_body p np msg = Inr p1" and "hp_body_buf p = []"
  shows "hp_tag p1 = BODY" and "hp_already_parse p1 = hp_already_parse p + np" and "http_valid p1"
    and "http_safe p1 \<Longrightarrow> http_safe p"
  using assms
  by (auto simp: enter_body_def cpp_bind_eq_Inr_iff Let_def http_valid_def http_safe_def split: if_splits)

lemma http_call_ok_HEADER:
  assumes p: "hp_tag p = HEADER" "http_valid p" and len: "hp_already_parse p \<le> length d"
  shows "http_call_ok p d m"
proof -
  define a where "a = hp_already_parse p"
  note parse = http_parse_HEADER [OF p(1), folded a_def]
  have len_x: "a \<le> length (d @ x)" for x using len by (simp add: a_def)
  have len_drop: "drop a (d @ x) = drop a d @ x" for x using len by (simp add: a_def)
  have app: "parseHeader (drop a (d @ x)) m 0 =
      cpp_bind (parseHeader (drop a d) m 0) (\<lambda>(rc, m', np).
        if rc = WAITING_DATA then parseHeader (drop a (d @ x)) m' np else Inr (rc, m', np))" for x
    unfolding len_drop by (rule parseHeader_append) simp
  show ?thesis
  proof (cases "parseHeader (drop a d) m 0")
    case (Inl f)
    then show ?thesis
      using app len_x [of "[]"] len_x by (simp add: call_ok_def parse del: drop_append)
  next
    case (Inr res)
    then obtain rc m' np where h: "parseHeader (drop a d) m 0 = Inr (rc, m', np)" by (cases res) auto
  have np: "a + np \<le> length d"
    using parseHeader_bounds [OF h] len by (simp add: a_def)
  have body: "hp_body_buf p = []" using p by (simp add: http_valid_def)
  have h_x: "parseHeader (drop a (d @ x)) m 0 =
      (if rc = WAITING_DATA then parseHeader (drop a (d @ x)) m' np else Inr (rc, m', np))" for x
    by (simp add: app h del: drop_append)
  show ?thesis
  proof (cases rc)
    case READY
    show ?thesis
    proof (cases "enter_body p np m'")
      case (Inl f)
      then show ?thesis
        using h h_x READY len len_x by (simp add: call_ok_def parse a_def)
    next
      case (Inr p1)
      note p1 = enter_body_laws [OF Inr body]
      have step: "http_parse p (d @ x) m = http_parse p1 (d @ x) m'" for x
        using h_x [of x] READY len_x [of x] by (simp add: parse Inr del: drop_append)
      show ?thesis
        by (rule call_ok_step, rule step)
           (use p1 np in \<open>auto simp: http_nparse_def a_def intro!: http_call_ok_BODY\<close>)
    qed
  next
    case ERROR
    then show ?thesis
      using h h_x len len_x p np
      by (simp add: call_ok_def parse http_nparse_def a_def del: drop_append)
  next
    case WAITING_DATA
    define p' where "p' = p\<lparr>hp_already_parse := a + np\<rparr>"
    have p': "hp_tag p' = HEADER" "hp_already_parse p' = a + np" "http_valid p'"
      using p by (simp_all add: p'_def http_valid_def)
    have enter: "enter_body p' n msg = enter_body p (np + n) msg" for n msg
      by (simp add: enter_body_def p'_def a_def add.assoc cong: if_cong)
    have upd: "p'\<lparr>hp_already_parse := n\<rparr> = p\<lparr>hp_already_parse := n\<rparr>" for n
      by (simp add: p'_def)
    have safe: "http_safe p' = http_safe p"
      by (simp add: p'_def http_safe_def)
    have resume: "same_answer (\<lambda>p q. http_safe p = http_safe q) (http_parse p' (d @ x) m') (http_parse p (d @ x) m)" for x
    proof -
      have whole: "parseHeader (drop a (d @ x)) m 0 =
          cpp_bind (parseHeader (drop (a + np) (d @ x)) m' 0) (\<lambda>(rc2, m2, n2). Inr (rc2, m2, np + n2))"
        using h_x [of x] WAITING_DATA parseHeader_shift [of "drop a (d @ x)" m' np 0]
        by (simp add: add.commute [of np] del: drop_append)
      show ?thesis
      proof (cases "parseHeader (drop (a + np) (d @ x)) m' 0")
        case (Inl f)
        then show ?thesis
          using np len_x [of x] p' whole
          by (simp add: parse http_parse_HEADER [of p'] same_answer_def del: drop_append)
      next
        case (Inr res2)
        obtain rc2 m2 n2 where "res2 = (rc2, m2, n2)" by (cases res2)
        then show ?thesis
          using np len_x [of x] p' whole Inr
          by (cases rc2)
             (simp_all add: parse http_parse_HEADER [of p'] enter upd safe same_answer_def add.assoc del: drop_append)
      qed
    qed
    have "http_parse p d m = Inr (WAITING_DATA, p', m')"
      using h WAITING_DATA len by (simp add: parse p'_def a_def)
    then show ?thesis
      using resume np p' http_ends_unsafe [of p]
      by (auto simp: call_ok_def http_nparse_def a_def) (simp_all add: p'_def http_safe_def)
  qed
  qed
qed

lemma parseLine_append:
  "CRLF data \<noteq> Inr None \<Longrightarrow> parseLine (data @ x) msg = parseLine data msg"
  using CRLF_append [of data _ x] CRLF_SomeD(1) [of data] by (cases "CRLF data") (auto simp: parseLine_def)

lemma parseLine_bound:
  "parseLine data msg = Inr (rc, msg', np) \<Longrightarrow> np \<le> length data"
  using CRLF_SomeD(2) [of data]
  by (auto simp: parseLine_def cpp_bind_eq_Inr_iff split: option.splits if_splits)

lemma http_call_ok_LINE:
  assumes p: "hp_tag p = LINE" "http_valid p"
  shows "http_call_ok p d m"
proof -
  have a: "hp_already_parse p = 0" and body: "hp_body_buf p = []"
    using p by (simp_all add: http_valid_def)
  note parse = http_parse_LINE [OF p(1), unfolded a, simplified]
  show ?thesis
  proof (cases "CRLF d = Inr None")
    case True
    then have "parseLine d m = Inr (WAITING_DATA, m, 0)" by (simp add: parseLine_def)
    then show ?thesis
      using p a http_ends_unsafe [of p] parse by (simp add: call_ok_def http_nparse_def http_safe_def)
  next
    case found: False
    then have app: "parseLine (d @ x) m = parseLine d m" for x
      by (simp add: parseLine_append)
    show ?thesis
    proof (cases "parseLine d m")
      case (Inl f)
      then show ?thesis using app by (simp add: call_ok_def parse)
    next
      case (Inr res)
      obtain rc m' np where res: "res = (rc, m', np)" by (cases res) auto
      have np: "np \<le> length d" using parseLine_bound Inr res by simp
      have rc: "rc \<noteq> WAITING_DATA" if "rc \<noteq> READY"
      proof -
        obtain l where "parseObjectLine l m = Inr (rc, m')"
          using Inr found res by (auto simp: parseLine_def cpp_bind_eq_Inr_iff split: option.splits)
        then show ?thesis
          using that
          by (cases m) (auto simp: parseRequestLine_def parseResponseLine_def cpp_bind_eq_Inr_iff Let_def
              split: option.splits if_splits prod.splits)
      qed
      show ?thesis
      proof (cases "rc = READY")
        case True
        define q where "q = p\<lparr>hp_already_parse := np, hp_tag := HEADER\<rparr>"
        have step: "http_parse p (d @ x) m = http_parse q (d @ x) m'" for x
          using True by (simp add: parse app Inr res q_def)
        have "http_valid q" "hp_tag q = HEADER" using body by (simp_all add: q_def http_valid_def)
        then show ?thesis
          by (intro call_ok_step [of http_parse p d m q m'] step http_call_ok_HEADER)
             (use np a in \<open>auto simp: q_def http_nparse_def http_safe_def\<close>)
      next
        case False
        then show ?thesis
          using rc p a np by (simp add: call_ok_def parse app Inr res http_nparse_def)
      qed
    qed
  qed
qed

lemma http_call_ok:
  assumes "http_valid p" and "http_nparse p \<le> length d"
  shows "http_call_ok p d m"
proof (cases "hp_tag p")
  case DONE
  then show ?thesis using assms by (simp add: call_ok_def)
qed (use assms in \<open>auto simp: http_nparse_def intro: http_call_ok_BODY http_call_ok_HEADER http_call_ok_LINE\<close>)

text \<open>The HTTP parser provides the contract of incremental parsing.\<close>

interpretation http: resumable_parser http_parse http_nparse http_valid http_safe "\<lambda>p q. http_safe p = http_safe q"
  by (rule resumable_parserI) (simp_all add: http_call_ok transp_def)

end
