(* ===== verification/Http_Properties.thy ===== *)
theory Http_Properties
  imports Http_Laws
begin

section \<open>Properties of the HTTP messages and parser\<close>

text \<open>
  What the parser does with the texts \<open>dump\<close> writes and with arbitrary input: independence of the
  way the data arrive, round trips of requests and responses, the conversion tables, the length and
  the coding of bodies, and the inputs on which parser and writer disagree.
\<close>

subsection \<open>Lines\<close>

lemma CRLF_loop_line:
  "CR \<notin> set line \<Longrightarrow> i + length line < INT_MAX \<Longrightarrow>
   CRLF_loop (line @ CRLF_str @ rest) i = Inr (Some (i + length line))"
proof (induction line arbitrary: i)
  case Nil
  then show ?case by (simp add: CRLF_str_def)
next
  case (Cons c line)
  obtain d ds where d: "line @ CRLF_str @ rest = d # ds"
    by (cases line) (auto simp: CRLF_str_def)
  have "CRLF_loop (d # ds) (Suc i) = Inr (Some (Suc i + length line))"
    using Cons.IH [of "Suc i"] Cons.prems by (simp add: d)
  then show ?case
    using Cons.prems by (auto simp: d)
qed

lemma CRLF_line:
  "CR \<notin> set line \<Longrightarrow> length line < INT_MAX \<Longrightarrow> CRLF (line @ CRLF_str @ rest) = Inr (Some (length line))"
  using CRLF_loop_line [of line 0 rest] by (simp add: CRLF_def)

lemma CRLF_now [simp]: "CRLF (CRLF_str @ rest) = Inr (Some 0)" "CRLF CRLF_str = Inr (Some 0)"
  using CRLF_line [of "[]" rest] CRLF_line [of "[]" "[]"] by (simp_all add: INT_MAX_def)

text \<open>A line without an end that is longer than \<^verbatim>\<open>INT_MAX\<close> makes the search overflow.\<close>

lemma CRLF_loop_overflows:
  "CR \<notin> set s \<Longrightarrow> i < INT_MAX \<Longrightarrow> INT_MAX < i + length s \<Longrightarrow> CRLF_loop s i = Inl Undefined_behaviour"
  by (induction s i rule: CRLF_loop.induct) auto

lemma CRLF_overflows: "CR \<notin> set s \<Longrightarrow> INT_MAX < length s \<Longrightarrow> CRLF s = Inl Undefined_behaviour"
  using CRLF_loop_overflows [of s 0] by (simp add: CRLF_def INT_MAX_def)

lemma length_CRLF_str [simp]: "length CRLF_str = 2"
  by (simp add: CRLF_str_def)

lemma lineSplit_loop_field:
  "SP \<notin> set a \<Longrightarrow> lineSplit_loop (a @ cs) n tmp f1 f2 = lineSplit_loop cs n (tmp @ a) f1 f2"
  by (induction a arbitrary: tmp) auto

lemma lineSplit_three:
  assumes "SP \<notin> set a" and "SP \<notin> set b"
  shows "lineSplit (a @ [SP] @ b @ [SP] @ c) = (if SP \<in> set c \<or> c = [] then None else Some (a, b, c))"
proof -
  have "lineSplit_loop c 2 tmp a b = None" if "SP \<in> set c" for tmp
    using that by (induction c arbitrary: tmp) auto
  moreover have "lineSplit_loop c 2 [] a b = Some (2, a, b, c)" if "SP \<notin> set c"
    using lineSplit_loop_field [OF that, of "[]" 2 "[]" a b] by simp
  ultimately show ?thesis
    using assms by (auto simp: lineSplit_def lineSplit_loop_field)
qed

lemma dropWhile_replicate: "dropWhile (\<lambda>c. c = a) (replicate n a @ xs) = dropWhile (\<lambda>c. c = a) xs"
  by (induction n) simp_all

lemma trim_blanks:
  assumes "SP \<notin> set v"
  shows "trim (replicate n SP @ v @ replicate k SP) = v"
proof (cases v)
  case Nil
  have "dropWhile (\<lambda>c. c = SP) (replicate k SP) = []" by simp
  then show ?thesis by (simp add: Nil trim_def dropWhile_replicate)
next
  case (Cons c cs)
  then have drop: "dropWhile (\<lambda>c. c = SP) (v @ replicate k SP) = v @ replicate k SP"
    using assms by auto
  have "takeWhile (\<lambda>c. c \<noteq> SP) (v @ replicate k SP) = v @ takeWhile (\<lambda>c. c \<noteq> SP) (replicate k SP)"
    using assms by (intro takeWhile_append2) auto
  then show ?thesis
    by (simp add: trim_def dropWhile_replicate drop takeWhile_replicate)
qed

lemma trim_no_blank: "SP \<notin> set v \<Longrightarrow> trim v = v" "SP \<notin> set v \<Longrightarrow> trim (SP # v) = v"
  using trim_blanks [of v 0 0] trim_blanks [of v 1 0] by simp_all

lemma headerSplit_colon:
  assumes "CHR '':'' \<notin> set k"
  shows "headerSplit (k @ CHR '':'' # v) = Some (trim k, trim v)"
proof -
  have "takeWhile (\<lambda>c. c \<noteq> CHR '':'') (k @ CHR '':'' # v) = k"
    using assms by (intro takeWhile_no) auto
  then show ?thesis
    by (simp add: headerSplit_def)
qed

subsection \<open>Header blocks\<close>

text \<open>A header field the writer and the parser agree on.\<close>

definition clean_field :: "string \<times> string \<Rightarrow> bool" where
  "clean_field kv \<longleftrightarrow>
     CHR '':'' \<notin> set (fst kv) \<and> {CR, SP} \<inter> set (fst kv) = {} \<and> {CR, SP} \<inter> set (snd kv) = {} \<and>
     length (fst kv) + 2 + length (snd kv) < INT_MAX"

definition header_block :: "(string \<times> string) list \<Rightarrow> string" where
  "header_block kvs = concat (map (\<lambda>(k, v). k @ '': '' @ v @ CRLF_str) kvs)"

lemma parseHeader_block:
  assumes "list_all clean_field kvs"
  shows "parseHeader (header_block kvs @ CRLF_str @ body) msg 0 =
    Inr (READY, fold (\<lambda>(k, v). object_setHeader k v) kvs msg, length (header_block kvs) + 2)"
  using assms
proof (induction kvs arbitrary: msg)
  case Nil
  show ?case by (simp add: header_block_def parseHeader_end)
next
  case (Cons kv kvs)
  obtain k v where kv: "kv = (k, v)" by (cases kv)
  define rest where "rest = header_block kvs @ CRLF_str @ body"
  define line where "line = k @ CHR '':'' # SP # v"
  have clean: "CHR '':'' \<notin> set k" "CR \<notin> set line" "SP \<notin> set k" "SP \<notin> set v" "length line < INT_MAX"
    using Cons.prems by (auto simp: kv clean_field_def line_def)
  have data: "header_block (kv # kvs) @ CRLF_str @ body = line @ CRLF_str @ rest"
    by (simp add: header_block_def kv line_def rest_def)
  have "headerSplit line = Some (k, v)"
    using clean by (simp add: line_def headerSplit_colon trim_no_blank)
  then have "parseHeader (line @ CRLF_str @ rest) msg 0 =
      parseHeader (line @ CRLF_str @ rest) (object_setHeader k v msg) (length line + 2 + 0)"
    using clean CRLF_line [of line rest] by (subst parseHeader_next) (auto simp: line_def)
  also have "\<dots> = Inr (READY, fold (\<lambda>(k, v). object_setHeader k v) kvs (object_setHeader k v msg),
      length line + 2 + (length (header_block kvs) + 2))"
    using Cons.IH Cons.prems by (subst parseHeader_shift) (simp add: rest_def)
  finally show ?case
    unfolding data by (simp add: kv header_block_def line_def)
qed

lemma fold_setHeader:
  "fold (\<lambda>(k, v). object_setHeader k v) kvs (RequestObject r) =
     RequestObject (r\<lparr>hm_headers := fold (\<lambda>(k, v). umap_assign k v) kvs (hm_headers r)\<rparr>)"
  "fold (\<lambda>(k, v). object_setHeader k v) kvs (ResponseObject s) =
     ResponseObject (s\<lparr>hm_headers := fold (\<lambda>(k, v). umap_assign k v) kvs (hm_headers s)\<rparr>)"
  by (induction kvs arbitrary: r s) (auto simp: setHeader_def)

subsection \<open>Decimal numbers\<close>

lemma isdigit_char_of: "k < 10 \<Longrightarrow> isdigit (char_of (48 + k))" "k < 10 \<Longrightarrow> of_char (char_of (48 + k)) = 48 + int k"
proof -
  assume k: "k < 10"
  have nat: "(of_char (char_of (48 + k)) :: nat) = 48 + k"
    using k by (simp add: of_char_of)
  then show "isdigit (char_of (48 + k))"
    using k by (simp add: isdigit_def)
  have "(of_char (char_of (48 + k)) :: int) = int (of_char (char_of (48 + k)) :: nat)"
    by (rule of_nat_of_char [symmetric])
  then show "of_char (char_of (48 + k)) = 48 + int k"
    unfolding nat by simp
qed

lemma digits_value_append:
  "list_all isdigit xs \<Longrightarrow> digits_value (xs @ ys) acc = digits_value ys (digits_value xs acc)"
  by (induction xs acc rule: digits_value.induct) auto

lemma show_nat_digits: "list_all isdigit (show_nat n) \<and> show_nat n \<noteq> []"
  by (induction n rule: show_nat.induct) (subst show_nat.simps, subst (2) show_nat.simps, simp add: isdigit_char_of)

lemma digits_value_show_nat: "digits_value (show_nat n) 0 = int n"
proof (induction n rule: show_nat.induct)
  case (1 n)
  have "int (n div 10) * 10 + int (n mod 10) = int (n div 10 * 10 + n mod 10)"
    by (simp only: of_nat_add of_nat_mult of_nat_numeral)
  then have sum: "int (n div 10) * 10 + int (n mod 10) = int n"
    by (simp only: div_mult_mod_eq)
  show ?case
  proof (cases "n < 10")
    case True
    then show ?thesis by (subst show_nat.simps) (simp add: isdigit_char_of)
  next
    case False
    have d: "n mod 10 < 10" by simp
    have "digits_value (show_nat n) 0 = digits_value [char_of (48 + n mod 10)] (int (n div 10))"
      using 1 False by (subst show_nat.simps) (simp add: digits_value_append show_nat_digits)
    also have "\<dots> = int (n div 10) * 10 + int (n mod 10)"
      by (simp only: digits_value.simps isdigit_char_of [OF d]) simp
    finally show ?thesis by (simp only: sum)
  qed
qed

lemma isdigit_not: "isdigit c \<Longrightarrow> \<not> isspace c \<and> c \<noteq> CHR ''-'' \<and> c \<noteq> CHR ''+'' \<and> c \<noteq> CR \<and> c \<noteq> SP"
  by (auto simp: isdigit_def isspace_def)

lemma atoi_digits:
  assumes "list_all isdigit s" and "s \<noteq> []"
  shows "atoi s = (if digits_value s 0 < 2 ^ 31 then Inr (digits_value s 0) else Inl Undefined_behaviour)"
proof -
  have digit: "48 \<le> (of_char c :: int)" if "isdigit c" for c
    unfolding of_nat_of_char [where 'a = int, symmetric] using that by (simp add: isdigit_def)
  have pos: "0 \<le> digits_value s acc" if "0 \<le> acc" for s acc
    using that digit by (induction s acc rule: digits_value.induct) auto
  obtain c cs where "s = c # cs" "isdigit c" using assms by (cases s) auto
  then show ?thesis
    using isdigit_not [of c] pos [of 0 s] by (auto simp: atoi_def Let_def)
qed

lemma atoi_show_nat: "n < 2 ^ 31 \<Longrightarrow> atoi (show_nat n) = Inr (int n)"
  using atoi_digits [of "show_nat n"] show_nat_digits [of n]
  by (simp add: digits_value_show_nat)

lemma atoi_negative: "0 < n \<Longrightarrow> n \<le> 2 ^ 31 \<Longrightarrow> atoi (CHR ''-'' # show_nat n) = Inr (- int n)"
  by (simp add: atoi_def isspace_def digits_value_show_nat)

subsection \<open>Whole messages\<close>

lemma http_parse_head:
  assumes line: "CR \<notin> set line" "length line < INT_MAX" "parseObjectLine line msg0 = Inr (READY, msg1)"
    and headers: "list_all clean_field kvs" "fold (\<lambda>(k, v). object_setHeader k v) kvs msg1 = msg2"
    and enter: "enter_body (http_Parser\<lparr>hp_already_parse := length line + 2, hp_tag := HEADER\<rparr>)
      (length (header_block kvs) + 2) msg2 = Inr p2"
  shows "http_parse http_Parser (line @ CRLF_str @ header_block kvs @ CRLF_str @ x) msg0 =
    http_parse p2 (line @ CRLF_str @ header_block kvs @ CRLF_str @ x) msg2"
proof -
  define data where "data = line @ CRLF_str @ header_block kvs @ CRLF_str @ x"
  define a where "a = length line + 2"
  define p1 where "p1 = http_Parser\<lparr>hp_already_parse := a, hp_tag := HEADER\<rparr>"
  have "parseLine data msg0 = Inr (READY, msg1, a)"
    using line by (simp add: parseLine_def data_def CRLF_line a_def)
  then have 1: "http_parse http_Parser data msg0 = http_parse p1 data msg1"
    by (simp add: http_parse_LINE http_Parser_def p1_def)
  have "parseHeader (drop a data) msg1 0 = Inr (READY, msg2, length (header_block kvs) + 2)"
    using parseHeader_block [OF headers(1), of x msg1] headers(2)
    by (simp add: data_def a_def)
  then have "http_parse p1 data msg1 = http_parse p2 data msg2"
    using enter by (simp add: http_parse_HEADER p1_def http_Parser_def data_def a_def)
  with 1 show ?thesis by (simp add: data_def)
qed

lemma http_parse_message:
  assumes line: "CR \<notin> set line" "length line < INT_MAX" "parseObjectLine line msg0 = Inr (READY, msg1)"
    and headers: "list_all clean_field kvs" "fold (\<lambda>(k, v). object_setHeader k v) kvs msg1 = msg2"
    and body: "atoi (object_getHeader ''Content-Length'' ''0'' msg2) = Inr (int (length body))"
      "length body < 2 ^ 31"
      "object_getHeader ''Transfer-Encoding'' ''No Transfer-Encoding'' msg2 \<noteq> ''chunked''"
  shows "http_parse http_Parser (line @ CRLF_str @ header_block kvs @ CRLF_str @ body @ rest) msg0 =
    Inr (READY,
      \<lparr>hp_tag = DONE,
       hp_already_parse = length (line @ CRLF_str @ header_block kvs @ CRLF_str @ body),
       hp_content_length = length body, hp_chunked_transfer = False, hp_body_buf = []\<rparr>,
      object_setBody body msg2)"
proof -
  define data where "data = line @ CRLF_str @ header_block kvs @ CRLF_str @ body @ rest"
  define a where "a = length line + 2"
  define b where "b = a + (length (header_block kvs) + 2)"
  define p1 where "p1 = http_Parser\<lparr>hp_already_parse := a, hp_tag := HEADER\<rparr>"
  define p2 where "p2 = p1\<lparr>hp_already_parse := b, hp_tag := BODY, hp_content_length := length body\<rparr>"
  have len: "length data = b + length body + length rest"
    by (simp add: data_def a_def b_def)
  have "enter_body p1 (length (header_block kvs) + 2) msg2 = Inr p2"
    using body by (simp add: enter_body_def p1_def p2_def b_def size_arith max_size_def http_Parser_def)
  then have 1: "http_parse http_Parser data msg0 = http_parse p2 data msg2"
    unfolding data_def p1_def a_def by (rule http_parse_head [OF line headers])
  have "http_valid p2" "hp_tag p2 = BODY" "\<not> hp_chunked_transfer p2" "body_need p2 = length body"
    "hp_already_parse p2 = b" "hp_body_buf p2 = []"
    using body by (simp_all add: http_valid_def p2_def p1_def http_Parser_def max_size_def body_need_def)
  moreover have "take (length body) (drop b data) = body"
    by (simp add: data_def a_def b_def)
  ultimately have 3: "http_parse p2 data msg2 =
      Inr (READY, p2\<lparr>hp_already_parse := b + length body, hp_tag := DONE, hp_body_buf := []\<rparr>, object_setBody body msg2)"
    using len by (simp add: http_parse_length)
  have "length (line @ CRLF_str @ header_block kvs @ CRLF_str @ body) = b + length body"
    by (simp add: a_def b_def)
  then show ?thesis
    unfolding data_def [symmetric] 1 3 by (simp add: p2_def p1_def http_Parser_def)
qed

subsection \<open>The conversion tables\<close>

lemma find_key:
  assumes "distinct (map f xs)" and "x \<in> set xs" and "\<And>y. P y \<longleftrightarrow> f y = f x"
  shows "find P xs = Some x"
  using assms(1,2) by (induction xs) (auto simp: assms(3) image_iff)

lemma find_no_key: "(\<And>x. x \<in> set xs \<Longrightarrow> \<not> P x) \<Longrightarrow> find P xs = None"
  by (induction xs) auto

lemma method_codes: "map fst HTTP_METHOD_MAP = map int [0..<34]"
  by (simp add: HTTP_METHOD_MAP_def upt_rec)

lemma method_names:
  "distinct (map (\<lambda>x. fst (snd x)) HTTP_METHOD_MAP)"
  "list_all (\<lambda>x. SP \<notin> set (fst (snd x)) \<and> CR \<notin> set (fst (snd x)) \<and> fst (snd x) \<noteq> [] \<and> length (fst (snd x)) \<le> 20) HTTP_METHOD_MAP"
  by (simp_all add: HTTP_METHOD_MAP_def)

lemma method_entry:
  assumes "(code, name, desc) \<in> set HTTP_METHOD_MAP"
  shows "MethodToString code = name" and "StringToMethod name = code"
proof -
  have "distinct (map fst HTTP_METHOD_MAP)" by (simp add: method_codes distinct_map)
  then have "find (\<lambda>(c, n, d). code = c) HTTP_METHOD_MAP = Some (code, name, desc)"
    using assms by (rule find_key) auto
  then show "MethodToString code = name" by (simp add: MethodToString_def)
  have "find (\<lambda>(c, n, d). n = name) HTTP_METHOD_MAP = Some (code, name, desc)"
    using method_names(1) assms by (rule find_key) auto
  then show "StringToMethod name = code" by (simp add: StringToMethod_def)
qed

lemma state_names:
  "distinct (map fst HTTP_STATUS_MAP)" "distinct (map (\<lambda>x. fst (snd x)) HTTP_STATUS_MAP)"
  "list_all (\<lambda>x. fst (snd x) \<noteq> [] \<and> snd (snd x) \<noteq> [] \<and> CR \<notin> set (snd (snd x)) \<and>
     100 \<le> fst x \<and> fst x < 512 \<and> length (snd (snd x)) \<le> 100) HTTP_STATUS_MAP"
  by (simp_all add: HTTP_STATUS_MAP_def)

lemma state_entry:
  assumes "(code, name, desc) \<in> set HTTP_STATUS_MAP"
  shows "StateToString code = name" and "StringToState name = code" and "StateToDesc code = desc"
proof -
  have "find (\<lambda>(c, n, d). c = code) HTTP_STATUS_MAP = Some (code, name, desc)"
    using state_names(1) assms by (rule find_key) auto
  then show "StateToString code = name" "StateToDesc code = desc"
    by (simp_all add: StateToString_def StateToDesc_def)
  have "find (\<lambda>(c, n, d). n = name) HTTP_STATUS_MAP = Some (code, name, desc)"
    using state_names(2) assms by (rule find_key) auto
  then show "StringToState name = code" by (simp add: StringToState_def)
qed

lemma method_facts:
  assumes "0 \<le> m" and "m < 34"
  shows "StringToMethod (MethodToString m) = m" and "SP \<notin> set (MethodToString m)"
    and "CR \<notin> set (MethodToString m)" and "length (MethodToString m) \<le> 20"
proof -
  have "m \<in> fst ` set HTTP_METHOD_MAP"
    unfolding set_map [symmetric] method_codes using assms by (auto intro!: image_eqI [of _ _ "nat m"])
  then obtain name desc where entry: "(m, name, desc) \<in> set HTTP_METHOD_MAP" by auto
  then show "StringToMethod (MethodToString m) = m" "SP \<notin> set (MethodToString m)" "CR \<notin> set (MethodToString m)"
    "length (MethodToString m) \<le> 20"
    using method_names(2) method_entry [OF entry] by (auto simp: list_all_iff)
qed

lemma method_unknown:
  assumes "\<not> (0 \<le> m \<and> m < 34)"
  shows "MethodToString m = []"
proof -
  have "m \<notin> fst ` set HTTP_METHOD_MAP"
    unfolding set_map [symmetric] method_codes using assms by auto
  then have "find (\<lambda>(code, name, desc). m = code) HTTP_METHOD_MAP = None"
    by (intro find_no_key) (auto simp: rev_image_eqI)
  then show ?thesis by (simp add: MethodToString_def)
qed

lemma StringToMethod_unknown:
  assumes "name \<notin> set (map (\<lambda>x. fst (snd x)) HTTP_METHOD_MAP)"
  shows "StringToMethod name = method_INVALID"
proof -
  have "find (\<lambda>(code, n, desc). n = name) HTTP_METHOD_MAP = None"
    using assms by (intro find_no_key) (auto simp: rev_image_eqI)
  then show ?thesis by (simp add: StringToMethod_def)
qed

lemma StringToMethod_empty: "StringToMethod [] = method_INVALID"
  by (rule StringToMethod_unknown) (use method_names(2) in \<open>auto simp: list_all_iff\<close>)

definition known_state :: "state_type \<Rightarrow> bool" where
  "known_state s \<longleftrightarrow> s \<in> set (map fst HTTP_STATUS_MAP)"

lemma state_facts:
  assumes "known_state s"
  shows "StringToState (StateToString s) = s" and "StateToString s \<noteq> []" and "StateToDesc s \<noteq> []"
    and "CR \<notin> set (StateToDesc s)" and "100 \<le> s" and "s < 512" and "length (StateToDesc s) \<le> 100"
proof -
  obtain name desc where entry: "(s, name, desc) \<in> set HTTP_STATUS_MAP"
    using assms by (auto simp: known_state_def)
  then show "StringToState (StateToString s) = s" "StateToString s \<noteq> []" "StateToDesc s \<noteq> []"
    "CR \<notin> set (StateToDesc s)" "100 \<le> s" "s < 512" "length (StateToDesc s) \<le> 100"
    using state_names(3) state_entry [OF entry] by (auto simp: list_all_iff)
qed

lemma state_unknown:
  assumes "\<not> known_state s"
  shows "StateToString s = []" and "StateToDesc s = []"
proof -
  have "find (\<lambda>(code, name, desc). code = s) HTTP_STATUS_MAP = None"
    using assms by (intro find_no_key) (auto simp: known_state_def rev_image_eqI)
  then show "StateToString s = []" "StateToDesc s = []"
    by (simp_all add: StateToString_def StateToDesc_def)
qed

lemma StringToState_empty: "StringToState [] = state_INVALID"
proof -
  have "find (\<lambda>(code, n, desc). n = []) HTTP_STATUS_MAP = None"
    using state_names(3) by (intro find_no_key) (auto simp: list_all_iff)
  then show ?thesis by (simp add: StringToState_def)
qed

text \<open>Every method code below \<open>INVALID\<close> survives the conversion to a string and back; any other code writes as
  the empty string, which reads as \<open>INVALID\<close>.\<close>

theorem method_table_roundtrip:
  "(if 0 \<le> m \<and> m < method_INVALID then StringToMethod (MethodToString m) = m
    else MethodToString m = [] \<and> StringToMethod (MethodToString m) = method_INVALID)"
  using method_facts(1) [of m] method_unknown [of m] StringToMethod_empty by (auto simp: method_INVALID_def)

text \<open>The fifty-nine listed status codes survive the conversion to a string and back and have a non-empty
  description; any other code writes as the empty string, which reads as \<open>INVALID\<close>.\<close>

theorem state_table_roundtrip:
  "(if known_state s
    then StringToState (StateToString s) = s \<and> StateToDesc s \<noteq> []
    else StateToString s = [] \<and> StateToDesc s = [] \<and> StringToState (StateToString s) = state_INVALID)"
  using state_facts(1,3) [of s] state_unknown [of s] StringToState_empty by simp

subsection \<open>Round trips\<close>

text \<open>What a message needs so that the text \<open>dump\<close> writes is read back: clean header fields (no blank or CR, no colon in the name),
  the version 1.0 or 1.1, headers that announce the body by its length, and lines below \<^verbatim>\<open>INT_MAX\<close> characters.\<close>

definition writable_message :: "'a http_message_scheme \<Rightarrow> bool" where
  "writable_message msg \<longleftrightarrow>
     umap_ok (hm_headers msg) \<and> list_all clean_field (hm_headers msg) \<and>
     hm_version msg \<noteq> HTTP_ERR \<and> length (hm_body msg) < 2 ^ 31 \<and>
     getHeader ''Content-Length'' ''0'' msg = show_nat (length (hm_body msg)) \<and>
     getHeader ''Transfer-Encoding'' ''No Transfer-Encoding'' msg \<noteq> ''chunked''"

definition writable_request :: "http_request \<Rightarrow> bool" where
  "writable_request req \<longleftrightarrow>
     writable_message req \<and> 0 \<le> hr_method req \<and> hr_method req < method_INVALID \<and> isValidURI (hr_uri req) \<and>
     length (hr_uri req) + 64 \<le> INT_MAX"

definition writable_response :: "http_response \<Rightarrow> bool" where
  "writable_response resp \<longleftrightarrow> writable_message resp \<and> known_state (hs_state resp)"

lemma version_text:
  "v \<noteq> HTTP_ERR \<Longrightarrow> StringToVersion (VersionToString v) = v"
  "isValidHTTPVersion (VersionToString v)" "SP \<notin> set (VersionToString v)" "CR \<notin> set (VersionToString v)"
  "VersionToString v \<noteq> []" "length (VersionToString v) = 8"
  by (cases v; simp add: VersionToString_def StringToVersion_def isValidHTTPVersion_def isdigit_def)+

lemma valid_uri_text: "isValidURI uri \<Longrightarrow> SP \<notin> set uri \<and> CR \<notin> set uri"
  by (cases uri) (auto simp: list_all_iff isspace_def)

lemma parse_request_line:
  assumes "0 \<le> m" and "m < method_INVALID" and "isValidURI uri" and "v \<noteq> HTTP_ERR"
  shows "parseRequestLine (MethodToString m @ [SP] @ uri @ [SP] @ VersionToString v) r =
    (READY, setVersion v (setUri uri (setMethod m r)))"
proof -
  have m: "StringToMethod (MethodToString m) = m" "SP \<notin> set (MethodToString m)"
    using method_facts assms by (simp_all add: method_INVALID_def)
  then have "lineSplit (MethodToString m @ [SP] @ uri @ [SP] @ VersionToString v) = Some (MethodToString m, uri, VersionToString v)"
    using valid_uri_text [OF assms(3)] version_text(3,5) [of v] by (subst lineSplit_three) auto
  then show ?thesis
    using m version_text(1,2) [of v] assms by (simp add: parseRequestLine_def)
qed

lemma show_state:
  assumes "known_state s"
  shows "show_int s = show_nat (nat s)" and "SP \<notin> set (show_int s)" and "CR \<notin> set (show_int s)"
    and "atoi (show_int s) = Inr s" and "length (show_int s) \<le> 3"
proof -
  have s: "100 \<le> s" "s < 512" using state_facts(5,6) [OF assms] by simp_all
  then show eq: "show_int s = show_nat (nat s)" by (simp add: show_int_def)
  show "SP \<notin> set (show_int s)" "CR \<notin> set (show_int s)"
    unfolding eq using show_nat_digits [of "nat s"] isdigit_not by (auto simp: list_all_iff)
  show "atoi (show_int s) = Inr s"
    unfolding eq using s by (subst atoi_show_nat) auto
  show "length (show_int s) \<le> 3"
    unfolding eq using s by (intro show_nat_length) auto
qed

lemma parse_response_line:
  assumes "known_state s" and "v \<noteq> HTTP_ERR"
  shows "parseResponseLine (VersionToString v @ [SP] @ show_int s @ [SP] @ StateToDesc s) r =
    Inr (if SP \<in> set (StateToDesc s) then (ERROR, r) else (READY, setState s (setVersion v r)))"
proof -
  have split: "lineSplit (VersionToString v @ [SP] @ show_int s @ [SP] @ StateToDesc s) =
      (if SP \<in> set (StateToDesc s) then None else Some (VersionToString v, show_int s, StateToDesc s))"
    using version_text(3) show_state(2) [OF assms(1)] state_facts(3) [OF assms(1)] by (subst lineSplit_three) auto
  show ?thesis
    unfolding parseResponseLine_def split using version_text(1,2) [of v] assms show_state(4) state_facts(2) by simp
qed

lemma header_block_dump: "dump_headers order hs = header_block (order hs)"
  by (simp add: dump_headers_def header_block_def)

text \<open>The headers of a writable message, read back into a fresh one.\<close>

lemma writable_headers:
  assumes "writable_message msg" and "iteration_order order"
  shows "list_all clean_field (order (hm_headers msg))"
    and "fold (\<lambda>(k, v). umap_assign k v) (order (hm_headers msg)) [] = order (hm_headers msg)"
    and "umap_find key (order (hm_headers msg)) = umap_find key (hm_headers msg)"
  using assms iteration_order_set [OF assms(2), of "hm_headers msg"]
    iteration_order_distinct [OF assms(2), of "hm_headers msg"] iteration_order_find [OF assms(2), of "hm_headers msg"]
  by (auto simp: writable_message_def list_all_iff fold_umap_assign_fresh)

lemma request_dump_parse:
  assumes req: "writable_request req" and order: "iteration_order order"
  shows "\<exists>p. http_parse http_Parser (request_dump order req @ rest) (RequestObject http_Request) =
      Inr (READY, p, RequestObject (req\<lparr>hm_headers := order (hm_headers req)\<rparr>)) \<and>
    http_nparse p = length (request_dump order req) \<and> http_safe p"
proof -
  define line where "line = MethodToString (hr_method req) @ [SP] @ hr_uri req @ [SP] @ VersionToString (hm_version req)"
  define kvs where "kvs = order (hm_headers req)"
  define msg1 where "msg1 = setVersion (hm_version req) (setUri (hr_uri req) (setMethod (hr_method req) http_Request))"
  have w: "writable_message req" and m: "0 \<le> hr_method req" "hr_method req < method_INVALID"
    and uri: "isValidURI (hr_uri req)" and v: "hm_version req \<noteq> HTTP_ERR" and short: "length (hr_uri req) + 64 \<le> INT_MAX"
    using req by (auto simp: writable_request_def writable_message_def)
  note h = writable_headers [OF w order, folded kvs_def]
  have get: "getHeader k d (msg1\<lparr>hm_headers := kvs\<rparr>) = getHeader k d req" for k d
    using h(3) by (simp add: getHeader_def)
  have line: "CR \<notin> set line" "length line < INT_MAX"
    using valid_uri_text [OF uri] version_text(4,6) method_facts(3,4) [of "hr_method req"] m short
    by (simp_all add: line_def method_INVALID_def)
  have "parseObjectLine line (RequestObject http_Request) = Inr (READY, RequestObject msg1)"
    using parse_request_line [OF m uri v] by (simp add: line_def msg1_def)
  moreover have "fold (\<lambda>(k, v). object_setHeader k v) kvs (RequestObject msg1) = RequestObject (msg1\<lparr>hm_headers := kvs\<rparr>)"
    unfolding fold_setHeader by (simp add: msg1_def message_setters http_Request_def h(2))
  moreover have "length (hm_body req) < 2 ^ 31"
    using w by (simp add: writable_message_def)
  moreover have "atoi (object_getHeader ''Content-Length'' ''0'' (RequestObject (msg1\<lparr>hm_headers := kvs\<rparr>)))
      = Inr (int (length (hm_body req)))"
    using w by (simp add: writable_message_def get atoi_show_nat)
  moreover have "object_getHeader ''Transfer-Encoding'' ''No Transfer-Encoding'' (RequestObject (msg1\<lparr>hm_headers := kvs\<rparr>)) \<noteq> ''chunked''"
    using w by (simp add: writable_message_def get)
  moreover have "object_setBody (hm_body req) (RequestObject (msg1\<lparr>hm_headers := kvs\<rparr>)) = RequestObject (req\<lparr>hm_headers := kvs\<rparr>)"
    by (simp add: msg1_def message_setters http_Request_def)
  moreover have "request_dump order req = line @ CRLF_str @ header_block kvs @ CRLF_str @ hm_body req"
    by (simp add: request_dump_def line_def header_block_dump kvs_def)
  ultimately show ?thesis
    using http_parse_message [OF line _ h(1), of "RequestObject http_Request" "RequestObject msg1" _ "hm_body req" rest]
    by (simp add: http_nparse_def http_safe_def kvs_def)
qed

lemma response_dump_parse:
  assumes resp: "writable_response resp" and order: "iteration_order order" and word: "SP \<notin> set (StateToDesc (hs_state resp))"
  shows "\<exists>p. http_parse http_Parser (response_dump order resp @ rest) (ResponseObject http_Response) =
      Inr (READY, p, ResponseObject (resp\<lparr>hm_headers := order (hm_headers resp)\<rparr>)) \<and>
    http_nparse p = length (response_dump order resp) \<and> http_safe p"
proof -
  define line where "line = VersionToString (hm_version resp) @ [SP] @ show_int (hs_state resp) @ [SP] @ StateToDesc (hs_state resp)"
  define kvs where "kvs = order (hm_headers resp)"
  define msg1 where "msg1 = setState (hs_state resp) (setVersion (hm_version resp) http_Response)"
  have w: "writable_message resp" and s: "known_state (hs_state resp)" and v: "hm_version resp \<noteq> HTTP_ERR"
    using resp by (auto simp: writable_response_def writable_message_def)
  note h = writable_headers [OF w order, folded kvs_def]
  have get: "getHeader k d (msg1\<lparr>hm_headers := kvs\<rparr>) = getHeader k d resp" for k d
    using h(3) by (simp add: getHeader_def)
  have line: "CR \<notin> set line" "length line < INT_MAX"
    using version_text(4,6) show_state(3,5) [OF s] state_facts(4,7) [OF s] by (simp_all add: line_def INT_MAX_def)
  have "parseObjectLine line (ResponseObject http_Response) = Inr (READY, ResponseObject msg1)"
    using parse_response_line [OF s v] word by (simp add: line_def msg1_def)
  moreover have "fold (\<lambda>(k, v). object_setHeader k v) kvs (ResponseObject msg1) = ResponseObject (msg1\<lparr>hm_headers := kvs\<rparr>)"
    unfolding fold_setHeader by (simp add: msg1_def message_setters http_Response_def h(2))
  moreover have "length (hm_body resp) < 2 ^ 31"
    using w by (simp add: writable_message_def)
  moreover have "atoi (object_getHeader ''Content-Length'' ''0'' (ResponseObject (msg1\<lparr>hm_headers := kvs\<rparr>)))
      = Inr (int (length (hm_body resp)))"
    using w by (simp add: writable_message_def get atoi_show_nat)
  moreover have "object_getHeader ''Transfer-Encoding'' ''No Transfer-Encoding'' (ResponseObject (msg1\<lparr>hm_headers := kvs\<rparr>)) \<noteq> ''chunked''"
    using w by (simp add: writable_message_def get)
  moreover have "object_setBody (hm_body resp) (ResponseObject (msg1\<lparr>hm_headers := kvs\<rparr>)) = ResponseObject (resp\<lparr>hm_headers := kvs\<rparr>)"
    by (simp add: msg1_def message_setters http_Response_def)
  moreover have "response_dump order resp = line @ CRLF_str @ header_block kvs @ CRLF_str @ hm_body resp"
    by (simp add: response_dump_def line_def header_block_dump kvs_def)
  ultimately show ?thesis
    using http_parse_message [OF line _ h(1), of "ResponseObject http_Response" "ResponseObject msg1" _ "hm_body resp" rest]
    by (simp add: http_nparse_def http_safe_def kvs_def)
qed

text \<open>A request and two responses on which the properties are run.\<close>

definition example_request :: http_request where
  "example_request = \<lparr>hm_body = ''hi'', hm_version = HTTP_1_1, hm_headers = [(''Content-Length'', ''2'')],
                      hr_method = 1, hr_uri = ''/a''\<rparr>"

definition example_response :: "state_type \<Rightarrow> http_response" where
  "example_response s = \<lparr>hm_body = ''hi'', hm_version = HTTP_1_1, hm_headers = [(''Content-Length'', ''2'')],
                         hs_state = s\<rparr>"

lemma example_writable:
  "writable_request example_request" "writable_response (example_response 200)" "iteration_order (\<lambda>m. m)"
  "StateToDesc 200 = ''OK''" "StateToDesc 404 = ''Not Found''" "known_state 404" "writable_message (example_response 404)"
  by (simp_all add: writable_request_def writable_response_def writable_message_def example_request_def example_response_def
      umap_ok_def clean_field_def getHeader_def umap_find_def method_INVALID_def INT_MAX_def isspace_def iteration_order_def
      known_state_def HTTP_STATUS_MAP_def StateToDesc_def show_nat.simps char_of_def bit_0)

text \<open>C15: A message whose body is not chunked is parsed the same however the network cuts it into pieces: the caller's loop
  over the pieces ends with the answer, the message and (except after \<open>ERROR\<close>) the parser object of one call
  on all of them, and the other way round.\<close>

theorem http_feed_iff_parse:
  assumes "cs \<noteq> []"
  shows "(\<exists>p. feed http_parse http_Parser [] msg cs = Inr (r, p, msg') \<and> \<not> hp_chunked_transfer p \<and> (r = ERROR \<or> p = q)) \<longleftrightarrow>
    (\<exists>p. http_parse http_Parser (concat cs) msg = Inr (r, p, msg') \<and> \<not> hp_chunked_transfer p \<and> (r = ERROR \<or> p = q))"
  (is "?feed \<longleftrightarrow> ?parse")
proof
  assume ?feed
  then obtain p where p: "feed http_parse http_Parser [] msg cs = Inr (r, p, msg')" "http_safe p" "r = ERROR \<or> p = q"
    by (auto simp: http_safe_def)
  have "same_answer (\<lambda>p q. http_safe p = http_safe q) (Inr (r, p, msg')) (http_parse http_Parser ([] @ concat cs) msg)"
    by (rule http.feed_sound) (use assms p in simp_all)
  then show ?parse
    using p by (auto simp: http_safe_def dest!: same_answer_InrD)
next
  assume ?parse
  then obtain p where p: "http_parse http_Parser ([] @ concat cs) msg = Inr (r, p, msg')" "http_safe p" "r = ERROR \<or> p = q"
    by (auto simp: http_safe_def)
  have "same_answer (\<lambda>p q. http_safe p = http_safe q) (feed http_parse http_Parser [] msg cs) (Inr (r, p, msg'))"
    by (rule http.feed_complete) (use assms p in simp_all)
  then show ?feed
    using p by (auto simp: same_answer_def http_safe_def)
qed

text \<open>A call that is \<open>READY\<close> on a whole safe message is what every feed of its pieces gives.\<close>

lemma http_feed_READY:
  assumes "http_parse http_Parser (concat cs) msg = Inr (READY, p, msg')" and "http_safe p" and "cs \<noteq> []"
  shows "feed http_parse http_Parser [] msg cs = Inr (READY, p, msg')"
proof -
  have "same_answer (\<lambda>p q. http_safe p = http_safe q) (feed http_parse http_Parser [] msg cs) (Inr (READY, p, msg'))"
    by (rule http.feed_complete) (use assms in simp_all)
  then show ?thesis by (simp add: same_answer_def)
qed

theorem http_feed_iff_parse_witness:
  "(\<exists>p. feed http_parse http_Parser [] (RequestObject http_Request) [''GET'', CRLF_str] = Inr (ERROR, p, RequestObject http_Request) \<and>
     \<not> hp_chunked_transfer p \<and> (ERROR = ERROR \<or> p = http_Parser)) \<longleftrightarrow>
   (\<exists>p. http_parse http_Parser (concat [''GET'', CRLF_str]) (RequestObject http_Request) = Inr (ERROR, p, RequestObject http_Request) \<and>
     \<not> hp_chunked_transfer p \<and> (ERROR = ERROR \<or> p = http_Parser))"
  by (rule http_feed_iff_parse) simp

text \<open>Whatever the pieces contain, chunked bodies included, the number of bytes the parser reports as consumed never
  exceeds the number of bytes received.\<close>

lemma http_feed_bounded:
  assumes "feed http_parse http_Parser [] msg cs = Inr (r, p, msg')"
  shows "http_nparse p \<le> length (concat cs)"
  using http.feed_bounded [OF _ _ assms] by simp

theorem http_feed_bounded_witness: "http_nparse http_Parser \<le> length (concat [''GET'', '' /''])"
  by (rule http_feed_bounded [where r = WAITING_DATA and msg = "RequestObject http_Request" and msg' = "RequestObject http_Request"])
     (simp add: http_parse_LINE parseLine_def http_Parser_def CRLF_def INT_MAX_def)

text \<open>C16: A writable request, written by \<open>dump\<close> and received in any pieces, with any bytes behind it, is read back as
  it was, with its headers in the order in which they were written, and exactly its own bytes are consumed. Writable
  (\<open>writable_request\<close>) means: no blank or carriage return in a header's key or value and no colon in its key; a
  \<open>Content-Length\<close> that is the length of the body, or none and an empty body; not chunked; a known method, HTTP version and
  valid URI; a body below 2 GiB and lines below \<open>INT_MAX\<close>. It does not hold of requests in general: the parser keeps only
  the first word of a header's value, and \<open>dump\<close> writes no length of its own.\<close>

theorem request_dump_feed_roundtrip:
  assumes "writable_request req" and "iteration_order order" and "cs \<noteq> []"
    and "concat cs = request_dump order req @ rest"
  shows "\<exists>p. feed http_parse http_Parser [] (RequestObject http_Request) cs =
      Inr (READY, p, RequestObject (req\<lparr>hm_headers := order (hm_headers req)\<rparr>)) \<and>
    http_nparse p = length (request_dump order req)"
  using request_dump_parse [OF assms(1,2), of rest] http_feed_READY [OF _ _ assms(3)] assms(4) by fastforce

theorem request_dump_feed_roundtrip_witness:
  "\<exists>p. feed http_parse http_Parser [] (RequestObject http_Request)
        [take 9 (request_dump (\<lambda>m. m) example_request), drop 9 (request_dump (\<lambda>m. m) example_request) @ ''GET'']
      = Inr (READY, p, RequestObject example_request) \<and> http_nparse p = length (request_dump (\<lambda>m. m) example_request)"
  using request_dump_feed_roundtrip [OF example_writable(1,3), of
      "[take 9 (request_dump (\<lambda>m. m) example_request), drop 9 (request_dump (\<lambda>m. m) example_request) @ ''GET'']" "''GET''"]
  by (simp del: feed.simps)

text \<open>C17: A writable response whose reason phrase is one word, such as \<open>200 OK\<close>, written by \<open>dump\<close> and received in any
  pieces, with any bytes behind it, is read back as it was, and exactly its own bytes are consumed. Writable
  (\<open>writable_response\<close>) asks the same of its headers, body and version as of a request's, and a status that the library knows.
  A reason phrase of several words is refused (\<open>response_reason_words_rejected\<close>).\<close>

theorem response_dump_feed_roundtrip:
  assumes "writable_response resp" and "iteration_order order" and "cs \<noteq> []"
    and "concat cs = response_dump order resp @ rest" and "SP \<notin> set (StateToDesc (hs_state resp))"
  shows "\<exists>p. feed http_parse http_Parser [] (ResponseObject http_Response) cs =
      Inr (READY, p, ResponseObject (resp\<lparr>hm_headers := order (hm_headers resp)\<rparr>)) \<and>
    http_nparse p = length (response_dump order resp)"
  using response_dump_parse [OF assms(1,2,5), of rest] http_feed_READY [OF _ _ assms(3)] assms(4) by fastforce

theorem response_dump_feed_roundtrip_witness:
  "\<exists>p. feed http_parse http_Parser [] (ResponseObject http_Response) [response_dump (\<lambda>m. m) (example_response 200) @ ''HTTP'']
      = Inr (READY, p, ResponseObject (example_response 200)) \<and>
    http_nparse p = length (response_dump (\<lambda>m. m) (example_response 200))"
  using response_dump_feed_roundtrip [OF example_writable(2,3), of
      "[response_dump (\<lambda>m. m) (example_response 200) @ ''HTTP'']" "''HTTP''"] example_writable(4)
  by (simp add: example_response_def del: feed.simps)

text \<open>A response whose reason phrase has several words, such as \<open>404 Not Found\<close>, is written by \<open>dump\<close> in a form the
  library's own parser refuses, whatever its headers and body are.\<close>

lemma response_reason_words_rejected:
  assumes "known_state (hs_state resp)" and "hm_version resp \<noteq> HTTP_ERR" and "SP \<in> set (StateToDesc (hs_state resp))"
  shows "\<exists>p. http_parse http_Parser (response_dump order resp @ rest) (ResponseObject r) = Inr (ERROR, p, ResponseObject r)"
proof -
  define line where "line = VersionToString (hm_version resp) @ [SP] @ show_int (hs_state resp) @ [SP] @ StateToDesc (hs_state resp)"
  have "CR \<notin> set line" "length line < INT_MAX"
    using version_text(4,6) show_state(3,5) [OF assms(1)] state_facts(4,7) [OF assms(1)]
    by (simp_all add: line_def INT_MAX_def)
  then have "CRLF (response_dump order resp @ rest) = Inr (Some (length line))"
    using CRLF_line [of line "dump_headers order (hm_headers resp) @ CRLF_str @ hm_body resp @ rest"]
    by (simp add: response_dump_def line_def)
  moreover have "take (length line) (response_dump order resp @ rest) = line"
    by (simp add: response_dump_def line_def)
  ultimately have "parseLine (response_dump order resp @ rest) (ResponseObject r) = Inr (ERROR, ResponseObject r, 0)"
    using parse_response_line [OF assms(1,2), of r] assms(3) by (simp add: parseLine_def line_def)
  then show ?thesis
    by (simp add: http_parse_LINE http_Parser_def)
qed

lemma response_reason_words_rejected_witness:
  "writable_message (example_response 404) \<and>
   (\<exists>p. http_parse http_Parser (response_dump (\<lambda>m. m) (example_response 404) @ []) (ResponseObject http_Response) =
     Inr (ERROR, p, ResponseObject http_Response))"
  using response_reason_words_rejected [of "example_response 404" "\<lambda>m. m" "[]" http_Response] example_writable(5-7)
  by (simp add: example_response_def)

end
