(* ===== verification/Http_Body.thy ===== *)
theory Http_Body
  imports Http_Properties
begin

section \<open>Bodies, header values and the limits of the HTTP parser\<close>

text \<open>
  Chunked bodies: sizes, decoding, memory safety, and the trailer that arrives in two pieces; the values
  of \<open>Content-Length\<close>; what trimming leaves of a header value; repeated headers; servlet lookup; the
  method the parser cannot read.
\<close>

subsection \<open>Chunk sizes\<close>

text \<open>The hexadecimal numeral a sender writes.\<close>

definition hex_char :: "nat \<Rightarrow> char" where
  "hex_char n = (if n < 10 then char_of (48 + n) else char_of (87 + n))"

fun show_hex :: "nat \<Rightarrow> string" where
  "show_hex n = (if n < 16 then [hex_char n] else show_hex (n div 16) @ [hex_char (n mod 16)])"

declare show_hex.simps [simp del]

lemma hex_digit_char: "n < 16 \<Longrightarrow> hex_digit (hex_char n) = Some n" "n < 16 \<Longrightarrow> hex_char n \<noteq> CHR '';''"
  "n < 16 \<Longrightarrow> hex_char n \<noteq> CR"
proof -
  assume n: "n < 16"
  have v: "(of_char (hex_char n) :: nat) = (if n < 10 then 48 + n else 87 + n)"
    using n by (simp add: hex_char_def)
  show "hex_digit (hex_char n) = Some n"
    using n by (simp add: hex_digit_def v)
  then have "hex_digit (hex_char n) \<noteq> None" by simp
  moreover have "hex_digit (CHR '';'') = None" "hex_digit CR = None"
    by (simp_all add: hex_digit_def)
  ultimately show "hex_char n \<noteq> CHR '';''" "hex_char n \<noteq> CR" by metis+
qed

lemma show_hex_chars: "CR \<notin> set (show_hex n)" "show_hex n \<noteq> []"
proof (induction n rule: show_hex.induct)
  case (1 n)
  show "CR \<notin> set (show_hex n)"
    using 1(1) hex_digit_char(3) [of n] hex_digit_char(3) [of "n mod 16"] by (subst show_hex.simps) auto
  show "show_hex n \<noteq> []" by (subst show_hex.simps) simp
qed

lemma show_hex_length: "n < 16 ^ k \<Longrightarrow> 0 < k \<Longrightarrow> length (show_hex n) \<le> k"
proof (induction n arbitrary: k rule: show_hex.induct)
  case (1 n)
  show ?case
  proof (cases "n < 16")
    case True
    with 1(3) show ?thesis by (subst show_hex.simps) simp
  next
    case False
    with 1(2,3) obtain j where j: "k = Suc j" "0 < j" by (cases k; cases "k - 1") auto
    with 1(2) have "n div 16 < 16 ^ j" by simp
    from 1(1) [OF False this j(2)] False j show ?thesis by (subst show_hex.simps) simp
  qed
qed

lemma chunk_size_loop_show_hex:
  "acc < size_mod \<Longrightarrow>
   chunk_size_loop (show_hex n @ xs) acc = chunk_size_loop xs ((acc * 16 ^ length (show_hex n) + n) mod size_mod)"
proof (induction n arbitrary: xs rule: show_hex.induct)
  case (1 n)
  show ?case
  proof (cases "n < 16")
    case True
    then show ?thesis
      using hex_digit_char [of n]
      by (subst (1 2) show_hex.simps) (simp add: size_add_def size_mul_def mod_simps)
  next
    case False
    define k where "k = length (show_hex (n div 16))"
    have d: "n mod 16 < 16" by simp
    have "((acc * 16 ^ k + n div 16) mod size_mod * 16 mod size_mod + n mod 16) mod size_mod
        = ((acc * 16 ^ k + n div 16) * 16 + n mod 16) mod size_mod"
      by (simp only: mod_simps)
    also have "(acc * 16 ^ k + n div 16) * 16 + n mod 16 = acc * 16 ^ (k + 1) + n"
      by (simp add: add_mult_distrib)
    finally show ?thesis
      using 1(1) [OF False 1(2)] False hex_digit_char [OF d]
      by (subst (1 2) show_hex.simps) (simp add: size_add_def size_mul_def k_def)
  qed
qed

text \<open>The size line of a chunk is read modulo \<open>2 ^ 64\<close>: a numeral below is read exactly, with or without an
  extension behind \<^verbatim>\<open>;\<close>, and a numeral that is a multiple of \<open>2 ^ 64\<close> reads as the size 0 of the last chunk.\<close>

lemma chunk_size_modulo:
  "chunk_size_loop (show_hex n) 0 = Some (n mod 2 ^ 64) \<and>
   chunk_size_loop (show_hex n @ CHR '';'' # extension) 0 = Some (n mod 2 ^ 64)"
  using chunk_size_loop_show_hex [of 0 n "[]"] chunk_size_loop_show_hex [of 0 n "CHR '';'' # extension"]
  by (simp add: size_mod_def)

subsection \<open>Chunked bodies\<close>

definition chunk_text :: "string \<Rightarrow> string" where
  "chunk_text c = show_hex (length c) @ CRLF_str @ c @ CRLF_str"

definition chunked_text :: "string list \<Rightarrow> string" where
  "chunked_text cs = concat (map chunk_text cs) @ ''0'' @ CRLF_str @ CRLF_str"

lemma size_add_le: "size_add a b \<le> a + b"
  by (simp add: size_add_def)

lemma size_line_chunk_at:
  assumes "n < size_mod" and "n + 2 \<le> length x"
  shows "chunk_at (show_hex n @ CRLF_str @ x) (length (show_hex n)) n"
proof -
  define k where "k = length (show_hex n)"
  have "chunk_size_loop (show_hex n) 0 = Some n"
    using chunk_size_loop_show_hex [of 0 n "[]"] assms(1) by simp
  moreover have "length (show_hex n) < INT_MAX"
    using show_hex_length [of n 16] assms(1) by (simp add: size_mod_def INT_MAX_def)
  moreover have "size_add (size_add (k + 2) n) 2 \<le> k + 2 + n + 2"
    using size_add_le [of "k + 2" n] size_add_le [of "size_add (k + 2) n" 2] by linarith
  ultimately show ?thesis
    using assms CRLF_line [of "show_hex n" x] show_hex_chars [of n] by (simp add: chunk_at_def flip: k_def) (simp add: k_def)
qed

lemma chunk_loop_text:
  assumes "c \<noteq> []" and "length body + length c \<le> max_size"
  shows "chunk_loop (chunk_text c @ rest) msg np body = chunk_loop rest msg (np + length (chunk_text c)) (body @ c)"
proof -
  define k where "k = length (show_hex (length c))"
  have lt: "length c < size_mod" using assms(2) max_size_lt_size_mod by linarith
  have eqn: "chunk_text c @ rest = show_hex (length c) @ CRLF_str @ c @ CRLF_str @ rest"
    by (simp add: chunk_text_def)
  have atc: "chunk_at (chunk_text c @ rest) k (length c)"
    unfolding eqn k_def by (rule size_line_chunk_at) (use lt in simp_all)
  have "drop (k + 2) (chunk_text c @ rest) = c @ CRLF_str @ rest"
    by (simp add: eqn k_def)
  then show ?thesis
    using assms size_add_le [of "length c" 2]
    by (subst chunk_loop_chunk [OF atc]) (auto simp: chunk_text_def k_def add.assoc)
qed

lemma chunk_loop_texts:
  "list_all (\<lambda>c. c \<noteq> []) cs \<Longrightarrow> length body + length (concat cs) \<le> max_size \<Longrightarrow>
   chunk_loop (concat (map chunk_text cs) @ x) msg np body =
     chunk_loop x msg (np + length (concat (map chunk_text cs))) (body @ concat cs)"
  by (induction cs arbitrary: np body) (simp_all add: chunk_loop_text add.assoc)

text \<open>The last chunk is seen once two bytes follow its size line.\<close>

lemma last_chunk_at: "2 \<le> length x \<Longrightarrow> chunk_at (''0'' @ CRLF_str @ x) 1 0"
proof -
  have "show_hex 0 = ''0''" by (subst show_hex.simps) (simp add: hex_char_def char_of_def bit_0)
  then show "2 \<le> length x \<Longrightarrow> ?thesis" using size_line_chunk_at [of 0 x] by simp
qed

text \<open>C32: A chunked body, each chunk written with its size in hexadecimal, is decoded to the chunks put together, and
  exactly the bytes of the coding are consumed.\<close>

theorem chunked_body_decoded:
  assumes "list_all (\<lambda>c. c \<noteq> []) cs" and "length (concat cs) \<le> max_size"
  shows "parseBody (chunked_text cs @ rest) msg n True [] =
    Inr (READY, object_setBody (concat cs) msg, length (chunked_text cs), [])"
proof -
  have dr: "drop (1 + 2) (''0'' @ CRLF_str @ CRLF_str @ rest) = CRLF_str @ rest"
    by (simp add: CRLF_str_def)
  have "chunk_loop (''0'' @ CRLF_str @ CRLF_str @ rest) msg np body = Inr (READY, object_setBody body msg, np + 5, [])" for np body
    using dr by (subst chunk_loop_last [OF last_chunk_at]) (simp, simp only: dr, simp add: trailer_loop_step)
  then show ?thesis
    using chunk_loop_texts [OF assms(1), where body = "[]" and x = "''0'' @ CRLF_str @ CRLF_str @ rest" and msg = msg and np = 0] assms(2)
    by (simp add: parseBody_def chunked_text_def)
qed

theorem chunked_body_decoded_witness:
  "parseBody (chunked_text [''ab'', ''c''] @ ''x'') (RequestObject http_Request) 0 True [] =
    Inr (READY, RequestObject (setBody ''abc'' http_Request), length (chunked_text [''ab'', ''c'']), [])"
  using chunked_body_decoded [of "[''ab'', ''c'']" "''x''" "RequestObject http_Request" 0] by (simp add: max_size_def)

lemma trailer_loop_safe: "length ptr \<le> INT_MAX \<Longrightarrow> trailer_loop ptr np \<noteq> Inl f"
proof (induction "length ptr" arbitrary: ptr np rule: less_induct)
  case less
  show ?case
  proof (cases "CRLF ptr")
    case (Inl g)
    with CRLF_small [OF less(2), of g] show ?thesis by simp
  next
    case (Inr line)
    have "trailer_loop (drop (k + 2) ptr) (np + (k + 2)) \<noteq> Inl f" if "line = Some k" for k
    proof -
      have "k + 2 \<le> length ptr" using CRLF_SomeD(2) Inr that by simp
      then show ?thesis using less by simp
    qed
    with Inr show ?thesis by (auto simp: trailer_loop_step split: option.split)
  qed
qed

lemma chunk_loop_safe: "length ptr \<le> INT_MAX \<Longrightarrow> chunk_loop ptr msg np b \<noteq> Inl Undefined_behaviour"
proof (induction "length ptr" arbitrary: ptr np b rule: less_induct)
  case less
  show ?case
  proof (cases ptr msg np b rule: chunk_loop_cases)
    case waiting
    then show ?thesis by simp
  next
    case (faulted f)
    with CRLF_small [OF less(2), of f] show ?thesis by simp
  next
    case (bad k)
    then show ?thesis by (simp add: chunk_loop_bad)
  next
    case (last k)
    have "trailer_loop (drop (k + 2) ptr) (np + (k + 2)) \<noteq> Inl Undefined_behaviour"
      using less(2) by (intro trailer_loop_safe) simp
    then show ?thesis
      unfolding chunk_loop_last [OF last]
      by (cases "trailer_loop (drop (k + 2) ptr) (np + (k + 2))") (auto split: if_splits)
  next
    case (chunk k cs)
    have "length (drop (cs + 2) (drop (k + 2) ptr)) < length ptr"
      using chunk_atD(1) [OF chunk(1)] by simp
    with less(2) have "chunk_loop (drop (cs + 2) (drop (k + 2) ptr)) msg np2 b2 \<noteq> Inl Undefined_behaviour" for np2 b2
      by (intro less(1)) simp_all
    then show ?thesis
      by (simp add: chunk_loop_chunk [OF chunk] del: drop_drop)
  qed
qed

text \<open>C37: Whatever the bytes and the announced sizes are, reading a body with a length (of any size) or a chunked one stays
  inside the data, as long as what is parsed in one call has at most \<^verbatim>\<open>INT_MAX\<close> bytes, the limit of the \<^verbatim>\<open>int\<close> indices of the search for
  line ends: every append and every index is below the end, the wrapping size checks of the chunk loop never let it read or
  skip past it, and no more is consumed than there is. Without that bound a size line of more than \<^verbatim>\<open>INT_MAX\<close> bytes is
  undefined behaviour.\<close>

theorem parseBody_reads_in_bounds:
  assumes "is_chunk \<Longrightarrow> length data \<le> INT_MAX"
  shows "(case parseBody data msg n is_chunk body of
      Inl f \<Rightarrow> f \<noteq> Undefined_behaviour
    | Inr (rc, msg', np, body') \<Rightarrow> np \<le> length data) \<and>
    (INT_MAX < length line \<and> CR \<notin> set line \<longrightarrow> parseBody line msg n True body = Inl Undefined_behaviour)"
proof
  show "case parseBody data msg n is_chunk body of
      Inl f \<Rightarrow> f \<noteq> Undefined_behaviour | Inr (rc, msg', np, body') \<Rightarrow> np \<le> length data"
  proof (cases is_chunk)
    case True
    have "length data \<le> INT_MAX" by (rule assms [OF True])
    then show ?thesis
      using chunk_loop_safe [of data msg 0 body] chunk_loop_laws [where ptr = data and msg = msg and np = 0 and body = body and x = "[]"]
      by (auto simp: parseBody_def True split: sum.splits)
  next
    case False
    then show ?thesis
      by (simp add: parseBody_def Let_def string_append_def)
  qed
next
  show "INT_MAX < length line \<and> CR \<notin> set line \<longrightarrow> parseBody line msg n True body = Inl Undefined_behaviour"
    by (simp add: parseBody_def chunk_loop_fault CRLF_overflows)
qed

theorem parseBody_reads_in_bounds_witness:
  "case parseBody ''5;x'' (RequestObject http_Request) 0 True [] of
     Inl f \<Rightarrow> f \<noteq> Undefined_behaviour | Inr (rc, msg', np, body') \<Rightarrow> np \<le> length ''5;x''"
proof -
  have "length ''5;x'' \<le> INT_MAX" by (simp add: INT_MAX_def)
  then show ?thesis
    using parseBody_reads_in_bounds [of True "''5;x''" "RequestObject http_Request" 0 "[]" "[]"] by blast
qed

subsection \<open>A trailer in two pieces\<close>

text \<open>The head of a request or a response that announces a chunked body.\<close>

definition chunked_head :: "string \<Rightarrow> http_object \<Rightarrow> http_object \<Rightarrow> bool" where
  "chunked_head head msg0 msg \<longleftrightarrow>
     (\<exists>line kvs msg1 n. head = line @ CRLF_str @ header_block kvs @ CRLF_str \<and>
        CR \<notin> set line \<and> length line < INT_MAX \<and> parseObjectLine line msg0 = Inr (READY, msg1) \<and>
        list_all clean_field kvs \<and> fold (\<lambda>(k, v). object_setHeader k v) kvs msg1 = msg \<and>
        atoi (object_getHeader ''Content-Length'' ''0'' msg) = Inr n \<and> 0 \<le> n \<and>
        object_getHeader ''Transfer-Encoding'' ''No Transfer-Encoding'' msg = ''chunked'')"

text \<open>The parser object in a chunked body.\<close>

definition in_chunked :: "nat \<Rightarrow> string \<Rightarrow> nat \<Rightarrow> http_parser" where
  "in_chunked n body len =
     \<lparr>hp_tag = BODY, hp_already_parse = n, hp_content_length = len, hp_chunked_transfer = True, hp_body_buf = body\<rparr>"

lemma chunked_head_parse:
  assumes "chunked_head head msg0 msg"
  obtains len where "\<And>x. http_parse http_Parser (head @ x) msg0 = http_parse (in_chunked (length head) [] len) (head @ x) msg"
proof -
  obtain line kvs msg1 n where h: "head = line @ CRLF_str @ header_block kvs @ CRLF_str"
    "CR \<notin> set line" "length line < INT_MAX" "parseObjectLine line msg0 = Inr (READY, msg1)"
    "list_all clean_field kvs" "fold (\<lambda>(k, v). object_setHeader k v) kvs msg1 = msg"
    and n: "atoi (object_getHeader ''Content-Length'' ''0'' msg) = Inr n" "0 \<le> n"
    and chunked: "object_getHeader ''Transfer-Encoding'' ''No Transfer-Encoding'' msg = ''chunked''"
    using assms by (auto simp: chunked_head_def)
  have "n < 2 ^ 31"
    using n(1) by (auto simp: atoi_def Let_def split: if_splits)
  then have "enter_body (http_Parser\<lparr>hp_already_parse := length line + 2, hp_tag := HEADER\<rparr>) (length (header_block kvs) + 2) msg =
      Inr (in_chunked (length head) [] (nat n))"
    using n chunked by (simp add: enter_body_def in_chunked_def h(1) http_Parser_def size_arith max_size_def Let_def)
  from http_parse_head [OF h(2-6) this] show ?thesis
    by (intro that [of "nat n"]) (simp add: h(1))
qed

lemma http_parse_in_chunked:
  assumes "n \<le> length data"
  shows "http_parse (in_chunked n body len) data msg =
    cpp_bind (chunk_loop (drop n data) msg 0 body)
      (\<lambda>(rc, msg', np, body').
         Inr (rc,
           (if rc = READY then (in_chunked (n + np) body' len)\<lparr>hp_tag := DONE\<rparr>
            else if rc = WAITING_DATA then in_chunked (n + np) body' len
            else in_chunked n body' len), msg'))"
  using assms
  by (subst http_parse_BODY) (auto simp: in_chunked_def parseBody_def intro!: cpp_bind_cong)

text \<open>The fields of a trailer as a sender writes them, each with a colon and no \<^verbatim>\<open>;\<close> before it.\<close>

definition trailer_field :: "string \<Rightarrow> bool" where
  "trailer_field t \<longleftrightarrow> CR \<notin> set t \<and> length t < INT_MAX \<and> CHR '':'' \<in> set (takeWhile (\<lambda>c. c \<noteq> CHR '';'') t)"

definition trailer_text :: "string list \<Rightarrow> string" where
  "trailer_text ts = concat (map (\<lambda>t. t @ CRLF_str) ts) @ CRLF_str"

lemma trailer_field_size: "CHR '':'' \<in> set (takeWhile (\<lambda>c. c \<noteq> CHR '';'') t) \<Longrightarrow> chunk_size_loop t acc = None"
  by (induction t acc rule: chunk_size_loop.induct) (auto simp: hex_digit_def split: if_splits option.splits)

lemma trailer_field_line:
  assumes "trailer_field t"
  shows "CRLF (t @ CRLF_str @ x) = Inr (Some (length t))" and "t \<noteq> []" and "chunk_size_loop t 0 = None"
  using assms CRLF_line [of t x] trailer_field_size [of t 0] by (auto simp: trailer_field_def)

lemma trailer_loop_field:
  "trailer_field t \<Longrightarrow> trailer_loop (t @ CRLF_str @ x) np = trailer_loop x (np + (length t + 2))"
  using trailer_field_line(1) [of t x] trailer_field_line(2) [of t] by (subst trailer_loop_step) simp

lemma trailer_loop_whole:
  "list_all trailer_field ts \<Longrightarrow> trailer_loop (trailer_text ts) np = Inr (READY, np + length (trailer_text ts))"
proof (induction ts arbitrary: np)
  case Nil
  show ?case by (simp add: trailer_text_def trailer_loop_step)
next
  case (Cons t ts)
  have "trailer_text (t # ts) = t @ CRLF_str @ trailer_text ts" by (simp add: trailer_text_def)
  with Cons trailer_loop_field [of t "trailer_text ts" np] show ?case by simp
qed

lemma CRLF_cut_line:
  assumes "CR \<notin> set t" and "length t < INT_MAX" and "c \<le> length t + 1"
  shows "CRLF (take c (t @ CRLF_str @ x)) = Inr None"
proof -
  have "CRLF_loop s i = Inr None" "CRLF_loop (s @ [CR]) i = Inr None" if "CR \<notin> set s" "i + length s < INT_MAX" for s i
    using that by (induction s i rule: CRLF_loop.induct) auto
  moreover have "take c (t @ CRLF_str @ x) = take c t \<or> take c (t @ CRLF_str @ x) = t @ [CR]"
    using assms(3) by (cases "c = length t + 1") (auto simp: CRLF_str_def)
  moreover have "CR \<notin> set (take c t)" "length (take c t) < INT_MAX"
    using assms by (auto dest: in_set_takeD)
  ultimately show ?thesis
    using assms by (auto simp: CRLF_def)
qed

text \<open>A trailer that is cut is read up to the start of a line of it, or to the empty line.\<close>

lemma trailer_loop_cut:
  "list_all trailer_field ts \<Longrightarrow> c < length (trailer_text ts) \<Longrightarrow>
   \<exists>j ts'. trailer_loop (take c (trailer_text ts)) np = Inr (WAITING_DATA, np + j) \<and> j \<le> c \<and>
     drop j (trailer_text ts) = trailer_text ts' \<and> list_all trailer_field ts'"
proof (induction ts arbitrary: c np)
  case Nil
  then have "CRLF (take c (trailer_text [])) = Inr None"
    using CRLF_cut_line [of "[]" c "[]"] by (simp add: trailer_text_def INT_MAX_def)
  then show ?case
    by (intro exI [of _ 0] exI [of _ "[]"]) (simp add: trailer_loop_step)
next
  case (Cons t ts)
  have eqn: "trailer_text (t # ts) = t @ CRLF_str @ trailer_text ts" by (simp add: trailer_text_def)
  have t: "trailer_field t" and ts: "list_all trailer_field ts" using Cons.prems(1) by simp_all
  show ?case
  proof (cases "c \<le> length t + 1")
    case True
    then have "CRLF (take c (trailer_text (t # ts))) = Inr None"
      using t unfolding eqn by (intro CRLF_cut_line) (simp_all add: trailer_field_def)
    then show ?thesis
      using Cons.prems(1) by (intro exI [of _ 0] exI [of _ "t # ts"]) (simp add: trailer_loop_step)
  next
    case False
    define c2 where "c2 = c - (length t + 2)"
    have c: "take c (trailer_text (t # ts)) = t @ CRLF_str @ take c2 (trailer_text ts)"
      using False by (simp add: eqn c2_def)
    have "c2 < length (trailer_text ts)"
      using Cons.prems(2) False by (simp add: eqn c2_def)
    from Cons.IH [OF ts this] obtain j ts' where
      j: "trailer_loop (take c2 (trailer_text ts)) (np + (length t + 2)) = Inr (WAITING_DATA, np + (length t + 2) + j)" "j \<le> c2"
      "drop j (trailer_text ts) = trailer_text ts'" "list_all trailer_field ts'"
      by blast
    show ?thesis
      unfolding c trailer_loop_field [OF t]
      by (intro exI [of _ "length t + 2 + j"] exI [of _ ts']) (use j False in \<open>simp add: eqn c2_def add.assoc\<close>)
  qed
qed

text \<open>What is left of a trailer is no chunk.\<close>

lemma chunk_loop_trailer:
  assumes "list_all trailer_field ts"
  shows "chunk_loop (trailer_text ts) msg np body = Inr (ERROR, msg, np, body)"
proof (cases ts)
  case Nil
  then show ?thesis by (simp add: trailer_text_def chunk_loop_bad [where k = 0])
next
  case (Cons t ts')
  have "trailer_text ts = t @ CRLF_str @ trailer_text ts'" by (simp add: Cons trailer_text_def)
  then show ?thesis
    using trailer_field_line(1) [of t "trailer_text ts'"] trailer_field_line(2,3) [of t] assms Cons by (simp add: chunk_loop_bad [where k = "length t"])
qed

text \<open>C38: A message with a chunked body and a trailer of fields, received whole, is read. Cut into two pieces anywhere in the
  trailer, from its third byte to its last, it is refused: after the first piece the parser has passed the lines it has
  seen but not kept that the last chunk was read, so it takes the rest of the trailer for a size line. A cut before the
  third byte is harmless, since the last size line is read again.\<close>

theorem split_trailer_rejected:
  assumes head: "chunked_head head msg0 msg" and chunks: "list_all (\<lambda>c. c \<noteq> []) cs" "length (concat cs) \<le> max_size"
    and fields: "list_all trailer_field ts" and cut: "a @ b = trailer_text ts" "b \<noteq> []"
  shows "(\<exists>p. feed http_parse http_Parser [] msg0 [head @ concat (map chunk_text cs) @ ''0'' @ CRLF_str @ trailer_text ts] =
        Inr (READY, p, object_setBody (concat cs) msg)) \<and>
    (\<exists>p. feed http_parse http_Parser [] msg0 [head @ concat (map chunk_text cs) @ ''0'' @ CRLF_str @ a, b] =
        Inr (if 2 \<le> length a then (ERROR, p, msg) else (READY, p, object_setBody (concat cs) msg)))"
proof -
  let ?chunks = "concat (map chunk_text cs)" and ?zero = "''0'' @ CRLF_str"
  obtain len where start: "http_parse http_Parser (head @ x) msg0 = http_parse (in_chunked (length head) [] len) (head @ x) msg" for x
    using chunked_head_parse [OF head] by blast
  have zero: "length ?zero = 3" by simp
  have dr: "drop (1 + 2) (''0'' @ CRLF_str @ x) = x" for x by (simp add: CRLF_str_def)
  have last: "chunk_loop (''0'' @ CRLF_str @ x) msg np body =
      cpp_bind (trailer_loop x (np + 3)) (\<lambda>(rc, np2).
        if rc = READY then Inr (READY, object_setBody body msg, np2, []) else Inr (rc, msg, np2, body))"
    if "2 \<le> length x" for x np body
    using chunk_loop_last [OF last_chunk_at [OF that], of msg np body] unfolding dr by (simp add: numeral_3_eq_3)
  have texts: "chunk_loop (?chunks @ x) msg 0 [] = chunk_loop x msg (length ?chunks) (concat cs)" for x
    using chunk_loop_texts [OF chunks(1), where body = "[]" and x = x and msg = msg and np = 0] chunks(2) by simp
  have trailer2: "2 \<le> length (trailer_text ts)" by (simp add: trailer_text_def)
  have whole: "chunk_loop (''0'' @ CRLF_str @ trailer_text ts) msg np body =
      Inr (READY, object_setBody body msg, np + 3 + length (trailer_text ts), [])" for np body
    using last [OF trailer2, of np body] trailer_loop_whole [OF fields] by simp
  have one: "\<exists>p. http_parse http_Parser (head @ ?chunks @ ''0'' @ CRLF_str @ trailer_text ts) msg0 =
      Inr (READY, p, object_setBody (concat cs) msg)"
    unfolding start by (subst http_parse_in_chunked) (simp_all add: texts whole [simplified])
  have two: "\<exists>p. feed http_parse http_Parser [] msg0 [head @ ?chunks @ ''0'' @ CRLF_str @ a, b] =
      Inr (if 2 \<le> length a then (ERROR, p, msg) else (READY, p, object_setBody (concat cs) msg))"
  proof (cases "2 \<le> length a")
    case True
    define n where "n = length head + (length ?chunks + 3)"
    have a: "a = take (length a) (trailer_text ts)" and "length a < length (trailer_text ts)"
      using cut by (simp_all flip: cut(1))
    then obtain j ts' where j: "trailer_loop a (length ?chunks + 3) = Inr (WAITING_DATA, length ?chunks + 3 + j)"
      "j \<le> length a" "drop j (trailer_text ts) = trailer_text ts'" "list_all trailer_field ts'"
      using trailer_loop_cut [OF fields, of "length a" "length ?chunks + 3"] by metis
    have "chunk_loop (?chunks @ ''0'' @ CRLF_str @ a) msg 0 [] = Inr (WAITING_DATA, msg, length ?chunks + 3 + j, concat cs)"
      unfolding texts last [OF True] j(1) by simp
    then have first: "http_parse http_Parser (head @ ?chunks @ ''0'' @ CRLF_str @ a) msg0 =
        Inr (WAITING_DATA, in_chunked (n + j) (concat cs) len, msg)"
      unfolding start by (subst http_parse_in_chunked) (simp_all add: n_def add.assoc)
    have "drop (n + j) (head @ ?chunks @ ''0'' @ CRLF_str @ trailer_text ts) = trailer_text ts'"
      unfolding j(3) [symmetric] n_def by (simp add: CRLF_str_def numeral_3_eq_3)
    moreover have "j \<le> length (trailer_text ts)"
      using j(2) arg_cong [OF cut(1), of length] by simp
    then have "n + j \<le> length (head @ ?chunks @ ''0'' @ CRLF_str @ trailer_text ts)"
      by (simp add: n_def)
    ultimately have "http_parse (in_chunked (n + j) (concat cs) len) (head @ ?chunks @ ''0'' @ CRLF_str @ a @ b) msg =
        Inr (ERROR, in_chunked (n + j) (concat cs) len, msg)"
      unfolding cut(1) using chunk_loop_trailer [OF j(4), of msg 0 "concat cs"] by (simp only: http_parse_in_chunked) simp
    with first True show ?thesis by simp
  next
    case False
    have "CRLF (''0'' @ CRLF_str @ a) = Inr (Some 1)"
      using CRLF_line [of "''0''" a] by (simp add: INT_MAX_def)
    moreover have "chunk_size_loop (take 1 (''0'' @ CRLF_str @ a)) 0 = Some 0"
      by (simp add: hex_digit_def size_add_def size_mul_def)
    moreover have "\<not> chunk_at (''0'' @ CRLF_str @ a) 1 0"
      using False by (simp add: chunk_at_def size_add_def size_mod_def)
    ultimately have "chunk_loop (''0'' @ CRLF_str @ a) msg np body = Inr (WAITING_DATA, msg, np, body)" for np body
      by (intro chunk_loop_wait) auto
    then have first: "http_parse http_Parser (head @ ?chunks @ ''0'' @ CRLF_str @ a) msg0 =
        Inr (WAITING_DATA, in_chunked (length head + length ?chunks) (concat cs) len, msg)"
      unfolding start by (subst http_parse_in_chunked) (simp_all add: texts)
    have "drop (length head + length ?chunks) (head @ ?chunks @ ''0'' @ CRLF_str @ trailer_text ts) = ''0'' @ CRLF_str @ trailer_text ts"
      by simp
    then have "\<exists>p. http_parse (in_chunked (length head + length ?chunks) (concat cs) len) (head @ ?chunks @ ''0'' @ CRLF_str @ a @ b) msg =
        Inr (READY, p, object_setBody (concat cs) msg)"
      unfolding cut(1) by (subst http_parse_in_chunked) (simp_all add: whole [simplified])
    with first False show ?thesis by auto
  qed
  have "\<exists>p. feed http_parse http_Parser [] msg0 [head @ ?chunks @ ''0'' @ CRLF_str @ trailer_text ts] =
      Inr (READY, p, object_setBody (concat cs) msg)"
    using one by auto
  then show ?thesis using two by (rule conjI)
qed

text \<open>A \<^verbatim>\<open>POST\<close> whose body is two chunks, with a trailer of one field that is cut after its line.\<close>

definition chunked_post :: string where
  "chunked_post = ''POST / HTTP/1.1'' @ CRLF_str @ header_block [(''Transfer-Encoding'', ''chunked'')] @ CRLF_str"

lemma chunked_post_head:
  "chunked_head chunked_post (RequestObject http_Request)
     (RequestObject (setHeader ''Transfer-Encoding'' ''chunked'' (setVersion HTTP_1_1 (setUri ''/'' (setMethod 3 http_Request)))))"
proof -
  have m: "MethodToString 3 = ''POST''"
    by (rule method_entry) (simp add: HTTP_METHOD_MAP_def)
  have "parseObjectLine ''POST / HTTP/1.1'' (RequestObject http_Request) =
      Inr (READY, RequestObject (setVersion HTTP_1_1 (setUri ''/'' (setMethod 3 http_Request))))"
    using parse_request_line [of 3 "''/''" HTTP_1_1 http_Request] by (simp add: m VersionToString_def method_INVALID_def)
  then show ?thesis
    unfolding chunked_head_def chunked_post_def
    by (intro exI [of _ "''POST / HTTP/1.1''"] exI [of _ "[(''Transfer-Encoding'', ''chunked'')]"]
        exI [of _ "RequestObject (setVersion HTTP_1_1 (setUri ''/'' (setMethod 3 http_Request)))"] exI [of _ 0])
      (simp add: INT_MAX_def clean_field_def atoi_def isspace_def isdigit_def getHeader_def setHeader_def message_setters http_Request_def
        umap_find_assign umap_find_def)
qed

theorem split_trailer_rejected_witness:
  "\<exists>p. feed http_parse http_Parser [] (RequestObject http_Request)
      [chunked_post @ concat (map chunk_text [''ab'', ''c'']) @ ''0'' @ CRLF_str @ ''T: 1'' @ CRLF_str, CRLF_str] =
    Inr (ERROR, p, RequestObject (setHeader ''Transfer-Encoding'' ''chunked'' (setVersion HTTP_1_1 (setUri ''/'' (setMethod 3 http_Request)))))"
proof -
  have "list_all trailer_field [''T: 1'']" "(''T: 1'' @ CRLF_str) @ CRLF_str = trailer_text [''T: 1'']"
    by (simp_all add: trailer_field_def trailer_text_def INT_MAX_def)
  with split_trailer_rejected [OF chunked_post_head, of "[''ab'', ''c'']" "[''T: 1'']" "''T: 1'' @ CRLF_str" CRLF_str]
  show ?thesis by (simp add: max_size_def CRLF_str_def del: feed.simps)
qed

subsection \<open>Header values\<close>

lemma object_getHeader_setHeader:
  "object_getHeader k' d (object_setHeader k v msg) = (if k' = k then v else object_getHeader k' d msg)"
  by (cases msg) (simp_all add: getHeader_def setHeader_def umap_find_assign)

lemma isdigit_minus: "\<not> isdigit (CHR ''-'')"
  by (simp add: isdigit_def)

lemma atoi_show_int:
  "atoi (show_int n) = (if - (2 ^ 31) \<le> n \<and> n < 2 ^ 31 then Inr n else Inl Undefined_behaviour)"
proof (cases "n < 0")
  case True
  then show ?thesis
    by (simp add: show_int_def atoi_def isspace_def digits_value_show_nat)
next
  case False
  then show ?thesis
    using atoi_digits [of "show_nat (nat n)"] show_nat_digits [of "nat n"]
    by (simp add: show_int_def digits_value_show_nat)
qed

text \<open>What a decimal \<open>Content-Length\<close> does at the end of the headers: a value from 0 to \<open>2 ^ 31 - 1\<close> becomes the
  length of the body, a negative one wraps to a huge size and ends in \<open>std::length_error\<close>, and one that does not fit an
  \<open>int\<close> is undefined behaviour of \<open>std::atoi\<close>.\<close>

lemma content_length_cases:
  "enter_body p np (object_setHeader ''Content-Length'' (show_int n) msg) =
    (if n < - (2 ^ 31) \<or> 2 ^ 31 \<le> n then Inl Undefined_behaviour
     else if n < 0 then Inl Length_error
     else Inr (p\<lparr>hp_already_parse := hp_already_parse p + np, hp_tag := BODY, hp_content_length := nat n,
                 hp_chunked_transfer := (hp_chunked_transfer p \<or>
                   object_getHeader ''Transfer-Encoding'' ''No Transfer-Encoding'' msg = ''chunked'')\<rparr>))"
proof -
  consider "n < - (2 ^ 31) \<or> 2 ^ 31 \<le> n" | "- (2 ^ 31) \<le> n" "n < 0" | "0 \<le> n" "n < 2 ^ 31" by linarith
  then show ?thesis
  proof cases
    case 1
    then show ?thesis
      by (auto simp: enter_body_def object_getHeader_setHeader atoi_show_int)
  next
    case 2
    then show ?thesis
      by (simp add: enter_body_def object_getHeader_setHeader atoi_show_int size_of_int_neg max_size_def Let_def)
  next
    case 3
    then show ?thesis
      by (auto simp: enter_body_def object_getHeader_setHeader atoi_show_int size_arith max_size_def Let_def)
  qed
qed

text \<open>A header value is cut at its first inner blank: of \<open>name: first rest\<close>, with any number of blanks around the
  first word, only the first word is kept.\<close>

lemma header_value_first_word:
  assumes "SP \<notin> set v" and "v \<noteq> []" and "{CHR '':'', SP} \<inter> set k = {}"
  shows "headerSplit (k @ '':'' @ replicate n SP @ v @ [SP] @ rest) = Some (k, v)"
proof -
  have "dropWhile (\<lambda>c. c = SP) (v @ SP # rest) = v @ SP # rest"
    using assms by (cases v) auto
  moreover have "takeWhile (\<lambda>c. c \<noteq> SP) (v @ SP # rest) = v"
    using assms(1) by (intro takeWhile_no) auto
  ultimately have "trim (replicate n SP @ v @ [SP] @ rest) = v"
    by (simp add: trim_def dropWhile_replicate)
  then show ?thesis
    using headerSplit_colon [of k] assms(3) by (simp add: trim_no_blank)
qed

theorem header_value_first_word_witness:
  "headerSplit (''User-Agent'' @ '':'' @ replicate 1 SP @ ''curl'' @ [SP] @ ''7.0'') = Some (''User-Agent'', ''curl'')"
  by (rule header_value_first_word) simp_all

text \<open>When a header is repeated the last value counts, and the headers already in the message object are kept unless
  they are overwritten.\<close>

lemma repeated_header_last_wins:
  assumes "umap_ok (hm_headers msg)"
  shows "getHeader key def (fold (\<lambda>(k, v). setHeader k v) kvs msg) =
    (case map_of (rev kvs) key of Some v \<Rightarrow> v | None \<Rightarrow> getHeader key def msg)"
proof -
  have "hm_headers (fold (\<lambda>(k, v). setHeader k v) kvs msg) = fold (\<lambda>(k, v). umap_assign k v) kvs (hm_headers msg)"
    by (induction kvs arbitrary: msg) (auto simp: setHeader_def)
  then show ?thesis
    using umap.find_fold_assign [OF assms] by (simp add: getHeader_def split: option.split)
qed

theorem repeated_header_last_wins_witness:
  "getHeader ''a'' [] (fold (\<lambda>(k, v). setHeader k v) [(''a'', ''1''), (''a'', ''2'')] http_Request) = ''2''"
  by (subst repeated_header_last_wins) (simp_all add: http_Request_def umap_ok_def)

text \<open>A servlet answers with the function last registered for the URI, and with the empty one after its removal.\<close>

lemma servlet_lookup:
  "getFunction uri' (setFunction uri f s) = (if uri' = uri then f else getFunction uri' s)"
  "getFunction uri' (removeFunction uri s) = (if uri' = uri then None else getFunction uri' s)"
  by (simp_all add: getFunction_def setFunction_def removeFunction_def umap_find_assign umap_find_erase)

subsection \<open>A method the parser cannot read\<close>

lemma lineSplit_loop_field1:
  "lineSplit_loop cs n tmp f1 f2 = Some (k, a, b, c) \<Longrightarrow> 1 \<le> n \<Longrightarrow> a = f1"
  by (induction cs n tmp f1 f2 rule: lineSplit_loop.induct) (auto split: if_splits)

text \<open>A request line that names the method \<open>M-SEARCH\<close>, as the method table describes it, is refused: the conversion
  reads the enumerator's name, so only \<open>MSEARCH\<close> is accepted.\<close>

lemma msearch_rejected:
  "parseRequestLine (''M-SEARCH '' @ rest) r = (ERROR, r) \<and>
   (isValidURI uri \<longrightarrow> fst (parseRequestLine (''MSEARCH'' @ [SP] @ uri @ [SP] @ ''HTTP/1.1'') r) = READY)"
proof
  have "StringToMethod ''M-SEARCH'' = method_INVALID"
    by (rule StringToMethod_unknown) (simp add: HTTP_METHOD_MAP_def)
  moreover have "a = ''M-SEARCH''" if "lineSplit (''M-SEARCH '' @ rest) = Some (a, b, c)" for a b c
    using that lineSplit_loop_field1 [of rest 1 "[]" "''M-SEARCH''" "[]"]
    by (auto simp: lineSplit_def split: option.splits if_splits)
  ultimately show "parseRequestLine (''M-SEARCH '' @ rest) r = (ERROR, r)"
    unfolding parseRequestLine_def by (cases "lineSplit (''M-SEARCH '' @ rest)") (auto simp del: append_Cons)
next
  have "MethodToString 24 = ''MSEARCH''"
    by (rule method_entry) (simp add: HTTP_METHOD_MAP_def)
  then show "isValidURI uri \<longrightarrow> fst (parseRequestLine (''MSEARCH'' @ [SP] @ uri @ [SP] @ ''HTTP/1.1'') r) = READY"
    using parse_request_line [of 24 uri HTTP_1_1 r] by (auto simp: VersionToString_def method_INVALID_def)
qed

theorem msearch_rejected_witness:
  "isValidURI ''/x'' \<and> fst (parseRequestLine (''MSEARCH'' @ [SP] @ ''/x'' @ [SP] @ ''HTTP/1.1'') http_Request) = READY"
  using msearch_rejected [of "[]" http_Request "''/x''"] by (simp add: isspace_def)

end
