(* ===== verification/Dynamic_Buffer.thy ===== *)
theory Dynamic_Buffer
  imports Prelude
begin

section \<open>The receive buffer (asio/src/dynamic_buffer.h, dynamic_buffer.cc)\<close>

text \<open>
  \<^verbatim>\<open>DynamicBuffer\<close> is a vector with a read and a write index. \<open>read\<close> and \<open>write\<close> only move the indices, so
  their arguments are the caller's responsibility; \<open>reserve\<close> compacts or grows; \<open>at()\<close> checks the
  index, \<open>memcpy\<close> and \<open>memmove\<close> do not. The macros \<open>WRITE\<close>, \<open>READ\<close> and \<open>PEEK\<close> are one definition each, used for
  the eight integer types, which are stored in the host's byte order.
  The abstraction is the queue of unread bytes; the locale states what a reader relies on.
\<close>

record dynamic_buffer =
  read_index :: nat
  write_index :: nat
  expand_size :: nat
  char_vector :: bytes

definition DynamicBuffer :: "nat \<Rightarrow> dynamic_buffer" where
  "DynamicBuffer expend_size = \<lparr>read_index = 0, write_index = 0, expand_size = expend_size, char_vector = [0]\<rparr>"

text \<open>The pointers are indices into the vector.\<close>

definition writeBegin :: "dynamic_buffer \<Rightarrow> nat cpp" where
  "writeBegin b = (if write_index b < length (char_vector b) then Inr (write_index b) else Inl Out_of_range)"

definition readBegin :: "dynamic_buffer \<Rightarrow> nat cpp" where
  "readBegin b = (if read_index b < length (char_vector b) then Inr (read_index b) else Inl Out_of_range)"

definition buffer_read :: "nat \<Rightarrow> dynamic_buffer \<Rightarrow> dynamic_buffer" where
  "buffer_read n b =
     (let r = size_add (read_index b) n
      in if r = write_index b then b\<lparr>read_index := 0, write_index := 0\<rparr> else b\<lparr>read_index := r\<rparr>)"

definition buffer_write :: "nat \<Rightarrow> dynamic_buffer \<Rightarrow> dynamic_buffer" where
  "buffer_write n b = b\<lparr>write_index := size_add (write_index b) n\<rparr>"

definition dataBytes :: "dynamic_buffer \<Rightarrow> nat" where
  "dataBytes b = size_sub (write_index b) (read_index b)"

definition availableBytes :: "dynamic_buffer \<Rightarrow> nat" where
  "availableBytes b = size_sub (length (char_vector b)) (write_index b)"

definition uselessBytes :: "dynamic_buffer \<Rightarrow> nat" where
  "uselessBytes b = read_index b"

text \<open>\<^verbatim>\<open>vector::resize\<close> and the unchecked copies.\<close>

definition vector_resize :: "nat \<Rightarrow> bytes \<Rightarrow> bytes cpp" where
  "vector_resize n v = (if max_size < n then Inl Length_error else Inr (take n v @ replicate (n - length v) 0))"

definition copy_out :: "bytes \<Rightarrow> nat \<Rightarrow> nat \<Rightarrow> bytes cpp" where
  "copy_out v from n = (if from + n \<le> length v then Inr (take n (drop from v)) else Inl Undefined_behaviour)"

definition copy_in :: "bytes \<Rightarrow> nat \<Rightarrow> bytes \<Rightarrow> bytes cpp" where
  "copy_in v to bs =
     (if to + length bs \<le> length v then Inr (take to v @ bs @ drop (to + length bs) v) else Inl Undefined_behaviour)"

definition reserve :: "nat \<Rightarrow> dynamic_buffer \<Rightarrow> dynamic_buffer cpp" where
  "reserve n b =
     (if availableBytes b > n then Inr b
      else
        cpp_bind
          (if size_add (availableBytes b) (uselessBytes b) \<le> n then
             (if expand_size b = 0 then Inl Undefined_behaviour
              else Inr (size_add (size_mul (size_add (n div expand_size b) 1) (expand_size b)) (length (char_vector b))))
           else Inr (length (char_vector b))) (\<lambda>new_size.
        cpp_bind (vector_resize new_size (char_vector b)) (\<lambda>v.
        cpp_bind (readBegin (b\<lparr>char_vector := v\<rparr>)) (\<lambda>from.
        cpp_bind (copy_out v from (dataBytes b)) (\<lambda>bs.
        cpp_bind (copy_in v 0 bs) (\<lambda>v'.
          Inr (b\<lparr>char_vector := v', write_index := dataBytes b, read_index := 0\<rparr>)))))))"

definition readAllToString :: "dynamic_buffer \<Rightarrow> (bytes \<times> dynamic_buffer) cpp" where
  "readAllToString b =
     cpp_bind (readBegin b) (\<lambda>from.
     cpp_bind (copy_out (char_vector b) from (dataBytes b)) (\<lambda>bs.
       Inr (bs, buffer_read (dataBytes b) b)))"

subsection \<open>Integers\<close>

definition WRITE :: "bytes \<Rightarrow> dynamic_buffer \<Rightarrow> dynamic_buffer cpp" where
  "WRITE bs b =
     cpp_bind (reserve (length bs) b) (\<lambda>b1.
     cpp_bind (writeBegin b1) (\<lambda>to.
     cpp_bind (copy_in (char_vector b1) to bs) (\<lambda>v.
       Inr (buffer_write (length bs) (b1\<lparr>char_vector := v\<rparr>)))))"

definition READ :: "nat \<Rightarrow> dynamic_buffer \<Rightarrow> (bytes option \<times> dynamic_buffer) cpp" where
  "READ n b =
     (if dataBytes b < n then Inr (None, b)
      else
        cpp_bind (readBegin b) (\<lambda>from.
        cpp_bind (copy_out (char_vector b) from n) (\<lambda>bs.
          Inr (Some bs, buffer_read n b))))"

definition PEEK :: "nat \<Rightarrow> nat \<Rightarrow> dynamic_buffer \<Rightarrow> bytes option cpp" where
  "PEEK n offset b =
     (if dataBytes b < size_add n offset then Inr None
      else
        cpp_bind (readBegin b) (\<lambda>from.
        cpp_bind (copy_out (char_vector b) (from + offset) n) (\<lambda>bs. Inr (Some bs))))"

text \<open>\<open>value\<close> is written only when the macro returns \<open>true\<close>; a signed integer has the same representation as the
  unsigned one of its width.\<close>

definition read_value :: "endian \<Rightarrow> (bytes option \<times> dynamic_buffer) cpp \<Rightarrow> ('a::len word option \<times> dynamic_buffer) cpp" where
  "read_value e r = cpp_bind r (\<lambda>(bs, b). Inr (map_option (from_object e) bs, b))"

definition peek_value :: "endian \<Rightarrow> bytes option cpp \<Rightarrow> 'a::len word option cpp" where
  "peek_value e r = cpp_bind r (\<lambda>bs. Inr (map_option (from_object e) bs))"

definition writeInt8 :: "endian \<Rightarrow> 8 word \<Rightarrow> dynamic_buffer \<Rightarrow> dynamic_buffer cpp" where
  "writeInt8 e v b = WRITE (object_repr e 1 v) b"

definition writeUint8 :: "endian \<Rightarrow> 8 word \<Rightarrow> dynamic_buffer \<Rightarrow> dynamic_buffer cpp" where
  "writeUint8 e v b = WRITE (object_repr e 1 v) b"

definition writeInt16 :: "endian \<Rightarrow> 16 word \<Rightarrow> dynamic_buffer \<Rightarrow> dynamic_buffer cpp" where
  "writeInt16 e v b = WRITE (object_repr e 2 v) b"

definition writeUint16 :: "endian \<Rightarrow> 16 word \<Rightarrow> dynamic_buffer \<Rightarrow> dynamic_buffer cpp" where
  "writeUint16 e v b = WRITE (object_repr e 2 v) b"

definition writeInt32 :: "endian \<Rightarrow> 32 word \<Rightarrow> dynamic_buffer \<Rightarrow> dynamic_buffer cpp" where
  "writeInt32 e v b = WRITE (object_repr e 4 v) b"

definition writeUint32 :: "endian \<Rightarrow> 32 word \<Rightarrow> dynamic_buffer \<Rightarrow> dynamic_buffer cpp" where
  "writeUint32 e v b = WRITE (object_repr e 4 v) b"

definition writeInt64 :: "endian \<Rightarrow> 64 word \<Rightarrow> dynamic_buffer \<Rightarrow> dynamic_buffer cpp" where
  "writeInt64 e v b = WRITE (object_repr e 8 v) b"

definition writeUint64 :: "endian \<Rightarrow> 64 word \<Rightarrow> dynamic_buffer \<Rightarrow> dynamic_buffer cpp" where
  "writeUint64 e v b = WRITE (object_repr e 8 v) b"

definition readInt8 :: "endian \<Rightarrow> dynamic_buffer \<Rightarrow> (8 word option \<times> dynamic_buffer) cpp" where
  "readInt8 e b = read_value e (READ 1 b)"

definition readUint8 :: "endian \<Rightarrow> dynamic_buffer \<Rightarrow> (8 word option \<times> dynamic_buffer) cpp" where
  "readUint8 e b = read_value e (READ 1 b)"

definition readInt16 :: "endian \<Rightarrow> dynamic_buffer \<Rightarrow> (16 word option \<times> dynamic_buffer) cpp" where
  "readInt16 e b = read_value e (READ 2 b)"

definition readUint16 :: "endian \<Rightarrow> dynamic_buffer \<Rightarrow> (16 word option \<times> dynamic_buffer) cpp" where
  "readUint16 e b = read_value e (READ 2 b)"

definition readInt32 :: "endian \<Rightarrow> dynamic_buffer \<Rightarrow> (32 word option \<times> dynamic_buffer) cpp" where
  "readInt32 e b = read_value e (READ 4 b)"

definition readUint32 :: "endian \<Rightarrow> dynamic_buffer \<Rightarrow> (32 word option \<times> dynamic_buffer) cpp" where
  "readUint32 e b = read_value e (READ 4 b)"

definition readInt64 :: "endian \<Rightarrow> dynamic_buffer \<Rightarrow> (64 word option \<times> dynamic_buffer) cpp" where
  "readInt64 e b = read_value e (READ 8 b)"

definition readUint64 :: "endian \<Rightarrow> dynamic_buffer \<Rightarrow> (64 word option \<times> dynamic_buffer) cpp" where
  "readUint64 e b = read_value e (READ 8 b)"

definition peekInt8 :: "endian \<Rightarrow> nat \<Rightarrow> dynamic_buffer \<Rightarrow> 8 word option cpp" where
  "peekInt8 e offset b = peek_value e (PEEK 1 offset b)"

definition peekUint8 :: "endian \<Rightarrow> nat \<Rightarrow> dynamic_buffer \<Rightarrow> 8 word option cpp" where
  "peekUint8 e offset b = peek_value e (PEEK 1 offset b)"

definition peekInt16 :: "endian \<Rightarrow> nat \<Rightarrow> dynamic_buffer \<Rightarrow> 16 word option cpp" where
  "peekInt16 e offset b = peek_value e (PEEK 2 offset b)"

definition peekUint16 :: "endian \<Rightarrow> nat \<Rightarrow> dynamic_buffer \<Rightarrow> 16 word option cpp" where
  "peekUint16 e offset b = peek_value e (PEEK 2 offset b)"

definition peekInt32 :: "endian \<Rightarrow> nat \<Rightarrow> dynamic_buffer \<Rightarrow> 32 word option cpp" where
  "peekInt32 e offset b = peek_value e (PEEK 4 offset b)"

definition peekUint32 :: "endian \<Rightarrow> nat \<Rightarrow> dynamic_buffer \<Rightarrow> 32 word option cpp" where
  "peekUint32 e offset b = peek_value e (PEEK 4 offset b)"

definition peekInt64 :: "endian \<Rightarrow> nat \<Rightarrow> dynamic_buffer \<Rightarrow> 64 word option cpp" where
  "peekInt64 e offset b = peek_value e (PEEK 8 offset b)"

definition peekUint64 :: "endian \<Rightarrow> nat \<Rightarrow> dynamic_buffer \<Rightarrow> 64 word option cpp" where
  "peekUint64 e offset b = peek_value e (PEEK 8 offset b)"


subsection \<open>The queue of unread bytes\<close>

text \<open>
  The invariant: the indices are ordered and inside the vector, they are both 0 when nothing is unread, and
  the vector is neither empty nor longer than \<open>max_size\<close>.
\<close>

definition buffer_inv :: "dynamic_buffer \<Rightarrow> bool" where
  "buffer_inv b \<longleftrightarrow>
     read_index b \<le> write_index b \<and> write_index b \<le> length (char_vector b) \<and>
     (read_index b = write_index b \<longrightarrow> read_index b = 0) \<and>
     0 < length (char_vector b) \<and> length (char_vector b) \<le> max_size \<and> 0 < expand_size b"

definition unread :: "dynamic_buffer \<Rightarrow> bytes" where
  "unread b = take (write_index b - read_index b) (drop (read_index b) (char_vector b))"

lemma length_unread: "buffer_inv b \<Longrightarrow> length (unread b) = write_index b - read_index b"
  by (auto simp: unread_def buffer_inv_def min_def)

lemma buffer_sizes:
  assumes "buffer_inv b"
  shows "dataBytes b = length (unread b)"
    and "availableBytes b = length (char_vector b) - write_index b"
    and "readBegin b = Inr (read_index b)"
  using assms max_size_lt_size_mod
  by (auto simp: buffer_inv_def dataBytes_def availableBytes_def readBegin_def size_arith unread_def)

lemma DynamicBuffer_inv: "0 < n \<Longrightarrow> buffer_inv (DynamicBuffer n)" "unread (DynamicBuffer n) = []"
  by (simp_all add: buffer_inv_def DynamicBuffer_def unread_def max_size_def)

lemma buffer_read_unread:
  assumes "buffer_inv b" and "n \<le> length (unread b)"
  shows "buffer_inv (buffer_read n b)" and "unread (buffer_read n b) = drop n (unread b)"
proof -
  have "size_add (read_index b) n = read_index b + n"
    using assms max_size_lt_size_mod by (auto simp: length_unread buffer_inv_def intro!: size_arith)
  then show "buffer_inv (buffer_read n b)" "unread (buffer_read n b) = drop n (unread b)"
    using assms
    by (auto simp: buffer_read_def Let_def buffer_inv_def unread_def drop_take add.commute)
qed

lemma copy_out_unread:
  assumes "buffer_inv b" and "off + n \<le> length (unread b)"
  shows "copy_out (char_vector b) (read_index b + off) n = Inr (take n (drop off (unread b)))"
proof -
  have "n \<le> write_index b - read_index b - off"
    using assms by (simp add: length_unread)
  then show ?thesis
    using assms by (auto simp: copy_out_def unread_def buffer_inv_def drop_take min_absorb1 add.commute)
qed

text \<open>Reserving keeps the unread bytes and makes more room than asked for.\<close>

definition room_for :: "nat \<Rightarrow> dynamic_buffer \<Rightarrow> bool" where
  "room_for n b \<longleftrightarrow> n + expand_size b + length (char_vector b) \<le> max_size"

lemma reserve_unread:
  assumes inv: "buffer_inv b" and room: "room_for n b"
  shows "\<exists>b'. reserve n b = Inr b' \<and> buffer_inv b' \<and> unread b' = unread b \<and> n < availableBytes b' \<and>
    expand_size b' = expand_size b \<and>
    length (char_vector b') \<le> max (length (char_vector b)) (length (unread b) + 2 * n + expand_size b)"
proof (cases "n < availableBytes b")
  case True
  then show ?thesis using inv by (simp add: reserve_def)
next
  case False
  define v where "v = char_vector b"
  define r where "r = read_index b"
  define k where "k = length (unread b)"
  define g where "g = (n div expand_size b + 1) * expand_size b"
  define new_size where "new_size = (if length v - write_index b + r \<le> n then g + length v else length v)"
  have i: "r + k = write_index b" "write_index b \<le> length v" "0 < length v" "length v \<le> max_size" "0 < expand_size b"
    "r = write_index b \<longrightarrow> r = 0" "k = 0 \<longrightarrow> r = 0"
    using inv by (auto simp: buffer_inv_def v_def r_def k_def length_unread)
  have e: "g \<le> n + expand_size b" "n < g"
    using i(5) by (simp_all add: g_def add_mult_distrib dividend_less_div_times)
  have bound: "n + expand_size b + length v \<le> max_size" using room by (simp add: room_for_def v_def)
  have lt: "max_size < size_mod" by (rule max_size_lt_size_mod)
  have "n div expand_size b + 1 \<le> n + 1" by simp
  then have s1: "size_add (n div expand_size b) 1 = n div expand_size b + 1"
    using bound lt i(5) by (intro size_arith) linarith
  have s2: "size_mul (n div expand_size b + 1) (expand_size b) = g"
    using bound lt e unfolding g_def by (intro size_arith) linarith
  have s3: "size_add g (length v) = g + length v"
    using bound lt e by (intro size_arith) linarith
  have s4: "size_add (length v - write_index b) r = length v - write_index b + r"
    using i lt by (intro size_arith) linarith
  have new: "length v \<le> new_size" "new_size \<le> max_size" "n < new_size - k"
    using e bound i by (auto simp: new_size_def)
  define v1 where "v1 = v @ replicate (new_size - length v) 0"
  have v1: "length v1 = new_size" "take n (drop r v1) = take n (drop r v)" if "r + n \<le> length v" for n
    using that new by (simp_all add: v1_def)
  have bs: "take k (drop r v1) = unread b"
    using i new by (simp add: v1_def unread_def v_def r_def flip: i(1))
  define b' where "b' = b\<lparr>char_vector := unread b @ drop k v1, write_index := k, read_index := 0\<rparr>"
  have "reserve n b = Inr b'"
  proof -
    have "vector_resize new_size v = Inr v1"
      using new by (simp add: vector_resize_def v1_def)
    moreover have "readBegin (b\<lparr>char_vector := v1\<rparr>) = Inr r"
      using i new by (auto simp: readBegin_def v1_def r_def)
    moreover have "copy_out v1 r k = Inr (unread b)"
      using i new bs by (simp add: copy_out_def v1_def)
    moreover have "copy_in v1 0 (unread b) = Inr (unread b @ drop k v1)"
      using i new by (simp add: copy_in_def v1_def k_def)
    moreover have "(if size_add (availableBytes b) (uselessBytes b) \<le> n then
        (if expand_size b = 0 then Inl Undefined_behaviour
         else Inr (size_add (size_mul (size_add (n div expand_size b) 1) (expand_size b)) (length (char_vector b))))
      else Inr (length (char_vector b))) = Inr new_size"
      using i(5) s4 unfolding buffer_sizes(2) [OF inv] uselessBytes_def s1 s2 v_def [symmetric] r_def [symmetric] s3
      by (simp add: new_size_def)
    ultimately show ?thesis
      using False buffer_sizes(1) [OF inv] by (simp add: reserve_def b'_def flip: v_def k_def)
  qed
  moreover have "length (unread b @ drop k v1) = new_size"
    using new i by (simp add: v1_def k_def)
  then have b': "length (char_vector b') = new_size" "read_index b' = 0" "write_index b' = k" "expand_size b' = expand_size b"
    by (simp_all add: b'_def)
  have k: "k \<le> new_size" "0 < new_size" using i new by linarith+
  have "buffer_inv b'"
    using b' k i(5) new(2) unfolding buffer_inv_def by simp
  moreover have "unread b' = unread b"
    by (simp add: unread_def [of b'] b'(2,3)) (simp add: b'_def k_def)
  moreover have "n < availableBytes b'"
    using new k lt by (simp add: availableBytes_def b' size_arith)
  moreover have "new_size \<le> max (length v) (k + 2 * n + expand_size b)"
    using e(1) i(1) by (auto simp: new_size_def)
  ultimately show ?thesis using b'(1,4) by (auto simp: v_def k_def)
qed

text \<open>Storing bytes behind the unread ones, at the write index.\<close>

definition store :: "bytes \<Rightarrow> dynamic_buffer \<Rightarrow> dynamic_buffer cpp" where
  "store bs b =
     cpp_bind (copy_in (char_vector b) (write_index b) bs) (\<lambda>v. Inr (buffer_write (length bs) (b\<lparr>char_vector := v\<rparr>)))"

lemma window_append:
  assumes "r \<le> w" and "w \<le> length v"
  shows "take (w + length bs - r) (drop r (take w v @ bs @ ys)) = take (w - r) (drop r v) @ bs"
proof -
  have "drop r (take w v @ bs @ ys) = (take (w - r) (drop r v) @ bs) @ ys"
    using assms by (simp add: drop_take)
  moreover have "w + length bs - r = length (take (w - r) (drop r v) @ bs)"
    using assms by simp
  ultimately show ?thesis by (metis append_eq_conv_conj)
qed

lemma store_unread:
  assumes inv: "buffer_inv b" and room: "length bs \<le> availableBytes b"
  shows "\<exists>b'. store bs b = Inr b' \<and> buffer_inv b' \<and> unread b' = unread b @ bs \<and>
    expand_size b' = expand_size b \<and> length (char_vector b') = length (char_vector b)"
proof -
  define v where "v = char_vector b"
  have i: "read_index b \<le> write_index b" "write_index b + length bs \<le> length v" "0 < length v" "length v \<le> max_size"
    "0 < expand_size b" "read_index b = write_index b \<longrightarrow> read_index b = 0"
    using inv room by (auto simp: buffer_inv_def v_def buffer_sizes)
  define b' where "b' = b\<lparr>char_vector := take (write_index b) v @ bs @ drop (write_index b + length bs) v,
    write_index := write_index b + length bs\<rparr>"
  have "size_add (write_index b) (length bs) = write_index b + length bs"
    using i max_size_lt_size_mod by (intro size_arith) linarith
  then have "store bs b = Inr b'"
    using i by (simp add: store_def copy_in_def buffer_write_def b'_def flip: v_def)
  moreover have "buffer_inv b'"
    using i by (auto simp: buffer_inv_def b'_def)
  moreover have "unread b' = unread b @ bs"
    using window_append [OF i(1), of v bs] i(2)
    unfolding unread_def b'_def v_def [symmetric] by (simp del: take_append drop_append)
  ultimately show ?thesis
    using i by (auto simp: b'_def v_def)
qed

lemma WRITE_unread:
  assumes inv: "buffer_inv b" and room: "room_for (length bs) b"
  shows "\<exists>b'. WRITE bs b = Inr b' \<and> buffer_inv b' \<and> unread b' = unread b @ bs"
proof -
  obtain b1 where b1: "reserve (length bs) b = Inr b1" "buffer_inv b1" "unread b1 = unread b" "length bs < availableBytes b1"
    using reserve_unread [OF inv room] by blast
  then have "writeBegin b1 = Inr (write_index b1)"
    by (simp add: writeBegin_def buffer_sizes)
  then have "WRITE bs b = store bs b1"
    by (simp add: WRITE_def b1 store_def)
  then show ?thesis
    using store_unread [OF b1(2), of bs] b1 by auto
qed

lemma READ_unread:
  assumes inv: "buffer_inv b"
  shows "READ n b = (if length (unread b) < n then Inr (None, b) else Inr (Some (take n (unread b)), buffer_read n b))"
  using copy_out_unread [OF inv, of 0 n] by (simp add: READ_def buffer_sizes [OF inv])

lemma PEEK_unread:
  assumes inv: "buffer_inv b" and "n + offset < size_mod"
  shows "PEEK n offset b =
    Inr (if length (unread b) < n + offset then None else Some (take n (drop offset (unread b))))"
  using copy_out_unread [OF inv, of offset n] assms(2)
  by (simp add: PEEK_def buffer_sizes [OF inv] size_arith add.commute)

subsection \<open>The contract of a reader\<close>

text \<open>
  What the client of a receive buffer uses: the number of unread bytes, a copy of some of them, and dropping them
  from the front. \<open>next_frame\<close> is the client's step: one message behind a four-byte length in network byte order.
\<close>

definition next_frame ::
  "('b \<Rightarrow> nat) \<Rightarrow> (nat \<Rightarrow> nat \<Rightarrow> 'b \<Rightarrow> bytes cpp) \<Rightarrow> (nat \<Rightarrow> 'b \<Rightarrow> 'b) \<Rightarrow> endian \<Rightarrow> 'b \<Rightarrow> (bytes \<times> 'b) option cpp" where
  "next_frame count front consume e b =
     (if count b < 4 then Inr None
      else
        cpp_bind (front 0 4 b) (\<lambda>hdr.
          let len = unat (ntohl e (from_object e hdr))
          in if count b < len + 4 then Inr None
             else cpp_bind (front 4 len b) (\<lambda>data. Inr (Some (data, consume (len + 4) b)))))"

text \<open>The same step on the bytes themselves.\<close>

definition split_frame :: "bytes \<Rightarrow> (bytes \<times> bytes) option" where
  "split_frame bs =
     (let len = unat (from_be (take 4 bs) :: u32)
      in if length bs < 4 \<or> length bs < len + 4 then None
         else Some (take len (drop 4 bs), drop (len + 4) bs))"

locale byte_queue =
  fixes contents :: "'b \<Rightarrow> bytes"
    and ok :: "'b \<Rightarrow> bool"
    and count :: "'b \<Rightarrow> nat"
    and front :: "nat \<Rightarrow> nat \<Rightarrow> 'b \<Rightarrow> bytes cpp"
    and consume :: "nat \<Rightarrow> 'b \<Rightarrow> 'b"
  assumes count_contents: "ok b \<Longrightarrow> count b = length (contents b)"
    and front_contents: "ok b \<Longrightarrow> off + n \<le> length (contents b) \<Longrightarrow> front off n b = Inr (take n (drop off (contents b)))"
    and consume_contents: "ok b \<Longrightarrow> n \<le> length (contents b) \<Longrightarrow> contents (consume n b) = drop n (contents b)"
    and consume_ok: "ok b \<Longrightarrow> n \<le> length (contents b) \<Longrightarrow> ok (consume n b)"
begin

text \<open>The client's step refines the one on bytes, and never faults.\<close>

lemma next_frame_None:
  assumes "ok b" and "split_frame (contents b) = None"
  shows "next_frame count front consume e b = Inr None"
proof (cases "length (contents b) < 4")
  case True
  then show ?thesis by (simp add: next_frame_def count_contents [OF assms(1)])
next
  case False
  then have "front 0 4 b = Inr (take 4 (contents b))"
    using front_contents [OF assms(1), of 0 4] by simp
  then show ?thesis
    using assms False
    by (simp add: next_frame_def count_contents split_frame_def Let_def bytes_simps split: if_splits)
qed

lemma next_frame_Some:
  assumes "ok b" and "split_frame (contents b) = Some (data, rest)"
  shows "\<exists>b'. next_frame count front consume e b = Inr (Some (data, b')) \<and> ok b' \<and> contents b' = rest"
proof -
  define len where "len = unat (from_be (take 4 (contents b)) :: u32)"
  have l: "4 + len \<le> length (contents b)" "data = take len (drop 4 (contents b))" "rest = drop (len + 4) (contents b)"
    using assms(2) by (auto simp: split_frame_def Let_def len_def split: if_splits)
  have "front 0 4 b = Inr (take 4 (contents b))" "front 4 len b = Inr data"
    using front_contents [OF assms(1), of 0 4] front_contents [OF assms(1), of 4 len] l by simp_all
  moreover have "length (take 4 (contents b)) = 4"
    using l by simp
  ultimately have "next_frame count front consume e b = Inr (Some (data, consume (len + 4) b))"
    using l count_contents [OF assms(1)] by (simp add: next_frame_def bytes_simps Let_def flip: len_def)
  then show ?thesis
    using consume_contents [OF assms(1)] consume_ok [OF assms(1)] l by auto
qed

end

text \<open>Reading \<open>n\<close> bytes at an offset behind \<open>readBegin()\<close>.\<close>

definition buffer_front :: "nat \<Rightarrow> nat \<Rightarrow> dynamic_buffer \<Rightarrow> bytes cpp" where
  "buffer_front off n b = cpp_bind (readBegin b) (\<lambda>from. copy_out (char_vector b) (from + off) n)"

interpretation recv: byte_queue unread buffer_inv dataBytes buffer_front buffer_read
  by unfold_locales
     (simp_all add: buffer_sizes buffer_front_def copy_out_unread buffer_read_unread)

subsection \<open>Properties\<close>

text \<open>C18: The receive buffer is a queue of bytes: reserving space keeps the unread bytes and leaves more room than asked
  for, with a vector no larger than before or than twice the request beyond the unread bytes and the step; writing an integer appends its bytes; reading takes them from the front and peeking leaves them; reading or
  peeking more than there is answers \<open>false\<close> and changes nothing. All this in every state of the invariant, which
  each of them keeps (the constructor establishes it), while a vector can hold the bytes, and without ever leaving the vector.\<close>

theorem dynamic_buffer_is_queue:
  assumes "buffer_inv b" and "room_for (length bs) b" and "n + offset < size_mod"
  shows "(\<exists>b'. reserve (length bs) b = Inr b' \<and> buffer_inv b' \<and> unread b' = unread b \<and> length bs < availableBytes b' \<and>
      length (char_vector b') \<le> max (length (char_vector b)) (length (unread b) + 2 * length bs + expand_size b)) \<and>
    (\<exists>b'. WRITE bs b = Inr b' \<and> buffer_inv b' \<and> unread b' = unread b @ bs) \<and>
    (\<exists>b'. READ n b = Inr (if n \<le> length (unread b) then Some (take n (unread b)) else None, b') \<and>
      buffer_inv b' \<and> unread b' = (if n \<le> length (unread b) then drop n (unread b) else unread b)) \<and>
    PEEK n offset b = Inr (if n + offset \<le> length (unread b) then Some (take n (drop offset (unread b))) else None) \<and>
    (\<exists>b'. readAllToString b = Inr (unread b, b') \<and> buffer_inv b' \<and> unread b' = [])"
proof -
  note inv = assms(1)
  have "\<exists>b'. READ n b = Inr (if n \<le> length (unread b) then Some (take n (unread b)) else None, b') \<and>
      buffer_inv b' \<and> unread b' = (if n \<le> length (unread b) then drop n (unread b) else unread b)"
    using READ_unread [OF inv, of n] buffer_read_unread [OF inv, of n] inv by (cases "n \<le> length (unread b)") auto
  moreover have "PEEK n offset b = Inr (if n + offset \<le> length (unread b) then Some (take n (drop offset (unread b))) else None)"
    using PEEK_unread [OF inv assms(3)] by auto
  moreover have "\<exists>b'. readAllToString b = Inr (unread b, b') \<and> buffer_inv b' \<and> unread b' = []"
    using copy_out_unread [OF inv, of 0 "length (unread b)"] buffer_read_unread [OF inv, of "length (unread b)"]
    by (simp add: readAllToString_def buffer_sizes [OF inv])
  ultimately show ?thesis
    using WRITE_unread [OF assms(1,2)] reserve_unread [OF assms(1,2)] by blast
qed

theorem dynamic_buffer_is_queue_witness:
  "(\<exists>b'. reserve 2 (DynamicBuffer 1024) = Inr b' \<and> buffer_inv b' \<and> unread b' = [] \<and> 2 < availableBytes b' \<and>
      length (char_vector b') \<le> 1028) \<and>
    (\<exists>b'. WRITE [1, 2] (DynamicBuffer 1024) = Inr b' \<and> buffer_inv b' \<and> unread b' = unread (DynamicBuffer 1024) @ [1, 2]) \<and>
    (\<exists>b'. READ 4 (DynamicBuffer 1024) = Inr (None, b') \<and> buffer_inv b' \<and> unread b' = []) \<and>
    PEEK 4 1 (DynamicBuffer 1024) = Inr None \<and>
    (\<exists>b'. readAllToString (DynamicBuffer 1024) = Inr ([], b') \<and> buffer_inv b' \<and> unread b' = [])"
proof -
  have len: "length [1, 2 :: u8] = 2" by simp
  have inv: "buffer_inv (DynamicBuffer 1024)" by (simp add: DynamicBuffer_inv)
  have room: "room_for (length [1, 2 :: u8]) (DynamicBuffer 1024)"
    by (simp add: DynamicBuffer_inv room_for_def max_size_def) (simp add: DynamicBuffer_def)
  have "4 + 1 < size_mod" by (simp add: size_mod_def)
  from dynamic_buffer_is_queue [OF inv room this] show ?thesis
    unfolding len by (simp add: DynamicBuffer_inv) (simp add: DynamicBuffer_def)
qed

text \<open>An integer type is stored correctly when what is written behind the unread bytes is read and peeked as the same
  value once those bytes are gone.\<close>

definition stores_integer ::
  "nat \<Rightarrow> (endian \<Rightarrow> 'a::len word \<Rightarrow> dynamic_buffer \<Rightarrow> dynamic_buffer cpp) \<Rightarrow>
   (endian \<Rightarrow> dynamic_buffer \<Rightarrow> ('a word option \<times> dynamic_buffer) cpp) \<Rightarrow>
   (endian \<Rightarrow> nat \<Rightarrow> dynamic_buffer \<Rightarrow> 'a word option cpp) \<Rightarrow> endian \<Rightarrow> 'a word \<Rightarrow> dynamic_buffer \<Rightarrow> bool" where
  "stores_integer n wr rd pk e v b \<longleftrightarrow>
     (\<exists>b1. wr e v b = Inr b1 \<and> buffer_inv b1 \<and>
        pk e (length (unread b)) b1 = Inr (Some v) \<and>
        (\<exists>b2. rd e (buffer_read (length (unread b)) b1) = Inr (Some v, b2) \<and> buffer_inv b2 \<and> unread b2 = []))"

lemma stores_integerI:
  fixes v :: "'a::len word"
  assumes inv: "buffer_inv b" and room: "room_for n b" and len: "LENGTH('a) = 8 * n"
    and wr: "wr e v b = WRITE (object_repr e n v) b"
    and rd: "\<And>b. rd e b = read_value e (READ n b)" and pk: "\<And>off b. pk e off b = peek_value e (PEEK n off b)"
  shows "stores_integer n wr rd pk e v b"
proof -
  define k where "k = length (unread b)"
  obtain b1 where b1: "WRITE (object_repr e n v) b = Inr b1" "buffer_inv b1" "unread b1 = unread b @ object_repr e n v"
    using WRITE_unread [OF inv, of "object_repr e n v"] room by auto
  have l: "length (unread b1) = k + n" "drop k (unread b1) = object_repr e n v"
    using b1 by (simp_all add: k_def)
  have "k \<le> max_size" "n \<le> max_size"
    using inv room by (auto simp: k_def length_unread buffer_inv_def room_for_def)
  then have "n + k < size_mod" by (simp add: max_size_def size_mod_def)
  then have "pk e k b1 = Inr (Some v)"
    using PEEK_unread [OF b1(2), of n k] l len by (simp add: pk peek_value_def from_object_object_repr)
  moreover have r: "buffer_inv (buffer_read k b1)" "unread (buffer_read k b1) = object_repr e n v"
    using buffer_read_unread [OF b1(2), of k] l by simp_all
  have "rd e (buffer_read k b1) = Inr (Some v, buffer_read n (buffer_read k b1))"
    using READ_unread [OF r(1), of n] r(2) len by (simp add: rd read_value_def from_object_object_repr)
  moreover have "buffer_inv (buffer_read n (buffer_read k b1))" "unread (buffer_read n (buffer_read k b1)) = []"
    using buffer_read_unread [OF r(1), of n] r(2) by simp_all
  ultimately show ?thesis
    using b1 by (simp add: stores_integer_def wr flip: k_def)
qed

text \<open>Each of the eight integer types written to the receive buffer is read and peeked back as the same value, on hosts
  of either byte order, whatever is in the buffer before it.\<close>

lemma dynamic_buffer_integers:
  assumes "buffer_inv b" and "room_for 8 b"
  shows "stores_integer 1 writeInt8 readInt8 peekInt8 e v8 b \<and> stores_integer 1 writeUint8 readUint8 peekUint8 e w8 b \<and>
    stores_integer 2 writeInt16 readInt16 peekInt16 e v16 b \<and> stores_integer 2 writeUint16 readUint16 peekUint16 e w16 b \<and>
    stores_integer 4 writeInt32 readInt32 peekInt32 e v32 b \<and> stores_integer 4 writeUint32 readUint32 peekUint32 e w32 b \<and>
    stores_integer 8 writeInt64 readInt64 peekInt64 e v64 b \<and> stores_integer 8 writeUint64 readUint64 peekUint64 e w64 b"
proof -
  have "room_for n b" if "n \<le> 8" for n
    using assms(2) that by (simp add: room_for_def)
  then show ?thesis
    by (intro conjI stores_integerI [OF assms(1)])
       (simp_all add: writeInt8_def readInt8_def peekInt8_def writeUint8_def readUint8_def peekUint8_def
          writeInt16_def readInt16_def peekInt16_def writeUint16_def readUint16_def peekUint16_def
          writeInt32_def readInt32_def peekInt32_def writeUint32_def readUint32_def peekUint32_def
          writeInt64_def readInt64_def peekInt64_def writeUint64_def readUint64_def peekUint64_def)
qed

lemma DynamicBuffer_room: "room_for 8 (DynamicBuffer 1024)"
  by (simp add: room_for_def max_size_def DynamicBuffer_def)

lemma dynamic_buffer_integers_witness:
  "stores_integer 4 writeUint32 readUint32 peekUint32 Big_endian 7 (DynamicBuffer 1024)"
  using dynamic_buffer_integers [of "DynamicBuffer 1024" Big_endian 0 0 0 0 0 7 0 0]
  by (simp add: DynamicBuffer_inv DynamicBuffer_room)

end
