(* ===== verification/Operating_System.thy ===== *)
theory Operating_System
  imports Prelude
begin

section \<open>The system calls of the library\<close>

text \<open>
  The kernel is not part of the library: its calls are the fields of a record \<open>'k os\<close>, the parameter of every
  definition that uses them. \<open>'k\<close> is the state of everything outside the library: the kernel, the memory that
  buffers point into, and the application. A call that fails gives its \<^verbatim>\<open>errno\<close>; calls that only succeed or fail give
  0 or \<^verbatim>\<open>errno\<close>. The predicates at the end state the documented behaviour the theorems rely on.
\<close>

type_synonym events = u32

definition EPOLLIN :: events where "EPOLLIN = 1"
definition EPOLLPRI :: events where "EPOLLPRI = 2"
definition EPOLLOUT :: events where "EPOLLOUT = 4"
definition EPOLLERR :: events where "EPOLLERR = 8"
definition EPOLLHUP :: events where "EPOLLHUP = 16"

definition ENOENT :: int where "ENOENT = 2"
definition EINTR :: int where "EINTR = 4"
definition EBADF :: int where "EBADF = 9"
definition EINVAL :: int where "EINVAL = 22"
definition EINPROGRESS :: int where "EINPROGRESS = 115"

definition AF_INET :: u16 where "AF_INET = 2"
definition AF_INET6 :: u16 where "AF_INET6 = 10"

datatype epoll_op = EPOLL_CTL_ADD | EPOLL_CTL_MOD | EPOLL_CTL_DEL
datatype socket_type = SOCK_STREAM | SOCK_DGRAM
datatype socket_option = TCP_NODELAY | SO_REUSEADDR | SO_KEEPALIVE
datatype shutdown_how = SHUT_RD | SHUT_WR

text \<open>A \<^verbatim>\<open>sockaddr\<close> given to a call is the bytes at its address, as many as the length given; buffers are an address
  and a length; a signal set is a list of signals, and \<open>True\<close> blocks them. \<open>os_read_siginfo\<close> gives the signal number found in the
  caller's variable, whatever the \<^verbatim>\<open>read\<close> returned.\<close>

record 'k os =
  os_epoll_ctl :: "epoll_op \<Rightarrow> int \<Rightarrow> events \<Rightarrow> 'k \<Rightarrow> int \<times> 'k"
  os_epoll_wait :: "nat \<Rightarrow> 'k \<Rightarrow> (int + (int \<times> events) list) \<times> 'k"
  os_socket :: "u16 \<Rightarrow> socket_type \<Rightarrow> 'k \<Rightarrow> (int + int) \<times> 'k"
  os_getfl :: "int \<Rightarrow> 'k \<Rightarrow> u32"
  os_setfl :: "int \<Rightarrow> u32 \<Rightarrow> 'k \<Rightarrow> 'k"
  os_close :: "int \<Rightarrow> 'k \<Rightarrow> int \<times> 'k"
  os_recv :: "int \<Rightarrow> nat \<Rightarrow> nat \<Rightarrow> 'k \<Rightarrow> (int + nat) \<times> 'k"
  os_send :: "int \<Rightarrow> nat \<Rightarrow> nat \<Rightarrow> 'k \<Rightarrow> (int + nat) \<times> 'k"
  os_recvfrom :: "int \<Rightarrow> nat \<Rightarrow> nat \<Rightarrow> 'k \<Rightarrow> (int + nat \<times> bytes) \<times> 'k"
  os_sendto :: "int \<Rightarrow> nat \<Rightarrow> nat \<Rightarrow> bytes \<Rightarrow> 'k \<Rightarrow> (int + nat) \<times> 'k"
  os_accept :: "int \<Rightarrow> 'k \<Rightarrow> (int + int) \<times> 'k"
  os_connect :: "int \<Rightarrow> bytes \<Rightarrow> 'k \<Rightarrow> int \<times> 'k"
  os_so_error :: "int \<Rightarrow> 'k \<Rightarrow> int \<times> 'k"
  os_bind :: "int \<Rightarrow> bytes \<Rightarrow> 'k \<Rightarrow> int \<times> 'k"
  os_listen :: "int \<Rightarrow> int \<Rightarrow> 'k \<Rightarrow> int \<times> 'k"
  os_setsockopt :: "int \<Rightarrow> socket_option \<Rightarrow> int \<Rightarrow> 'k \<Rightarrow> int \<times> 'k"
  os_shutdown :: "int \<Rightarrow> shutdown_how \<Rightarrow> 'k \<Rightarrow> int \<times> 'k"
  os_getpeername :: "int \<Rightarrow> nat \<Rightarrow> 'k \<Rightarrow> (int + bytes) \<times> 'k"
  os_getsockname :: "int \<Rightarrow> nat \<Rightarrow> 'k \<Rightarrow> (int + bytes) \<times> 'k"
  os_signalfd :: "int \<Rightarrow> int list \<Rightarrow> 'k \<Rightarrow> (int + int) \<times> 'k"
  os_sigmask :: "bool \<Rightarrow> int list \<Rightarrow> 'k \<Rightarrow> 'k"
  os_read_siginfo :: "int \<Rightarrow> 'k \<Rightarrow> int \<times> 'k"

text \<open>
  \<^verbatim>\<open>epoll_ctl\<close> and the interest set of the epoll instance, a function of the kernel's state: adding a descriptor that
  is in it or changing one that is not fails (the latter with \<^verbatim>\<open>ENOENT\<close>), and a call that fails changes nothing. A call
  may fail for other reasons, such as memory.
\<close>

definition epoll_law :: "('k \<Rightarrow> int \<Rightarrow> events option) \<Rightarrow> epoll_op \<Rightarrow> int \<Rightarrow> events \<Rightarrow> 'k \<Rightarrow> int \<Rightarrow> 'k \<Rightarrow> bool" where
  "epoll_law interest p fd ev k c k' \<longleftrightarrow>
     (if c = 0 then interest k' = (interest k)(fd := (if p = EPOLL_CTL_DEL then None else Some ev)) \<and>
        (interest k fd = None \<longleftrightarrow> p = EPOLL_CTL_ADD)
      else interest k' = interest k \<and> (p = EPOLL_CTL_MOD \<and> interest k fd = None \<longrightarrow> c = ENOENT))"

text \<open>\<^verbatim>\<open>epoll_wait\<close> leaves the interest set alone and reports at most as many events as it was given room for.\<close>

definition epoll_laws :: "'k os \<Rightarrow> ('k \<Rightarrow> int \<Rightarrow> events option) \<Rightarrow> bool" where
  "epoll_laws os interest \<longleftrightarrow>
     (\<forall>p fd ev k. epoll_law interest p fd ev k (fst (os_epoll_ctl os p fd ev k)) (snd (os_epoll_ctl os p fd ev k))) \<and>
     (\<forall>n k. interest (snd (os_epoll_wait os n k)) = interest k) \<and>
     (\<forall>n k. case fst (os_epoll_wait os n k) of Inl _ \<Rightarrow> True | Inr evs \<Rightarrow> length evs \<le> n)"

lemma epoll_lawsD:
  "epoll_laws os interest \<Longrightarrow> os_epoll_ctl os p fd ev k = (c, k') \<Longrightarrow> epoll_law interest p fd ev k c k'"
  unfolding epoll_laws_def by (metis fst_conv snd_conv)

lemma epoll_waitD:
  assumes "epoll_laws os interest" and "os_epoll_wait os n k = (a, k')"
  shows "interest k' = interest k" and "a = Inr evs \<Longrightarrow> length evs \<le> n"
  using assms unfolding epoll_laws_def by (metis snd_conv, metis (no_types, lifting) fst_conv sum.case(2))

end
