(* ===== verification/Endpoint.thy ===== *)
theory Endpoint
  imports Operating_System
begin

section \<open>Endpoints (asio/src/ip/endpoint.h, endpoint.cc, details/endpoint_data.h)\<close>

text \<open>
  An endpoint holds a union of \<^verbatim>\<open>sockaddr_in\<close> and \<^verbatim>\<open>sockaddr_in6\<close>: 28 bytes, in the layout of Linux. Both have the
  family in bytes 0 and 1 in the host's byte order and the port in bytes 2 and 3 in network byte order; the IPv4 address
  is bytes 4 to 7, the IPv6 address bytes 8 to 23. \<^verbatim>\<open>inet_pton\<close> and \<^verbatim>\<open>inet_ntop\<close> are parameters: \<open>pton4\<close>, \<open>pton6\<close>
  from a C string to an address, \<open>ntop4\<close>, \<open>ntop6\<close> back.
\<close>

type_synonym endpoint = bytes

definition sizeof_sockaddr_in :: nat where "sizeof_sockaddr_in = 16"
definition sizeof_sockaddr_in6 :: nat where "sizeof_sockaddr_in6 = 28"
definition INET_ADDRSTRLEN :: nat where "INET_ADDRSTRLEN = 16"
definition INET6_ADDRSTRLEN :: nat where "INET6_ADDRSTRLEN = 46"

definition c_str :: "string \<Rightarrow> string" where
  "c_str s = takeWhile (\<lambda>c. c \<noteq> CHR 0x00) s"

definition overwrite :: "nat \<Rightarrow> bytes \<Rightarrow> bytes \<Rightarrow> bytes" where
  "overwrite i bs d = take i d @ bs @ drop (i + length bs) d"

definition sa_family :: "endian \<Rightarrow> bytes \<Rightarrow> u16" where
  "sa_family e d = from_object e (take 2 d)"

subsection \<open>Text and addresses\<close>

text \<open>The text is written into a string of fixed length, whose rest stays filled with NUL characters.\<close>

definition network_to_ipv4 :: "(bytes \<Rightarrow> string) \<Rightarrow> bytes \<Rightarrow> string" where
  "network_to_ipv4 ntop4 src = ntop4 src @ replicate (INET_ADDRSTRLEN - length (ntop4 src)) (CHR 0x00)"

definition network_to_ipv6 :: "(bytes \<Rightarrow> string) \<Rightarrow> bytes \<Rightarrow> string" where
  "network_to_ipv6 ntop6 src = ntop6 src @ replicate (INET6_ADDRSTRLEN - length (ntop6 src)) (CHR 0x00)"

definition ipv4_to_network :: "(string \<Rightarrow> bytes option) \<Rightarrow> string \<Rightarrow> bytes option" where
  "ipv4_to_network pton4 ip = pton4 (c_str ip)"

definition ipv6_to_network :: "(string \<Rightarrow> bytes option) \<Rightarrow> string \<Rightarrow> bytes option" where
  "ipv6_to_network pton6 ip = pton6 (c_str ip)"

subsection \<open>Endpoints\<close>

definition Endpoint :: endpoint where
  "Endpoint = replicate 28 0"

definition Endpoint_native :: "endian \<Rightarrow> bytes \<Rightarrow> endpoint cpp" where
  "Endpoint_native e native =
     (if length native < 2 then Inl Undefined_behaviour
      else if sa_family e native = AF_INET then
        (if length native < sizeof_sockaddr_in then Inl Undefined_behaviour
         else Inr (overwrite 0 (take sizeof_sockaddr_in native) (replicate 28 0)))
      else if sa_family e native = AF_INET6 then
        (if length native < sizeof_sockaddr_in6 then Inl Undefined_behaviour
         else Inr (overwrite 0 (take sizeof_sockaddr_in6 native) (replicate 28 0)))
      else Inl Asio_exception)"

definition Endpoint_ip ::
  "(string \<Rightarrow> bytes option) \<Rightarrow> (string \<Rightarrow> bytes option) \<Rightarrow> endian \<Rightarrow> string \<Rightarrow> u16 \<Rightarrow> endpoint cpp" where
  "Endpoint_ip pton4 pton6 e ip port =
     (let data = replicate 28 0
      in case ipv4_to_network pton4 ip of
           Some addr \<Rightarrow>
             Inr (overwrite 2 (object_repr e 2 (htons e port))
               (overwrite 0 (object_repr e 2 AF_INET) (overwrite 4 addr data)))
         | None \<Rightarrow>
             (case ipv6_to_network pton6 ip of
                Some addr \<Rightarrow>
                  Inr (overwrite 2 (object_repr e 2 (htons e port))
                    (overwrite 0 (object_repr e 2 AF_INET6) (overwrite 8 addr data)))
              | None \<Rightarrow> Inl Asio_exception))"

definition endpoint_eq :: "endpoint \<Rightarrow> endpoint \<Rightarrow> bool" where
  "endpoint_eq a b \<longleftrightarrow> a = b"

definition endpoint_neq :: "endpoint \<Rightarrow> endpoint \<Rightarrow> bool" where
  "endpoint_neq a b \<longleftrightarrow> \<not> endpoint_eq a b"

definition endpoint_port :: "endian \<Rightarrow> endpoint \<Rightarrow> u16" where
  "endpoint_port e ep = ntohs e (from_object e (take 2 (drop 2 ep)))"

definition endpoint_ip :: "(bytes \<Rightarrow> string) \<Rightarrow> (bytes \<Rightarrow> string) \<Rightarrow> endian \<Rightarrow> endpoint \<Rightarrow> string" where
  "endpoint_ip ntop4 ntop6 e ep =
     (if sa_family e ep = AF_INET then network_to_ipv4 ntop4 (take 4 (drop 4 ep))
      else if sa_family e ep = AF_INET6 then network_to_ipv6 ntop6 (take 16 (drop 8 ep))
      else '''')"

definition isV4 :: "endian \<Rightarrow> endpoint \<Rightarrow> bool" where
  "isV4 e ep \<longleftrightarrow> sa_family e ep = AF_INET"

definition isV6 :: "endian \<Rightarrow> endpoint \<Rightarrow> bool" where
  "isV6 e ep \<longleftrightarrow> sa_family e ep = AF_INET6"

definition endpoint_length :: "endian \<Rightarrow> endpoint \<Rightarrow> nat" where
  "endpoint_length e ep =
     (if sa_family e ep = AF_INET then sizeof_sockaddr_in
      else if sa_family e ep = AF_INET6 then sizeof_sockaddr_in6 else 0)"

definition bufferLen :: "endpoint \<Rightarrow> nat" where
  "bufferLen ep = length ep"

definition endpoint_native :: "endpoint \<Rightarrow> bytes" where
  "endpoint_native ep = ep"

subsection \<open>What an endpoint holds\<close>

text \<open>The documented behaviour of \<^verbatim>\<open>inet_pton\<close> and \<^verbatim>\<open>inet_ntop\<close>: addresses of 4 and 16 bytes, texts that are C strings
  and fit the documented sizes, reading back what was printed, and no text is an address of both kinds.\<close>

definition inet_laws ::
  "(string \<Rightarrow> bytes option) \<Rightarrow> (string \<Rightarrow> bytes option) \<Rightarrow> (bytes \<Rightarrow> string) \<Rightarrow> (bytes \<Rightarrow> string) \<Rightarrow> bool" where
  "inet_laws pton4 pton6 ntop4 ntop6 \<longleftrightarrow>
     (\<forall>s a. pton4 s = Some a \<longrightarrow> length a = 4 \<and> pton6 s = None) \<and>
     (\<forall>s a. pton6 s = Some a \<longrightarrow> length a = 16) \<and>
     (\<forall>a. length a = 4 \<longrightarrow> pton4 (ntop4 a) = Some a \<and> length (ntop4 a) < INET_ADDRSTRLEN \<and> CHR 0x00 \<notin> set (ntop4 a)) \<and>
     (\<forall>a. length a = 16 \<longrightarrow> pton6 (ntop6 a) = Some a \<and> length (ntop6 a) < INET6_ADDRSTRLEN \<and> CHR 0x00 \<notin> set (ntop6 a))"

lemma c_str_padded: "CHR 0x00 \<notin> set s \<Longrightarrow> c_str (s @ replicate n (CHR 0x00)) = s"
  by (cases n) (auto simp: c_str_def takeWhile_append takeWhile_eq_all_conv)

lemma length_overwrite: "i + length bs \<le> length d \<Longrightarrow> length (overwrite i bs d) = length d"
  by (simp add: overwrite_def)

text \<open>The bytes of an IPv4 and of an IPv6 endpoint.\<close>

definition v4_bytes :: "endian \<Rightarrow> bytes \<Rightarrow> u16 \<Rightarrow> bytes" where
  "v4_bytes e addr port = object_repr e 2 AF_INET @ be_bytes 2 port @ addr @ replicate 20 0"

definition v6_bytes :: "endian \<Rightarrow> bytes \<Rightarrow> u16 \<Rightarrow> bytes" where
  "v6_bytes e addr port = object_repr e 2 AF_INET6 @ be_bytes 2 port @ replicate 4 0 @ addr @ replicate 4 0"

lemma Endpoint_ip_cases:
  assumes "inet_laws pton4 pton6 ntop4 ntop6"
  shows "pton4 (c_str ip) = Some a \<Longrightarrow> Endpoint_ip pton4 pton6 e ip port = Inr (v4_bytes e a port)"
    and "pton4 (c_str ip) = None \<Longrightarrow> pton6 (c_str ip) = Some a \<Longrightarrow> Endpoint_ip pton4 pton6 e ip port = Inr (v6_bytes e a port)"
    and "pton4 (c_str ip) = None \<Longrightarrow> pton6 (c_str ip) = None \<Longrightarrow> Endpoint_ip pton4 pton6 e ip port = Inl Asio_exception"
proof -
  show "Endpoint_ip pton4 pton6 e ip port = Inr (v4_bytes e a port)" if "pton4 (c_str ip) = Some a"
  proof -
    have "length a = 4" using assms that by (simp add: inet_laws_def)
    then show ?thesis
      using that by (simp add: Endpoint_ip_def ipv4_to_network_def overwrite_def v4_bytes_def bytes_simps Let_def)
  qed
  show "Endpoint_ip pton4 pton6 e ip port = Inr (v6_bytes e a port)"
    if "pton4 (c_str ip) = None" "pton6 (c_str ip) = Some a"
  proof -
    have "length a = 16" using assms that by (simp add: inet_laws_def)
    then show ?thesis
      using that by (simp add: Endpoint_ip_def ipv4_to_network_def ipv6_to_network_def overwrite_def v6_bytes_def bytes_simps Let_def)
  qed
  show "Endpoint_ip pton4 pton6 e ip port = Inl Asio_exception"
    if "pton4 (c_str ip) = None" "pton6 (c_str ip) = None"
    using that by (simp add: Endpoint_ip_def ipv4_to_network_def ipv6_to_network_def)
qed

lemma v4_bytes_fields:
  assumes "length a = 4"
  shows "sa_family e (v4_bytes e a port) = AF_INET" and "endpoint_port e (v4_bytes e a port) = port"
    and "take 4 (drop 4 (v4_bytes e a port)) = a" and "length (v4_bytes e a port) = 28"
  using assms by (simp_all add: v4_bytes_def sa_family_def endpoint_port_def bytes_simps)

lemma v6_bytes_fields:
  assumes "length a = 16"
  shows "sa_family e (v6_bytes e a port) = AF_INET6" and "endpoint_port e (v6_bytes e a port) = port"
    and "take 16 (drop 8 (v6_bytes e a port)) = a" and "length (v6_bytes e a port) = 28"
  using assms by (simp_all add: v6_bytes_def sa_family_def endpoint_port_def bytes_simps)

lemma AF_distinct [simp]: "AF_INET \<noteq> AF_INET6" "AF_INET6 \<noteq> AF_INET"
  by (simp_all add: AF_INET_def AF_INET6_def)

lemma sa_family_take: "2 \<le> n \<Longrightarrow> sa_family e (take n d) = sa_family e d"
  by (simp add: sa_family_def min_def)

lemma Endpoint_native_v4:
  assumes "length a = 4"
  shows "Endpoint_native e (take 16 (v4_bytes e a port)) = Inr (v4_bytes e a port)"
proof -
  have "take 16 (v4_bytes e a port) @ replicate 12 0 = v4_bytes e a port"
    using assms by (simp add: v4_bytes_def replicate_add [symmetric])
  then show ?thesis
    using v4_bytes_fields [OF assms, of e port]
    by (simp add: Endpoint_native_def sa_family_take overwrite_def sizeof_sockaddr_in_def min_def)
qed

lemma Endpoint_native_v6:
  assumes "length a = 16"
  shows "Endpoint_native e (take 28 (v6_bytes e a port)) = Inr (v6_bytes e a port)"
  using v6_bytes_fields [OF assms, of e port]
  by (simp add: Endpoint_native_def overwrite_def sizeof_sockaddr_in6_def)

text \<open>C36: An endpoint made from a text and a port is of exactly one family, has the port, and can be made again from its
  own text and port and from the bytes that are passed to the system calls. Its text is padded with NUL characters to 16 or 46 characters,
  so it is never equal to the text it was made from, but the padding is harmless when it is read back.\<close>

theorem endpoint_roundtrip:
  assumes "inet_laws pton4 pton6 ntop4 ntop6" and "Endpoint_ip pton4 pton6 e ip port = Inr ep"
  shows "isV4 e ep = (\<not> isV6 e ep) \<and> endpoint_port e ep = port \<and>
    Endpoint_ip pton4 pton6 e (endpoint_ip ntop4 ntop6 e ep) (endpoint_port e ep) = Inr ep \<and>
    Endpoint_native e (take (endpoint_length e ep) (endpoint_native ep)) = Inr ep \<and>
    length (endpoint_ip ntop4 ntop6 e ep) = (if isV4 e ep then 16 else 46) \<and>
    CHR 0x00 \<in> set (endpoint_ip ntop4 ntop6 e ep)"
proof -
  consider (v4) a where "pton4 (c_str ip) = Some a" | (v6) a where "pton4 (c_str ip) = None" "pton6 (c_str ip) = Some a"
    using Endpoint_ip_cases(3) [OF assms(1), of ip e port] assms(2) by fastforce
  then show ?thesis
  proof cases
    case v4
    have ep: "ep = v4_bytes e a port" and a: "length a = 4"
      using Endpoint_ip_cases(1) [OF assms(1) v4, of e port] assms v4 by (simp_all add: inet_laws_def)
    have n: "pton4 (ntop4 a) = Some a" "length (ntop4 a) < 16" "CHR 0x00 \<notin> set (ntop4 a)"
      using assms(1) a by (simp_all add: inet_laws_def INET_ADDRSTRLEN_def)
    have ip: "endpoint_ip ntop4 ntop6 e ep = ntop4 a @ replicate (16 - length (ntop4 a)) (CHR 0x00)"
      by (simp add: ep endpoint_ip_def v4_bytes_fields [OF a] network_to_ipv4_def INET_ADDRSTRLEN_def)
    have t: "c_str (endpoint_ip ntop4 ntop6 e ep) = ntop4 a"
      by (simp add: ip c_str_padded n)
    have "Endpoint_ip pton4 pton6 e (endpoint_ip ntop4 ntop6 e ep) port = Inr (v4_bytes e a port)"
      by (rule Endpoint_ip_cases(1) [OF assms(1)]) (simp_all only: t n(1))
    then have again: "Endpoint_ip pton4 pton6 e (endpoint_ip ntop4 ntop6 e ep) port = Inr ep"
      by (simp only: ep)
    then show ?thesis
      using n again Endpoint_native_v4 [OF a, of e port]
      by (simp add: ip) (simp add: ep isV4_def isV6_def endpoint_length_def endpoint_native_def sizeof_sockaddr_in_def v4_bytes_fields [OF a])
  next
    case v6
    have ep: "ep = v6_bytes e a port" and a: "length a = 16"
      using Endpoint_ip_cases(2) [OF assms(1) v6, of e port] assms v6 by (simp_all add: inet_laws_def)
    have n: "pton6 (ntop6 a) = Some a" "length (ntop6 a) < 46" "CHR 0x00 \<notin> set (ntop6 a)"
      using assms(1) a by (simp_all add: inet_laws_def INET6_ADDRSTRLEN_def)
    then have "pton4 (ntop6 a) = None"
      using assms(1) unfolding inet_laws_def by (metis not_None_eq)
    have ip: "endpoint_ip ntop4 ntop6 e ep = ntop6 a @ replicate (46 - length (ntop6 a)) (CHR 0x00)"
      by (simp add: ep endpoint_ip_def v6_bytes_fields [OF a] network_to_ipv6_def INET6_ADDRSTRLEN_def)
    have t: "c_str (endpoint_ip ntop4 ntop6 e ep) = ntop6 a"
      by (simp add: ip c_str_padded n)
    have "Endpoint_ip pton4 pton6 e (endpoint_ip ntop4 ntop6 e ep) port = Inr (v6_bytes e a port)"
      by (rule Endpoint_ip_cases(2) [OF assms(1)]) (simp_all only: t n(1) \<open>pton4 (ntop6 a) = None\<close>)
    then have again: "Endpoint_ip pton4 pton6 e (endpoint_ip ntop4 ntop6 e ep) port = Inr ep"
      by (simp only: ep)
    then show ?thesis
      using n again Endpoint_native_v6 [OF a, of e port]
      by (simp add: ip) (simp add: ep isV4_def isV6_def endpoint_length_def endpoint_native_def sizeof_sockaddr_in6_def v6_bytes_fields [OF a])
  qed
qed

text \<open>A small \<^verbatim>\<open>inet_pton\<close> and \<^verbatim>\<open>inet_ntop\<close>: two letters for each byte of the address.\<close>

definition letters :: "bytes \<Rightarrow> string" where
  "letters a = concat (map (\<lambda>b. [char_of (65 + unat b div 16), char_of (65 + unat b mod 16)]) a)"

fun from_letters :: "string \<Rightarrow> bytes" where
  "from_letters (c # d # s) = of_nat (16 * (of_char c - 65) + (of_char d - 65)) # from_letters s"
| "from_letters _ = []"

definition letters_pton :: "nat \<Rightarrow> string \<Rightarrow> bytes option" where
  "letters_pton n s = (if length s = 2 * n then Some (from_letters s) else None)"

lemma from_letters_letters: "from_letters (letters a) = a"
proof (induction a)
  case Nil
  then show ?case by (simp add: letters_def)
next
  case (Cons b a)
  have "unat b < 256" using unsigned_less [of b] by simp
  then have "unat b div 16 < 16" by auto
  moreover have "unat b mod 16 < 16" by simp
  ultimately have "of_nat (16 * (of_char (char_of (65 + unat b div 16) :: char) - 65) +
      (of_char (char_of (65 + unat b mod 16) :: char) - 65)) = b"
    by simp
  then show ?case
    using Cons.IH by (simp add: letters_def)
qed

lemma length_letters: "length (letters a) = 2 * length a"
  by (induction a) (simp_all add: letters_def)

lemma length_from_letters: "length (from_letters s) = length s div 2"
  by (induction s rule: from_letters.induct) simp_all

lemma letters_no_NUL: "CHR 0x00 \<notin> set (letters a)"
proof -
  have "(char_of (65 + n) :: char) \<noteq> CHR 0x00" if "n < 16" for n :: nat
  proof
    assume "(char_of (65 + n) :: char) = CHR 0x00"
    then have "of_char (char_of (65 + n) :: char) = (of_char (CHR 0x00) :: nat)" by simp
    then show False using that by simp
  qed
  moreover have "unat b div 16 < 16" "unat b mod 16 < 16" for b :: u8
  proof -
    have "unat b < 256" using unsigned_less [of b] by simp
    then show "unat b div 16 < 16" by auto
  qed simp
  ultimately show ?thesis
    unfolding letters_def by (induction a) (auto dest: sym)
qed

lemma letters_inet: "inet_laws (letters_pton 4) (letters_pton 16) letters letters"
  by (auto simp: inet_laws_def letters_pton_def length_letters length_from_letters from_letters_letters letters_no_NUL
      INET_ADDRSTRLEN_def INET6_ADDRSTRLEN_def split: if_splits)

theorem endpoint_roundtrip_witness:
  "\<exists>ep. Endpoint_ip (letters_pton 4) (letters_pton 16) Little_endian ''AAAAAAAB'' 80 = Inr ep \<and>
     endpoint_port Little_endian ep = 80"
proof -
  obtain ep where ep: "Endpoint_ip (letters_pton 4) (letters_pton 16) Little_endian ''AAAAAAAB'' 80 = Inr ep"
    by (simp add: Endpoint_ip_def ipv4_to_network_def letters_pton_def c_str_def)
  then show ?thesis
    using endpoint_roundtrip [OF letters_inet ep] by blast
qed

end
