(* ===== verification/Rpc_Connection.thy ===== *)
theory Rpc_Connection
  imports Dynamic_Buffer Endpoint
begin

section \<open>RPC connections (rpc/src/details/connection.h, connection.cc)\<close>

text \<open>
  A connection receives frames (a four-byte length in network byte order, then that many bytes), hands each
  message to \<open>message_op_\<close>, and sends one string at a time from a queue. Requests to the socket are
  actions: an \<^verbatim>\<open>async_read\<close> into so many bytes, an \<^verbatim>\<open>async_write\<close> of a string, a shutdown.
  \<open>message_op_\<close> is a parameter that acts on the send queue and on a state of its own, together \<open>'s\<close>: the operations
  that the server and the channel give a connection use it for \<^verbatim>\<open>send\<close> only. One that calls the public \<^verbatim>\<open>start_recv\<close>, which
  would move the receive buffer under the loop that calls it, is not modelled.
  The lemmas show that the messages delivered are those of the byte stream however it is cut, and that
  the strings are written one after the other in the order in which they were sent.
\<close>

datatype action =
    Async_read nat
  | Async_write bytes
  | Async_connect endpoint
  | Socket_open u16         \<comment> \<open>the address family\<close>
  | Socket_shutdown

record connection =
  read_buf :: dynamic_buffer
  send_buf_deque :: "bytes list"

definition Connection :: connection where
  "Connection = \<lparr>read_buf = DynamicBuffer 1024, send_buf_deque = []\<rparr>"

definition connection_shutdown :: "action list" where
  "connection_shutdown = [Socket_shutdown]"

text \<open>The destructor.\<close>

definition destroy_Connection :: "action list" where
  "destroy_Connection = connection_shutdown"

subsection \<open>Receiving\<close>

definition start_recv :: "dynamic_buffer \<Rightarrow> (dynamic_buffer \<times> action list) cpp" where
  "start_recv b =
     cpp_bind (reserve 4096 b) (\<lambda>b1.
     cpp_bind (writeBegin b1) (\<lambda>to. Inr (b1, [Async_read (availableBytes b1)])))"

text \<open>Consuming lowers the number of unread bytes in every state, which ends the loop.\<close>

lemma size_sub_int: "int (size_sub a b) = (int a - int b) mod 2 ^ 64"
proof -
  have b: "b mod size_mod \<le> size_mod" by (simp add: less_imp_le)
  have "int (size_sub a b) = (int a + (int size_mod - int (b mod size_mod))) mod int size_mod"
    unfolding size_sub_def by (simp only: of_nat_add of_nat_diff [OF b] zmod_int)
  also have "\<dots> = (int a - int b) mod int size_mod"
    by (simp add: zmod_int mod_simps) (metis add_diff_eq minus_mod_self1 mod_diff_right_eq diff_add_eq add.commute mod_add_self1)
  finally show ?thesis by (simp add: size_mod_def)
qed

lemma size_sub_add:
  assumes "n \<le> size_sub w r"
  shows "size_sub w (size_add r n) = size_sub w r - n"
proof -
  have "int (size_sub w (size_add r n)) = (int w - (int r + int n)) mod 2 ^ 64"
    by (simp add: size_sub_int size_add_def size_mod_def zmod_int mod_diff_right_eq)
  also have "\<dots> = ((int w - int r) mod 2 ^ 64 - int n) mod 2 ^ 64"
    by (simp add: mod_diff_left_eq diff_diff_eq)
  also have "\<dots> = (int (size_sub w r) - int n) mod 2 ^ 64"
    by (simp add: size_sub_int)
  also have "int (size_sub w r) - int n = int (size_sub w r - n)"
    using assms by simp
  also have "size_sub w r < 2 ^ 64"
    by (simp add: size_sub_def size_mod_def)
  then have "int (size_sub w r - n) mod 2 ^ 64 = int (size_sub w r - n)"
    by (intro mod_pos_pos_trivial) auto
  finally show ?thesis by simp
qed

lemma dataBytes_buffer_read:
  assumes "0 < n" and "n \<le> dataBytes b"
  shows "dataBytes (buffer_read n b) < dataBytes b"
proof (cases "size_add (read_index b) n = write_index b")
  case True
  then show ?thesis
    using assms by (simp add: buffer_read_def dataBytes_def size_sub_def)
next
  case False
  then show ?thesis
    using assms size_sub_add [of n "write_index b" "read_index b"]
    by (simp add: buffer_read_def dataBytes_def)
qed

abbreviation recv_frame :: "endian \<Rightarrow> dynamic_buffer \<Rightarrow> (bytes \<times> dynamic_buffer) option cpp" where
  "recv_frame \<equiv> next_frame dataBytes buffer_front buffer_read"

lemma recv_frame_less:
  assumes "recv_frame e b = Inr (Some (data, b'))"
  shows "dataBytes b' < dataBytes b"
  using assms by (auto simp: next_frame_def cpp_bind_eq_Inr_iff Let_def dataBytes_buffer_read split: if_splits)

text \<open>The loop of \<open>onRecvMessage\<close>.\<close>

type_synonym 's message_op = "bytes \<Rightarrow> 's \<Rightarrow> ('s \<times> action list) cpp"

definition call_message_op :: "'s message_op option \<Rightarrow> 's message_op" where
  "call_message_op op data s = (case op of Some f \<Rightarrow> f data s | None \<Rightarrow> Inr (s, []))"

function recv_loop ::
  "endian \<Rightarrow> 's message_op option \<Rightarrow> dynamic_buffer \<Rightarrow> 's \<Rightarrow> (dynamic_buffer \<times> 's \<times> action list) cpp" where
  "recv_loop e op b s =
     cpp_bind (recv_frame e b) (\<lambda>frame.
       case frame of
         None \<Rightarrow> Inr (b, s, [])
       | Some (data, b1) \<Rightarrow>
           cpp_bind (call_message_op op data s) (\<lambda>(s1, acts).
           cpp_bind (recv_loop e op b1 s1) (\<lambda>(b2, s2, acts2).
             Inr (b2, s2, acts @ acts2))))"
  by pat_completeness auto
termination
  by (relation "measure (\<lambda>(e, op, b, s). dataBytes b)") (auto dest: recv_frame_less)

declare recv_loop.simps [simp del]

text \<open>
  The completion of the read: the socket has put \<open>data\<close> at \<open>writeBegin()\<close>, \<open>nbytes\<close> is its length. Storing the
  bytes and advancing the write index is \<open>store\<close>.
\<close>

definition onRecvMessage ::
  "endian \<Rightarrow> 's message_op option \<Rightarrow> int \<Rightarrow> bytes \<Rightarrow> dynamic_buffer \<Rightarrow> 's \<Rightarrow> (dynamic_buffer \<times> 's \<times> action list) cpp" where
  "onRecvMessage e op ec data b s =
     (if ec = 0 then
        (if length data = 0 then Inr (b, s, connection_shutdown)
         else
           cpp_bind (store data b) (\<lambda>b1.
           cpp_bind (recv_loop e op b1 s) (\<lambda>(b2, s2, acts).
           cpp_bind (start_recv b2) (\<lambda>(b3, acts3). Inr (b3, s2, acts @ acts3)))))
      else Inr (b, s, []))"

subsection \<open>Sending and connecting\<close>

definition start_deque_send :: "bytes list \<Rightarrow> action list cpp" where
  "start_deque_send q = (case q of [] \<Rightarrow> Inl Undefined_behaviour | data # _ \<Rightarrow> Inr [Async_write data])"

definition connection_send :: "bytes \<Rightarrow> bytes list \<Rightarrow> (bytes list \<times> action list) cpp" where
  "connection_send data q =
     (let need_start_deque_send = (q = []); q1 = q @ [data]
      in if need_start_deque_send then cpp_bind (start_deque_send q1) (\<lambda>acts. Inr (q1, acts)) else Inr (q1, []))"

definition onSendCompleted :: "int \<Rightarrow> nat \<Rightarrow> bytes list \<Rightarrow> (bytes list \<times> action list) cpp" where
  "onSendCompleted ec nbytes q =
     (case q of
        [] \<Rightarrow> Inl Undefined_behaviour
      | _ # q1 \<Rightarrow> if q1 \<noteq> [] then cpp_bind (start_deque_send q1) (\<lambda>acts. Inr (q1, acts)) else Inr (q1, []))"

text \<open>\<open>connect\<close> makes the endpoint, opens a socket of its family and connects; \<open>onConnect\<close> passes the code on.\<close>

definition connection_connect ::
  "(string \<Rightarrow> bytes option) \<Rightarrow> (string \<Rightarrow> bytes option) \<Rightarrow> endian \<Rightarrow> string \<Rightarrow> u16 \<Rightarrow> action list cpp" where
  "connection_connect pton4 pton6 e ip port =
     cpp_bind (Endpoint_ip pton4 pton6 e ip port) (\<lambda>ep.
       Inr ((if isV4 e ep then [Socket_open AF_INET] else []) @
            (if isV6 e ep then [Socket_open AF_INET6] else []) @ [Async_connect ep]))"

definition onConnect :: "(int \<Rightarrow> 's \<Rightarrow> 's) option \<Rightarrow> int \<Rightarrow> 's \<Rightarrow> 's" where
  "onConnect op ec s = (case op of Some f \<Rightarrow> f ec s | None \<Rightarrow> s)"

subsection \<open>Frames\<close>

text \<open>The messages of a byte stream and what is left of it.\<close>

function frames :: "bytes \<Rightarrow> bytes list \<times> bytes" where
  "frames bs = (case split_frame bs of None \<Rightarrow> ([], bs) | Some (data, rest) \<Rightarrow> (data # fst (frames rest), snd (frames rest)))"
  by pat_completeness auto
termination
  by (relation "measure length") (auto simp: split_frame_def Let_def split: if_splits)

declare frames.simps [simp del]

lemma frames_None: "split_frame bs = None \<Longrightarrow> frames bs = ([], bs)"
  by (subst frames.simps) simp

lemma frames_Some: "split_frame bs = Some (data, rest) \<Longrightarrow> frames bs = (data # fst (frames rest), snd (frames rest))"
  by (subst frames.simps) simp

lemma split_frame_append:
  "split_frame bs = Some (data, rest) \<Longrightarrow> split_frame (bs @ x) = Some (data, rest @ x)"
  by (auto simp: split_frame_def Let_def split: if_splits)

lemma split_frame_less: "split_frame bs = Some (data, rest) \<Longrightarrow> length rest < length bs"
  by (auto simp: split_frame_def Let_def split: if_splits)

text \<open>Frames do not depend on how the stream is cut: what is left is continued by what follows.\<close>

lemma frames_append:
  "frames (bs @ x) = (fst (frames bs) @ fst (frames (snd (frames bs) @ x)), snd (frames (snd (frames bs) @ x)))"
proof (induction bs rule: length_induct)
  case (1 bs)
  show ?case
  proof (cases "split_frame bs")
    case None
    then show ?thesis by (simp add: frames_None)
  next
    case (Some p)
    obtain data rest where p: "split_frame bs = Some (data, rest)" using Some by (cases p) auto
    have "frames (rest @ x) = (fst (frames rest) @ fst (frames (snd (frames rest) @ x)), snd (frames (snd (frames rest) @ x)))"
      using 1 split_frame_less [OF p] by blast
    then show ?thesis
      using frames_Some [OF p] frames_Some [OF split_frame_append [OF p]] by simp
  qed
qed

lemma frames_rest_length: "length (snd (frames bs)) \<le> length bs"
proof (induction bs rule: length_induct)
  case (1 bs)
  show ?case
  proof (cases "split_frame bs")
    case None
    then show ?thesis by (simp add: frames_None)
  next
    case (Some p)
    then obtain data rest where p: "split_frame bs = Some (data, rest)" by (cases p) auto
    then have "length (snd (frames rest)) \<le> length rest" "length rest < length bs"
      using 1 split_frame_less by blast+
    then show ?thesis using frames_Some [OF p] by simp
  qed
qed

text \<open>What the peers write in front of a message.\<close>

definition frame :: "endian \<Rightarrow> bytes \<Rightarrow> bytes" where
  "frame e data = object_repr e 4 (htonl e (of_nat (length data))) @ data"

lemma split_frame_frame:
  assumes "length data < 2 ^ 32"
  shows "split_frame (frame e data @ x) = Some (data, x)"
proof -
  have "unat (of_nat (length data) :: u32) = length data"
    using assms by (simp add: unat_of_nat)
  then show ?thesis
    by (simp add: split_frame_def frame_def bytes_simps)
qed

lemma frames_frame:
  "list_all (\<lambda>d. length d < 2 ^ 32) ds \<Longrightarrow> frames (concat (map (frame e) ds) @ x) = (ds @ fst (frames x), snd (frames x))"
proof (induction ds)
  case (Cons d ds)
  then show ?case
    using frames_Some [OF split_frame_frame [of d e "concat (map (frame e) ds) @ x"]] by simp
qed simp

subsection \<open>Delivery\<close>

text \<open>Handing messages to \<open>message_op_\<close> one after the other.\<close>

fun run_messages :: "'s message_op option \<Rightarrow> bytes list \<Rightarrow> 's \<Rightarrow> ('s \<times> action list) cpp" where
  "run_messages op [] s = Inr (s, [])"
| "run_messages op (d # ds) s =
     cpp_bind (call_message_op op d s) (\<lambda>(s1, acts).
     cpp_bind (run_messages op ds s1) (\<lambda>(s2, acts2). Inr (s2, acts @ acts2)))"

lemma run_messages_append:
  "run_messages op (ds @ es) s =
     cpp_bind (run_messages op ds s) (\<lambda>(s1, acts).
     cpp_bind (run_messages op es s1) (\<lambda>(s2, acts2). Inr (s2, acts @ acts2)))"
proof (induction ds arbitrary: s)
  case Nil
  then show ?case by (cases "run_messages op es s") auto
next
  case (Cons d ds)
  show ?case
  proof (cases "call_message_op op d s")
    case (Inr p)
    then show ?thesis
      using Cons by (cases p; cases "run_messages op ds (fst p)"; cases "run_messages op es (fst (projr (run_messages op ds (fst p))))") auto
  qed simp
qed

lemma recv_loop_frames:
  "buffer_inv b \<Longrightarrow>
   \<exists>b'. buffer_inv b' \<and> unread b' = snd (frames (unread b)) \<and>
     char_vector b' = char_vector b \<and> expand_size b' = expand_size b \<and>
     recv_loop e op b s = cpp_bind (run_messages op (fst (frames (unread b))) s) (\<lambda>(s', acts). Inr (b', s', acts))"
proof (induction "length (unread b)" arbitrary: b s rule: less_induct)
  case less
  show ?case
  proof (cases "split_frame (unread b)")
    case None
    have "recv_loop e op b s = Inr (b, s, [])"
      using recv.next_frame_None [OF less(2) None] by (subst recv_loop.simps) simp
    then show ?thesis
      using less(2) frames_None [OF None] by auto
  next
    case (Some p)
    obtain data rest where p: "split_frame (unread b) = Some (data, rest)" using Some by (cases p) auto
    obtain b1 where b1: "recv_frame e b = Inr (Some (data, b1))" "buffer_inv b1" "unread b1 = rest"
      using recv.next_frame_Some [OF less(2) p] by blast
    have vec: "char_vector b1 = char_vector b" "expand_size b1 = expand_size b"
      using b1(1) by (auto simp: next_frame_def cpp_bind_eq_Inr_iff Let_def buffer_read_def split: if_splits)
    have "length (unread b1) < length (unread b)"
      using split_frame_less [OF p] b1 by simp
    note IH = less(1) [OF this b1(2)]
    show ?thesis
    proof (cases "call_message_op op data s")
      case (Inl f)
      then have "recv_loop e op b s = Inl f"
        using b1(1) by (subst recv_loop.simps) simp
      then show ?thesis
        using IH [of s] vec frames_Some [OF p] b1(3) Inl by auto
    next
      case (Inr q)
      obtain s1 acts where q: "q = (s1, acts)" by (cases q)
      obtain b2 where b2: "buffer_inv b2" "unread b2 = snd (frames (unread b1))" "char_vector b2 = char_vector b1"
        "expand_size b2 = expand_size b1"
        "recv_loop e op b1 s1 = cpp_bind (run_messages op (fst (frames (unread b1))) s1) (\<lambda>(s', acts). Inr (b2, s', acts))"
        using IH [of s1] by blast
      have "recv_loop e op b s = cpp_bind (run_messages op (fst (frames (unread b))) s) (\<lambda>(s', acts). Inr (b2, s', acts))"
        using b1(1) Inr q frames_Some [OF p] b1(3)
        by (subst recv_loop.simps) (cases "run_messages op (fst (frames rest)) s1"; auto simp: b2(5))
      then show ?thesis
        using b2 vec frames_Some [OF p] b1(3) by auto
    qed
  qed
qed

text \<open>
  Between two reads there are more than 4096 bytes of room, and for a stream of at most \<open>tot\<close> bytes the
  vector stays below \<open>tot + 9216\<close> bytes.
\<close>

definition recv_ready :: "nat \<Rightarrow> dynamic_buffer \<Rightarrow> bool" where
  "recv_ready tot b \<longleftrightarrow>
     buffer_inv b \<and> expand_size b = 1024 \<and> 4096 < availableBytes b \<and> length (char_vector b) \<le> tot + 9216"

lemma start_recv_ready:
  assumes "buffer_inv b" and "expand_size b = 1024" and "length (unread b) \<le> tot"
    and "length (char_vector b) \<le> tot + 9216" and "tot \<le> 2 ^ 62"
  shows "\<exists>b' n. start_recv b = Inr (b', [Async_read n]) \<and> recv_ready tot b' \<and> unread b' = unread b \<and> 4096 < n"
proof -
  have "room_for 4096 b"
    using assms by (simp add: room_for_def max_size_def)
  then obtain b' where b': "reserve 4096 b = Inr b'" "buffer_inv b'" "unread b' = unread b" "4096 < availableBytes b'"
    "expand_size b' = expand_size b"
    "length (char_vector b') \<le> max (length (char_vector b)) (length (unread b) + 2 * 4096 + expand_size b)"
    using reserve_unread [OF assms(1)] by blast
  then have "writeBegin b' = Inr (write_index b')"
    by (simp add: writeBegin_def buffer_sizes)
  then show ?thesis
    using b' assms by (auto simp: start_recv_def recv_ready_def)
qed

lemma onRecvMessage_frames:
  assumes ready: "recv_ready tot b" and tot: "tot \<le> 2 ^ 62" "length (unread b @ c) \<le> tot"
    and c: "c \<noteq> []" "length c \<le> 4096"
  shows "\<exists>b' n. recv_ready tot b' \<and> unread b' = snd (frames (unread b @ c)) \<and>
    onRecvMessage e op 0 c b s =
      cpp_bind (run_messages op (fst (frames (unread b @ c))) s) (\<lambda>(s', acts). Inr (b', s', acts @ [Async_read n]))"
proof -
  obtain b1 where b1: "store c b = Inr b1" "buffer_inv b1" "unread b1 = unread b @ c" "expand_size b1 = 1024"
    "length (char_vector b1) = length (char_vector b)"
    using store_unread [of b c] ready c by (auto simp: recv_ready_def)
  obtain b2 where b2: "buffer_inv b2" "unread b2 = snd (frames (unread b1))" "char_vector b2 = char_vector b1" "expand_size b2 = expand_size b1"
    "recv_loop e op b1 s = cpp_bind (run_messages op (fst (frames (unread b1))) s) (\<lambda>(s', acts). Inr (b2, s', acts))"
    using recv_loop_frames [OF b1(2), of e op s] by blast
  have len: "length (unread b2) \<le> tot"
    using frames_rest_length [of "unread b1"] tot(2) b1(3) b2(2) by simp
  have vec: "expand_size b2 = 1024" "length (char_vector b2) \<le> tot + 9216"
    using ready b1(4,5) b2(3,4) by (simp_all add: recv_ready_def)
  then obtain b3 n where b3: "start_recv b2 = Inr (b3, [Async_read n])" "recv_ready tot b3" "unread b3 = unread b2"
    using start_recv_ready [OF b2(1) vec(1) len vec(2) tot(1)] by blast
  have "onRecvMessage e op 0 c b s =
      cpp_bind (run_messages op (fst (frames (unread b @ c))) s) (\<lambda>(s', acts). Inr (b3, s', acts @ [Async_read n]))"
  proof -
    have "onRecvMessage e op 0 c b s =
        cpp_bind (recv_loop e op b1 s) (\<lambda>(b2, s2, acts). cpp_bind (start_recv b2) (\<lambda>(b3, acts3). Inr (b3, s2, acts @ acts3)))"
      using c(1) b1(1) by (simp add: onRecvMessage_def)
    then show ?thesis
      unfolding b2(5) unfolding b1(3)
      by (cases "run_messages op (fst (frames (unread b @ c))) s") (auto simp: b3(1))
  qed
  then show ?thesis
    using b3 b2 b1 by auto
qed

text \<open>The reads of a connection, in order; each gives the next piece of the stream.\<close>

fun recv_run ::
  "endian \<Rightarrow> 's message_op option \<Rightarrow> bytes list \<Rightarrow> dynamic_buffer \<Rightarrow> 's \<Rightarrow> (dynamic_buffer \<times> 's \<times> action list) cpp" where
  "recv_run e op [] b s = Inr (b, s, [])"
| "recv_run e op (c # cs) b s =
     cpp_bind (onRecvMessage e op 0 c b s) (\<lambda>(b1, s1, acts).
     cpp_bind (recv_run e op cs b1 s1) (\<lambda>(b2, s2, acts2). Inr (b2, s2, acts @ acts2)))"

definition is_read :: "action \<Rightarrow> bool" where
  "is_read a \<longleftrightarrow> (case a of Async_read _ \<Rightarrow> True | _ \<Rightarrow> False)"

abbreviation outputs :: "action list \<Rightarrow> action list" where
  "outputs acts \<equiv> filter (\<lambda>a. \<not> is_read a) acts"

lemma recv_run_frames:
  "recv_ready tot b \<Longrightarrow> tot \<le> 2 ^ 62 \<Longrightarrow> length (unread b @ concat cs) \<le> tot \<Longrightarrow>
   list_all (\<lambda>c. c \<noteq> [] \<and> length c \<le> 4096) cs \<Longrightarrow> (cs = [] \<longrightarrow> split_frame (unread b) = None) \<Longrightarrow>
   run_messages op (fst (frames (unread b @ concat cs))) s = Inr (s', acts) \<Longrightarrow>
   \<exists>b' acts'. recv_run e op cs b s = Inr (b', s', acts') \<and> unread b' = snd (frames (unread b @ concat cs)) \<and>
     outputs acts' = outputs acts"
proof (induction cs arbitrary: b s acts)
  case Nil
  then show ?case by (simp add: frames_None)
next
  case (Cons c cs)
  let ?now = "frames (unread b @ c)"
  have c: "c \<noteq> []" "length c \<le> 4096" using Cons.prems(4) by auto
  have len: "length (unread b @ c) \<le> tot" using Cons.prems(3) by simp
  obtain b1 n where b1: "recv_ready tot b1" "unread b1 = snd ?now"
    "onRecvMessage e op 0 c b s = cpp_bind (run_messages op (fst ?now) s) (\<lambda>(s', acts). Inr (b1, s', acts @ [Async_read n]))"
    using onRecvMessage_frames [OF Cons.prems(1,2) len c, of e op s] by blast
  have all: "frames (unread b @ c @ concat cs) =
      (fst ?now @ fst (frames (unread b1 @ concat cs)), snd (frames (unread b1 @ concat cs)))"
    using frames_append [of "unread b @ c" "concat cs"] b1(2) by simp
  obtain s1 acts1 acts2 where r: "run_messages op (fst ?now) s = Inr (s1, acts1)"
    "run_messages op (fst (frames (unread b1 @ concat cs))) s1 = Inr (s', acts2)" "acts = acts1 @ acts2"
    using Cons.prems(6) by (auto simp: all run_messages_append cpp_bind_eq_Inr_iff)
  have "split_frame (unread b1) = None"
  proof -
    have "split_frame (snd (frames bs)) = None" for bs
    proof (induction bs rule: length_induct)
      case (1 bs)
      show ?case
      proof (cases "split_frame bs")
        case None
        then show ?thesis by (simp add: frames_None)
      next
        case (Some p)
        then obtain data rest where p: "split_frame bs = Some (data, rest)" by (cases p) auto
        then show ?thesis using 1 split_frame_less [OF p] frames_Some [OF p] by simp
      qed
    qed
    then show ?thesis using b1(2) by simp
  qed
  moreover have "length (unread b1 @ concat cs) \<le> tot"
    using frames_rest_length [of "unread b @ c"] b1(2) Cons.prems(3) by simp
  ultimately obtain b' acts' where b': "recv_run e op cs b1 s1 = Inr (b', s', acts')"
    "unread b' = snd (frames (unread b1 @ concat cs))" "outputs acts' = outputs acts2"
    using Cons.IH [OF b1(1) Cons.prems(2), of s1 acts2] Cons.prems(4) r by auto
  then show ?case
    using b1(3) r all by (auto simp: is_read_def)
qed

text \<open>C4: However the network cuts a stream of frames into reads of at most 4096 bytes, a new connection hands exactly
  the messages of the frames, in their order and each once, to \<open>message_op_\<close>, keeps an incomplete frame for later, and
  asks the socket for nothing but further reads and what \<open>message_op_\<close> asks for; peers may differ in byte order.\<close>

theorem connection_delivers_frames:
  assumes "list_all (\<lambda>c. c \<noteq> [] \<and> length c \<le> 4096) cs" and "length (concat cs) \<le> 2 ^ 62"
    and "concat cs = concat (map (frame sender) msgs) @ tail" and "split_frame tail = None"
    and "list_all (\<lambda>m. length m < 2 ^ 32) msgs"
    and "start_recv (read_buf Connection) = Inr (b, reads)" and "run_messages op msgs s = Inr (s', acts)"
  shows "\<exists>b' acts'. recv_run receiver op cs b s = Inr (b', s', acts') \<and> unread b' = tail \<and> outputs acts' = outputs acts"
proof -
  have "buffer_inv (DynamicBuffer 1024)" "unread (DynamicBuffer 1024) = []" "expand_size (DynamicBuffer 1024) = 1024"
    "length (char_vector (DynamicBuffer 1024)) = 1"
    by (simp_all add: DynamicBuffer_inv) (simp_all add: DynamicBuffer_def)
  then have b: "recv_ready (2 ^ 62) b" "unread b = []"
    using start_recv_ready [of "DynamicBuffer 1024" "2 ^ 62"] assms(6) by (auto simp: Connection_def)
  have "frames (concat cs) = (msgs, tail)"
    using frames_frame [OF assms(5), of sender tail] frames_None [OF assms(4)] assms(3) by simp
  moreover have "split_frame [] = None"
    by (simp add: split_frame_def)
  ultimately show ?thesis
    using recv_run_frames [OF b(1), of cs op s s' acts receiver] b assms by simp
qed

text \<open>A message op that keeps the messages, for the witnesses.\<close>

definition keep_op :: "bytes list message_op" where
  "keep_op data s = Inr (s @ [data], [])"

theorem connection_delivers_frames_witness:
  "\<exists>b reads b' acts'. start_recv (read_buf Connection) = Inr (b, reads) \<and>
    recv_run Little_endian (Some keep_op)
      [take 3 (frame Big_endian [7, 8]), drop 3 (frame Big_endian [7, 8]) @ frame Big_endian [9], [1]] b [] =
      Inr (b', [[7, 8], [9]], acts') \<and> unread b' = [1] \<and> outputs acts' = []"
proof -
  let ?f = "frame Big_endian [7, 8]"
  have f: "length ?f = 6" "length (frame Big_endian [9]) = 5"
    by (simp_all add: frame_def)
  have "\<exists>b n. start_recv (read_buf Connection) = Inr (b, [Async_read n])"
    using start_recv_ready [of "DynamicBuffer 1024" 100]
    by (simp add: Connection_def DynamicBuffer_inv) (auto simp: DynamicBuffer_def)
  then obtain b n where b: "start_recv (read_buf Connection) = Inr (b, [Async_read n])" by blast
  have "list_all (\<lambda>c. c \<noteq> [] \<and> length c \<le> 4096) [take 3 ?f, drop 3 ?f @ frame Big_endian [9], [1]]"
    using f by auto
  moreover have "run_messages (Some keep_op) [[7, 8], [9]] [] = Inr ([[7, 8], [9]], [])"
    by (simp add: call_message_op_def keep_op_def)
  moreover have "concat [take 3 ?f, drop 3 ?f @ frame Big_endian [9], [1]] = concat (map (frame Big_endian) [[7, 8], [9]]) @ [1]"
    by simp
  moreover have "split_frame [1] = None" by (simp add: split_frame_def)
  ultimately show ?thesis
    using connection_delivers_frames [of "[take 3 ?f, drop 3 ?f @ frame Big_endian [9], [1]]" Big_endian "[[7, 8], [9]]" "[1]" b
        "[Async_read n]" "Some keep_op" "[]" "[[7, 8], [9]]" "[]" Little_endian] f b
    by auto
qed

subsection \<open>The send queue\<close>

text \<open>
  A sender with the writes the socket has not completed yet, what was given to \<open>send\<close>, and what was given to the
  socket. A write completes, with whatever code, once.
\<close>

record sender =
  sd_queue :: "bytes list"
  sd_writing :: "bytes list"
  sd_submitted :: "bytes list"
  sd_issued :: "bytes list"

definition new_sender :: sender where
  "new_sender = \<lparr>sd_queue = send_buf_deque Connection, sd_writing = [], sd_submitted = [], sd_issued = []\<rparr>"

definition writes :: "action list \<Rightarrow> bytes list" where
  "writes acts = concat (map (\<lambda>a. case a of Async_write d \<Rightarrow> [d] | _ \<Rightarrow> []) acts)"

inductive send_step :: "sender \<Rightarrow> sender \<Rightarrow> bool" where
  submit: "connection_send d (sd_queue t) = Inr (q, acts) \<Longrightarrow>
    send_step t (t\<lparr>sd_queue := q, sd_writing := sd_writing t @ writes acts,
                   sd_submitted := sd_submitted t @ [d], sd_issued := sd_issued t @ writes acts\<rparr>)"
| complete: "sd_writing t = w # ws \<Longrightarrow> onSendCompleted ec n (sd_queue t) = Inr (q, acts) \<Longrightarrow>
    send_step t (t\<lparr>sd_queue := q, sd_writing := ws @ writes acts, sd_issued := sd_issued t @ writes acts\<rparr>)"

definition sender_inv :: "sender \<Rightarrow> bool" where
  "sender_inv t \<longleftrightarrow>
     sd_writing t = take 1 (sd_queue t) \<and>
     (\<exists>finished. sd_submitted t = finished @ sd_queue t \<and> sd_issued t = finished @ take 1 (sd_queue t))"

lemma sender_inv_step:
  assumes "send_step t u" and "sender_inv t"
  shows "sender_inv u"
  using assms(1)
proof cases
  case (submit d q acts)
  show ?thesis
  proof (cases "sd_queue t")
    case Nil
    then show ?thesis
      using submit assms(2) by (auto simp: sender_inv_def connection_send_def start_deque_send_def writes_def)
  next
    case (Cons x xs)
    then show ?thesis
      using submit assms(2) by (auto simp: sender_inv_def connection_send_def writes_def)
  qed
next
  case (complete w ws ec n q acts)
  then obtain x xs where q: "sd_queue t = x # xs"
    using assms(2) by (cases "sd_queue t") (auto simp: sender_inv_def)
  obtain finished where f: "sd_submitted t = finished @ x # xs" "sd_issued t = finished @ [x]" "sd_writing t = [x]"
    using assms(2) q by (auto simp: sender_inv_def)
  show ?thesis
  proof (cases xs)
    case Nil
    then show ?thesis
      using complete q f by (auto simp: sender_inv_def onSendCompleted_def writes_def)
  next
    case (Cons y ys)
    then have "acts = [Async_write y]" "q = y # ys"
      using complete q by (auto simp: onSendCompleted_def start_deque_send_def)
    then have "sd_submitted u = (finished @ [x]) @ sd_queue u \<and> sd_issued u = (finished @ [x]) @ take 1 (sd_queue u)"
      "sd_writing u = take 1 (sd_queue u)"
      using complete q f Cons by (auto simp: writes_def)
    then show ?thesis unfolding sender_inv_def by blast
  qed
qed

lemma sender_inv_reachable: "send_step\<^sup>*\<^sup>* new_sender t \<Longrightarrow> sender_inv t"
proof (induction rule: rtranclp_induct)
  case base
  then show ?case by (simp add: sender_inv_def new_sender_def Connection_def)
next
  case (step t u)
  then show ?case using sender_inv_step by blast
qed

text \<open>In every order of sends and completions a connection has at most one write outstanding, hands the strings to the
  socket in the order of \<open>send\<close>, each once and none forgotten (when no write is outstanding all have been handed over), and no
  completion finds the queue empty.\<close>

lemma connection_sends_in_order:
  assumes "send_step\<^sup>*\<^sup>* new_sender t"
  shows "length (sd_writing t) \<le> 1 \<and> (\<exists>waiting. sd_submitted t = sd_issued t @ waiting \<and> (sd_writing t = [] \<longrightarrow> waiting = [])) \<and>
    (sd_writing t \<noteq> [] \<longrightarrow> (\<exists>q acts. onSendCompleted ec n (sd_queue t) = Inr (q, acts)))"
proof -
  obtain finished where f: "sd_writing t = take 1 (sd_queue t)" "sd_submitted t = finished @ sd_queue t"
    "sd_issued t = finished @ take 1 (sd_queue t)"
    using sender_inv_reachable [OF assms] by (auto simp: sender_inv_def)
  then show ?thesis
    by (cases "sd_queue t") (auto simp: onSendCompleted_def start_deque_send_def split: list.split)
qed

lemma connection_sends_in_order_witness:
  "\<exists>t. send_step\<^sup>*\<^sup>* new_sender t \<and> sd_writing t = [[1]] \<and> sd_submitted t = sd_issued t"
proof -
  define t where "t = new_sender\<lparr>sd_queue := [[1]], sd_writing := [[1]], sd_submitted := [[1]], sd_issued := [[1]]\<rparr>"
  have "send_step new_sender t"
    using submit [of "[1]" new_sender "[[1]]" "[Async_write [1]]"]
    by (simp add: t_def new_sender_def Connection_def connection_send_def start_deque_send_def writes_def)
  then have r: "send_step\<^sup>*\<^sup>* new_sender t" by simp
  have "\<exists>waiting. sd_submitted t = sd_issued t @ waiting"
    using connection_sends_in_order [OF r] by blast
  then have "sd_submitted t = sd_issued t" by (simp add: t_def)
  then show ?thesis using r by (auto simp: t_def)
qed

text \<open>A completion that is reported twice, as the reactor does for a descriptor that hung up, finds an empty queue:
  \<open>pop_front\<close> of an empty deque is undefined.\<close>

lemma second_completion_undefined:
  assumes "onSendCompleted ec n [d] = Inr (q, acts)"
  shows "q = []" and "onSendCompleted ec2 n2 q = Inl Undefined_behaviour"
  using assms by (auto simp: onSendCompleted_def)

end
