(* ===== verification/Rpc_Message.thy ===== *)
theory Rpc_Message
  imports Rpc_Connection Unordered_Map
begin

section \<open>RPC messages (rpc/rpc.proto)\<close>

text \<open>
  The messages of rpc.proto as records; an unset submessage is \<open>None\<close> and reads as its default. Enumerations of
  proto3 are open, so they are integers. Their encoding is code generated by protoc: the codec is a pair of
  parameters, \<open>ParseFromString\<close> (\<open>None\<close> for \<open>false\<close>) and \<open>SerializeToString\<close>, and theorems that rely on it say
  for which messages it round-trips.
\<close>

definition type_request :: int where "type_request = 0"
definition type_response :: int where "type_response = 1"

definition rpc_SUCCESS :: int where "rpc_SUCCESS = 0"
definition rpc_NO_SERVICE :: int where "rpc_NO_SERVICE = 1"
definition rpc_NO_METHOD :: int where "rpc_NO_METHOD = 2"
definition rpc_INVALID_REQUEST :: int where "rpc_INVALID_REQUEST = 3"
definition rpc_NOT_SUPPORT :: int where "rpc_NOT_SUPPORT = 4"

record rpc_request =
  service_name :: string
  service_method :: string
  rq_arguments :: bytes

record rpc_response =
  rs_errcode :: int
  rs_arguments :: bytes

record rpc_message =
  msg_id :: u64
  msg_tp :: int
  msg_request :: "rpc_request option"
  msg_response :: "rpc_response option"

definition get_request :: "rpc_message \<Rightarrow> rpc_request" where
  "get_request m =
     (case msg_request m of Some r \<Rightarrow> r | None \<Rightarrow> \<lparr>service_name = [], service_method = [], rq_arguments = []\<rparr>)"

definition get_response :: "rpc_message \<Rightarrow> rpc_response" where
  "get_response m = (case msg_response m of Some r \<Rightarrow> r | None \<Rightarrow> \<lparr>rs_errcode = rpc_SUCCESS, rs_arguments = []\<rparr>)"

type_synonym parse_message = "bytes \<Rightarrow> rpc_message option"
type_synonym serialize_message = "rpc_message \<Rightarrow> bytes"

text \<open>The codec carries a message when what it writes is read back and fits the length of a frame.\<close>

definition carries :: "parse_message \<Rightarrow> serialize_message \<Rightarrow> rpc_message \<Rightarrow> bool" where
  "carries prs ser m \<longleftrightarrow> prs (ser m) = Some m \<and> length (ser m) < 2 ^ 32"

lemmas rpc_constants = type_request_def type_response_def rpc_SUCCESS_def rpc_NO_SERVICE_def rpc_NO_METHOD_def
  rpc_INVALID_REQUEST_def rpc_NOT_SUPPORT_def

end
