(* ===== verification/Rpc_Channel.thy ===== *)
theory Rpc_Channel
  imports Rpc_Message
begin

section \<open>RPC channels (rpc/src/channel.h, channel.cc)\<close>

text \<open>
  A channel gives each call an id, remembers the call under it, and completes it when a response with the id
  arrives. What a call leaves in \<^verbatim>\<open>MethodInfo\<close> (response object and closure) is a handle; the default-constructed
  \<^verbatim>\<open>MethodInfo\<close> that \<open>operator[]\<close> makes for an unknown id has null pointers (\<open>None\<close>). A completion parses the arguments
  into the response and runs the closure; the list \<open>ch_completed\<close> records them in order. The handler of
  messages acts on the channel together with the send queue of its connection.
\<close>

record 'h channel =
  ch_is_connected :: bool
  id_allocator :: u64
  id_method_umap :: "(u64, 'h option) umap"
  ch_completed :: "('h \<times> bytes) list"

definition Channel :: "'h channel" where
  "Channel = \<lparr>ch_is_connected = False, id_allocator = 0, id_method_umap = [], ch_completed = []\<rparr>"

text \<open>The constructor also starts to connect.\<close>

definition Channel_connect ::
  "(string \<Rightarrow> bytes option) \<Rightarrow> (string \<Rightarrow> bytes option) \<Rightarrow> endian \<Rightarrow> string \<Rightarrow> u16 \<Rightarrow> ('h channel \<times> action list) cpp" where
  "Channel_connect pton4 pton6 e ip port = cpp_bind (connection_connect pton4 pton6 e ip port) (\<lambda>acts. Inr (Channel, acts))"

definition call_request :: "u64 \<Rightarrow> string \<Rightarrow> string \<Rightarrow> bytes \<Rightarrow> rpc_message" where
  "call_request i service method args =
     \<lparr>msg_id = i, msg_tp = type_request,
      msg_request = Some \<lparr>service_name = service, service_method = method, rq_arguments = args\<rparr>, msg_response = None\<rparr>"

definition CallMethod ::
  "endian \<Rightarrow> serialize_message \<Rightarrow> string \<Rightarrow> string \<Rightarrow> bytes \<Rightarrow> 'h \<Rightarrow> bytes list \<times> 'h channel \<Rightarrow>
   ((bytes list \<times> 'h channel) \<times> action list) cpp" where
  "CallMethod e ser service method args h st =
     (case st of (q, ch) \<Rightarrow>
       let i = id_allocator ch;
           ch1 = ch\<lparr>id_allocator := i + 1, id_method_umap := umap_assign i (Some h) (id_method_umap ch)\<rparr>
       in cpp_bind (connection_send (frame e (ser (call_request i service method args))) q)
            (\<lambda>(q1, acts). Inr ((q1, ch1), acts)))"

definition channel_shutdown :: "'h channel \<Rightarrow> 'h channel \<times> action list" where
  "channel_shutdown ch = (ch\<lparr>ch_is_connected := False\<rparr>, connection_shutdown)"

definition destroy_Channel :: "'h channel \<Rightarrow> 'h channel \<times> action list" where
  "destroy_Channel ch = channel_shutdown ch"

definition is_connected :: "'h channel \<Rightarrow> bool" where
  "is_connected ch = ch_is_connected ch"

definition onConnectOp :: "int \<Rightarrow> dynamic_buffer \<Rightarrow> 'h channel \<Rightarrow> ((dynamic_buffer \<times> 'h channel) \<times> action list) cpp" where
  "onConnectOp ec b ch =
     (if ec = 0 then cpp_bind (start_recv b) (\<lambda>(b1, acts). Inr ((b1, ch\<lparr>ch_is_connected := True\<rparr>), acts))
      else Inr ((b, ch), []))"

definition onMessageOp :: "parse_message \<Rightarrow> (bytes list \<times> 'h channel) message_op" where
  "onMessageOp prs data st =
     (case st of (q, ch) \<Rightarrow>
       case prs data of
         None \<Rightarrow> Inr ((q, ch), [])
       | Some rpc_msg \<Rightarrow>
           if msg_tp rpc_msg \<noteq> type_response then Inr ((q, ch), [])
           else
             (let i = msg_id rpc_msg;
                  method_info = (case umap_find i (id_method_umap ch) of Some mi \<Rightarrow> mi | None \<Rightarrow> None);
                  ch1 = ch\<lparr>id_method_umap := umap_erase i (id_method_umap ch)\<rparr>
              in case method_info of
                   None \<Rightarrow> Inl Undefined_behaviour
                 | Some h \<Rightarrow>
                     Inr ((q, ch1\<lparr>ch_completed := ch_completed ch1 @ [(h, rs_arguments (get_response rpc_msg))]\<rparr>), [])))"

subsection \<open>The calls of a channel\<close>

text \<open>The invariant: the remembered calls are those whose ids were allocated, each id once, as long as the
  allocator has not wrapped around.\<close>

definition channel_inv :: "'h channel \<Rightarrow> bool" where
  "channel_inv ch \<longleftrightarrow>
     umap_ok (id_method_umap ch) \<and>
     (\<forall>i mi. umap_find i (id_method_umap ch) = Some mi \<longrightarrow> unat i < unat (id_allocator ch) \<and> mi \<noteq> None)"

lemma Channel_simps [simp]: "id_allocator Channel = 0" "ch_completed Channel = []"
  by (simp_all add: Channel_def)

lemma channel_inv_Channel: "channel_inv Channel"
  by (simp add: channel_inv_def Channel_def umap_ok_def umap_find_def)

lemma CallMethod_inv:
  assumes "channel_inv ch" and "id_allocator ch \<noteq> -1"
  shows "\<exists>acts ch1. CallMethod e ser service method args h (q, ch) =
      Inr ((q @ [frame e (ser (call_request (id_allocator ch) service method args))], ch1), acts) \<and>
    channel_inv ch1 \<and> id_allocator ch1 = id_allocator ch + 1 \<and> ch_completed ch1 = ch_completed ch \<and>
    umap_find (id_allocator ch) (id_method_umap ch) = None \<and>
    (\<forall>i. umap_find i (id_method_umap ch1) =
       (if i = id_allocator ch then Some (Some h) else umap_find i (id_method_umap ch)))"
proof -
  have "1 + id_allocator ch \<noteq> 0"
    using assms(2) by (metis add.commute add_eq_0_iff)
  then have less: "unat (id_allocator ch + 1) = Suc (unat (id_allocator ch))"
    using unatSuc [of "id_allocator ch"] by (simp add: add.commute)
  have new: "umap_find (id_allocator ch) (id_method_umap ch) = None"
    using assms(1) by (cases "umap_find (id_allocator ch) (id_method_umap ch)") (auto simp: channel_inv_def)
  define ch1 where "ch1 = ch\<lparr>id_allocator := id_allocator ch + 1,
    id_method_umap := umap_assign (id_allocator ch) (Some h) (id_method_umap ch)\<rparr>"
  have "channel_inv ch1"
    using assms(1) less by (auto simp: channel_inv_def ch1_def umap_ok_assign umap_find_assign less_Suc_eq)
  then show ?thesis
    using new by (auto simp: CallMethod_def connection_send_def start_deque_send_def umap_find_assign ch1_def Let_def
        split: list.split)
qed

lemma onMessageOp_known:
  assumes "prs data = Some r" and "msg_tp r = type_response" and "umap_find (msg_id r) (id_method_umap ch) = Some (Some h)"
  shows "\<exists>ch1. onMessageOp prs data (q, ch) = Inr ((q, ch1), []) \<and>
    ch_completed ch1 = ch_completed ch @ [(h, rs_arguments (get_response r))] \<and> id_allocator ch1 = id_allocator ch \<and>
    (\<forall>i. umap_find i (id_method_umap ch1) = (if i = msg_id r then None else umap_find i (id_method_umap ch)))"
  using assms by (simp add: onMessageOp_def umap_find_erase Let_def)

text \<open>A response completes the call that was remembered under its id, with the arguments it carries and whatever its
  error code is, and forgets that call only; a message that is not a response, or does not parse, changes nothing. A response
  with an id nobody waits for, such as a second response to the same call, dereferences a null pointer.\<close>

lemma channel_response_by_id:
  assumes "channel_inv ch"
  shows "onMessageOp prs data (q, ch) =
    (case prs data of
       None \<Rightarrow> Inr ((q, ch), [])
     | Some r \<Rightarrow>
         if msg_tp r \<noteq> type_response then Inr ((q, ch), [])
         else case umap_find (msg_id r) (id_method_umap ch) of
                None \<Rightarrow> Inl Undefined_behaviour
              | Some mi \<Rightarrow> Inr ((q, ch\<lparr>id_method_umap := umap_erase (msg_id r) (id_method_umap ch),
                  ch_completed := ch_completed ch @ [(the mi, rs_arguments (get_response r))]\<rparr>), []))"
  using assms by (auto simp: onMessageOp_def channel_inv_def Let_def split: option.split)

lemma channel_response_by_id_witness:
  "onMessageOp (\<lambda>_. Some \<lparr>msg_id = 3, msg_tp = type_response, msg_request = None, msg_response = None\<rparr>) []
     ([], Channel :: nat channel) = Inl Undefined_behaviour"
  using channel_response_by_id [OF channel_inv_Channel, of "\<lambda>_. Some \<lparr>msg_id = 3, msg_tp = type_response, msg_request = None, msg_response = None\<rparr>" "[]" "[]"]
  by (simp add: Channel_def umap_find_def)

subsection \<open>Several calls\<close>

record 'h call =
  call_service :: string
  call_method :: string
  call_args :: bytes
  call_handle :: 'h

fun run_calls ::
  "endian \<Rightarrow> serialize_message \<Rightarrow> 'h call list \<Rightarrow> bytes list \<times> 'h channel \<Rightarrow>
   ((bytes list \<times> 'h channel) \<times> action list) cpp" where
  "run_calls e ser [] st = Inr (st, [])"
| "run_calls e ser (c # cs) st =
     cpp_bind (CallMethod e ser (call_service c) (call_method c) (call_args c) (call_handle c) st) (\<lambda>(st1, acts).
     cpp_bind (run_calls e ser cs st1) (\<lambda>(st2, acts2). Inr (st2, acts @ acts2)))"

text \<open>The requests the calls send when the first id is \<open>i\<close>.\<close>

fun requests :: "u64 \<Rightarrow> 'h call list \<Rightarrow> rpc_message list" where
  "requests i [] = []"
| "requests i (c # cs) = call_request i (call_service c) (call_method c) (call_args c) # requests (i + 1) cs"

text \<open>The calls, each remembered under the id of its request.\<close>

definition remembered :: "rpc_message list \<Rightarrow> 'h call list \<Rightarrow> 'h channel \<Rightarrow> bool" where
  "remembered reqs cs ch \<longleftrightarrow>
     list_all2 (\<lambda>m c. umap_find (msg_id m) (id_method_umap ch) = Some (Some (call_handle c))) reqs cs"

lemma unat_plus_1: "unat i + 1 < 2 ^ 64 \<Longrightarrow> unat (i + 1 :: u64) = unat i + 1"
  using unat_add_lem [of i 1] by simp

lemma requests_ids:
  "unat i + length cs < 2 ^ 64 \<Longrightarrow> m \<in> set (requests i cs) \<Longrightarrow> unat i \<le> unat (msg_id m)"
proof (induction cs arbitrary: i)
  case (Cons c cs)
  have i: "unat (i + 1) = unat i + 1"
    using Cons.prems(1) by (intro unat_plus_1) simp
  then have "unat i \<le> unat (msg_id m)" if "m \<in> set (requests (i + 1) cs)"
    using Cons.IH [OF _ that] Cons.prems(1) by simp
  then show ?case
    using Cons.prems(2) by (auto simp: call_request_def)
qed simp

lemma requests_distinct: "unat i + length cs < 2 ^ 64 \<Longrightarrow> distinct (map msg_id (requests i cs))"
proof (induction cs arbitrary: i)
  case (Cons c cs)
  have i: "unat (i + 1) = unat i + 1"
    using Cons.prems by (intro unat_plus_1) simp
  then have "i \<notin> msg_id ` set (requests (i + 1) cs)"
    using requests_ids [of "i + 1" cs] Cons.prems by fastforce
  then show ?case
    using Cons.IH [of "i + 1"] Cons.prems i by (simp add: call_request_def)
qed simp

lemma length_requests [simp]: "length (requests i cs) = length cs"
  by (induction cs arbitrary: i) simp_all

lemma run_calls_remembered:
  "channel_inv ch \<Longrightarrow> unat (id_allocator ch) + length cs < 2 ^ 64 \<Longrightarrow>
   \<exists>ch1 acts. run_calls e ser cs (q, ch) = Inr ((q @ map (\<lambda>m. frame e (ser m)) (requests (id_allocator ch) cs), ch1), acts) \<and>
     channel_inv ch1 \<and> remembered (requests (id_allocator ch) cs) cs ch1 \<and> ch_completed ch1 = ch_completed ch \<and>
     (\<forall>i. unat i < unat (id_allocator ch) \<longrightarrow> umap_find i (id_method_umap ch1) = umap_find i (id_method_umap ch))"
proof (induction cs arbitrary: q ch)
  case Nil
  then show ?case by (simp add: remembered_def)
next
  case (Cons c cs)
  let ?i = "id_allocator ch"
  have i: "unat (?i + 1) = unat ?i + 1"
    using Cons.prems(2) by (intro unat_plus_1) simp
  have "?i \<noteq> -1"
    using i by auto
  then obtain acts1 ch1 where ch1:
    "CallMethod e ser (call_service c) (call_method c) (call_args c) (call_handle c) (q, ch) =
      Inr ((q @ [frame e (ser (call_request ?i (call_service c) (call_method c) (call_args c)))], ch1), acts1)"
    "channel_inv ch1" "id_allocator ch1 = ?i + 1" "ch_completed ch1 = ch_completed ch"
    "\<forall>i. umap_find i (id_method_umap ch1) = (if i = ?i then Some (Some (call_handle c)) else umap_find i (id_method_umap ch))"
    using CallMethod_inv [OF Cons.prems(1)] by blast
  have "unat (id_allocator ch1) + length cs < 2 ^ 64"
    using Cons.prems(2) ch1(3) i by simp
  then obtain ch2 acts2 where ch2:
    "run_calls e ser cs (q @ [frame e (ser (call_request ?i (call_service c) (call_method c) (call_args c)))], ch1) =
      Inr (((q @ [frame e (ser (call_request ?i (call_service c) (call_method c) (call_args c)))]) @
        map (\<lambda>m. frame e (ser m)) (requests (?i + 1) cs), ch2), acts2)"
    "channel_inv ch2" "remembered (requests (?i + 1) cs) cs ch2" "ch_completed ch2 = ch_completed ch1"
    "\<forall>i. unat i < unat (?i + 1) \<longrightarrow> umap_find i (id_method_umap ch2) = umap_find i (id_method_umap ch1)"
    using Cons.IH [OF ch1(2)] ch1(3) by metis
  have "umap_find ?i (id_method_umap ch2) = Some (Some (call_handle c))"
    using ch2(5) ch1(5) i by simp
  moreover have "umap_find j (id_method_umap ch2) = umap_find j (id_method_umap ch)" if "unat j < unat ?i" for j
    using ch2(5) ch1(5) i that by auto
  ultimately show ?case
    using ch1 ch2 by (auto simp: remembered_def call_request_def)
qed

text \<open>Responses to some of the remembered calls, in the order of the calls, complete exactly those.\<close>

definition completions :: "(rpc_message \<Rightarrow> rpc_message option) \<Rightarrow> rpc_message list \<Rightarrow> 'h call list \<Rightarrow> ('h \<times> bytes) list" where
  "completions ans reqs cs =
     concat (map2 (\<lambda>m c. case ans m of None \<Rightarrow> [] | Some r \<Rightarrow> [(call_handle c, rs_arguments (get_response r))]) reqs cs)"

definition answered :: "(rpc_message \<Rightarrow> rpc_message option) \<Rightarrow> rpc_message list \<Rightarrow> rpc_message list" where
  "answered ans reqs = concat (map (\<lambda>m. case ans m of None \<Rightarrow> [] | Some r \<Rightarrow> [r]) reqs)"

lemma run_onMessageOp:
  "length reqs = length cs \<Longrightarrow> distinct (map msg_id reqs) \<Longrightarrow> remembered reqs cs ch \<Longrightarrow>
   (\<And>m r. m \<in> set reqs \<Longrightarrow> ans m = Some r \<Longrightarrow> prs (ser r) = Some r \<and> msg_id r = msg_id m \<and> msg_tp r = type_response) \<Longrightarrow>
   \<exists>ch1. run_messages (Some (onMessageOp prs)) (map ser (answered ans reqs)) (q, ch) = Inr ((q, ch1), []) \<and>
     ch_completed ch1 = ch_completed ch @ completions ans reqs cs"
proof (induction reqs cs arbitrary: ch rule: list_induct2)
  case Nil
  then show ?case by (simp add: answered_def completions_def)
next
  case (Cons m reqs c cs)
  have d: "distinct (map msg_id reqs)" and rem: "remembered reqs cs ch"
    using Cons.prems(1,2) by (simp_all add: remembered_def)
  have sub: "prs (ser r) = Some r \<and> msg_id r = msg_id m' \<and> msg_tp r = type_response"
    if "m' \<in> set reqs" and "ans m' = Some r" for m' r
    by (rule Cons.prems(3)) (use that in simp_all)
  show ?case
  proof (cases "ans m")
    case None
    have "\<exists>ch1. run_messages (Some (onMessageOp prs)) (map ser (answered ans reqs)) (q, ch) = Inr ((q, ch1), []) \<and>
        ch_completed ch1 = ch_completed ch @ completions ans reqs cs"
      by (rule Cons.IH [OF d rem]) (erule (1) sub)
    then show ?thesis
      by (simp add: answered_def completions_def None)
  next
    case (Some r)
    have r: "prs (ser r) = Some r" "msg_id r = msg_id m" "msg_tp r = type_response"
      using Cons.prems(3) [of m r] Some by auto
    moreover have "umap_find (msg_id r) (id_method_umap ch) = Some (Some (call_handle c))"
      using Cons.prems(2) r by (simp add: remembered_def)
    ultimately obtain ch1 where ch1: "onMessageOp prs (ser r) (q, ch) = Inr ((q, ch1), [])"
      "ch_completed ch1 = ch_completed ch @ [(call_handle c, rs_arguments (get_response r))]"
      "\<forall>i. umap_find i (id_method_umap ch1) = (if i = msg_id r then None else umap_find i (id_method_umap ch))"
      using onMessageOp_known [of prs "ser r" r ch "call_handle c" q] by blast
    have "remembered reqs cs ch1"
      unfolding remembered_def
    proof (rule list_all2_mono)
      show "list_all2 (\<lambda>m c. umap_find (msg_id m) (id_method_umap ch) = Some (Some (call_handle c)) \<and> m \<in> set reqs) reqs cs"
        using rem by (auto simp: remembered_def list_all2_conv_all_nth)
    next
      fix m' c'
      assume "umap_find (msg_id m') (id_method_umap ch) = Some (Some (call_handle c')) \<and> m' \<in> set reqs"
      then show "umap_find (msg_id m') (id_method_umap ch1) = Some (Some (call_handle c'))"
        using Cons.prems(1) ch1(3) r(2) by (auto simp: image_iff)
    qed
    then have "\<exists>ch2. run_messages (Some (onMessageOp prs)) (map ser (answered ans reqs)) (q, ch1) = Inr ((q, ch2), []) \<and>
        ch_completed ch2 = ch_completed ch1 @ completions ans reqs cs"
      by (intro Cons.IH [OF d]) (assumption, erule (1) sub)
    then obtain ch2 where "run_messages (Some (onMessageOp prs)) (map ser (answered ans reqs)) (q, ch1) = Inr ((q, ch2), [])"
      "ch_completed ch2 = ch_completed ch1 @ completions ans reqs cs"
      by blast
    then show ?thesis
      using ch1 Some by (simp add: answered_def completions_def call_message_op_def)
  qed
qed

end
