(* ===== verification/Rpc_Server.thy ===== *)
theory Rpc_Server
  imports Rpc_Message
begin

section \<open>The RPC server (rpc/src/server.h, server.cc)\<close>

text \<open>
  A service is user code behind protobuf's \<^verbatim>\<open>Service\<close> interface, a parameter: its name, the names of its methods by
  descriptor, whether the arguments of a method parse, and the serialised response that \<open>CallMethod\<close> leaves when
  it runs \<open>done\<close> (\<open>None\<close> when it returns without running it; \<open>response\<close> is deleted on return, so a later run
  would be too late). A message is answered through \<open>Connection::send\<close>, so the handler acts on the send queue.
\<close>

record 'q service =
  sv_name :: string
  sv_methods :: "string list"
  sv_parse :: "nat \<Rightarrow> bytes \<Rightarrow> 'q option"
  sv_call :: "nat \<Rightarrow> 'q \<Rightarrow> bytes option"

record 'q service_info =
  si_service :: "'q service"
  name_methods_umap :: "(string, nat) umap"

definition ServiceInfo :: "'q service \<Rightarrow> 'q service_info" where
  "ServiceInfo sv =
     \<lparr>si_service = sv,
      name_methods_umap = fold (\<lambda>(name, i). umap_assign name i) (zip (sv_methods sv) [0..<length (sv_methods sv)]) []\<rparr>"

definition getMethod :: "string \<Rightarrow> 'q service_info \<Rightarrow> nat option" where
  "getMethod name info = umap_find name (name_methods_umap info)"

type_synonym 'q service_umap = "(string, 'q service_info) umap"

definition registerService :: "'q service \<Rightarrow> 'q service_umap \<Rightarrow> 'q service_umap" where
  "registerService sv m = umap_assign (sv_name sv) (ServiceInfo sv) m"

definition error_response :: "u64 \<Rightarrow> int \<Rightarrow> rpc_message" where
  "error_response i code =
     \<lparr>msg_id = i, msg_tp = type_response, msg_request = None,
      msg_response = Some \<lparr>rs_errcode = code, rs_arguments = []\<rparr>\<rparr>"

definition success_response :: "u64 \<Rightarrow> bytes \<Rightarrow> rpc_message" where
  "success_response i response_str =
     \<lparr>msg_id = i, msg_tp = type_response, msg_request = None,
      msg_response = Some \<lparr>rs_errcode = rpc_SUCCESS, rs_arguments = response_str\<rparr>\<rparr>"

definition send_error_response ::
  "endian \<Rightarrow> serialize_message \<Rightarrow> u64 \<Rightarrow> int \<Rightarrow> bytes list \<Rightarrow> (bytes list \<times> action list) cpp" where
  "send_error_response e ser i code q = connection_send (frame e (ser (error_response i code))) q"

definition send_response ::
  "endian \<Rightarrow> serialize_message \<Rightarrow> u64 \<Rightarrow> bytes \<Rightarrow> bytes list \<Rightarrow> (bytes list \<times> action list) cpp" where
  "send_response e ser i response_str q = connection_send (frame e (ser (success_response i response_str))) q"

definition onConnectionMessage ::
  "endian \<Rightarrow> parse_message \<Rightarrow> serialize_message \<Rightarrow> 'q service_umap \<Rightarrow> bytes list message_op" where
  "onConnectionMessage e prs ser services data q =
     (case prs data of
        None \<Rightarrow> Inr (q, [])
      | Some msg \<Rightarrow>
          if msg_tp msg \<noteq> type_request then send_error_response e ser (msg_id msg) rpc_NOT_SUPPORT q
          else
            (let i = msg_id msg; req = get_request msg
             in case umap_find (service_name req) services of
                  None \<Rightarrow> send_error_response e ser i rpc_NO_SERVICE q
                | Some info \<Rightarrow>
                    (case getMethod (service_method req) info of
                       None \<Rightarrow> send_error_response e ser i rpc_NO_METHOD q
                     | Some mdesc \<Rightarrow>
                         (case sv_parse (si_service info) mdesc (rq_arguments req) of
                            None \<Rightarrow> send_error_response e ser i rpc_INVALID_REQUEST q
                          | Some request \<Rightarrow>
                              (case sv_call (si_service info) mdesc request of
                                 None \<Rightarrow> Inr (q, [])
                               | Some response_str \<Rightarrow> send_response e ser i response_str q)))))"

subsection \<open>What the server answers\<close>

text \<open>The specification: the answer to a message, if there is one.\<close>

definition answer :: "'q service_umap \<Rightarrow> rpc_message \<Rightarrow> rpc_message option" where
  "answer services msg =
     (if msg_tp msg \<noteq> type_request then Some (error_response (msg_id msg) rpc_NOT_SUPPORT)
      else
        (let req = get_request msg
         in case umap_find (service_name req) services of
              None \<Rightarrow> Some (error_response (msg_id msg) rpc_NO_SERVICE)
            | Some info \<Rightarrow>
                (case getMethod (service_method req) info of
                   None \<Rightarrow> Some (error_response (msg_id msg) rpc_NO_METHOD)
                 | Some mdesc \<Rightarrow>
                     (case sv_parse (si_service info) mdesc (rq_arguments req) of
                        None \<Rightarrow> Some (error_response (msg_id msg) rpc_INVALID_REQUEST)
                      | Some request \<Rightarrow> map_option (success_response (msg_id msg)) (sv_call (si_service info) mdesc request)))))"

definition answers :: "parse_message \<Rightarrow> 'q service_umap \<Rightarrow> bytes \<Rightarrow> rpc_message list" where
  "answers prs services data =
     (case prs data of None \<Rightarrow> [] | Some msg \<Rightarrow> (case answer services msg of None \<Rightarrow> [] | Some r \<Rightarrow> [r]))"

lemma connection_send_queue:
  "connection_send d q = Inr (q @ [d], if q = [] then [Async_write d] else [])"
  by (simp add: connection_send_def start_deque_send_def split: list.split)

lemma onConnectionMessage_answers:
  "\<exists>acts. onConnectionMessage e prs ser services data q =
     Inr (q @ map (\<lambda>r. frame e (ser r)) (answers prs services data), acts)"
  by (simp add: onConnectionMessage_def answers_def answer_def send_error_response_def send_response_def
      connection_send_queue Let_def split: option.split)

lemma run_onConnectionMessage:
  "\<exists>acts. run_messages (Some (onConnectionMessage e prs ser services)) ds q =
     Inr (q @ map (\<lambda>r. frame e (ser r)) (concat (map (answers prs services) ds)), acts)"
proof (induction ds arbitrary: q)
  case (Cons d ds)
  obtain acts where "onConnectionMessage e prs ser services d q =
     Inr (q @ map (\<lambda>r. frame e (ser r)) (answers prs services d), acts)"
    using onConnectionMessage_answers by blast
  moreover obtain acts2 where
    "run_messages (Some (onConnectionMessage e prs ser services)) ds (q @ map (\<lambda>r. frame e (ser r)) (answers prs services d)) =
     Inr ((q @ map (\<lambda>r. frame e (ser r)) (answers prs services d)) @ map (\<lambda>r. frame e (ser r)) (concat (map (answers prs services) ds)), acts2)"
    using Cons by blast
  ultimately show ?case by (simp add: call_message_op_def)
qed simp

lemma answer_id: "answer services msg = Some r \<Longrightarrow> msg_id r = msg_id msg \<and> msg_tp r = type_response"
  by (auto simp: answer_def Let_def error_response_def success_response_def split: if_splits option.splits)

text \<open>What was registered: of several services with one name the last counts, and so does the last of several methods.\<close>

definition last_named :: "('a \<Rightarrow> string) \<Rightarrow> string \<Rightarrow> 'a list \<Rightarrow> 'a \<Rightarrow> bool" where
  "last_named f name xs x \<longleftrightarrow> (\<exists>before after. xs = before @ x # after \<and> f x = name \<and> name \<notin> f ` set after)"

lemma find_fold_assign_last:
  fixes xs :: "'a list"
  shows "umap_find name (fold (\<lambda>x. umap_assign (f x) (g x)) xs []) = None \<longleftrightarrow> name \<notin> f ` set xs"
    and "umap_find name (fold (\<lambda>x. umap_assign (f x) (g x)) xs []) = Some v \<Longrightarrow> \<exists>x. last_named f name xs x \<and> v = g x"
proof -
  have eq: "umap_find name (fold (\<lambda>x. umap_assign (f x) (g x)) xs []) = map_of (rev (map (\<lambda>x. (f x, g x)) xs)) name"
    using umap.find_fold_assign [of "[]" name "map (\<lambda>x. (f x, g x)) xs"]
    by (simp add: umap_ok_def umap_find_def fold_map comp_def split: option.split)
  show "umap_find name (fold (\<lambda>x. umap_assign (f x) (g x)) xs []) = None \<longleftrightarrow> name \<notin> f ` set xs"
    by (simp add: eq map_of_eq_None_iff image_image)
  have "\<exists>x. last_named f name xs x \<and> v = g x" if "map_of (rev (map (\<lambda>x. (f x, g x)) xs)) name = Some v" for xs
    using that
  proof (induction xs rule: rev_induct)
    case (snoc y ys)
    show ?case
    proof (cases "f y = name")
      case True
      then have "ys @ [y] = ys @ y # [] \<and> f y = name \<and> name \<notin> f ` set []" "v = g y"
        using snoc.prems by simp_all
      then show ?thesis unfolding last_named_def by blast
    next
      case False
      then obtain x where "last_named f name ys x" "v = g x"
        using snoc by auto
      then obtain before after where "ys = before @ x # after" "f x = name" "name \<notin> f ` set after" "v = g x"
        by (auto simp: last_named_def)
      then have "ys @ [y] = before @ x # (after @ [y]) \<and> f x = name \<and> name \<notin> f ` set (after @ [y])" "v = g x"
        using False by auto
      then show ?thesis unfolding last_named_def by blast
    qed
  qed simp
  then show "umap_find name (fold (\<lambda>x. umap_assign (f x) (g x)) xs []) = Some v \<Longrightarrow> \<exists>x. last_named f name xs x \<and> v = g x"
    by (simp add: eq)
qed

lemma registered_service:
  "umap_find name (fold registerService svs []) = None \<longleftrightarrow> name \<notin> sv_name ` set svs"
  "umap_find name (fold registerService svs []) = Some info \<Longrightarrow> \<exists>sv. last_named sv_name name svs sv \<and> info = ServiceInfo sv"
proof -
  have eq: "registerService = (\<lambda>sv. umap_assign (sv_name sv) (ServiceInfo sv))"
    by (rule ext) (rule ext, simp add: registerService_def)
  show "umap_find name (fold registerService svs []) = None \<longleftrightarrow> name \<notin> sv_name ` set svs"
    and "umap_find name (fold registerService svs []) = Some info \<Longrightarrow> \<exists>sv. last_named sv_name name svs sv \<and> info = ServiceInfo sv"
    unfolding eq by (rule find_fold_assign_last)+
qed

lemma getMethod_last:
  "getMethod name (ServiceInfo sv) = None \<longleftrightarrow> name \<notin> set (sv_methods sv)"
  "getMethod name (ServiceInfo sv) = Some i \<Longrightarrow> last_named (\<lambda>i. sv_methods sv ! i) name [0..<length (sv_methods sv)] i"
proof -
  let ?ms = "sv_methods sv"
  have "zip ?ms [0..<length ?ms] = map (\<lambda>i. (?ms ! i, i)) [0..<length ?ms]"
    by (rule nth_equalityI) simp_all
  then have eq: "getMethod name (ServiceInfo sv) = umap_find name (fold (\<lambda>i. umap_assign (?ms ! i) i) [0..<length ?ms] [])"
    by (simp add: getMethod_def ServiceInfo_def fold_map comp_def)
  show "getMethod name (ServiceInfo sv) = None \<longleftrightarrow> name \<notin> set ?ms"
    unfolding eq find_fold_assign_last(1) by (fastforce simp: in_set_conv_nth)
  show "getMethod name (ServiceInfo sv) = Some i \<Longrightarrow> last_named (\<lambda>i. ?ms ! i) name [0..<length ?ms] i"
    unfolding eq by (drule find_fold_assign_last(2)) simp
qed

lemma ServiceInfo_service: "si_service (ServiceInfo sv) = sv"
  by (simp add: ServiceInfo_def)

text \<open>C28: The server answers data with at most one response, which it appends to the send queue and writes at once when
  nothing was waiting there. Data that does not parse as a message gets none. A message gets exactly one, a response
  with its id, except that a call gets none when the service returns without running \<open>done\<close>. The code is \<open>NOT_SUPPORT\<close> if the message is not a
  request, else \<open>NO_SERVICE\<close> if no service of the name was registered, else \<open>NO_METHOD\<close> if the service last registered under
  the name has no method of the name, else \<open>INVALID_REQUEST\<close> if the arguments do not parse for that method, else
  \<open>SUCCESS\<close>, with what the method left. The handler never faults.\<close>

theorem server_answers_each_request:
  assumes "services = fold registerService svs []"
    and "respond = (\<lambda>msg code args. [\<lparr>msg_id = msg_id msg, msg_tp = type_response, msg_request = None,
      msg_response = Some \<lparr>rs_errcode = code, rs_arguments = args\<rparr>\<rparr>])"
  shows "\<exists>rs. onConnectionMessage e prs ser services data q =
       Inr (q @ map (\<lambda>r. frame e (ser r)) rs, if q = [] then map (\<lambda>r. Async_write (frame e (ser r))) rs else []) \<and>
     (case prs data of
        None \<Rightarrow> rs = []
      | Some msg \<Rightarrow>
          if msg_tp msg \<noteq> type_request then rs = respond msg rpc_NOT_SUPPORT []
          else if service_name (get_request msg) \<notin> sv_name ` set svs then rs = respond msg rpc_NO_SERVICE []
          else \<exists>sv. last_named sv_name (service_name (get_request msg)) svs sv \<and>
            (if service_method (get_request msg) \<notin> set (sv_methods sv) then rs = respond msg rpc_NO_METHOD []
             else \<exists>i. last_named (\<lambda>i. sv_methods sv ! i) (service_method (get_request msg)) [0..<length (sv_methods sv)] i \<and>
               (case sv_parse sv i (rq_arguments (get_request msg)) of
                  None \<Rightarrow> rs = respond msg rpc_INVALID_REQUEST []
                | Some request \<Rightarrow>
                    (case sv_call sv i request of
                       None \<Rightarrow> rs = []
                     | Some response \<Rightarrow> rs = respond msg rpc_SUCCESS response))))"
proof (cases "prs data")
  case None
  then show ?thesis by (simp add: onConnectionMessage_def)
next
  case (Some msg)
  let ?req = "get_request msg"
  let ?called = "\<lambda>sv i rs. last_named (\<lambda>i. sv_methods sv ! i) (service_method ?req) [0..<length (sv_methods sv)] i \<and>
    (case sv_parse sv i (rq_arguments ?req) of
       None \<Rightarrow> rs = respond msg rpc_INVALID_REQUEST []
     | Some request \<Rightarrow>
         (case sv_call sv i request of
            None \<Rightarrow> rs = []
          | Some response \<Rightarrow> rs = respond msg rpc_SUCCESS response))"
  note reply = onConnectionMessage_def send_error_response_def send_response_def connection_send_queue error_response_def
    success_response_def Some assms(2) Let_def
  show ?thesis
  proof (cases "msg_tp msg \<noteq> type_request")
    case True
    then show ?thesis by (simp add: reply)
  next
    case request: False
    show ?thesis
    proof (cases "umap_find (service_name ?req) services")
      case None
      then show ?thesis
        using request registered_service(1) [of "service_name ?req" svs] by (simp add: reply assms(1))
    next
      case found: (Some info)
      then obtain sv where sv: "last_named sv_name (service_name ?req) svs sv" "info = ServiceInfo sv"
        "service_name ?req \<in> sv_name ` set svs"
        using registered_service [of "service_name ?req" svs] unfolding assms(1) by fastforce
      show ?thesis
      proof (cases "getMethod (service_method ?req) info")
        case None
        then show ?thesis
          using request found sv getMethod_last(1) [of "service_method ?req" sv]
          by (intro exI [of _ "respond msg rpc_NO_METHOD []"]) (auto simp: reply)
      next
        case (Some i)
        then have "service_method ?req \<in> set (sv_methods sv)"
          "last_named (\<lambda>i. sv_methods sv ! i) (service_method ?req) [0..<length (sv_methods sv)] i"
          using getMethod_last [of "service_method ?req" sv] sv(2) by fastforce+
        note facts = this request found sv Some
        define rs where "rs = (case sv_parse sv i (rq_arguments ?req) of
            None \<Rightarrow> respond msg rpc_INVALID_REQUEST []
          | Some request \<Rightarrow> (case sv_call sv i request of None \<Rightarrow> [] | Some response \<Rightarrow> respond msg rpc_SUCCESS response))"
        have "onConnectionMessage e prs ser services data q =
            Inr (q @ map (\<lambda>r. frame e (ser r)) rs, if q = [] then map (\<lambda>r. Async_write (frame e (ser r))) rs else [])"
          using facts by (auto simp: reply rs_def ServiceInfo_service split: option.split)
        moreover have "?called sv i rs"
          using facts(2) by (simp add: rs_def split: option.split)
        then have "\<exists>sv. last_named sv_name (service_name ?req) svs sv \<and>
            (if service_method ?req \<notin> set (sv_methods sv) then rs = respond msg rpc_NO_METHOD []
             else \<exists>i. ?called sv i rs)"
          using facts(1) sv(1) by (intro exI [of _ sv]) auto
        ultimately show ?thesis
          using request sv(3) \<open>prs data = Some msg\<close> by (intro exI [of _ rs]) simp
      qed
    qed
  qed
qed

text \<open>A service with one method that answers with its arguments, and a request for it.\<close>

definition echo_service :: "bytes service" where
  "echo_service = \<lparr>sv_name = ''Echo'', sv_methods = [''Call''], sv_parse = (\<lambda>i bs. Some bs), sv_call = (\<lambda>i bs. Some bs)\<rparr>"

definition echo_request :: rpc_message where
  "echo_request = \<lparr>msg_id = 7, msg_tp = type_request,
     msg_request = Some \<lparr>service_name = ''Echo'', service_method = ''Call'', rq_arguments = [1, 2]\<rparr>, msg_response = None\<rparr>"

lemma echo_answer: "answer (registerService echo_service []) echo_request = Some (success_response 7 [1, 2])"
  by (simp add: answer_def echo_request_def echo_service_def registerService_def umap_find_def get_request_def
      ServiceInfo_def getMethod_def)

theorem server_answers_each_request_witness:
  "onConnectionMessage Little_endian (\<lambda>_. Some echo_request) (\<lambda>_. [9]) (fold registerService [echo_service] []) [] [] =
     Inr ([frame Little_endian [9]], [Async_write (frame Little_endian [9])])"
proof -
  have one: "last_named sv_name (sv_name echo_service) [echo_service] sv \<longleftrightarrow> sv = echo_service" for sv
    by (auto simp: last_named_def Cons_eq_append_conv)
  have req: "service_method (get_request echo_request) \<in> set (sv_methods echo_service)"
    "service_name (get_request echo_request) = sv_name echo_service" "msg_tp echo_request = type_request"
    "sv_parse echo_service i bs = Some bs" "sv_call echo_service i bs = Some bs" for i bs
    by (simp_all add: echo_service_def echo_request_def get_request_def)
  show ?thesis
    using server_answers_each_request [OF refl refl, of Little_endian "\<lambda>_. Some echo_request" "\<lambda>_. [9]" "[echo_service]" "[]" "[]"]
    by (auto simp: one req)
qed

end
