(* ===== verification/Rpc_System.thy ===== *)
theory Rpc_System
  imports Rpc_Channel Rpc_Server
begin

section \<open>A client and a server together\<close>

text \<open>
  The two ends of the RPC library and the byte streams between them: the calls of a channel, framed and queued by its
  connection, cut into reads on their way to the server, answered there, and the answers on their way back.
\<close>

lemma answers_requests:
  assumes "\<And>m. m \<in> set ms \<Longrightarrow> prs (ser m) = Some m"
  shows "concat (map (answers prs services) (map ser ms)) = answered (answer services) ms"
  using assms by (induction ms) (auto simp: answers_def answered_def)

lemma answered_mem: "r \<in> set (answered ans ms) \<Longrightarrow> \<exists>m \<in> set ms. ans m = Some r"
  by (auto simp: answered_def split: option.splits)

text \<open>A stream of frames read in pieces, from a new connection.\<close>

lemma new_connection_receives:
  assumes "list_all (\<lambda>c. c \<noteq> [] \<and> length c \<le> 4096) cs" and "length (concat cs) \<le> 2 ^ 62"
    and "concat cs = concat (map (frame sender) msgs)" and "\<And>m. m \<in> set msgs \<Longrightarrow> length m < 2 ^ 32"
    and "start_recv (read_buf Connection) = Inr (b, reads)" and "run_messages op msgs s = Inr (s', acts)"
  shows "\<exists>b' acts'. recv_run receiver op cs b s = Inr (b', s', acts') \<and> unread b' = []"
proof -
  have "buffer_inv (DynamicBuffer 1024)" "unread (DynamicBuffer 1024) = []" "expand_size (DynamicBuffer 1024) = 1024"
    "length (char_vector (DynamicBuffer 1024)) = 1"
    by (simp_all add: DynamicBuffer_inv) (simp_all add: DynamicBuffer_def)
  then have b: "recv_ready (2 ^ 62) b" "unread b = []"
    using start_recv_ready [of "DynamicBuffer 1024" "2 ^ 62"] assms(5) by (auto simp: Connection_def)
  have "list_all (\<lambda>m. length m < 2 ^ 32) msgs"
    using assms(4) by (simp add: list_all_iff)
  then have "frames (concat cs) = (msgs, [])"
    using frames_frame [of msgs sender "[]"] frames_None [of "[]"] assms(3) by (simp add: split_frame_def)
  moreover have "split_frame [] = None"
    by (simp add: split_frame_def)
  ultimately have "\<exists>b' acts'. recv_run receiver op cs b s = Inr (b', s', acts') \<and> unread b' = snd (frames (unread b @ concat cs)) \<and>
     outputs acts' = outputs acts"
    by (intro recv_run_frames [OF b(1)]) (use b assms in simp_all)
  then show ?thesis using b(2) \<open>frames (concat cs) = (msgs, [])\<close> by auto
qed

text \<open>C2: Calls made on a new channel, their requests cut into reads in any way on the way to a server with any services, and
  the answers cut in any way on the way back, complete exactly once each, in order, every call with the bytes the server answered
  to that very call (none for an error, which the channel does not look at); calls the services do not answer stay open. Client and
  server may have different byte orders.\<close>

theorem rpc_calls_complete:
  assumes calls: "length calls < 2 ^ 64"
    and codec: "\<And>m. m \<in> set (requests 0 calls) \<Longrightarrow> carries prs ser m"
      "\<And>m r. m \<in> set (requests 0 calls) \<Longrightarrow> answer services m = Some r \<Longrightarrow> carries prs ser r"
    and client: "run_calls client ser calls (send_buf_deque Connection, Channel) = Inr ((q1, ch1), acts1)"
    and there: "concat cs = concat q1" "list_all (\<lambda>c. c \<noteq> [] \<and> length c \<le> 4096) cs" "length (concat cs) \<le> 2 ^ 62"
    and new: "start_recv (read_buf Connection) = Inr (b, reads)"
  shows "\<exists>b1 q2 acts2. recv_run server (Some (onConnectionMessage server prs ser services)) cs b [] = Inr (b1, q2, acts2) \<and>
    (\<forall>ds q. concat ds = concat q2 \<longrightarrow> list_all (\<lambda>c. c \<noteq> [] \<and> length c \<le> 4096) ds \<longrightarrow> length (concat ds) \<le> 2 ^ 62 \<longrightarrow>
      (\<exists>b2 ch2 acts3. recv_run client (Some (onMessageOp prs)) ds b (q, ch1) = Inr (b2, (q, ch2), acts3) \<and>
         ch_completed ch2 = completions (answer services) (requests 0 calls) calls))"
proof -
  let ?reqs = "requests 0 calls" and ?ans = "answer services"
  obtain ch acts where "run_calls client ser calls ([], Channel) = Inr (([] @ map (\<lambda>m. frame client (ser m)) ?reqs, ch), acts)"
    "remembered ?reqs calls ch" "ch_completed ch = []"
    using run_calls_remembered [OF channel_inv_Channel, of calls client ser "[]"] calls by auto
  then have q1: "q1 = map (\<lambda>m. frame client (ser m)) ?reqs" and ch1: "remembered ?reqs calls ch1" "ch_completed ch1 = []"
    using client by (simp_all add: Connection_def)
  obtain acts where srv: "run_messages (Some (onConnectionMessage server prs ser services)) (map ser ?reqs) [] =
      Inr ([] @ map (\<lambda>r. frame server (ser r)) (answered ?ans ?reqs), acts)"
    using run_onConnectionMessage [of server prs ser services "map ser ?reqs" "[]"] answers_requests [of ?reqs prs ser services] codec(1)
    by (auto simp: carries_def)
  define q2 where "q2 = map (\<lambda>r. frame server (ser r)) (answered ?ans ?reqs)"
  have "concat cs = concat (map (frame client) (map ser ?reqs))"
    using there(1) q1 by (simp add: comp_def)
  then obtain b1 acts2 where "recv_run server (Some (onConnectionMessage server prs ser services)) cs b [] = Inr (b1, q2, acts2)"
    using new_connection_receives [OF there(2,3) _ _ new, of client "map ser ?reqs"] srv codec(1)
    by (fastforce simp: q2_def carries_def)
  moreover have "\<exists>b2 ch2 acts3. recv_run client (Some (onMessageOp prs)) ds b (q, ch1) = Inr (b2, (q, ch2), acts3) \<and>
      ch_completed ch2 = completions ?ans ?reqs calls"
    if ds: "concat ds = concat q2" "list_all (\<lambda>c. c \<noteq> [] \<and> length c \<le> 4096) ds" "length (concat ds) \<le> 2 ^ 62" for ds q
  proof -
    have "\<exists>ch2. run_messages (Some (onMessageOp prs)) (map ser (answered ?ans ?reqs)) (q, ch1) = Inr ((q, ch2), []) \<and>
        ch_completed ch2 = ch_completed ch1 @ completions ?ans ?reqs calls"
    proof (rule run_onMessageOp [OF _ _ ch1(1)])
      show "distinct (map msg_id ?reqs)"
        by (rule requests_distinct) (use calls in simp)
      show "prs (ser r) = Some r \<and> msg_id r = msg_id m \<and> msg_tp r = type_response"
        if "m \<in> set ?reqs" and "?ans m = Some r" for m r
        using codec(2) [OF that] answer_id [OF that(2)] by (simp add: carries_def)
    qed simp
    then obtain ch2 where ch2: "run_messages (Some (onMessageOp prs)) (map ser (answered ?ans ?reqs)) (q, ch1) = Inr ((q, ch2), [])"
      "ch_completed ch2 = completions ?ans ?reqs calls"
      using ch1(2) by auto
    have "length m < 2 ^ 32" if "m \<in> set (map ser (answered ?ans ?reqs))" for m
      using that codec(2) answered_mem by (fastforce simp: carries_def)
    moreover have "concat ds = concat (map (frame server) (map ser (answered ?ans ?reqs)))"
      using ds(1) by (simp add: q2_def comp_def)
    ultimately show ?thesis
      using new_connection_receives [OF ds(2,3) _ _ new ch2(1), of server client] ch2(2) by blast
  qed
  ultimately show ?thesis by blast
qed

text \<open>One call of the echo service, with a codec that knows the two messages of the exchange.\<close>

definition echo_call :: "nat call" where
  "echo_call = \<lparr>call_service = ''Echo'', call_method = ''Call'', call_args = [1, 2], call_handle = 5\<rparr>"

definition echo_ser :: serialize_message where
  "echo_ser m = (if msg_tp m = type_request then [1] else [2])"

definition echo_prs :: parse_message where
  "echo_prs bs = (if bs = [1] then Some (call_request 0 ''Echo'' ''Call'' [1, 2]) else Some (success_response 0 [1, 2]))"

lemma echo_call_answer:
  "answer (registerService echo_service []) (call_request 0 ''Echo'' ''Call'' [1, 2]) = Some (success_response 0 [1, 2])"
  by (simp add: answer_def call_request_def echo_service_def registerService_def umap_find_def get_request_def
      ServiceInfo_def getMethod_def)

theorem rpc_calls_complete_witness:
  "\<exists>b reads b1 q2 acts2. start_recv (read_buf Connection) = Inr (b, reads) \<and>
    recv_run Little_endian (Some (onConnectionMessage Little_endian echo_prs echo_ser (registerService echo_service [])))
      [take 2 (frame Big_endian [1]), drop 2 (frame Big_endian [1])] b [] = Inr (b1, q2, acts2)"
proof -
  have "\<exists>b n. start_recv (read_buf Connection) = Inr (b, [Async_read n])"
    using start_recv_ready [of "DynamicBuffer 1024" 100]
    by (simp add: Connection_def DynamicBuffer_inv) (auto simp: DynamicBuffer_def)
  then obtain b n where b: "start_recv (read_buf Connection) = Inr (b, [Async_read n])" by blast
  let ?cs = "[take 2 (frame Big_endian [1]), drop 2 (frame Big_endian [1])]"
  have reqs: "requests 0 [echo_call] = [call_request 0 ''Echo'' ''Call'' [1, 2]]"
    by (simp add: echo_call_def)
  have req: "carries echo_prs echo_ser (call_request 0 ''Echo'' ''Call'' [1, 2])"
    by (simp add: carries_def echo_prs_def echo_ser_def call_request_def)
  have resp: "carries echo_prs echo_ser (success_response 0 [1, 2])"
    by (simp add: carries_def echo_prs_def echo_ser_def success_response_def rpc_constants)
  obtain ch acts where r: "run_calls Big_endian echo_ser [echo_call] (send_buf_deque Connection, Channel) =
      Inr (([frame Big_endian [1]], ch), acts)"
    by (auto simp: CallMethod_def echo_call_def Connection_def connection_send_def start_deque_send_def Let_def echo_ser_def
        call_request_def)
  have len: "length (frame Big_endian [1]) = 5" by (simp add: frame_def)
  have "\<exists>b1 q2 acts2. recv_run Little_endian (Some (onConnectionMessage Little_endian echo_prs echo_ser (registerService echo_service [])))
      ?cs b [] = Inr (b1, q2, acts2) \<and>
    (\<forall>ds q. concat ds = concat q2 \<longrightarrow> list_all (\<lambda>c. c \<noteq> [] \<and> length c \<le> 4096) ds \<longrightarrow> length (concat ds) \<le> 2 ^ 62 \<longrightarrow>
      (\<exists>b2 ch2 acts3. recv_run Big_endian (Some (onMessageOp echo_prs)) ds b (q, ch) = Inr (b2, (q, ch2), acts3) \<and>
         ch_completed ch2 = completions (answer (registerService echo_service [])) (requests 0 [echo_call]) [echo_call]))"
  proof (rule rpc_calls_complete [OF _ _ _ r _ _ _ b])
    show "carries echo_prs echo_ser m" if "m \<in> set (requests 0 [echo_call])" for m
      using that req unfolding reqs by simp
    show "carries echo_prs echo_ser x"
      if "m \<in> set (requests 0 [echo_call])" "answer (registerService echo_service []) m = Some x" for m x
      using that resp echo_call_answer unfolding reqs by auto
    show "length [echo_call] < 2 ^ 64" "concat ?cs = concat [frame Big_endian [1]]" "length (concat ?cs) \<le> 2 ^ 62"
      using len by simp_all
    have "length (take 2 (frame Big_endian [1])) = 2" "length (drop 2 (frame Big_endian [1])) = 3"
      using len by simp_all
    then show "list_all (\<lambda>c. c \<noteq> [] \<and> length c \<le> 4096) ?cs"
      by (auto simp del: length_take length_drop)
  qed
  then show ?thesis using b by blast
qed

end
