(* ===== verification/Thread_Pool.thy ===== *)
theory Thread_Pool
  imports Prelude
begin

section \<open>The thread pool (asio/src/thread_pool.h, thread_pool.cc)\<close>

text \<open>
  A pool of threads, each with a context of its own while it runs. \<open>nextContext\<close> hands out the contexts in turn: it
  loads the shared counter and moves it on by compare and exchange until that succeeds, so calls from several threads
  interleave; each atomic access is one step. A context is the number of its thread's slot and of the start that made it.
\<close>

record pool_thread =
  pt_ioc :: "nat option"   \<comment> \<open>\<open>ioc_\<close>; \<open>None\<close> is \<open>nullptr\<close>\<close>

record thread_pool =
  is_start :: bool
  pool_next :: nat
  threads :: "pool_thread list"

definition Thread :: pool_thread where
  "Thread = \<lparr>pt_ioc = None\<rparr>"

text \<open>\<open>start\<close> waits until the new thread has made its context (\<open>ioc\<close>, any address), \<open>stop\<close> until the thread has left its loop.\<close>

definition thread_start :: "nat \<Rightarrow> pool_thread \<Rightarrow> pool_thread" where
  "thread_start ioc t = t\<lparr>pt_ioc := Some ioc\<rparr>"

definition thread_context :: "pool_thread \<Rightarrow> nat cpp" where
  "thread_context t = (case pt_ioc t of None \<Rightarrow> Inl Undefined_behaviour | Some ioc \<Rightarrow> Inr ioc)"

definition thread_stop :: "pool_thread \<Rightarrow> pool_thread cpp" where
  "thread_stop t = cpp_bind (thread_context t) (\<lambda>ioc. Inr (t\<lparr>pt_ioc := None\<rparr>))"

text \<open>\<open>thread_num\<close> is a \<open>size_t\<close>, so the test for negative numbers never holds.\<close>

definition ThreadPool :: "nat \<Rightarrow> thread_pool cpp" where
  "ThreadPool thread_num =
     (if int thread_num < 0 then Inl Asio_exception
      else Inr \<lparr>is_start = False, pool_next = 0, threads = replicate thread_num Thread\<rparr>)"

definition pool_start :: "(nat \<Rightarrow> nat) \<Rightarrow> thread_pool \<Rightarrow> thread_pool" where
  "pool_start addr p =
     (if is_start p then p
      else p\<lparr>threads := map (\<lambda>i. thread_start (addr i) (threads p ! i)) [0 ..< length (threads p)], is_start := True\<rparr>)"

fun stop_all :: "pool_thread list \<Rightarrow> pool_thread list cpp" where
  "stop_all [] = Inr []"
| "stop_all (t # ts) = cpp_bind (thread_stop t) (\<lambda>t1. cpp_bind (stop_all ts) (\<lambda>ts1. Inr (t1 # ts1)))"

definition pool_stop :: "thread_pool \<Rightarrow> thread_pool cpp" where
  "pool_stop p =
     (if \<not> is_start p then Inr p
      else cpp_bind (stop_all (threads p)) (\<lambda>ts. Inr (p\<lparr>threads := ts, is_start := False\<rparr>)))"

text \<open>The destructor: deleting the threads leaves none.\<close>

definition destroy_ThreadPool :: "thread_pool \<Rightarrow> thread_pool cpp" where
  "destroy_ThreadPool p =
     cpp_bind (if is_start p then pool_stop p else Inr p) (\<lambda>p1. Inr (p1\<lparr>threads := []\<rparr>))"

lemma stop_all_started: "list_all (\<lambda>t. pt_ioc t \<noteq> None) ts \<Longrightarrow> stop_all ts = Inr (map (\<lambda>t. t\<lparr>pt_ioc := None\<rparr>) ts)"
  by (induction ts) (auto simp: thread_stop_def thread_context_def)

text \<open>A pool that was started can be stopped, after which it is as before and can be started again, and deleted.\<close>

lemma pool_stop_started:
  assumes "\<not> is_start p" and "list_all (\<lambda>t. t = Thread) (threads p)"
  shows "pool_stop (pool_start addr p) = Inr p" and "destroy_ThreadPool (pool_start addr p) = Inr (p\<lparr>threads := []\<rparr>)"
proof -
  have "map (\<lambda>i. thread_start (addr i) (threads p ! i)\<lparr>pt_ioc := None\<rparr>) [0..<length (threads p)] = threads p"
    using assms(2) by (auto simp: list_all_length thread_start_def Thread_def intro: nth_equalityI)
  then show stop: "pool_stop (pool_start addr p) = Inr p"
    using assms(1) by (simp add: pool_stop_def pool_start_def stop_all_started list.pred_map thread_start_def list.pred_True comp_def)
  show "destroy_ThreadPool (pool_start addr p) = Inr (p\<lparr>threads := []\<rparr>)"
    using stop by (simp add: destroy_ThreadPool_def pool_start_def)
qed

text \<open>The parts of \<open>nextContext\<close>: what precedes the loop, one round of it (a weak exchange may fail for no reason), and
  what follows.\<close>

definition next_load :: "thread_pool \<Rightarrow> nat cpp" where
  "next_load p = (if \<not> is_start p then Inl Asio_exception else Inr (pool_next p))"

definition next_exchange :: "bool \<Rightarrow> nat \<Rightarrow> thread_pool \<Rightarrow> (bool \<times> nat \<times> thread_pool) cpp" where
  "next_exchange spurious current p =
     (let size = length (threads p)
      in if size = 0 then Inl Undefined_behaviour
         else (let nxt = size_add current 1 mod size
               in if pool_next p = current \<and> \<not> spurious then Inr (True, current, p\<lparr>pool_next := nxt\<rparr>)
                  else Inr (False, pool_next p, p)))"

definition next_result :: "nat \<Rightarrow> thread_pool \<Rightarrow> nat cpp" where
  "next_result current p =
     (if current < length (threads p) then thread_context (threads p ! current) else Inl Undefined_behaviour)"

text \<open>A call that nothing interferes with.\<close>

definition nextContext :: "thread_pool \<Rightarrow> (nat \<times> thread_pool) cpp" where
  "nextContext p =
     cpp_bind (next_load p) (\<lambda>current.
     cpp_bind (next_exchange False current p) (\<lambda>(ok, current1, p1).
     cpp_bind (next_result current1 p1) (\<lambda>ioc. Inr (ioc, p1))))"

subsection \<open>Interleaved calls\<close>

text \<open>The callers: not in a call, in the loop with a value of \<open>current\<close>, or past it. \<open>picks\<close> lists the slots taken so far.\<close>

datatype caller = Idle | Looping nat | Picked nat

record pool_run =
  pr_pool :: thread_pool
  pr_callers :: "caller list"
  pr_picks :: "nat list"

inductive pool_step :: "pool_run \<Rightarrow> pool_run \<Rightarrow> bool" where
  ps_load: "i < length (pr_callers s) \<Longrightarrow> pr_callers s ! i = Idle \<Longrightarrow> next_load (pr_pool s) = Inr c \<Longrightarrow>
    pool_step s (s\<lparr>pr_callers := (pr_callers s)[i := Looping c]\<rparr>)"
| ps_retry: "i < length (pr_callers s) \<Longrightarrow> pr_callers s ! i = Looping c \<Longrightarrow>
    next_exchange spurious c (pr_pool s) = Inr (False, c1, p1) \<Longrightarrow>
    pool_step s (s\<lparr>pr_pool := p1, pr_callers := (pr_callers s)[i := Looping c1]\<rparr>)"
| ps_exchange: "i < length (pr_callers s) \<Longrightarrow> pr_callers s ! i = Looping c \<Longrightarrow>
    next_exchange spurious c (pr_pool s) = Inr (True, c1, p1) \<Longrightarrow>
    pool_step s (s\<lparr>pr_pool := p1, pr_callers := (pr_callers s)[i := Picked c1], pr_picks := pr_picks s @ [c1]\<rparr>)"
| ps_return: "i < length (pr_callers s) \<Longrightarrow> pr_callers s ! i = Picked c \<Longrightarrow> next_result c (pr_pool s) = Inr ioc \<Longrightarrow>
    pool_step s (s\<lparr>pr_callers := (pr_callers s)[i := Idle]\<rparr>)"

definition pool_begin :: "nat \<Rightarrow> (nat \<Rightarrow> nat) \<Rightarrow> nat \<Rightarrow> pool_run" where
  "pool_begin n addr m =
     \<lparr>pr_pool = pool_start addr \<lparr>is_start = False, pool_next = 0, threads = replicate n Thread\<rparr>,
      pr_callers = replicate m Idle, pr_picks = []\<rparr>"

definition pool_inv :: "nat \<Rightarrow> (nat \<Rightarrow> nat) \<Rightarrow> pool_run \<Rightarrow> bool" where
  "pool_inv n addr s \<longleftrightarrow>
     is_start (pr_pool s) \<and> threads (pr_pool s) = map (\<lambda>i. \<lparr>pt_ioc = Some (addr i)\<rparr>) [0 ..< n] \<and>
     pool_next (pr_pool s) = length (pr_picks s) mod n \<and>
     pr_picks s = map (\<lambda>i. i mod n) [0 ..< length (pr_picks s)] \<and>
     (\<forall>c \<in> set (pr_callers s). c = Idle \<or> (\<exists>k<n. c = Looping k \<or> c = Picked k))"

lemma pool_begin_inv: "pool_inv n addr (pool_begin n addr m)"
  by (auto simp: pool_inv_def pool_begin_def pool_start_def thread_start_def Thread_def)

lemma next_exchange_cases:
  assumes "next_exchange spurious c p = Inr (ok, c1, p1)" and "length (threads p) < size_mod" and "c < length (threads p)"
  shows "if ok then c1 = c \<and> pool_next p = c \<and> p1 = p\<lparr>pool_next := (c + 1) mod length (threads p)\<rparr>
         else c1 = pool_next p \<and> p1 = p"
proof -
  have "size_add c 1 = c + 1"
    using assms(2,3) by (intro size_add_id) simp
  then show ?thesis
    using assms(1) by (auto simp: next_exchange_def Let_def split: if_splits)
qed

lemma pool_step_inv:
  assumes "pool_step s s'" and "pool_inv n addr s" and "0 < n" and "n < size_mod"
  shows "pool_inv n addr s'"
proof -
  have len: "length (threads (pr_pool s)) = n" using assms(2) by (simp add: pool_inv_def)
  have small: "pool_next (pr_pool s) < n" using assms(2,3) by (simp add: pool_inv_def)
  have put: "\<forall>c \<in> set ((pr_callers s)[i := d]). c = Idle \<or> (\<exists>k<n. c = Looping k \<or> c = Picked k)"
    if "d = Idle \<or> (\<exists>k<n. d = Looping k \<or> d = Picked k)" for i d
    using that assms(2) by (auto simp: pool_inv_def dest!: set_update_subset_insert [THEN subsetD])
  have current: "k < n" if "i < length (pr_callers s)" "pr_callers s ! i = Looping k" for i k
    using nth_mem [OF that(1)] that(2) assms(2) by (auto simp: pool_inv_def)
  from assms(1) show ?thesis
  proof cases
    case (ps_load i c)
    then show ?thesis
      using assms(2) put [of "Looping c" i] small by (auto simp: pool_inv_def next_load_def split: if_splits)
  next
    case (ps_retry i c spurious c1 p1)
    have "c1 = pool_next (pr_pool s) \<and> p1 = pr_pool s"
      using next_exchange_cases [OF ps_retry(4)] current [OF ps_retry(2,3)] assms(4) by (simp add: len)
    then show ?thesis
      using ps_retry assms(2) put [of "Looping c1" i] small by (auto simp: pool_inv_def)
  next
    case (ps_exchange i c spurious c1 p1)
    have "c1 = c" "pool_next (pr_pool s) = c" "p1 = (pr_pool s)\<lparr>pool_next := (c + 1) mod n\<rparr>" "c < n"
      using next_exchange_cases [OF ps_exchange(4)] current [OF ps_exchange(2,3)] assms(4) by (simp_all add: len)
    moreover have "c = length (pr_picks s) mod n"
      using \<open>pool_next (pr_pool s) = c\<close> assms(2) by (simp add: pool_inv_def)
    ultimately show ?thesis
      using ps_exchange assms(2) put [of "Picked c1" i] by (auto simp: pool_inv_def mod_Suc_eq)
  next
    case (ps_return i c ioc)
    then show ?thesis using assms(2) put [of Idle i] by (auto simp: pool_inv_def)
  qed
qed

text \<open>C26: However calls of \<open>nextContext\<close> on a started pool interleave, retry and fail spuriously, the contexts are handed out
  strictly in turn, no call throws or divides by zero, and every call that has taken its turn gets the context of a running thread.\<close>

theorem pool_round_robin:
  assumes "0 < n" and "n < size_mod" and "pool_step\<^sup>*\<^sup>* (pool_begin n addr m) s"
  shows "pr_picks s = map (\<lambda>i. i mod n) [0 ..< length (pr_picks s)] \<and>
    (\<forall>c \<in> set (pr_callers s). case c of
        Idle \<Rightarrow> next_load (pr_pool s) = Inr (length (pr_picks s) mod n)
      | Looping k \<Rightarrow> \<exists>res. next_exchange spurious k (pr_pool s) = Inr res
      | Picked k \<Rightarrow> next_result k (pr_pool s) = Inr (addr k))"
proof -
  have inv: "pool_inv n addr s"
    using assms(3)
  proof (induction rule: rtranclp_induct)
    case base
    show ?case by (rule pool_begin_inv)
  next
    case (step s s')
    then show ?case using pool_step_inv assms(1,2) by blast
  qed
  then show ?thesis
    using assms(1)
    by (auto simp: pool_inv_def next_load_def next_exchange_def next_result_def thread_context_def Let_def split: caller.split)
qed

definition example_pool_run :: pool_run where
  "example_pool_run =
     \<lparr>pr_pool = \<lparr>is_start = True, pool_next = 1, threads = [\<lparr>pt_ioc = Some 100\<rparr>, \<lparr>pt_ioc = Some 101\<rparr>]\<rparr>,
      pr_callers = [Picked 0], pr_picks = [0]\<rparr>"

theorem pool_round_robin_witness:
  "pool_step\<^sup>*\<^sup>* (pool_begin 2 ((+) 100) 1) example_pool_run \<and> next_result 0 (pr_pool example_pool_run) = Inr 100"
proof -
  let ?s0 = "pool_begin 2 ((+) 100) 1"
  let ?s1 = "?s0\<lparr>pr_callers := [Looping 0]\<rparr>"
  have "pool_step ?s0 ?s1"
    using ps_load [of 0 ?s0 0] by (simp add: pool_begin_def pool_start_def next_load_def)
  moreover have "pool_step ?s1 example_pool_run"
    using ps_exchange [of 0 ?s1 0 False 0 "(pr_pool ?s0)\<lparr>pool_next := 1\<rparr>"]
    by (simp add: pool_begin_def pool_start_def next_exchange_def example_pool_run_def thread_start_def size_add_def size_mod_def
        upt_rec Thread_def)
  ultimately have reach: "pool_step\<^sup>*\<^sup>* ?s0 example_pool_run"
    by (meson converse_rtranclp_into_rtranclp rtranclp.rtrancl_refl)
  have "\<forall>c \<in> set (pr_callers example_pool_run). case c of Picked k \<Rightarrow> next_result k (pr_pool example_pool_run) = Inr (100 + k) | _ \<Rightarrow> True"
    using pool_round_robin [OF _ _ reach, of False] by (auto simp: size_mod_def split: caller.splits)
  then show ?thesis
    using reach by (simp add: example_pool_run_def)
qed

text \<open>A pool of no threads is accepted, and its first \<open>nextContext\<close> divides by zero; before \<open>start\<close> it throws.\<close>

lemma empty_pool:
  "ThreadPool 0 = Inr \<lparr>is_start = False, pool_next = 0, threads = []\<rparr>"
  "nextContext (pool_start addr \<lparr>is_start = False, pool_next = 0, threads = []\<rparr>) = Inl Undefined_behaviour"
  "nextContext \<lparr>is_start = False, pool_next = 0, threads = []\<rparr> = Inl Asio_exception"
  by (simp_all add: ThreadPool_def nextContext_def pool_start_def next_load_def next_exchange_def)

end
