(* ===== verification/Accept_Contract.thy ===== *)
theory Accept_Contract
  imports Thread_Pool Endpoint
begin

section \<open>The contract of a server that accepts connections for a pool\<close>

text \<open>
  The RPC server and the example server accept in the same way: one accept at a time, each for the next context of a pool; the
  completion posts the start of the new connection to its context and starts the next accept, unless it has an error. What they ask of the
  acceptor, the pool's contexts and the user's callback are actions; a connection is the context it was made in. The locale states what a
  completion does, its lemma where the connections go; both servers interpret it.
\<close>

datatype accept_action =
    Acceptor_setup endpoint      \<comment> \<open>its result is not looked at\<close>
  | Acceptor_async_accept nat
  | Acceptor_cancel
  | Run_connect_op nat
  | Post_start_recv nat

text \<open>The accept in progress, if any, completes with the next code; without one nothing happens any more.\<close>

fun accepts_pending :: "accept_action list \<Rightarrow> nat list" where
  "accepts_pending [] = []"
| "accepts_pending (Acceptor_async_accept ioc # acts) = ioc # accepts_pending acts"
| "accepts_pending (_ # acts) = accepts_pending acts"

fun accept_run ::
  "(int \<Rightarrow> nat \<Rightarrow> 's \<Rightarrow> ('s \<times> accept_action list) cpp) \<Rightarrow> int list \<Rightarrow> nat list \<Rightarrow> 's \<Rightarrow> ('s \<times> nat list \<times> accept_action list) cpp" where
  "accept_run completed (ec # ecs) (ioc # pending) sv =
     cpp_bind (completed ec ioc sv) (\<lambda>(sv1, acts).
     cpp_bind (accept_run completed ecs (pending @ accepts_pending acts) sv1) (\<lambda>(sv2, pending2, acts2). Inr (sv2, pending2, acts @ acts2)))"
| "accept_run completed _ pending sv = Inr (sv, pending, [])"

fun connections :: "accept_action list \<Rightarrow> nat list" where
  "connections [] = []"
| "connections (Post_start_recv ioc # acts) = ioc # connections acts"
| "connections (_ # acts) = connections acts"

lemma accepts_pending_append: "accepts_pending (a @ b) = accepts_pending a @ accepts_pending b"
  by (induction a rule: accepts_pending.induct) simp_all

lemma connections_append: "connections (a @ b) = connections a @ connections b"
  by (induction a rule: connections.induct) simp_all

text \<open>The pool of a started server: \<open>i\<close> is the slot whose turn it is.\<close>

definition pool_turn :: "nat \<Rightarrow> (nat \<Rightarrow> nat) \<Rightarrow> nat \<Rightarrow> thread_pool \<Rightarrow> bool" where
  "pool_turn n addr i p \<longleftrightarrow>
     0 < n \<and> n < size_mod \<and> is_start p \<and> threads p = map (\<lambda>i. \<lparr>pt_ioc = Some (addr i)\<rparr>) [0 ..< n] \<and> pool_next p = i mod n"

lemma nextContext_turn:
  assumes "pool_turn n addr i p"
  shows "\<exists>p1. nextContext p = Inr (addr (i mod n), p1) \<and> pool_turn n addr (Suc i) p1"
proof -
  have lt: "i mod n < n" "n < size_mod" using assms by (simp_all add: pool_turn_def)
  then have "size_add (i mod n) 1 = i mod n + 1"
    by (intro size_add_id) linarith
  then show ?thesis
    using assms lt
    by (auto simp: pool_turn_def nextContext_def next_load_def next_exchange_def next_result_def thread_context_def mod_Suc_eq)
qed

lemma started_pool_turn:
  assumes "ThreadPool n = Inr p" and "0 < n" and "n < size_mod"
  shows "pool_turn n addr 0 (pool_start addr p)"
  using assms by (auto simp: ThreadPool_def pool_turn_def pool_start_def thread_start_def Thread_def)

locale pool_acceptor =
  fixes completed :: "int \<Rightarrow> nat \<Rightarrow> 's \<Rightarrow> ('s \<times> accept_action list) cpp"
    and turn :: "nat \<Rightarrow> (nat \<Rightarrow> nat) \<Rightarrow> nat \<Rightarrow> 's \<Rightarrow> bool"
  assumes accepted: "turn n addr i sv \<Longrightarrow>
      \<exists>sv1 acts. completed 0 ioc sv = Inr (sv1, acts @ [Post_start_recv ioc, Acceptor_async_accept (addr (i mod n))]) \<and>
        accepts_pending acts = [] \<and> connections acts = [] \<and> turn n addr (Suc i) sv1"
    and refused: "ec \<noteq> 0 \<Longrightarrow> completed ec ioc sv = Inr (sv, [])"
begin

text \<open>The connections go to the contexts in turn, up to the first accept that fails, after which none is started.\<close>

lemma connections_in_turn:
  "turn n addr (Suc i) sv \<Longrightarrow>
    \<exists>sv' pending acts. accept_run completed ecs [addr (i mod n)] sv = Inr (sv', pending, acts) \<and>
      connections acts = map (\<lambda>j. addr ((i + j) mod n)) [0 ..< length (takeWhile (\<lambda>ec. ec = 0) ecs)] \<and>
      (pending = [] \<longleftrightarrow> \<not> list_all (\<lambda>ec. ec = 0) ecs)"
proof (induction ecs arbitrary: i sv)
  case Nil
  then show ?case by simp
next
  case (Cons ec ecs)
  show ?case
  proof (cases "ec = 0")
    case False
    then show ?thesis by (cases ecs) (simp_all add: refused)
  next
    case True
    obtain sv1 acts1 where sv1: "completed 0 (addr (i mod n)) sv =
        Inr (sv1, acts1 @ [Post_start_recv (addr (i mod n)), Acceptor_async_accept (addr (Suc i mod n))])"
      "accepts_pending acts1 = []" "connections acts1 = []" "turn n addr (Suc (Suc i)) sv1"
      using accepted [OF Cons.prems] by blast
    obtain sv' pending acts where IH: "accept_run completed ecs [addr (Suc i mod n)] sv1 = Inr (sv', pending, acts)"
      "connections acts = map (\<lambda>j. addr ((Suc i + j) mod n)) [0 ..< length (takeWhile (\<lambda>ec. ec = 0) ecs)]"
      "pending = [] \<longleftrightarrow> \<not> list_all (\<lambda>ec. ec = 0) ecs"
      using Cons.IH [OF sv1(4)] by blast
    have "map (\<lambda>j. addr ((i + j) mod n)) [0 ..< Suc k] = addr (i mod n) # map (\<lambda>j. addr ((Suc i + j) mod n)) [0 ..< k]" for k
      by (simp add: upt_conv_Cons map_Suc_upt [symmetric] del: upt_Suc)
    then show ?thesis
      using True sv1(1-3) IH by (simp add: connections_append accepts_pending_append del: upt_Suc)
  qed
qed

end

end
