(* ===== verification/Rpc_Accept.thy ===== *)
theory Rpc_Accept
  imports Accept_Contract Rpc_Server
begin

section \<open>Accepting RPC connections (rpc/src/details/server.h, server.cc; start and stop of rpc/src/server.cc)\<close>

text \<open>
  The server accepts one connection at a time: \<open>start_accept\<close> takes the next context of the pool, makes a connection in
  it and asks the acceptor for a peer; the completion announces the connection, posts \<open>start_recv\<close> to the context
  and starts the next accept, unless it has an error. Requests to the acceptor, the user's callback, the context and the pool are
  actions; a connection is the context it was made in.
\<close>

record rpc_server =
  rs_pool :: thread_pool
  rs_connect_op :: bool   \<comment> \<open>whether \<open>connect_op_\<close> is set\<close>

definition details_Server :: "nat \<Rightarrow> rpc_server cpp" where
  "details_Server threadCount =
     cpp_bind (ThreadPool threadCount) (\<lambda>p. Inr \<lparr>rs_pool = p, rs_connect_op = False\<rparr>)"

definition setConnectOp :: "rpc_server \<Rightarrow> rpc_server" where
  "setConnectOp sv = sv\<lparr>rs_connect_op := True\<rparr>"

text \<open>\<open>start_accept\<close> and the closure it gives to the acceptor.\<close>

definition start_accept :: "rpc_server \<Rightarrow> (rpc_server \<times> accept_action list) cpp" where
  "start_accept sv =
     cpp_bind (nextContext (rs_pool sv)) (\<lambda>(ioc, p). Inr (sv\<lparr>rs_pool := p\<rparr>, [Acceptor_async_accept ioc]))"

definition accept_completed :: "int \<Rightarrow> nat \<Rightarrow> rpc_server \<Rightarrow> (rpc_server \<times> accept_action list) cpp" where
  "accept_completed ec ioc sv =
     (if ec = 0 then
        cpp_bind (start_accept sv) (\<lambda>(sv1, acts).
          Inr (sv1, (if rs_connect_op sv then [Run_connect_op ioc] else []) @ [Post_start_recv ioc] @ acts))
      else Inr (sv, []))"

definition details_start :: "(nat \<Rightarrow> nat) \<Rightarrow> endpoint \<Rightarrow> rpc_server \<Rightarrow> (rpc_server \<times> accept_action list) cpp" where
  "details_start addr ep sv =
     cpp_bind (start_accept (sv\<lparr>rs_pool := pool_start addr (rs_pool sv)\<rparr>)) (\<lambda>(sv1, acts). Inr (sv1, Acceptor_setup ep # acts))"

definition details_stop :: "rpc_server \<Rightarrow> (rpc_server \<times> accept_action list) cpp" where
  "details_stop sv = cpp_bind (pool_stop (rs_pool sv)) (\<lambda>p. Inr (sv\<lparr>rs_pool := p\<rparr>, [Acceptor_cancel]))"

definition destroy_details_Server :: "rpc_server \<Rightarrow> (rpc_server \<times> accept_action list) cpp" where
  "destroy_details_Server sv = details_stop sv"

text \<open>The public server sets \<open>connect_op_\<close> when it is made and starts on the endpoint of a text and a port.\<close>

definition Server :: "nat \<Rightarrow> rpc_server cpp" where
  "Server threadCount = cpp_bind (details_Server threadCount) (\<lambda>sv. Inr (setConnectOp sv))"

definition server_start ::
  "(string \<Rightarrow> bytes option) \<Rightarrow> (string \<Rightarrow> bytes option) \<Rightarrow> endian \<Rightarrow> (nat \<Rightarrow> nat) \<Rightarrow> string \<Rightarrow> u16 \<Rightarrow> rpc_server \<Rightarrow>
   (rpc_server \<times> accept_action list) cpp" where
  "server_start pton4 pton6 e addr ip port sv =
     cpp_bind (Endpoint_ip pton4 pton6 e ip port) (\<lambda>ep. details_start addr ep sv)"

definition server_stop :: "rpc_server \<Rightarrow> (rpc_server \<times> accept_action list) cpp" where
  "server_stop sv = details_stop sv"

text \<open>The destructor stops the server and deletes the services, which it owns; then the destructor of the member stops it again.\<close>

definition destroy_Server :: "'q service_umap \<Rightarrow> rpc_server \<Rightarrow> (rpc_server \<times> accept_action list \<times> 'q service list) cpp" where
  "destroy_Server services sv =
     cpp_bind (server_stop sv) (\<lambda>(sv1, acts).
     cpp_bind (destroy_details_Server sv1) (\<lambda>(sv2, acts2). Inr (sv2, acts @ acts2, map (si_service \<circ> snd) services)))"

lemma start_accept_turn:
  assumes "pool_turn n addr i (rs_pool sv)"
  shows "\<exists>sv1. start_accept sv = Inr (sv1, [Acceptor_async_accept (addr (i mod n))]) \<and> pool_turn n addr (Suc i) (rs_pool sv1)"
  using nextContext_turn [OF assms] by (auto simp: start_accept_def)

text \<open>The RPC server provides the contract.\<close>

interpretation rpc: pool_acceptor accept_completed "\<lambda>n addr i sv. pool_turn n addr i (rs_pool sv)"
proof unfold_locales
  fix n addr i and sv :: rpc_server and ioc :: nat
  assume "pool_turn n addr i (rs_pool sv)"
  then obtain sv1 where sv1: "start_accept sv = Inr (sv1, [Acceptor_async_accept (addr (i mod n))])" "pool_turn n addr (Suc i) (rs_pool sv1)"
    using start_accept_turn by blast
  let ?acts = "if rs_connect_op sv then [Run_connect_op ioc] else []"
  have "accept_completed 0 ioc sv = Inr (sv1, ?acts @ [Post_start_recv ioc, Acceptor_async_accept (addr (i mod n))])"
    using sv1(1) by (simp add: accept_completed_def)
  then show "\<exists>sv1 acts. accept_completed 0 ioc sv = Inr (sv1, acts @ [Post_start_recv ioc, Acceptor_async_accept (addr (i mod n))]) \<and>
      accepts_pending acts = [] \<and> connections acts = [] \<and> pool_turn n addr (Suc i) (rs_pool sv1)"
    using sv1(2) by (intro exI [of _ sv1] exI [of _ ?acts]) simp
qed (simp add: accept_completed_def)

text \<open>C34: A started server spreads its connections over the pool's contexts in turn, one accept at a time, up to the first
  accept that fails; that one error ends accepting for good, although the listening socket stays open.\<close>

theorem server_accepts_until_error:
  assumes "0 < n" and "n < size_mod"
    and "Server n = Inr sv" and "details_start addr ep sv = Inr (sv1, acts1)"
  shows "\<exists>sv2 pending acts2. accept_run accept_completed ecs (accepts_pending acts1) sv1 = Inr (sv2, pending, acts2) \<and>
    connections acts2 = map (\<lambda>j. addr (j mod n)) [0 ..< length (takeWhile (\<lambda>ec. ec = 0) ecs)] \<and>
    (pending = [] \<longleftrightarrow> \<not> list_all (\<lambda>ec. ec = 0) ecs)"
proof -
  let ?sv = "sv\<lparr>rs_pool := pool_start addr (rs_pool sv)\<rparr>"
  have "pool_turn n addr 0 (rs_pool ?sv)"
    using assms(1-3) started_pool_turn [of n "rs_pool sv" addr]
    by (auto simp: Server_def details_Server_def setConnectOp_def cpp_bind_eq_Inr_iff)
  from start_accept_turn [OF this]
  have "pool_turn n addr 1 (rs_pool sv1)" "accepts_pending acts1 = [addr (0 mod n)]"
    using assms(4) by (auto simp: details_start_def)
  then show ?thesis
    using rpc.connections_in_turn [of n addr 0 sv1 ecs] by simp
qed

theorem server_accepts_until_error_witness:
  "\<exists>sv sv1 acts1 sv2 acts2. Server 2 = Inr sv \<and> details_start ((+) 100) Endpoint sv = Inr (sv1, acts1) \<and>
     accept_run accept_completed [0, 0, 24, 0] (accepts_pending acts1) sv1 = Inr (sv2, [], acts2) \<and> connections acts2 = [100, 101]"
proof -
  define sv where "sv = \<lparr>rs_pool = \<lparr>is_start = False, pool_next = 0, threads = [Thread, Thread]\<rparr>, rs_connect_op = True\<rparr>"
  have sv: "Server 2 = Inr sv"
    by (simp add: Server_def details_Server_def ThreadPool_def setConnectOp_def sv_def numeral_2_eq_2)
  obtain sv1 acts1 where st: "details_start ((+) 100) Endpoint sv = Inr (sv1, acts1)"
    by (simp add: sv_def details_start_def start_accept_def nextContext_def pool_start_def next_load_def next_exchange_def
        next_result_def thread_start_def thread_context_def Let_def)
  show ?thesis
    using server_accepts_until_error [OF _ _ sv st, of "[0, 0, 24, 0]"] sv st by (auto simp: size_mod_def upt_rec)
qed

end
