(* ===== verification/Errinfo.thy ===== *)
theory Errinfo
  imports Prelude
begin

section \<open>Error codes (asio/src/errinfo.h, errinfo.cc)\<close>

text \<open>
  An error code is an \<^verbatim>\<open>int\<close>: 0, the \<^verbatim>\<open>errno\<close> of a system call, or one of the library's own negative codes.
  \<open>strerror\<close> is a parameter.
\<close>

definition err_SUCCESS :: int where "err_SUCCESS = 0"
definition err_EFDHUP :: int where "err_EFDHUP = -1001"
definition err_EOPCANCELED :: int where "err_EOPCANCELED = -1002"
definition err_EOPEXISTS :: int where "err_EOPEXISTS = -1003"

definition LCY_ASIO_ERRINFO_MAP :: "(int \<times> string) list" where
  "LCY_ASIO_ERRINFO_MAP =
     [(err_SUCCESS, ''Success''), (err_EFDHUP, ''Descriptor hang up''), (err_EOPCANCELED, ''Operation canceled''),
      (err_EOPEXISTS, ''Operation already exists'')]"

definition explain :: "int \<Rightarrow> string" where
  "explain errcode = (case map_of LCY_ASIO_ERRINFO_MAP errcode of Some info \<Rightarrow> info | None \<Rightarrow> ''Unknown error'')"

definition errinfo :: "(int \<Rightarrow> string) \<Rightarrow> int \<Rightarrow> string" where
  "errinfo strerror errcode = (if errcode \<le> 0 then explain errcode else strerror errcode)"

lemmas err_codes = err_SUCCESS_def err_EFDHUP_def err_EOPCANCELED_def err_EOPEXISTS_def

end
