(* ===== verification/Service.thy ===== *)
theory Service
  imports Errinfo
begin

section \<open>Services of a context (asio/src/details/service.hpp)\<close>

text \<open>
  A service that waits for a descriptor of its own makes it, registers its operation with the reactor when it is
  constructed, and takes it away when it is destroyed. What it asks of the reactor and of the kernel is a list of
  requests; the descriptor that the system call gave, -1 when it failed, is an input.
\<close>

datatype service_request =
    Register_read_operation int   \<comment> \<open>the service's own operation, for this descriptor\<close>
  | Remove_all_operations int
  | Close_descriptor int

definition create_descriptor :: "int \<Rightarrow> int cpp" where
  "create_descriptor fd = (if fd = - 1 then Inl Asio_exception else Inr fd)"

definition destroy_descriptor :: "int \<Rightarrow> service_request list" where
  "destroy_descriptor fd = (if fd \<noteq> - 1 then [Close_descriptor fd] else [])"

text \<open>The constructor of a service with the initial state \<open>s\<close>, and its destructor.\<close>

definition construct_service :: "int \<Rightarrow> 's \<Rightarrow> (int \<times> 's \<times> service_request list) cpp" where
  "construct_service fd s = cpp_bind (create_descriptor fd) (\<lambda>fd. Inr (fd, s, [Register_read_operation fd]))"

definition destroy_service :: "int \<Rightarrow> service_request list" where
  "destroy_service fd = Remove_all_operations fd # destroy_descriptor fd"

end
