(* ===== verification/Timer_Service.thy ===== *)
theory Timer_Service
  imports Service Unordered_Map "HOL-Library.Signed_Division"
begin

section \<open>Timers (asio/src/details/timer_service.h, timer_service.cc; steady_timer.h, steady_timer.cc)\<close>

text \<open>
  The service keeps its timers in a multiset ordered by deadline and in a map from ids to their place in it, and sets
  one \<^verbatim>\<open>timerfd\<close> to the earliest deadline. The multiset is a list, in which an insertion goes behind the timers with the
  same deadline, as \<^verbatim>\<open>std::multiset\<close> does; a place in it is the timer found there. Callbacks are values of a type
  parameter; an operation returns the callbacks it invokes with their codes. Times are milliseconds in \<^verbatim>\<open>int64_t\<close>, whose
  overflow is undefined; readings of the clock are parameters.
  The lemmas show the consistency of list, map and \<^verbatim>\<open>timerfd\<close>, and that every accepted timer is waiting, due, or
  has had its callback exactly once.
\<close>

subsection \<open>Clock and timerfd\<close>

definition int64 :: "int \<Rightarrow> int cpp" where
  "int64 i = (if - (2 ^ 63) \<le> i \<and> i < 2 ^ 63 then Inr i else Inl Undefined_behaviour)"

definition change_to_ms :: "int \<times> int \<Rightarrow> int cpp" where
  "change_to_ms timeout =
     cpp_bind (int64 (fst timeout * 1000)) (\<lambda>ms. int64 (ms + snd timeout sdiv 1000000))"

text \<open>
  A \<open>timerfd\<close> in the kernel: the value last given to \<^verbatim>\<open>timerfd_settime\<close>, seconds and nanoseconds, and the clock at that call, in
  milliseconds. A value is relative to that clock; \<open>(0, 0)\<close> disarms. \<open>timerfd_expiry\<close> is when it expires, in nanoseconds.
\<close>

type_synonym timerfd = "(int \<times> int) \<times> int"

definition timerfd_expiry :: "timerfd \<Rightarrow> int option" where
  "timerfd_expiry fd = (case fd of ((sec, nsec), set_at) \<Rightarrow>
     if sec = 0 \<and> nsec = 0 then None else Some (set_at * 1000000 + sec * 1000000000 + nsec))"

definition update_timerfd :: "int \<Rightarrow> int \<Rightarrow> timerfd" where
  "update_timerfd now absolute_time =
     (if absolute_time \<noteq> 0 then
        (if now \<ge> absolute_time then ((0, 1), now)
         else (let distance = absolute_time - now in ((distance sdiv 1000, (distance smod 1000) * 1000000), now)))
      else ((0, 0), now))"

subsection \<open>The service\<close>

record 'op timer =
  t_id :: int
  t_time :: int
  t_op :: 'op

definition Timer :: "int \<Rightarrow> 'op \<Rightarrow> int \<times> int \<Rightarrow> int \<Rightarrow> 'op timer cpp" where
  "Timer i tm_op timeout now =
     cpp_bind (change_to_ms timeout) (\<lambda>ms.
     cpp_bind (int64 (now + ms)) (\<lambda>t. Inr \<lparr>t_id = i, t_time = t, t_op = tm_op\<rparr>))"

text \<open>A callback that is invoked is recorded with its code.\<close>

definition doTimerOperation :: "'op timer \<Rightarrow> 'op timer \<times> int" where
  [simp]: "doTimerOperation timer = (timer, err_SUCCESS)"

definition cancelTimerOperation :: "'op timer \<Rightarrow> 'op timer \<times> int" where
  [simp]: "cancelTimerOperation timer = (timer, err_EOPCANCELED)"

record 'op timer_service =
  ts_timerfd :: timerfd
  ts_id_allocator :: int
  ts_timer_mset :: "'op timer list"
  ts_id_timer_umap :: "(int, 'op timer) umap"

definition TimerService :: "'op timer_service" where
  "TimerService = \<lparr>ts_timerfd = ((0, 0), 0), ts_id_allocator = 0, ts_timer_mset = [], ts_id_timer_umap = []\<rparr>"

text \<open>The constructor, given the result of \<^verbatim>\<open>timerfd_create\<close>. The destructor deletes the waiting timers without running them.\<close>

definition construct_TimerService :: "int \<Rightarrow> (int \<times> 'op timer_service \<times> service_request list) cpp" where
  "construct_TimerService fd = construct_service fd TimerService"

definition destroy_TimerService :: "int \<Rightarrow> 'op timer_service \<Rightarrow> service_request list \<times> ('op timer \<times> int) list" where
  "destroy_TimerService fd s = (destroy_service fd, [])"

fun timer_insert :: "'op timer \<Rightarrow> 'op timer list \<Rightarrow> 'op timer list" where
  "timer_insert t [] = [t]"
| "timer_insert t (x # xs) = (if t_time t < t_time x then t # x # xs else x # timer_insert t xs)"

text \<open>\<open>now\<close> is read when the timer is made, \<open>now2\<close> when the \<^verbatim>\<open>timerfd\<close> is set. The caller's id is returned updated.\<close>

definition registerTimer ::
  "int \<Rightarrow> 'op \<Rightarrow> int \<times> int \<Rightarrow> int \<Rightarrow> int \<Rightarrow> 'op timer_service \<Rightarrow> (int \<times> 'op timer_service \<times> ('op \<times> int) list) cpp" where
  "registerTimer timer_id tm_op timeout now now2 s =
     (case umap_find timer_id (ts_id_timer_umap s) of
        Some _ \<Rightarrow> Inr (timer_id, s, [(tm_op, err_EOPEXISTS)])
      | None \<Rightarrow>
          let i = ts_id_allocator s
          in cpp_bind (int64 (i + 1)) (\<lambda>next_id.
             cpp_bind (Timer i tm_op timeout now) (\<lambda>timer.
               let mset' = timer_insert timer (ts_timer_mset s)
               in Inr (i,
                    s\<lparr>ts_id_allocator := (if next_id < 0 then 0 else next_id),
                      ts_timer_mset := mset',
                      ts_id_timer_umap := umap_assign i timer (ts_id_timer_umap s),
                      ts_timerfd := (if t_id (hd mset') = i then update_timerfd now2 (t_time timer) else ts_timerfd s)\<rparr>,
                    []))))"

definition cancelTimer :: "int \<Rightarrow> int \<Rightarrow> 'op timer_service \<Rightarrow> 'op timer_service \<times> ('op timer \<times> int) list" where
  "cancelTimer timer_id now s =
     (case umap_find timer_id (ts_id_timer_umap s) of
        None \<Rightarrow> (s, [])
      | Some timer \<Rightarrow>
          let before = takeWhile (\<lambda>t. t_id t \<noteq> timer_id) (ts_timer_mset s);
              after = tl (dropWhile (\<lambda>t. t_id t \<noteq> timer_id) (ts_timer_mset s));
              need_update = (before = [])
          in (s\<lparr>ts_timer_mset := before @ after,
               ts_id_timer_umap := umap_erase timer_id (ts_id_timer_umap s),
               ts_timerfd :=
                 (if need_update
                  then (case after of [] \<Rightarrow> update_timerfd now 0 | t # _ \<Rightarrow> update_timerfd now (t_time t))
                  else ts_timerfd s)\<rparr>,
              [cancelTimerOperation timer]))"

text \<open>The first part of \<open>expireTimerExecute\<close>; the timers it returns are then invoked one after the other.\<close>

definition expireTimerExecute :: "int \<Rightarrow> int \<Rightarrow> int \<Rightarrow> 'op timer_service \<Rightarrow> 'op timer_service \<times> 'op timer list" where
  "expireTimerExecute ec now now2 s =
     (if ec = 0 then
        (let expire_timers = takeWhile (\<lambda>t. \<not> t_time t > now) (ts_timer_mset s);
             rest = dropWhile (\<lambda>t. \<not> t_time t > now) (ts_timer_mset s)
         in (s\<lparr>ts_timer_mset := rest,
              ts_id_timer_umap := fold (\<lambda>t. umap_erase (t_id t)) expire_timers (ts_id_timer_umap s),
              ts_timerfd := (case rest of [] \<Rightarrow> update_timerfd now2 0 | t # _ \<Rightarrow> update_timerfd now2 (t_time t))\<rparr>,
             expire_timers))
      else (s, []))"

subsection \<open>Steady timers\<close>

text \<open>What a steady timer passes to its callback: the code and the time since \<open>async_wait\<close>.\<close>

definition timer_op_wrap :: "int \<Rightarrow> int \<Rightarrow> int \<Rightarrow> int \<times> int" where
  "timer_op_wrap start ec now = (if ec = 0 then (ec, now - start) else (ec, 0))"

record steady_timer =
  st_timeout :: int
  st_timer_id :: int

definition SteadyTimer :: "int \<Rightarrow> steady_timer" where
  "SteadyTimer timeout = \<lparr>st_timeout = timeout, st_timer_id = -1\<rparr>"

definition steady_cancel ::
  "int \<Rightarrow> steady_timer \<Rightarrow> 'op timer_service \<Rightarrow> steady_timer \<times> 'op timer_service \<times> ('op timer \<times> int) list" where
  "steady_cancel now st s =
     (case cancelTimer (st_timer_id st) now s of (s', calls) \<Rightarrow> (st\<lparr>st_timer_id := -1\<rparr>, s', calls))"

definition destroy_SteadyTimer ::
  "int \<Rightarrow> steady_timer \<Rightarrow> 'op timer_service \<Rightarrow> 'op timer_service \<times> ('op timer \<times> int) list" where
  "destroy_SteadyTimer now st s = snd (steady_cancel now st s)"

definition async_wait ::
  "(int \<Rightarrow> 'op) \<Rightarrow> int \<Rightarrow> int \<Rightarrow> steady_timer \<Rightarrow> 'op timer_service \<Rightarrow>
   (steady_timer \<times> 'op timer_service \<times> ('op \<times> int) list) cpp" where
  "async_wait wrap now now2 st s =
     cpp_bind
       (registerTimer (st_timer_id st) (wrap now)
          (st_timeout st sdiv 1000, (st_timeout st smod 1000) * 1000000) now now2 s)
       (\<lambda>(timer_id, s', calls). Inr (st\<lparr>st_timer_id := timer_id\<rparr>, s', calls))"

subsection \<open>Invariant\<close>

definition timers_sorted :: "'op timer list \<Rightarrow> bool" where
  "timers_sorted ts \<longleftrightarrow> sorted (map t_time ts)"

definition timer_inv :: "'op timer_service \<Rightarrow> bool" where
  "timer_inv s \<longleftrightarrow>
     timers_sorted (ts_timer_mset s) \<and> distinct (map t_id (ts_timer_mset s)) \<and>
     (\<forall>i. umap_find i (ts_id_timer_umap s) = map_of (map (\<lambda>t. (t_id t, t)) (ts_timer_mset s)) i) \<and>
     (\<forall>t \<in> set (ts_timer_mset s). 0 \<le> t_id t \<and> t_id t < ts_id_allocator s) \<and>
     0 \<le> ts_id_allocator s"

lemma set_timer_insert: "set (timer_insert t xs) = insert t (set xs)"
  by (induction t xs rule: timer_insert.induct) auto

lemma mset_ids_timer_insert: "distinct (map t_id (timer_insert t xs)) \<longleftrightarrow> distinct (map t_id (t # xs))"
  by (induction t xs rule: timer_insert.induct) (auto simp: set_timer_insert)

lemma timers_sorted_insert: "timers_sorted xs \<Longrightarrow> timers_sorted (timer_insert t xs)"
proof (induction t xs rule: timer_insert.induct)
  case (2 t x xs)
  then show ?case by (auto simp: timers_sorted_def set_timer_insert)
qed (simp add: timers_sorted_def)

lemma map_of_timer_insert:
  "t_id t \<notin> t_id ` set xs \<Longrightarrow>
   map_of (map (\<lambda>t. (t_id t, t)) (timer_insert t xs)) i = (if i = t_id t then Some t else map_of (map (\<lambda>t. (t_id t, t)) xs) i)"
  by (induction t xs rule: timer_insert.induct) auto

lemma map_of_ids: "map_of (map (\<lambda>t. (t_id t, t)) ts) i = Some t \<Longrightarrow> t \<in> set ts \<and> t_id t = i"
  by (induction ts) (auto split: if_splits)

lemma map_of_ids_None: "map_of (map (\<lambda>t. (t_id t, t)) ts) i = None \<longleftrightarrow> i \<notin> t_id ` set ts"
  by (induction ts) auto

lemma TimerService_inv: "timer_inv TimerService"
  by (simp add: timer_inv_def TimerService_def timers_sorted_def umap_find_def)

lemma registerTimer_cases:
  assumes "registerTimer timer_id tm_op timeout now now2 s = Inr (i, s', calls)"
  obtains (exists) t where "umap_find timer_id (ts_id_timer_umap s) = Some t" and "i = timer_id" and "s' = s"
      and "calls = [(tm_op, err_EOPEXISTS)]"
  | (added) timer where "umap_find timer_id (ts_id_timer_umap s) = None" and "i = ts_id_allocator s" and "calls = []"
      and "Timer i tm_op timeout now = Inr timer"
      and "s' = s\<lparr>ts_id_allocator := (if ts_id_allocator s + 1 < 0 then 0 else ts_id_allocator s + 1),
             ts_timer_mset := timer_insert timer (ts_timer_mset s),
             ts_id_timer_umap := umap_assign i timer (ts_id_timer_umap s),
             ts_timerfd := (if t_id (hd (timer_insert timer (ts_timer_mset s))) = i
               then update_timerfd now2 (t_time timer) else ts_timerfd s)\<rparr>"
  using assms
  by (cases "umap_find timer_id (ts_id_timer_umap s)")
     (auto simp: registerTimer_def Let_def cpp_bind_eq_Inr_iff int64_def split: if_splits)

lemma Timer_id: "Timer i tm_op timeout now = Inr timer \<Longrightarrow> t_id timer = i \<and> t_op timer = tm_op"
  by (auto simp: Timer_def cpp_bind_eq_Inr_iff)

lemma registerTimer_inv:
  assumes "registerTimer timer_id tm_op timeout now now2 s = Inr (i, s', calls)" and "timer_inv s"
  shows "timer_inv s'"
  using assms(1)
proof (cases rule: registerTimer_cases)
  case (exists t)
  then show ?thesis using assms(2) by simp
next
  case (added timer)
  have new: "t_id timer = ts_id_allocator s" "ts_id_allocator s \<notin> t_id ` set (ts_timer_mset s)"
    using Timer_id [OF added(4)] added(2) assms(2) by (auto simp: timer_inv_def)
  then have "distinct (map t_id (timer_insert timer (ts_timer_mset s)))"
    using assms(2) by (auto simp: timer_inv_def mset_ids_timer_insert)
  moreover have "\<forall>j. umap_find j (umap_assign i timer (ts_id_timer_umap s)) =
      map_of (map (\<lambda>t. (t_id t, t)) (timer_insert timer (ts_timer_mset s))) j"
    using assms(2) new added(2) map_of_timer_insert [of timer "ts_timer_mset s"]
    by (auto simp: timer_inv_def umap_find_assign)
  ultimately show ?thesis
    using assms(2) new timers_sorted_insert [of "ts_timer_mset s" timer]
    by (auto simp: timer_inv_def added(5) set_timer_insert)
qed

text \<open>Removing the timer with an id from the list.\<close>

lemma remove_by_id:
  assumes "distinct (map t_id ts)" and "i \<in> t_id ` set ts"
  shows "takeWhile (\<lambda>t. t_id t \<noteq> i) ts @ tl (dropWhile (\<lambda>t. t_id t \<noteq> i) ts) = filter (\<lambda>t. t_id t \<noteq> i) ts"
  using assms
proof (induction ts)
  case (Cons x ts)
  show ?case
  proof (cases "t_id x = i")
    case True
    then have "filter (\<lambda>t. t_id t \<noteq> i) ts = ts"
      using Cons.prems(1) by (intro filter_True) (auto simp: image_iff)
    then show ?thesis using True by simp
  next
    case False
    then show ?thesis using Cons by auto
  qed
qed simp

lemma cancelTimer_cases:
  assumes "timer_inv s"
  obtains (unknown) "i \<notin> t_id ` set (ts_timer_mset s)" and "cancelTimer i now s = (s, [])"
  | (removed) timer s' where "timer \<in> set (ts_timer_mset s)" and "t_id timer = i"
      and "cancelTimer i now s = (s', [(timer, err_EOPCANCELED)])"
      and "ts_timer_mset s' = filter (\<lambda>t. t_id t \<noteq> i) (ts_timer_mset s)"
      and "ts_id_timer_umap s' = umap_erase i (ts_id_timer_umap s)" and "ts_id_allocator s' = ts_id_allocator s"
      and "ts_timerfd s' = (if t_id (hd (ts_timer_mset s)) = i
             then (case ts_timer_mset s' of [] \<Rightarrow> update_timerfd now 0 | t # _ \<Rightarrow> update_timerfd now (t_time t))
             else ts_timerfd s)"
proof (cases "umap_find i (ts_id_timer_umap s)")
  case None
  then show ?thesis
    using unknown assms map_of_ids_None [of "ts_timer_mset s" i] by (simp add: cancelTimer_def timer_inv_def)
next
  case (Some timer)
  then have timer: "timer \<in> set (ts_timer_mset s)" "t_id timer = i"
    using assms map_of_ids by (fastforce simp: timer_inv_def)+
  define before where "before = takeWhile (\<lambda>t. t_id t \<noteq> i) (ts_timer_mset s)"
  define after where "after = tl (dropWhile (\<lambda>t. t_id t \<noteq> i) (ts_timer_mset s))"
  have rest: "before @ after = filter (\<lambda>t. t_id t \<noteq> i) (ts_timer_mset s)"
    using remove_by_id [of "ts_timer_mset s" i] assms timer by (auto simp: before_def after_def timer_inv_def)
  have "ts_timer_mset s \<noteq> []" using timer by auto
  then have first: "before = [] \<longleftrightarrow> t_id (hd (ts_timer_mset s)) = i"
    by (cases "ts_timer_mset s") (auto simp: before_def)
  define s' where "s' = fst (cancelTimer i now s)"
  have s': "s' = s\<lparr>ts_timer_mset := before @ after, ts_id_timer_umap := umap_erase i (ts_id_timer_umap s),
      ts_timerfd := (if before = []
        then (case after of [] \<Rightarrow> update_timerfd now 0 | t # _ \<Rightarrow> update_timerfd now (t_time t)) else ts_timerfd s)\<rparr>"
    using Some by (simp add: s'_def cancelTimer_def Let_def flip: before_def after_def)
  show ?thesis
  proof (rule removed [OF timer, of s'])
    show "cancelTimer i now s = (s', [(timer, err_EOPCANCELED)])"
      using Some by (simp add: s' cancelTimer_def Let_def flip: before_def after_def)
    show "ts_timer_mset s' = filter (\<lambda>t. t_id t \<noteq> i) (ts_timer_mset s)"
      "ts_id_timer_umap s' = umap_erase i (ts_id_timer_umap s)" "ts_id_allocator s' = ts_id_allocator s"
      by (simp_all add: s' rest)
    show "ts_timerfd s' = (if t_id (hd (ts_timer_mset s)) = i
             then (case ts_timer_mset s' of [] \<Rightarrow> update_timerfd now 0 | t # _ \<Rightarrow> update_timerfd now (t_time t))
             else ts_timerfd s)"
      unfolding first [symmetric] by (simp add: s')
  qed
qed

lemma map_of_filter_ids:
  "map_of (map (\<lambda>t. (t_id t, t)) (filter (\<lambda>t. P (t_id t)) ts)) i = (if P i then map_of (map (\<lambda>t. (t_id t, t)) ts) i else None)"
  by (induction ts) auto

lemma cancelTimer_inv:
  assumes "timer_inv s"
  shows "timer_inv (fst (cancelTimer i now s))"
  using assms
proof (cases rule: cancelTimer_cases [where i = i and now = now])
  case (removed timer s')
  have "timers_sorted (filter (\<lambda>t. t_id t \<noteq> i) (ts_timer_mset s))"
    using assms sorted_filter [of t_time "ts_timer_mset s" "\<lambda>t. t_id t \<noteq> i"] by (simp add: timer_inv_def timers_sorted_def)
  then show ?thesis
    using assms removed map_of_filter_ids [of "\<lambda>j. j \<noteq> i" "ts_timer_mset s"]
    by (simp add: timer_inv_def umap_find_erase distinct_map_filter)
qed (use assms in simp)

lemma expired_filter:
  "timers_sorted ts \<Longrightarrow>
   takeWhile (\<lambda>t. \<not> t_time t > now) ts = filter (\<lambda>t. t_time t \<le> now) ts \<and>
   dropWhile (\<lambda>t. \<not> t_time t > now) ts = filter (\<lambda>t. \<not> t_time t \<le> now) ts"
proof (induction ts)
  case (Cons t ts)
  show ?case
  proof (cases "t_time t \<le> now")
    case True
    then show ?thesis using Cons by (simp add: timers_sorted_def)
  next
    case False
    then have "\<forall>x \<in> set ts. \<not> t_time x \<le> now"
      using Cons.prems by (auto simp: timers_sorted_def)
    then show ?thesis using False by (simp add: filter_id_conv)
  qed
qed simp

lemma umap_find_fold_erase:
  "umap_find j (fold (\<lambda>t. umap_erase (t_id t)) ds m) = (if j \<in> t_id ` set ds then None else umap_find j m)"
  by (induction ds arbitrary: m) (auto simp: umap_find_erase)

lemma expire_facts:
  assumes "timer_inv s" and "expireTimerExecute 0 now now2 s = (s', ds)"
  shows "ds = filter (\<lambda>t. t_time t \<le> now) (ts_timer_mset s)"
    and "ts_timer_mset s' = filter (\<lambda>t. \<not> t_time t \<le> now) (ts_timer_mset s)"
    and "ts_id_allocator s' = ts_id_allocator s" and "timer_inv s'"
    and "ts_timerfd s' = (case ts_timer_mset s' of [] \<Rightarrow> update_timerfd now2 0 | t # _ \<Rightarrow> update_timerfd now2 (t_time t))"
proof -
  let ?ts = "ts_timer_mset s"
  note f = expired_filter [of ?ts now]
  have srt: "timers_sorted ?ts" and dist: "distinct (map t_id ?ts)" using assms(1) by (simp_all add: timer_inv_def)
  show 1: "ds = filter (\<lambda>t. t_time t \<le> now) ?ts" and 2: "ts_timer_mset s' = filter (\<lambda>t. \<not> t_time t \<le> now) ?ts"
    and 3: "ts_id_allocator s' = ts_id_allocator s"
    and "ts_timerfd s' = (case ts_timer_mset s' of [] \<Rightarrow> update_timerfd now2 0 | t # _ \<Rightarrow> update_timerfd now2 (t_time t))"
    using assms(2) f srt by (auto simp: expireTimerExecute_def Let_def)
  have umap: "ts_id_timer_umap s' = fold (\<lambda>t. umap_erase (t_id t)) ds (ts_id_timer_umap s)"
    using assms(2) by (auto simp: expireTimerExecute_def Let_def)
  have "umap_find j (ts_id_timer_umap s') = map_of (map (\<lambda>t. (t_id t, t)) (ts_timer_mset s')) j" for j
  proof -
    have "map_of (map (\<lambda>t. (t_id t, t)) (filter (\<lambda>t. \<not> t_time t \<le> now) ts)) j =
        (if j \<in> t_id ` set (filter (\<lambda>t. t_time t \<le> now) ts) then None else map_of (map (\<lambda>t. (t_id t, t)) ts) j)"
      if "distinct (map t_id ts)" for ts :: "'a timer list"
      using that
    proof (induction ts)
      case (Cons x ts)
      have "map_of (map (\<lambda>t. (t_id t, t)) (filter (\<lambda>t. \<not> t_time t \<le> now) ts)) (t_id x) = None"
        using Cons.prems by (auto simp: map_of_ids_None)
      then show ?case using Cons by (auto simp: image_iff)
    qed simp
    then show ?thesis
      using assms(1) dist by (simp add: umap umap_find_fold_erase 1 2 timer_inv_def)
  qed
  moreover have "timers_sorted (ts_timer_mset s')"
    using srt sorted_filter [of t_time ?ts "\<lambda>t. \<not> t_time t \<le> now"] unfolding 2 timers_sorted_def by blast
  ultimately show "timer_inv s'"
    using assms(1) 2 3 dist by (auto simp: timer_inv_def distinct_map_filter)
qed

subsection \<open>Callbacks\<close>

text \<open>
  The service with the expired timers whose callbacks are still to be run by the loop of \<open>expireTimerExecute\<close>, and the
  ids and codes of the callbacks that accepted timers have had. Registering and cancelling may happen between any two
  callbacks, since callbacks do it; a new batch starts when the loop is over.
\<close>

record 'op timer_run =
  run_service :: "'op timer_service"
  run_due :: "'op timer list"
  run_finished :: "(int \<times> int) list"

definition timer_start :: "'op timer_run" where
  "timer_start = \<lparr>run_service = TimerService, run_due = [], run_finished = []\<rparr>"

inductive timer_step :: "'op timer_run \<Rightarrow> 'op timer_run \<Rightarrow> bool" where
  register: "registerTimer timer_id tm_op timeout now now2 (run_service r) = Inr (i, s, calls) \<Longrightarrow>
    timer_step r (r\<lparr>run_service := s\<rparr>)"
| cancel: "cancelTimer timer_id now (run_service r) = (s, calls) \<Longrightarrow>
    timer_step r (r\<lparr>run_service := s, run_finished := run_finished r @ map (\<lambda>(t, ec). (t_id t, ec)) calls\<rparr>)"
| expire: "run_due r = [] \<Longrightarrow> expireTimerExecute 0 now now2 (run_service r) = (s, ds) \<Longrightarrow>
    timer_step r (r\<lparr>run_service := s, run_due := ds\<rparr>)"
| fire: "run_due r = d # ds \<Longrightarrow>
    timer_step r (r\<lparr>run_due := ds, run_finished := run_finished r @ [map_prod t_id id (doTimerOperation d)]\<rparr>)"

text \<open>The ids of the timers that wait, are due, or have had their callback.\<close>

definition all_ids :: "'op timer_run \<Rightarrow> int list" where
  "all_ids r = map t_id (ts_timer_mset (run_service r)) @ map t_id (run_due r) @ map fst (run_finished r)"

definition run_inv :: "'op timer_run \<Rightarrow> bool" where
  "run_inv r \<longleftrightarrow> timer_inv (run_service r) \<and> distinct (all_ids r) \<and>
     set (all_ids r) = {0..<ts_id_allocator (run_service r)}"

lemma mset_map_id_insert: "mset (map t_id (timer_insert t xs)) = mset (map t_id (t # xs))"
  by (induction t xs rule: timer_insert.induct) auto

lemma distinct_set_by_mset: "mset xs = mset ys \<Longrightarrow> distinct xs = distinct ys \<and> set xs = set ys"
  by (metis mset_eq_imp_distinct_iff mset_eq_setD)

lemma mset_filter_split: "mset (map f (filter P xs)) + mset (map f (filter (\<lambda>x. \<not> P x) xs)) = mset (map f xs)"
  by (induction xs) auto

lemma run_inv_step:
  assumes "timer_step r u" and "run_inv r"
  shows "run_inv u"
  using assms(1)
proof cases
  case (register timer_id tm_op timeout now now2 i s calls)
  have inv: "timer_inv s"
    using registerTimer_inv [OF register(2)] assms(2) by (simp add: run_inv_def)
  show ?thesis
    using register(2)
  proof (cases rule: registerTimer_cases)
    case (exists t)
    then show ?thesis using assms(2) register by simp
  next
    case (added timer)
    let ?n = "ts_id_allocator (run_service r)"
    have n: "0 \<le> ?n" "t_id timer = ?n" "ts_id_allocator s = ?n + 1"
      using assms(2) Timer_id [OF added(4)] added by (auto simp: run_inv_def timer_inv_def)
    have "mset (all_ids u) = mset (?n # all_ids r)"
      using mset_map_id_insert [of timer "ts_timer_mset (run_service r)"] n(2)
      by (simp add: all_ids_def register(1) added(5))
    then have "distinct (all_ids u) \<longleftrightarrow> distinct (?n # all_ids r)" "set (all_ids u) = set (?n # all_ids r)"
      using distinct_set_by_mset by blast+
    moreover have "insert ?n {0..<?n} = {0..<?n + 1}" using n by auto
    ultimately show ?thesis
      using assms(2) inv n by (simp add: run_inv_def register(1))
  qed
next
  case (cancel timer_id now s calls)
  have r: "timer_inv (run_service r)" using assms(2) by (simp add: run_inv_def)
  have inv: "timer_inv s"
    using cancelTimer_inv [OF r, of timer_id now] cancel by simp
  show ?thesis
  proof (use r in \<open>cases rule: cancelTimer_cases [where i = timer_id and now = now]\<close>)
    case unknown
    then show ?thesis using assms(2) cancel by (simp add: run_inv_def all_ids_def)
  next
    case (removed timer s')
    let ?ts = "ts_timer_mset (run_service r)"
    have "filter (\<lambda>t. t_id t = timer_id) ?ts = [timer]"
    proof -
      have "filter (\<lambda>t. t_id t = timer_id) ts = [timer]" if "distinct (map t_id ts)" "timer \<in> set ts" for ts
        using that
      proof (induction ts)
        case (Cons x ts)
        show ?case
        proof (cases "t_id x = timer_id")
          case True
          then have "filter (\<lambda>t. t_id t = timer_id) ts = []" "x = timer"
            using Cons.prems removed(2) by (auto simp: filter_empty_conv image_iff)
          then show ?thesis using True by simp
        next
          case False
          then show ?thesis using Cons removed(2) by auto
        qed
      qed simp
      then show ?thesis using removed(1) r by (simp add: timer_inv_def)
    qed
    then have "mset (map t_id ?ts) = {#timer_id#} + mset (map t_id (filter (\<lambda>t. t_id t \<noteq> timer_id) ?ts))"
      using mset_filter_split [of t_id "\<lambda>t. t_id t = timer_id" ?ts] removed(2) by simp
    moreover have "calls = [(timer, err_EOPCANCELED)]" "s' = s"
      using cancel(2) removed(3) by simp_all
    ultimately have "mset (all_ids u) = mset (all_ids r)"
      using removed(2,4) by (simp add: all_ids_def cancel(1))
    then show ?thesis
      using assms(2) inv cancel removed distinct_set_by_mset [of "all_ids u" "all_ids r"] by (simp add: run_inv_def)
  qed
next
  case (expire now now2 s ds)
  have r: "timer_inv (run_service r)" using assms(2) by (simp add: run_inv_def)
  note e = expire_facts [OF r expire(3)]
  have "mset (all_ids u) = mset (all_ids r)"
    using mset_filter_split [of t_id "\<lambda>t. t_time t \<le> now" "ts_timer_mset (run_service r)"] expire(2)
    by (simp add: all_ids_def expire(1) e(1,2) add.commute)
  then show ?thesis
    using assms(2) e distinct_set_by_mset [of "all_ids u" "all_ids r"] by (simp add: run_inv_def expire(1))
next
  case (fire d ds)
  have "mset (all_ids u) = mset (all_ids r)"
    using fire by (simp add: all_ids_def)
  then show ?thesis
    using assms(2) fire distinct_set_by_mset [of "all_ids u" "all_ids r"] by (simp add: run_inv_def)
qed

lemma run_inv_reachable: "timer_step\<^sup>*\<^sup>* timer_start r \<Longrightarrow> run_inv r"
proof (induction rule: rtranclp_induct)
  case base
  then show ?case by (simp add: run_inv_def timer_start_def all_ids_def TimerService_inv) (simp add: TimerService_def)
next
  case (step r u)
  then show ?case using run_inv_step by blast
qed

subsection \<open>The timerfd\<close>

text \<open>The \<^verbatim>\<open>timerfd\<close> was last set for the earliest deadline, or disarmed when there is no timer.\<close>

definition timerfd_inv :: "'op timer_service \<Rightarrow> bool" where
  "timerfd_inv s \<longleftrightarrow>
     ts_timerfd s = update_timerfd (snd (ts_timerfd s)) (if ts_timer_mset s = [] then 0 else t_time (hd (ts_timer_mset s)))"

lemma update_timerfd_at [simp]: "snd (update_timerfd now t) = now"
  by (simp add: update_timerfd_def Let_def)

lemma update_timerfd_expiry:
  "timerfd_expiry (update_timerfd now t) = (if t = 0 then None else Some (max (t * 1000000) (now * 1000000 + 1)))"
proof (cases "now < t \<and> t \<noteq> 0")
  case True
  define d where "d = t - now"
  have d: "0 < d" using True by (simp add: d_def)
  then have "d sdiv 1000 = d div 1000" "d smod 1000 = d mod 1000"
    by (simp_all add: signed_divide_int_def smod_mod_positive)
  then have u: "update_timerfd now t = ((d div 1000, (d mod 1000) * 1000000), now)"
    using True by (simp add: update_timerfd_def flip: d_def)
  have split: "d div 1000 * 1000 + d mod 1000 = d" by simp
  then have "\<not> (d div 1000 = 0 \<and> d mod 1000 = 0)" using d by auto
  moreover have "d div 1000 * 1000000000 + d mod 1000 * 1000000 = d * 1000000"
    using split by linarith
  then have "now * 1000000 + d div 1000 * 1000000000 + d mod 1000 * 1000000 = t * 1000000"
    by (simp add: d_def algebra_simps)
  ultimately have "now * 1000000 + d div 1000 * 1000000000 + d mod 1000 * 1000000 = t * 1000000" "\<not> (d div 1000 = 0 \<and> d mod 1000 = 0)"
    by blast+
  then show ?thesis
    using True unfolding u timerfd_expiry_def by auto
next
  case False
  then show ?thesis by (auto simp: update_timerfd_def timerfd_expiry_def)
qed

lemma timer_insert_hd: "hd (timer_insert t xs) = t \<or> (xs \<noteq> [] \<and> hd (timer_insert t xs) = hd xs)"
  by (cases xs) auto

lemma timer_insert_not_Nil [simp]: "timer_insert t xs \<noteq> []"
  by (cases xs) auto

lemma timerfd_inv_step:
  assumes "timer_step r u" and "run_inv r" and "timerfd_inv (run_service r)"
  shows "timerfd_inv (run_service u)"
  using assms(1)
proof cases
  case (register timer_id tm_op timeout now now2 i s calls)
  show ?thesis
    using register(2)
  proof (cases rule: registerTimer_cases)
    case (exists t)
    then show ?thesis using assms(3) register by simp
  next
    case (added timer)
    let ?ts = "ts_timer_mset (run_service r)"
    have i: "t_id timer = i" "i \<notin> t_id ` set ?ts"
      using Timer_id [OF added(4)] added(2) assms(2) by (auto simp: run_inv_def timer_inv_def)
    show ?thesis
    proof (cases "hd (timer_insert timer ?ts) = timer")
      case True
      then show ?thesis using i by (simp add: timerfd_inv_def register(1) added(5))
    next
      case False
      then have hd: "?ts \<noteq> []" "hd (timer_insert timer ?ts) = hd ?ts"
        using timer_insert_hd [of timer ?ts] by auto
      then have "t_id (hd ?ts) \<noteq> i" using i by (metis hd_in_set image_eqI)
      then show ?thesis using assms(3) hd by (simp add: timerfd_inv_def register(1) added(5))
    qed
  qed
next
  case (cancel timer_id now s calls)
  have r: "timer_inv (run_service r)" using assms(2) by (simp add: run_inv_def)
  show ?thesis
  proof (use r in \<open>cases rule: cancelTimer_cases [where i = timer_id and now = now]\<close>)
    case unknown
    then show ?thesis using assms(3) cancel by simp
  next
    case (removed timer s')
    let ?ts = "ts_timer_mset (run_service r)"
    have s: "s' = s" using cancel(2) removed(3) by simp
    obtain x xs where ts: "?ts = x # xs" using removed(1) by (cases ?ts) auto
    show ?thesis
    proof (cases "t_id x = timer_id")
      case True
      then show ?thesis
        using removed(7) ts by (simp add: timerfd_inv_def cancel(1) s split: list.split)
    next
      case False
      then have "ts_timer_mset s = x # filter (\<lambda>t. t_id t \<noteq> timer_id) xs" "ts_timerfd s = ts_timerfd (run_service r)"
        using removed(4,7) ts by (simp_all add: s)
      then show ?thesis
        using assms(3) ts by (simp add: timerfd_inv_def cancel(1))
    qed
  qed
next
  case (expire now now2 s ds)
  have r: "timer_inv (run_service r)" using assms(2) by (simp add: run_inv_def)
  show ?thesis
    using expire_facts(5) [OF r expire(3)]
    by (simp add: timerfd_inv_def expire(1) split: list.split)
next
  case (fire d ds)
  then show ?thesis using assms(3) by simp
qed

lemma timerfd_inv_reachable: "timer_step\<^sup>*\<^sup>* timer_start r \<Longrightarrow> timerfd_inv (run_service r)"
proof (induction rule: rtranclp_induct)
  case base
  then show ?case by (simp add: timerfd_inv_def timer_start_def TimerService_def update_timerfd_def)
next
  case (step r u)
  then show ?case using timerfd_inv_step run_inv_reachable by blast
qed

subsection \<open>Properties\<close>

text \<open>A run with one timer of one second, registered at time 5; and the same run when it has expired at time 2000.\<close>

definition example_timer :: "nat timer" where
  "example_timer = \<lparr>t_id = 0, t_time = 1005, t_op = 7\<rparr>"

definition example_registered :: "nat timer_run" where
  "example_registered = timer_start\<lparr>run_service := \<lparr>ts_timerfd = ((1, 0), 5), ts_id_allocator = 1,
     ts_timer_mset = [example_timer], ts_id_timer_umap = [(0, example_timer)]\<rparr>\<rparr>"

definition example_expired :: "nat timer_run" where
  "example_expired = timer_start\<lparr>run_service := \<lparr>ts_timerfd = ((0, 0), 2000), ts_id_allocator = 1,
     ts_timer_mset = [], ts_id_timer_umap = []\<rparr>, run_due := [example_timer]\<rparr>"

lemma example_timer_runs:
  "timer_step\<^sup>*\<^sup>* timer_start example_registered" "timer_step\<^sup>*\<^sup>* timer_start example_expired"
proof -
  have s1: "timer_step timer_start example_registered"
    using timer_step.register [of "-1" "7 :: nat" "(1, 0)" 5 5 timer_start 0 "run_service example_registered" "[]"]
    by (simp add: example_registered_def timer_start_def TimerService_def registerTimer_def umap_find_def Let_def int64_def
        Timer_def change_to_ms_def update_timerfd_def example_timer_def signed_divide_int_def smod_int_alt_def)
  have s2: "timer_step example_registered example_expired"
    using timer_step.expire [of example_registered 2000 2000 "run_service example_expired" "[example_timer]"]
    by (simp add: example_registered_def example_expired_def timer_start_def expireTimerExecute_def Let_def
        example_timer_def umap_erase_def update_timerfd_def)
  show "timer_step\<^sup>*\<^sup>* timer_start example_registered" using s1 by simp
  then show "timer_step\<^sup>*\<^sup>* timer_start example_expired" using s2 by (meson rtranclp.rtrancl_into_rtrancl)
qed

text \<open>C5: In every run of registrations, cancellations (from callbacks or not), expirations and callbacks, each accepted
  timer waits, is due, or has had its callback, and only one of these: no callback is lost and none runs twice.\<close>

theorem timer_callback_exactly_once:
  assumes "timer_step\<^sup>*\<^sup>* timer_start r"
  shows "distinct (map t_id (ts_timer_mset (run_service r)) @ map t_id (run_due r) @ map fst (run_finished r)) \<and>
    t_id ` set (ts_timer_mset (run_service r)) \<union> t_id ` set (run_due r) \<union> fst ` set (run_finished r) =
      {0..<ts_id_allocator (run_service r)}"
  using run_inv_reachable [OF assms] by (auto simp: run_inv_def all_ids_def)

theorem timer_callback_exactly_once_witness:
  "timer_step\<^sup>*\<^sup>* timer_start example_expired \<and>
   t_id ` set (ts_timer_mset (run_service example_expired)) \<union> t_id ` set (run_due example_expired) \<union>
     fst ` set (run_finished example_expired) = {0..<1}"
  using timer_callback_exactly_once [OF example_timer_runs(2)] example_timer_runs(2) by (simp add: example_expired_def)

text \<open>C27: In every reachable state the \<^verbatim>\<open>timerfd\<close> is set for the earliest deadline: it is disarmed when no timer waits, and
  otherwise it expires exactly at that deadline, or one nanosecond after it was last set when the deadline had passed by then; and
  every operation that sets it does so with the clock it has read. (A deadline of exactly 0, which a negative timeout can give, is
  mistaken for no deadline.)\<close>

theorem timerfd_earliest_deadline:
  assumes "timer_step\<^sup>*\<^sup>* timer_start r"
  shows "(case ts_timer_mset (run_service r) of
            [] \<Rightarrow> timerfd_expiry (ts_timerfd (run_service r)) = None
          | t # ts \<Rightarrow> (\<forall>x \<in> set ts. t_time t \<le> t_time x) \<and>
              timerfd_expiry (ts_timerfd (run_service r)) =
                (if t_time t = 0 then None
                 else Some (max (t_time t * 1000000) (snd (ts_timerfd (run_service r)) * 1000000 + 1)))) \<and>
    (\<forall>timer_id tm_op timeout now now2 i s calls. registerTimer timer_id tm_op timeout now now2 (run_service r) = Inr (i, s, calls) \<longrightarrow>
       ts_timerfd s = ts_timerfd (run_service r) \<or> snd (ts_timerfd s) = now2) \<and>
    (\<forall>timer_id now s calls. cancelTimer timer_id now (run_service r) = (s, calls) \<longrightarrow>
       ts_timerfd s = ts_timerfd (run_service r) \<or> snd (ts_timerfd s) = now) \<and>
    (\<forall>now now2 s ds. expireTimerExecute 0 now now2 (run_service r) = (s, ds) \<longrightarrow> snd (ts_timerfd s) = now2)"
proof -
  let ?s = "run_service r"
  have fd: "ts_timerfd ?s = update_timerfd (snd (ts_timerfd ?s)) (if ts_timer_mset ?s = [] then 0 else t_time (hd (ts_timer_mset ?s)))"
    using timerfd_inv_reachable [OF assms] unfolding timerfd_inv_def .
  have inv: "timer_inv ?s" using run_inv_reachable [OF assms] by (simp add: run_inv_def)
  have 1: "case ts_timer_mset ?s of
            [] \<Rightarrow> timerfd_expiry (ts_timerfd ?s) = None
          | t # ts \<Rightarrow> (\<forall>x \<in> set ts. t_time t \<le> t_time x) \<and>
              timerfd_expiry (ts_timerfd ?s) =
                (if t_time t = 0 then None else Some (max (t_time t * 1000000) (snd (ts_timerfd ?s) * 1000000 + 1)))"
    using arg_cong [OF fd, of timerfd_expiry] inv
    by (cases "ts_timer_mset ?s") (auto simp: update_timerfd_expiry timer_inv_def timers_sorted_def)
  have 2: "ts_timerfd s = ts_timerfd ?s \<or> snd (ts_timerfd s) = now2"
    if "registerTimer timer_id tm_op timeout now now2 ?s = Inr (i, s, calls)" for timer_id tm_op timeout now now2 i s calls
    using that by (cases rule: registerTimer_cases) auto
  have 3: "ts_timerfd s = ts_timerfd ?s \<or> snd (ts_timerfd s) = now" if "cancelTimer timer_id now ?s = (s, calls)" for timer_id now s calls
    using that by (auto simp: cancelTimer_def Let_def split: option.splits list.splits)
  have 4: "snd (ts_timerfd s) = now2" if "expireTimerExecute 0 now now2 ?s = (s, ds)" for now now2 s ds
    using expire_facts(5) [OF inv that] by (simp split: list.splits)
  show ?thesis using 1 2 3 4 by blast
qed

theorem timerfd_earliest_deadline_witness:
  "ts_timer_mset (run_service example_registered) = [example_timer] \<and>
   timerfd_expiry (ts_timerfd (run_service example_registered)) = Some 1005000000"
  using timerfd_earliest_deadline [OF example_timer_runs(1)]
  by (simp add: example_registered_def example_timer_def)

text \<open>C35: An expiration takes exactly the timers whose deadline has come, in the order of their deadlines, and leaves the others;
  a timer that is due can no longer be cancelled: \<open>cancelTimer\<close> does nothing, and its callback still runs with \<open>SUCCESS\<close>.\<close>

theorem timer_expire_batch:
  assumes "timer_step\<^sup>*\<^sup>* timer_start r"
  shows "(\<forall>now now2 s ds. expireTimerExecute 0 now now2 (run_service r) = (s, ds) \<longrightarrow>
      ds = filter (\<lambda>t. t_time t \<le> now) (ts_timer_mset (run_service r)) \<and> sorted (map t_time ds) \<and>
      ts_timer_mset s = filter (\<lambda>t. \<not> t_time t \<le> now) (ts_timer_mset (run_service r))) \<and>
    (\<forall>d \<in> set (run_due r). \<forall>now. cancelTimer (t_id d) now (run_service r) = (run_service r, []))"
proof -
  have inv: "run_inv r" by (rule run_inv_reachable [OF assms])
  then have r: "timer_inv (run_service r)" by (simp add: run_inv_def)
  have "cancelTimer (t_id d) now (run_service r) = (run_service r, [])" if "d \<in> set (run_due r)" for d now
  proof (use r in \<open>cases rule: cancelTimer_cases [where i = "t_id d" and now = now]\<close>)
    case (removed timer s')
    then have "t_id d \<in> t_id ` set (ts_timer_mset (run_service r)) \<inter> t_id ` set (run_due r)"
      using that by (metis IntI image_eqI)
    then show ?thesis using inv by (auto simp: run_inv_def all_ids_def)
  qed simp
  moreover have "sorted (map t_time (filter P (ts_timer_mset (run_service r))))" for P
    using r sorted_filter by (auto simp: timer_inv_def timers_sorted_def)
  ultimately show ?thesis
    using expire_facts(1,2) [OF r] by metis
qed

theorem timer_expire_batch_witness:
  "cancelTimer 0 3000 (run_service example_expired) = (run_service example_expired, []) \<and> t_id example_timer = 0"
  using timer_expire_batch [OF example_timer_runs(2)] by (auto simp: example_expired_def example_timer_def)

end
