(* ===== verification/Bridge_Service.thy ===== *)
theory Bridge_Service
  imports Service Unordered_Map
begin

section \<open>Tasks from other threads (asio/src/details/bridge_service.hpp, .ipp, .cc; asio/src/io_context.hpp, .ipp, .cc)\<close>

text \<open>
  The bridge queues tasks for the thread of a context: a task is put into a list under a mutex and an \<^verbatim>\<open>eventfd\<close> is
  written, which makes the reactor run \<open>execute\<close>; it empties the list under the mutex and runs the tasks outside of it.
  The \<^verbatim>\<open>eventfd\<close> is a parameter: \<open>efd_write\<close> and \<open>efd_clear\<close> on its state, \<open>readable\<close> when epoll reports it. Tasks are values of a
  type parameter. Everything under the mutex is one step; the steps of the threads interleave freely.
  A context makes its services on first use; \<open>post\<close> and \<open>batch\<close> run tasks at once on the context's own thread.
\<close>

record ('t, 'c) bridge =
  task_list :: "'t list"
  event_fd :: 'c

definition BridgeService :: "'c \<Rightarrow> ('t, 'c) bridge" where
  "BridgeService efd = \<lparr>task_list = [], event_fd = efd\<rparr>"

text \<open>The constructor, given the result of \<^verbatim>\<open>eventfd\<close> and the state of the new descriptor, and the destructor.\<close>

definition construct_BridgeService :: "int \<Rightarrow> 'c \<Rightarrow> (int \<times> ('t, 'c) bridge \<times> service_request list) cpp" where
  "construct_BridgeService fd efd = construct_service fd (BridgeService efd)"

definition destroy_BridgeService :: "int \<Rightarrow> service_request list" where
  "destroy_BridgeService fd = destroy_service fd"

definition batchNoLock :: "('c \<Rightarrow> 'c) \<Rightarrow> 't list \<Rightarrow> ('t, 'c) bridge \<Rightarrow> ('t, 'c) bridge" where
  "batchNoLock efd_write ts b = b\<lparr>task_list := task_list b @ ts, event_fd := efd_write (event_fd b)\<rparr>"

definition bridge_batch :: "('c \<Rightarrow> 'c) \<Rightarrow> 't list \<Rightarrow> ('t, 'c) bridge \<Rightarrow> ('t, 'c) bridge" where
  "bridge_batch efd_write ts b = batchNoLock efd_write ts b"

definition pushNoLock :: "('c \<Rightarrow> 'c) \<Rightarrow> 't \<Rightarrow> ('t, 'c) bridge \<Rightarrow> ('t, 'c) bridge" where
  "pushNoLock efd_write t b = b\<lparr>task_list := task_list b @ [t], event_fd := efd_write (event_fd b)\<rparr>"

definition bridge_push :: "('c \<Rightarrow> 'c) \<Rightarrow> 't \<Rightarrow> ('t, 'c) bridge \<Rightarrow> ('t, 'c) bridge" where
  "bridge_push efd_write t b = pushNoLock efd_write t b"

text \<open>The part of \<open>execute\<close> under the mutex; the tasks it returns are then run in order.\<close>

definition bridge_execute :: "('c \<Rightarrow> 'c) \<Rightarrow> int \<Rightarrow> ('t, 'c) bridge \<Rightarrow> 't list \<times> ('t, 'c) bridge" where
  "bridge_execute efd_clear ec b =
     (if ec = 0 then (task_list b, b\<lparr>task_list := [], event_fd := efd_clear (event_fd b)\<rparr>) else ([], b))"

subsection \<open>Contexts\<close>

text \<open>A service is an object with a number; the timer and the bridge service refer to their reactor. An entry of the
  table may be a null pointer (\<open>None\<close>).\<close>

datatype service_kind = Reactor_service | Timer_service | Bridge_service | Unknown_service

datatype service_object = Service_object nat "nat option"   \<comment> \<open>its number, and the number of its reactor\<close>

record io_context =
  ic_thread_id :: nat
  ic_services :: "(service_kind, service_object option) umap"
  ic_next_object :: nat

definition IOContext :: "nat \<Rightarrow> io_context" where
  "IOContext this_thread = \<lparr>ic_thread_id = this_thread, ic_services = [], ic_next_object = 0\<rparr>"

fun object_number :: "service_object \<Rightarrow> nat" where
  "object_number (Service_object n _) = n"

text \<open>What a call of \<open>use_service\<close> gets from outside: \<open>made\<close> is the descriptor that \<^verbatim>\<open>epoll_create\<close>, \<^verbatim>\<open>timerfd_create\<close> or
  \<^verbatim>\<open>eventfd\<close> gives (-1 when it fails), and \<open>key_first\<close> whether the compiler evaluates \<^verbatim>\<open>id_service_umap_[id]\<close> before the
  \<^verbatim>\<open>new\<close> that is assigned to it, which C++11 leaves open.\<close>

record service_env =
  made :: "service_kind \<Rightarrow> int"
  key_first :: bool

text \<open>The constructors: what they ask of the reactor, or the exception.\<close>

definition new_service :: "service_env \<Rightarrow> service_kind \<Rightarrow> service_request list cpp" where
  "new_service env kind =
     (if kind = Reactor_service then cpp_bind (create_descriptor (made env kind)) (\<lambda>fd. Inr [])
      else cpp_bind (construct_service (made env kind) ()) (\<lambda>(fd, s, reqs). Inr reqs))"

text \<open>The service of the context or the exception, the context afterwards, and what was asked of the reactor, by the calling thread.\<close>

definition find_or_make ::
  "service_env \<Rightarrow> service_kind \<Rightarrow> nat option \<Rightarrow> io_context \<Rightarrow> service_object cpp \<times> io_context \<times> service_request list" where
  "find_or_make env kind reactor ioc =
     (case umap_find kind (ic_services ioc) of
        Some None \<Rightarrow> (Inl Undefined_behaviour, ioc, [])
      | Some (Some obj) \<Rightarrow> (Inr obj, ioc, [])
      | None \<Rightarrow>
          (case new_service env kind of
             Inl err \<Rightarrow>
               (Inl err, if key_first env then ioc\<lparr>ic_services := umap_assign kind None (ic_services ioc)\<rparr> else ioc, [])
           | Inr reqs \<Rightarrow>
               (let obj = Service_object (ic_next_object ioc) reactor
                in (Inr obj,
                    ioc\<lparr>ic_services := umap_assign kind (Some obj) (ic_services ioc), ic_next_object := ic_next_object ioc + 1\<rparr>,
                    reqs))))"

text \<open>A service on top of the reactor.\<close>

definition find_or_make_on ::
  "service_env \<Rightarrow> service_kind \<Rightarrow> io_context \<Rightarrow> service_object cpp \<times> io_context \<times> service_request list" where
  "find_or_make_on env kind ioc =
     (case find_or_make env Reactor_service None ioc of
        (Inl err, ioc1, reqs) \<Rightarrow> (Inl err, ioc1, reqs)
      | (Inr reactor, ioc1, reqs) \<Rightarrow> find_or_make env kind (Some (object_number reactor)) ioc1)"

fun use_service :: "service_env \<Rightarrow> service_kind \<Rightarrow> io_context \<Rightarrow> service_object cpp \<times> io_context \<times> service_request list" where
  "use_service env Reactor_service ioc = find_or_make env Reactor_service None ioc"
| "use_service env Timer_service ioc = find_or_make_on env Timer_service ioc"
| "use_service env Bridge_service ioc = find_or_make_on env Bridge_service ioc"
| "use_service env Unknown_service ioc = (Inl Asio_exception, ioc, [])"

text \<open>The destructor deletes the other services in the map's order, then the reactor (a null pointer when there is none).\<close>

definition destroy_IOContext ::
  "((service_kind, service_object option) umap \<Rightarrow> (service_kind, service_object option) umap) \<Rightarrow> io_context \<Rightarrow> service_object option list" where
  "destroy_IOContext order ioc =
     map snd (filter (\<lambda>(kind, obj). kind \<noteq> Reactor_service) (order (ic_services ioc))) @
     [case umap_find Reactor_service (ic_services ioc) of Some obj \<Rightarrow> obj | None \<Rightarrow> None]"

text \<open>\<open>post\<close> and \<open>batch\<close>: the tasks to be run by the caller at once or the exception, then the context, its bridge
  (an empty one until it is made) and the requests to the reactor.\<close>

definition post ::
  "service_env \<Rightarrow> ('c \<Rightarrow> 'c) \<Rightarrow> nat \<Rightarrow> 't \<Rightarrow> io_context \<times> ('t, 'c) bridge \<Rightarrow>
   't list cpp \<times> io_context \<times> ('t, 'c) bridge \<times> service_request list" where
  "post env efd_write this_thread t st =
     (case st of (ioc, b) \<Rightarrow>
       if ic_thread_id ioc = this_thread then (Inr [t], ioc, b, [])
       else (case use_service env Bridge_service ioc of
               (Inl err, ioc1, reqs) \<Rightarrow> (Inl err, ioc1, b, reqs)
             | (Inr obj, ioc1, reqs) \<Rightarrow> (Inr [], ioc1, bridge_push efd_write t b, reqs)))"

definition batch ::
  "service_env \<Rightarrow> ('c \<Rightarrow> 'c) \<Rightarrow> nat \<Rightarrow> 't list \<Rightarrow> io_context \<times> ('t, 'c) bridge \<Rightarrow>
   't list cpp \<times> io_context \<times> ('t, 'c) bridge \<times> service_request list" where
  "batch env efd_write this_thread ts st =
     (case st of (ioc, b) \<Rightarrow>
       if ic_thread_id ioc = this_thread then (Inr ts, ioc, b, [])
       else (case use_service env Bridge_service ioc of
               (Inl err, ioc1, reqs) \<Rightarrow> (Inl err, ioc1, b, reqs)
             | (Inr obj, ioc1, reqs) \<Rightarrow> (Inr [], ioc1, bridge_batch efd_write ts b, reqs)))"

subsection \<open>Interleavings\<close>

text \<open>
  A run: the bridge and context, the tasks taken by \<open>execute\<close> that are still to run on the context's thread, and the histories of
  the tasks posted by other threads, of those run, and of the requests to the reactor with the threads that made them. A posted task may
  come from any thread, also from a task that is running; a call may throw, and then posts nothing. \<open>execute\<close> may
  be called at any time when it is not running.
\<close>

record ('t, 'c) bridge_run =
  br_context :: io_context
  br_bridge :: "('t, 'c) bridge"
  br_running :: "'t list"
  br_posted :: "'t list"
  br_ran :: "'t list"
  br_requests :: "(nat \<times> service_request) list"

definition bridge_start :: "nat \<Rightarrow> 'c \<Rightarrow> ('t, 'c) bridge_run" where
  "bridge_start owner efd =
     \<lparr>br_context = IOContext owner, br_bridge = BridgeService efd, br_running = [], br_posted = [], br_ran = [], br_requests = []\<rparr>"

definition br_called :: "io_context \<Rightarrow> ('t, 'c) bridge \<Rightarrow> nat \<Rightarrow> service_request list \<Rightarrow> ('t, 'c) bridge_run \<Rightarrow> ('t, 'c) bridge_run" where
  "br_called ioc b thread reqs s =
     s\<lparr>br_context := ioc, br_bridge := b, br_requests := br_requests s @ map (Pair thread) reqs\<rparr>"

inductive bridge_step :: "('c \<Rightarrow> 'c) \<Rightarrow> ('c \<Rightarrow> 'c) \<Rightarrow> ('t, 'c) bridge_run \<Rightarrow> ('t, 'c) bridge_run \<Rightarrow> bool"
  for efd_write efd_clear where
  bs_post: "thread \<noteq> ic_thread_id (br_context s) \<Longrightarrow>
    post env efd_write thread t (br_context s, br_bridge s) = (Inr [], ioc, b, reqs) \<Longrightarrow>
    bridge_step efd_write efd_clear s ((br_called ioc b thread reqs s)\<lparr>br_posted := br_posted s @ [t]\<rparr>)"
| bs_batch: "thread \<noteq> ic_thread_id (br_context s) \<Longrightarrow>
    batch env efd_write thread ts (br_context s, br_bridge s) = (Inr [], ioc, b, reqs) \<Longrightarrow>
    bridge_step efd_write efd_clear s ((br_called ioc b thread reqs s)\<lparr>br_posted := br_posted s @ ts\<rparr>)"
| bs_post_throws: "thread \<noteq> ic_thread_id (br_context s) \<Longrightarrow>
    post env efd_write thread t (br_context s, br_bridge s) = (Inl Asio_exception, ioc, b, reqs) \<Longrightarrow>
    bridge_step efd_write efd_clear s (br_called ioc b thread reqs s)"
| bs_batch_throws: "thread \<noteq> ic_thread_id (br_context s) \<Longrightarrow>
    batch env efd_write thread ts (br_context s, br_bridge s) = (Inl Asio_exception, ioc, b, reqs) \<Longrightarrow>
    bridge_step efd_write efd_clear s (br_called ioc b thread reqs s)"
| bs_execute: "br_running s = [] \<Longrightarrow> bridge_execute efd_clear ec (br_bridge s) = (ts, b) \<Longrightarrow>
    bridge_step efd_write efd_clear s (s\<lparr>br_bridge := b, br_running := ts\<rparr>)"
| bs_run: "br_running s = t # ts \<Longrightarrow>
    bridge_step efd_write efd_clear s (s\<lparr>br_running := ts, br_ran := br_ran s @ [t]\<rparr>)"

inductive_cases bridge_stepE: "bridge_step efd_write efd_clear s s'"

text \<open>The documented behaviour of an \<^verbatim>\<open>eventfd\<close>: it is readable once it has been written.\<close>

definition eventfd_law :: "('c \<Rightarrow> 'c) \<Rightarrow> ('c \<Rightarrow> bool) \<Rightarrow> bool" where
  "eventfd_law efd_write readable \<longleftrightarrow> (\<forall>c. readable (efd_write c))"

definition bridge_inv :: "('c \<Rightarrow> bool) \<Rightarrow> ('t, 'c) bridge_run \<Rightarrow> bool" where
  "bridge_inv readable s \<longleftrightarrow>
     br_posted s = br_ran s @ br_running s @ task_list (br_bridge s) \<and>
     (task_list (br_bridge s) \<noteq> [] \<longrightarrow> readable (event_fd (br_bridge s)))"

lemmas service_defs = find_or_make_on_def find_or_make_def new_service_def construct_service_def create_descriptor_def umap_find_def Let_def

lemmas bridge_defs = post_def batch_def bridge_push_def bridge_batch_def pushNoLock_def batchNoLock_def bridge_execute_def

lemma bridge_step_inv:
  assumes "eventfd_law efd_write readable" and "bridge_step efd_write efd_clear s s'" and "bridge_inv readable s"
  shows "bridge_inv readable s'"
  using assms(2,1,3)
  by (cases rule: bridge_stepE)
     (auto simp: bridge_inv_def bridge_defs br_called_def eventfd_law_def split: if_splits prod.splits sum.splits)

lemma bridge_reachable_inv:
  assumes "eventfd_law efd_write readable" and "(bridge_step efd_write efd_clear)\<^sup>*\<^sup>* (bridge_start owner efd) s"
  shows "bridge_inv readable s"
  using assms(2)
proof (induction rule: rtranclp_induct)
  case base
  show ?case by (simp add: bridge_inv_def bridge_start_def BridgeService_def)
next
  case (step s s')
  then show ?case using bridge_step_inv [OF assms(1)] by blast
qed

text \<open>C8: However the posting threads and the context's thread interleave, the tasks posted from other threads run in the
  order in which they were posted, each at most once and none lost; as long as one waits in the list the \<^verbatim>\<open>eventfd\<close> is readable, so
  the reactor runs \<open>execute\<close> again, and when nothing is running and the \<^verbatim>\<open>eventfd\<close> is not readable every task has run.\<close>

theorem bridge_runs_every_task:
  assumes "eventfd_law efd_write readable" and "(bridge_step efd_write efd_clear)\<^sup>*\<^sup>* (bridge_start owner efd) s"
  shows "(\<exists>waiting. br_posted s = br_ran s @ waiting) \<and>
    (task_list (br_bridge s) \<noteq> [] \<longrightarrow> readable (event_fd (br_bridge s)) \<and>
       (\<exists>b. bridge_execute efd_clear 0 (br_bridge s) = (task_list (br_bridge s), b) \<and> task_list b = [])) \<and>
    (br_running s = [] \<and> \<not> readable (event_fd (br_bridge s)) \<longrightarrow> br_ran s = br_posted s)"
  using bridge_reachable_inv [OF assms] by (auto simp: bridge_inv_def bridge_execute_def)

text \<open>Two tasks from thread 1, taken by \<open>execute\<close> on thread 0; the counter of the \<^verbatim>\<open>eventfd\<close> is a number.\<close>

definition plain_env :: service_env where
  "plain_env = \<lparr>made = (\<lambda>_. 5), key_first = False\<rparr>"

definition example_bridge_run :: "(char, nat) bridge_run" where
  "example_bridge_run =
     \<lparr>br_context = fst (snd (use_service plain_env Bridge_service (IOContext 0))),
      br_bridge = \<lparr>task_list = [], event_fd = 0\<rparr>, br_running = [], br_posted = ''ab'', br_ran = ''ab'',
      br_requests = [(1, Register_read_operation 5)]\<rparr>"

theorem bridge_runs_every_task_witness:
  "(bridge_step Suc (\<lambda>_. 0))\<^sup>*\<^sup>* (bridge_start 0 0) example_bridge_run \<and> br_ran example_bridge_run = br_posted example_bridge_run"
proof -
  let ?step = "bridge_step Suc (\<lambda>_. 0) :: (char, nat) bridge_run \<Rightarrow> _"
  let ?s0 = "bridge_start 0 0 :: (char, nat) bridge_run"
  let ?ioc = "fst (snd (use_service plain_env Bridge_service (IOContext 0)))"
  let ?s1 = "?s0\<lparr>br_context := ?ioc, br_bridge := \<lparr>task_list = ''ab'', event_fd = 1\<rparr>, br_posted := ''ab'',
    br_requests := [(1, Register_read_operation 5)]\<rparr>"
  let ?s2 = "?s1\<lparr>br_bridge := \<lparr>task_list = [], event_fd = 0\<rparr>, br_running := ''ab''\<rparr>"
  let ?s3 = "?s2\<lparr>br_running := ''b'', br_ran := ''a''\<rparr>"
  have "?step ?s0 ?s1"
    using bs_batch [of 1 ?s0 plain_env Suc "''ab''" ?ioc "\<lparr>task_list = ''ab'', event_fd = 1\<rparr>" "[Register_read_operation 5]" "\<lambda>_. 0"]
    by (simp add: bridge_start_def bridge_defs br_called_def IOContext_def BridgeService_def service_defs plain_env_def)
  moreover have "?step ?s1 ?s2"
    using bs_execute [of ?s1 "\<lambda>_. 0" 0 "''ab''" "\<lparr>task_list = [], event_fd = 0\<rparr>" Suc]
    by (simp add: bridge_start_def bridge_defs)
  moreover have "?step ?s2 ?s3"
    using bs_run [of ?s2 "CHR ''a''" "''b''" Suc "\<lambda>_. 0"] by (simp add: bridge_start_def)
  moreover have "?step ?s3 example_bridge_run"
    using bs_run [of ?s3 "CHR ''b''" "[]" Suc "\<lambda>_. 0"] by (simp add: bridge_start_def example_bridge_run_def)
  ultimately have reach: "?step\<^sup>*\<^sup>* ?s0 example_bridge_run"
    by (meson converse_rtranclp_into_rtranclp rtranclp.rtrancl_refl)
  have "eventfd_law Suc (\<lambda>c. 0 < c)" by (simp add: eventfd_law_def)
  from bridge_runs_every_task [OF this reach] show ?thesis
    using reach by (simp add: example_bridge_run_def)
qed

subsection \<open>One service of each kind\<close>

text \<open>A service is made once; later calls find it, whatever the kernel would give then.\<close>

lemma use_service_again:
  assumes "use_service env kind ioc = (Inr obj, ioc1, reqs)"
  shows "use_service env' kind ioc1 = (Inr obj, ioc1, [])"
  using assms
  by (cases kind) (auto simp: find_or_make_on_def find_or_make_def umap_find_assign Let_def split: option.splits prod.splits sum.splits)

text \<open>The bridge is registered with the reactor once, by a thread that is not the one that runs the reactor.\<close>

definition has_bridge :: "io_context \<Rightarrow> bool" where
  "has_bridge ioc \<longleftrightarrow> (\<exists>obj. umap_find Bridge_service (ic_services ioc) = Some (Some obj))"

lemma use_bridge:
  assumes "use_service env Bridge_service ioc = (res, ioc1, reqs)"
  shows "ic_thread_id ioc1 = ic_thread_id ioc"
    and "has_bridge ioc \<Longrightarrow> has_bridge ioc1 \<and> reqs = []"
    and "\<not> has_bridge ioc \<Longrightarrow> if has_bridge ioc1 then \<exists>fd. reqs = [Register_read_operation fd] else reqs = [] \<and> (\<exists>err. res = Inl err)"
  using assms
  by (auto simp: has_bridge_def find_or_make_on_def find_or_make_def new_service_def construct_service_def create_descriptor_def
      umap_find_assign Let_def split: option.splits prod.splits sum.splits if_splits)

definition registered_once :: "nat \<Rightarrow> ('t, 'c) bridge_run \<Rightarrow> bool" where
  "registered_once owner s \<longleftrightarrow>
     ic_thread_id (br_context s) = owner \<and>
     (if has_bridge (br_context s) then \<exists>thread fd. thread \<noteq> owner \<and> br_requests s = [(thread, Register_read_operation fd)]
      else br_requests s = [] \<and> br_posted s = [])"

lemma registered_once_call:
  assumes "registered_once owner s" and "thread \<noteq> owner"
    and "use_service env Bridge_service (br_context s) = (res, ioc, reqs)" and "res = Inr obj \<or> ts = []"
  shows "registered_once owner ((br_called ioc b thread reqs s)\<lparr>br_posted := br_posted s @ ts\<rparr>)"
  using assms(1,2,4) use_bridge [OF assms(3)] by (auto simp: registered_once_def br_called_def split: if_splits)

lemma registered_once_step:
  assumes "bridge_step efd_write efd_clear s s'" and "registered_once owner s"
  shows "registered_once owner s'"
proof -
  have owner: "ic_thread_id (br_context s) = owner"
    using assms(2) by (simp add: registered_once_def)
  from assms(1) show ?thesis
  proof (cases rule: bridge_step.cases)
    case (bs_post thread env t ioc b reqs)
    then obtain obj where "use_service env Bridge_service (br_context s) = (Inr obj, ioc, reqs)"
      by (auto simp: post_def split: prod.splits sum.splits if_splits)
    from registered_once_call [OF assms(2) _ this, of thread obj "[t]"] show ?thesis
      using bs_post owner by simp
  next
    case (bs_batch thread env ts ioc b reqs)
    then obtain obj where "use_service env Bridge_service (br_context s) = (Inr obj, ioc, reqs)"
      by (auto simp: batch_def split: prod.splits sum.splits if_splits)
    from registered_once_call [OF assms(2) _ this, of thread obj ts] show ?thesis
      using bs_batch owner by simp
  next
    case (bs_post_throws thread env t ioc b reqs)
    then have "use_service env Bridge_service (br_context s) = (Inl Asio_exception, ioc, reqs)"
      by (auto simp: post_def split: prod.splits sum.splits if_splits)
    from registered_once_call [OF assms(2) _ this, of thread undefined "[]" b] show ?thesis
      using bs_post_throws owner by (simp add: br_called_def)
  next
    case (bs_batch_throws thread env ts ioc b reqs)
    then have "use_service env Bridge_service (br_context s) = (Inl Asio_exception, ioc, reqs)"
      by (auto simp: batch_def split: prod.splits sum.splits if_splits)
    from registered_once_call [OF assms(2) _ this, of thread undefined "[]" b] show ?thesis
      using bs_batch_throws owner by (simp add: br_called_def)
  qed (use assms(2) in \<open>auto simp: registered_once_def split: if_splits\<close>)
qed

lemma bridge_registered_by_poster:
  assumes "(bridge_step efd_write efd_clear)\<^sup>*\<^sup>* (bridge_start owner efd) s" and "br_posted s \<noteq> []"
  shows "\<exists>thread fd. thread \<noteq> owner \<and> br_requests s = [(thread, Register_read_operation fd)]"
proof -
  have "registered_once owner s"
    using assms(1)
  proof (induction rule: rtranclp_induct)
    case base
    show ?case by (simp add: registered_once_def has_bridge_def bridge_start_def IOContext_def umap_find_def)
  next
    case (step s s')
    then show ?case using registered_once_step by blast
  qed
  then show ?thesis using assms(2) by (simp add: registered_once_def split: if_splits)
qed

text \<open>When the constructor throws, the next call tries again; but if the key was evaluated first it has left a null pointer, and
  the next call uses that.\<close>

lemma use_service_after_throw:
  assumes "umap_find Reactor_service (ic_services ioc) = Some (Some reactor)" and "umap_find Bridge_service (ic_services ioc) = None"
    and "made env Bridge_service = - 1" and "use_service env Bridge_service ioc = (res, ioc1, reqs)"
  shows "res = Inl Asio_exception" and "reqs = []"
    and "if key_first env then use_service env' Bridge_service ioc1 = (Inl Undefined_behaviour, ioc1, []) else ioc1 = ioc"
  using assms
  by (auto simp: find_or_make_on_def find_or_make_def new_service_def construct_service_def create_descriptor_def umap_find_assign
      split: if_splits)

end
