(* ===== verification/Buffer.thy ===== *)
theory Buffer
  imports Prelude
begin

section \<open>Views of memory (asio/src/buffer.h, buffer.cc)\<close>

text \<open>
  \<^verbatim>\<open>ConstBuffer\<close> and \<^verbatim>\<open>MutableBuffer\<close> are an address and a length; they own nothing. A pointer is an
  address, \<open>nullptr\<close> is 0. A memory maps addresses to bytes, and \<open>buffer_bytes\<close> is what a view shows.
  The theory shows that \<open>operator+\<close> drops bytes from the front and never leaves the view, which is
  what the sockets rely on when a write is partial.
\<close>

record const_buffer =
  cb_ptr :: nat
  cb_len :: nat

record mutable_buffer =
  mb_ptr :: nat
  mb_len :: nat

text \<open>A string is given by the address of its characters and its length.\<close>

definition ConstBuffer_string :: "nat \<Rightarrow> nat \<Rightarrow> const_buffer" where
  "ConstBuffer_string strbuf_addr strbuf_length =
     (if strbuf_length \<noteq> 0 then \<lparr>cb_ptr = strbuf_addr, cb_len = strbuf_length\<rparr>
      else \<lparr>cb_ptr = 0, cb_len = 0\<rparr>)"

definition ConstBuffer :: "nat \<Rightarrow> nat \<Rightarrow> const_buffer" where
  "ConstBuffer buf len = \<lparr>cb_ptr = buf, cb_len = len\<rparr>"

definition const_buffer_plus :: "const_buffer \<Rightarrow> nat \<Rightarrow> const_buffer" where
  "const_buffer_plus b offset =
     (let offset' = (if offset > cb_len b then cb_len b else offset)
      in ConstBuffer (cb_ptr b + offset') (cb_len b - offset'))"

definition MutableBuffer_string :: "nat \<Rightarrow> nat \<Rightarrow> mutable_buffer" where
  "MutableBuffer_string strbuf_addr strbuf_length =
     (if strbuf_length \<noteq> 0 then \<lparr>mb_ptr = strbuf_addr, mb_len = strbuf_length\<rparr>
      else \<lparr>mb_ptr = 0, mb_len = 0\<rparr>)"

definition MutableBuffer :: "nat \<Rightarrow> nat \<Rightarrow> mutable_buffer" where
  "MutableBuffer buf len = \<lparr>mb_ptr = buf, mb_len = len\<rparr>"

definition mutable_to_const :: "mutable_buffer \<Rightarrow> const_buffer" where
  "mutable_to_const b = ConstBuffer (mb_ptr b) (mb_len b)"

definition mutable_buffer_plus :: "mutable_buffer \<Rightarrow> nat \<Rightarrow> mutable_buffer" where
  "mutable_buffer_plus b offset =
     (let offset' = (if offset > mb_len b then mb_len b else offset)
      in MutableBuffer (mb_ptr b + offset') (mb_len b - offset'))"

definition buffer_bytes :: "(nat \<Rightarrow> u8) \<Rightarrow> const_buffer \<Rightarrow> bytes" where
  "buffer_bytes mem b = map mem [cb_ptr b ..< cb_ptr b + cb_len b]"

lemma length_buffer_bytes [simp]: "length (buffer_bytes mem b) = cb_len b"
  by (simp add: buffer_bytes_def)

lemma const_buffer_plus_simps [simp]:
  "cb_len (const_buffer_plus b n) = cb_len b - n"
  "cb_ptr (const_buffer_plus b n) = cb_ptr b + min n (cb_len b)"
  by (simp_all add: const_buffer_plus_def ConstBuffer_def Let_def)

lemma buffer_bytes_plus: "buffer_bytes mem (const_buffer_plus b n) = drop n (buffer_bytes mem b)"
  by (cases "n \<le> cb_len b") (simp_all add: buffer_bytes_def drop_map add.assoc)

lemma const_buffer_plus_plus: "const_buffer_plus (const_buffer_plus b m) n = const_buffer_plus b (m + n)"
  by (auto simp: const_buffer_plus_def ConstBuffer_def Let_def)

lemma const_buffer_plus_0 [simp]: "const_buffer_plus b 0 = b"
  by (simp add: const_buffer_plus_def ConstBuffer_def)

lemma mutable_to_const_plus: "mutable_to_const (mutable_buffer_plus b n) = const_buffer_plus (mutable_to_const b) n"
  by (simp add: mutable_to_const_def mutable_buffer_plus_def const_buffer_plus_def MutableBuffer_def ConstBuffer_def Let_def)

text \<open>Advancing a buffer by any sequence of offsets shows the bytes behind all of them, and the view never
  reaches outside the one it was made from, even when the offsets run past its end.\<close>

lemma buffer_advance:
  "buffer_bytes mem (foldl const_buffer_plus b ns) = drop (sum_list ns) (buffer_bytes mem b) \<and>
   cb_ptr b \<le> cb_ptr (foldl const_buffer_plus b ns) \<and>
   cb_ptr (foldl const_buffer_plus b ns) + cb_len (foldl const_buffer_plus b ns) = cb_ptr b + cb_len b"
proof -
  have "foldl const_buffer_plus b ns = const_buffer_plus b (sum_list ns)"
    by (induction ns arbitrary: b) (simp_all add: const_buffer_plus_plus)
  then show ?thesis by (simp add: buffer_bytes_plus)
qed

end
