(* ===== verification/Async_Op.thy ===== *)
theory Async_Op
  imports Reactor Endpoint Buffer
begin

section \<open>The operations that sockets and signal sets register\<close>

text \<open>
  A socket registers \<^verbatim>\<open>std::bind\<close> of one of its wrappers and the wrapper's arguments; such a closure is a constructor of
  \<open>async_op\<close> with those arguments. \<open>'u\<close> are the callbacks of the user: \<open>user u ec n\<close> runs one with its code and its
  second argument (bytes or signal number; 0 when it has none). Socket and endpoint objects are referred to by closures, so they live in
  stores, under numbers.
\<close>

datatype 'u async_op =
    Tcp_read int mutable_buffer 'u
  | Tcp_write int const_buffer nat 'u
  | Tcp_accept int nat 'u
  | Tcp_connect int 'u
  | Udp_read int nat mutable_buffer 'u
  | Udp_write int endpoint const_buffer nat 'u
  | Signal_read int 'u

record ('op, 'k) asio = "('op, 'k) reactor" +
  tcp_sockfd :: "nat \<Rightarrow> int"
  udp_sockfd :: "nat \<Rightarrow> int"
  endpoints :: "nat \<Rightarrow> endpoint"

type_synonym ('u, 'k) io = "('u async_op, 'k) asio"
type_synonym ('u, 'k) user = "'u \<Rightarrow> int \<Rightarrow> int \<Rightarrow> ('u, 'k) io \<Rightarrow> ('u, 'k) io"

text \<open>
  Running a closure with a code that is not 0: every wrapper passes the code on, with the bytes sent so far, or -1 for a
  signal. Registering and cancelling run closures only in this way; the loop also runs them with 0.
\<close>

definition io_failed :: "('u, 'k) user \<Rightarrow> 'u async_op \<Rightarrow> int \<Rightarrow> ('u, 'k) io \<Rightarrow> ('u, 'k) io" where
  "io_failed user op ec r =
     (case op of
        Tcp_read _ _ u \<Rightarrow> user u ec 0 r
      | Tcp_write _ _ send_bytes u \<Rightarrow> user u ec (int send_bytes) r
      | Tcp_accept _ _ u \<Rightarrow> user u ec 0 r
      | Tcp_connect _ u \<Rightarrow> user u ec 0 r
      | Udp_read _ _ _ u \<Rightarrow> user u ec 0 r
      | Udp_write _ _ _ send_bytes u \<Rightarrow> user u ec (int send_bytes) r
      | Signal_read _ u \<Rightarrow> user u ec (- 1) r)"

text \<open>A system call.\<close>

definition sys :: "('k \<Rightarrow> 'a \<times> 'k) \<Rightarrow> ('op, 'k, 'z) reactor_scheme \<Rightarrow> 'a \<times> ('op, 'k, 'z) reactor_scheme" where
  "sys f r = (case f (kernel r) of (a, k) \<Rightarrow> (a, r\<lparr>kernel := k\<rparr>))"

text \<open>The flags a new socket is given, on Linux.\<close>

definition O_NONBLOCK :: u32 where "O_NONBLOCK = 0x800"
definition O_CLOEXEC :: u32 where "O_CLOEXEC = 0x80000"

definition create_socket :: "'k os \<Rightarrow> socket_type \<Rightarrow> u16 \<Rightarrow> ('op, 'k, 'z) reactor_scheme \<Rightarrow> (int + int) \<times> ('op, 'k, 'z) reactor_scheme" where
  "create_socket os tp family r =
     (case sys (os_socket os family tp) r of
        (Inl errno, r1) \<Rightarrow> (Inl errno, r1)
      | (Inr sockfd, r1) \<Rightarrow>
          (let flags = os_getfl os sockfd (kernel r1)
           in (Inr sockfd, r1\<lparr>kernel := os_setfl os sockfd (flags OR O_NONBLOCK OR O_CLOEXEC) (kernel r1)\<rparr>)))"

definition destroy_socket :: "'k os \<Rightarrow> int \<Rightarrow> ('op, 'k, 'z) reactor_scheme \<Rightarrow> int \<times> ('op, 'k, 'z) reactor_scheme" where
  "destroy_socket os fd r = (if fd \<noteq> - 1 then sys (os_close os fd) r else (0, r))"

end
