(* ===== verification/Tcp_Socket.thy ===== *)
theory Tcp_Socket
  imports Async_Op
begin

section \<open>TCP sockets and acceptors (asio/src/ip/details/tcp_socket.h, tcp_socket.cc, acceptor.h, acceptor.cc; ip/tcp.h)\<close>

text \<open>
  The four wrappers that run when a socket is ready, the operations that register them, and the blocking operations on
  the descriptor. A socket object is a number, its descriptor is \<open>tcp_sockfd\<close>. An acceptor is a socket object. The host's
  byte order is a parameter of what looks into an endpoint.
\<close>

subsection \<open>The wrappers\<close>

definition tcp_read_op_wrap :: "'k os \<Rightarrow> ('u, 'k) user \<Rightarrow> int \<Rightarrow> int \<Rightarrow> mutable_buffer \<Rightarrow> 'u \<Rightarrow> ('u, 'k) io \<Rightarrow> ('u, 'k) io" where
  "tcp_read_op_wrap os user ec sockfd mbuf on_read r =
     (if ec = 0 then
        (case sys (os_recv os sockfd (mb_ptr mbuf) (mb_len mbuf)) (removeReadOperation os sockfd r) of
           (Inl errno, r1) \<Rightarrow> user on_read errno 0 r1
         | (Inr nread, r1) \<Rightarrow> user on_read ec (int nread) r1)
      else user on_read ec 0 r)"

definition tcp_write_op_wrap ::
  "'k os \<Rightarrow> ('u, 'k) user \<Rightarrow> int \<Rightarrow> int \<Rightarrow> const_buffer \<Rightarrow> nat \<Rightarrow> 'u \<Rightarrow> ('u, 'k) io \<Rightarrow> ('u, 'k) io" where
  "tcp_write_op_wrap os user ec sockfd cbuf send_bytes on_write r =
     (if ec = 0 then
        (case sys (os_send os sockfd (cb_ptr cbuf) (cb_len cbuf)) (removeWriteOperation os sockfd r) of
           (Inl errno, r1) \<Rightarrow> user on_write errno (int send_bytes) r1
         | (Inr nwrite, r1) \<Rightarrow>
             (let send_bytes1 = size_add send_bytes nwrite
              in if nwrite \<noteq> cb_len cbuf then
                   registerWriteOperation os (io_failed user) sockfd
                     (Tcp_write sockfd (const_buffer_plus cbuf nwrite) send_bytes1 on_write) r1
                 else user on_write ec (int send_bytes1) r1))
      else user on_write ec (int send_bytes) r)"

definition tcp_accept_op_wrap :: "'k os \<Rightarrow> ('u, 'k) user \<Rightarrow> int \<Rightarrow> int \<Rightarrow> nat \<Rightarrow> 'u \<Rightarrow> ('u, 'k) io \<Rightarrow> ('u, 'k) io" where
  "tcp_accept_op_wrap os user ec sockfd accept_socket accept_op r =
     (if ec = 0 then
        (case sys (os_accept os sockfd) (removeReadOperation os sockfd r) of
           (Inl errno, r1) \<Rightarrow> user accept_op errno 0 (r1\<lparr>tcp_sockfd := (tcp_sockfd r1)(accept_socket := - 1)\<rparr>)
         | (Inr fd, r1) \<Rightarrow> user accept_op ec 0 (r1\<lparr>tcp_sockfd := (tcp_sockfd r1)(accept_socket := fd)\<rparr>))
      else user accept_op ec 0 r)"

definition tcp_connect_op_wrap :: "'k os \<Rightarrow> ('u, 'k) user \<Rightarrow> int \<Rightarrow> int \<Rightarrow> 'u \<Rightarrow> ('u, 'k) io \<Rightarrow> ('u, 'k) io" where
  "tcp_connect_op_wrap os user ec sockfd connect_op r =
     (if ec = 0 then
        (case sys (os_so_error os sockfd) (removeWriteOperation os sockfd r) of (errcode, r1) \<Rightarrow> user connect_op errcode 0 r1)
      else user connect_op ec 0 r)"

subsection \<open>Asynchronous operations\<close>

definition tcp_async_read :: "'k os \<Rightarrow> ('u, 'k) user \<Rightarrow> nat \<Rightarrow> mutable_buffer \<Rightarrow> 'u \<Rightarrow> ('u, 'k) io \<Rightarrow> ('u, 'k) io" where
  "tcp_async_read os user s mbuf on_read r =
     registerReadOperation os (io_failed user) (tcp_sockfd r s) (Tcp_read (tcp_sockfd r s) mbuf on_read) r"

definition tcp_async_write :: "'k os \<Rightarrow> ('u, 'k) user \<Rightarrow> nat \<Rightarrow> const_buffer \<Rightarrow> 'u \<Rightarrow> ('u, 'k) io \<Rightarrow> ('u, 'k) io" where
  "tcp_async_write os user s cbuf on_write r =
     registerWriteOperation os (io_failed user) (tcp_sockfd r s) (Tcp_write (tcp_sockfd r s) cbuf 0 on_write) r"

definition tcp_async_accept :: "'k os \<Rightarrow> ('u, 'k) user \<Rightarrow> nat \<Rightarrow> nat \<Rightarrow> 'u \<Rightarrow> ('u, 'k) io \<Rightarrow> ('u, 'k) io" where
  "tcp_async_accept os user s tcp_socket accept_op r =
     registerReadOperation os (io_failed user) (tcp_sockfd r s) (Tcp_accept (tcp_sockfd r s) tcp_socket accept_op) r"

definition tcp_async_connect :: "endian \<Rightarrow> 'k os \<Rightarrow> ('u, 'k) user \<Rightarrow> nat \<Rightarrow> endpoint \<Rightarrow> 'u \<Rightarrow> ('u, 'k) io \<Rightarrow> ('u, 'k) io" where
  "tcp_async_connect e os user s endpoint connect_op r =
     (case sys (os_connect os (tcp_sockfd r s) (take (endpoint_length e endpoint) (endpoint_native endpoint))) r of
        (errno, r1) \<Rightarrow>
          if errno = 0 then user connect_op err_SUCCESS 0 r1
          else if errno \<noteq> EINPROGRESS then user connect_op errno 0 r1
          else registerWriteOperation os (io_failed user) (tcp_sockfd r1 s) (Tcp_connect (tcp_sockfd r1 s) connect_op) r1)"

definition tcp_cancel :: "'k os \<Rightarrow> ('u, 'k) user \<Rightarrow> nat \<Rightarrow> ('u, 'k) io \<Rightarrow> ('u, 'k) io" where
  "tcp_cancel os user s r = cancelAllOperations os (io_failed user) (tcp_sockfd r s) r"

subsection \<open>Operations on the descriptor\<close>

definition TCPSocket :: "nat \<Rightarrow> ('u, 'k) io \<Rightarrow> ('u, 'k) io" where
  "TCPSocket s r = r\<lparr>tcp_sockfd := (tcp_sockfd r)(s := - 1)\<rparr>"

definition tcp_shutdown :: "'k os \<Rightarrow> ('u, 'k) user \<Rightarrow> nat \<Rightarrow> ('u, 'k) io \<Rightarrow> int \<times> ('u, 'k) io" where
  "tcp_shutdown os user s r =
     (let r1 = cancelAllOperations os (io_failed user) (tcp_sockfd r s) r
      in case destroy_socket os (tcp_sockfd r1 s) r1 of
           (errno, r2) \<Rightarrow>
             if errno \<noteq> 0 then (errno, r2) else (0, r2\<lparr>tcp_sockfd := (tcp_sockfd r2)(s := - 1)\<rparr>))"

text \<open>The destructor does not look at what \<open>shutdown\<close> returns.\<close>

definition destroy_TCPSocket :: "'k os \<Rightarrow> ('u, 'k) user \<Rightarrow> nat \<Rightarrow> ('u, 'k) io \<Rightarrow> ('u, 'k) io" where
  "destroy_TCPSocket os user s r = snd (tcp_shutdown os user s r)"

definition tcp_open :: "'k os \<Rightarrow> ('u, 'k) user \<Rightarrow> nat \<Rightarrow> u16 \<Rightarrow> ('u, 'k) io \<Rightarrow> int \<times> ('u, 'k) io" where
  "tcp_open os user s family r =
     (let r1 = (if tcp_sockfd r s \<noteq> - 1 then snd (tcp_shutdown os user s r) else r)
      in case create_socket os SOCK_STREAM family r1 of
           (Inl errno, r2) \<Rightarrow> (errno, r2\<lparr>tcp_sockfd := (tcp_sockfd r2)(s := - 1)\<rparr>)
         | (Inr fd, r2) \<Rightarrow> (0, r2\<lparr>tcp_sockfd := (tcp_sockfd r2)(s := fd)\<rparr>))"

definition tcp_bind :: "endian \<Rightarrow> 'k os \<Rightarrow> nat \<Rightarrow> endpoint \<Rightarrow> ('u, 'k) io \<Rightarrow> int \<times> ('u, 'k) io" where
  "tcp_bind e os s endpoint r =
     sys (os_bind os (tcp_sockfd r s) (take (endpoint_length e endpoint) (endpoint_native endpoint))) r"

definition tcp_listen :: "'k os \<Rightarrow> nat \<Rightarrow> int \<Rightarrow> ('u, 'k) io \<Rightarrow> int \<times> ('u, 'k) io" where
  "tcp_listen os s backlog r = sys (os_listen os (tcp_sockfd r s) backlog) r"

definition tcp_setDelay :: "'k os \<Rightarrow> nat \<Rightarrow> ('u, 'k) io \<Rightarrow> int \<times> ('u, 'k) io" where
  "tcp_setDelay os s r = sys (os_setsockopt os (tcp_sockfd r s) TCP_NODELAY 1) r"

definition tcp_setReuseAddr :: "'k os \<Rightarrow> nat \<Rightarrow> ('u, 'k) io \<Rightarrow> int \<times> ('u, 'k) io" where
  "tcp_setReuseAddr os s r = sys (os_setsockopt os (tcp_sockfd r s) SO_REUSEADDR 1) r"

definition tcp_setKeepAlive :: "'k os \<Rightarrow> nat \<Rightarrow> ('u, 'k) io \<Rightarrow> int \<times> ('u, 'k) io" where
  "tcp_setKeepAlive os s r = sys (os_setsockopt os (tcp_sockfd r s) SO_KEEPALIVE 1) r"

definition tcp_shutdownRead :: "'k os \<Rightarrow> ('u, 'k) user \<Rightarrow> nat \<Rightarrow> ('u, 'k) io \<Rightarrow> int \<times> ('u, 'k) io" where
  "tcp_shutdownRead os user s r =
     (let r1 = cancelReadOperation os (io_failed user) (tcp_sockfd r s) r
      in sys (os_shutdown os (tcp_sockfd r1 s) SHUT_RD) r1)"

definition tcp_shutdownWrite :: "'k os \<Rightarrow> ('u, 'k) user \<Rightarrow> nat \<Rightarrow> ('u, 'k) io \<Rightarrow> int \<times> ('u, 'k) io" where
  "tcp_shutdownWrite os user s r =
     (let r1 = cancelWriteOperation os (io_failed user) (tcp_sockfd r s) r
      in sys (os_shutdown os (tcp_sockfd r1 s) SHUT_WR) r1)"

text \<open>The address is written over the endpoint object, of which at most \<open>bufferLen\<close> bytes are offered.\<close>

definition tcp_peerAddr :: "'k os \<Rightarrow> nat \<Rightarrow> nat \<Rightarrow> ('u, 'k) io \<Rightarrow> int \<times> ('u, 'k) io" where
  "tcp_peerAddr os s endpoint r =
     (case sys (os_getpeername os (tcp_sockfd r s) (bufferLen (endpoints r endpoint))) r of
        (Inl errno, r1) \<Rightarrow> (errno, r1)
      | (Inr addr, r1) \<Rightarrow> (0, r1\<lparr>endpoints := (endpoints r1)(endpoint := overwrite 0 addr (endpoints r1 endpoint))\<rparr>))"

definition tcp_localAddr :: "'k os \<Rightarrow> nat \<Rightarrow> nat \<Rightarrow> ('u, 'k) io \<Rightarrow> int \<times> ('u, 'k) io" where
  "tcp_localAddr os s endpoint r =
     (case sys (os_getsockname os (tcp_sockfd r s) (bufferLen (endpoints r endpoint))) r of
        (Inl errno, r1) \<Rightarrow> (errno, r1)
      | (Inr addr, r1) \<Rightarrow> (0, r1\<lparr>endpoints := (endpoints r1)(endpoint := overwrite 0 addr (endpoints r1 endpoint))\<rparr>))"

subsection \<open>Acceptors\<close>

text \<open>\<open>setup\<close> makes the calls one after the other until one fails.\<close>

definition and_then :: "int \<times> ('u, 'k) io \<Rightarrow> (('u, 'k) io \<Rightarrow> int \<times> ('u, 'k) io) \<Rightarrow> int \<times> ('u, 'k) io" where
  "and_then res f = (case res of (ec, r) \<Rightarrow> if ec \<noteq> 0 then (ec, r) else f r)"

definition acceptor_setup :: "endian \<Rightarrow> 'k os \<Rightarrow> ('u, 'k) user \<Rightarrow> nat \<Rightarrow> endpoint \<Rightarrow> ('u, 'k) io \<Rightarrow> int \<times> ('u, 'k) io" where
  "acceptor_setup e os user s endpoint r =
     (if \<not> isV4 e endpoint \<and> \<not> isV6 e endpoint then (EINVAL, r)
      else
        and_then
          (and_then
            (and_then
              (and_then
                (and_then
                  (tcp_open os user s (if isV4 e endpoint then AF_INET else AF_INET6) r)
                  (tcp_setReuseAddr os s))
                (tcp_bind e os s endpoint))
              (tcp_listen os s 1024))
            (tcp_setDelay os s))
          (tcp_setKeepAlive os s))"

definition Acceptor :: "nat \<Rightarrow> ('u, 'k) io \<Rightarrow> ('u, 'k) io" where
  "Acceptor s r = TCPSocket s r"

definition Acceptor_endpoint :: "endian \<Rightarrow> 'k os \<Rightarrow> ('u, 'k) user \<Rightarrow> nat \<Rightarrow> endpoint \<Rightarrow> ('u, 'k) io \<Rightarrow> ('u, 'k) io cpp" where
  "Acceptor_endpoint e os user s endpoint r =
     (case acceptor_setup e os user s endpoint (TCPSocket s r) of
        (ec, r1) \<Rightarrow> if ec \<noteq> 0 then Inl Asio_exception else Inr r1)"

definition acceptor_async_accept :: "'k os \<Rightarrow> ('u, 'k) user \<Rightarrow> nat \<Rightarrow> nat \<Rightarrow> 'u \<Rightarrow> ('u, 'k) io \<Rightarrow> ('u, 'k) io" where
  "acceptor_async_accept os user s socket accept_op r = tcp_async_accept os user s socket accept_op r"

definition acceptor_cancel :: "'k os \<Rightarrow> ('u, 'k) user \<Rightarrow> nat \<Rightarrow> ('u, 'k) io \<Rightarrow> ('u, 'k) io" where
  "acceptor_cancel os user s r = tcp_cancel os user s r"

text \<open>The destructor, and then that of the socket it holds.\<close>

definition destroy_Acceptor :: "'k os \<Rightarrow> ('u, 'k) user \<Rightarrow> nat \<Rightarrow> ('u, 'k) io \<Rightarrow> ('u, 'k) io" where
  "destroy_Acceptor os user s r = destroy_TCPSocket os user s (acceptor_cancel os user s r)"

end
