(* ===== verification/Udp_Socket.thy ===== *)
theory Udp_Socket
  imports Async_Op
begin

section \<open>UDP sockets (asio/src/ip/details/udp_socket.h, udp_socket.cc; ip/udp.h)\<close>

text \<open>
  As the TCP sockets: wrappers, the operations that register them, and the blocking operations. A read writes the
  sender's address into an endpoint object of the caller; a write carries a copy of its endpoint.
\<close>

definition udp_read_op_wrap ::
  "'k os \<Rightarrow> ('u, 'k) user \<Rightarrow> int \<Rightarrow> int \<Rightarrow> nat \<Rightarrow> mutable_buffer \<Rightarrow> 'u \<Rightarrow> ('u, 'k) io \<Rightarrow> ('u, 'k) io" where
  "udp_read_op_wrap os user ec sockfd endpoint mbuf on_read r =
     (if ec = 0 then
        (case sys (os_recvfrom os sockfd (mb_ptr mbuf) (mb_len mbuf)) (removeReadOperation os sockfd r) of
           (Inl errno, r1) \<Rightarrow> user on_read errno 0 r1
         | (Inr (nread, addr), r1) \<Rightarrow>
             user on_read ec (int nread)
               (r1\<lparr>endpoints := (endpoints r1)(endpoint := overwrite 0 (take sizeof_sockaddr_in6 addr) (endpoints r1 endpoint))\<rparr>))
      else user on_read ec 0 r)"

definition udp_write_op_wrap ::
  "endian \<Rightarrow> 'k os \<Rightarrow> ('u, 'k) user \<Rightarrow> int \<Rightarrow> int \<Rightarrow> endpoint \<Rightarrow> const_buffer \<Rightarrow> nat \<Rightarrow> 'u \<Rightarrow> ('u, 'k) io \<Rightarrow> ('u, 'k) io" where
  "udp_write_op_wrap e os user ec sockfd endpoint cbuf send_bytes on_write r =
     (if ec = 0 then
        (case sys (os_sendto os sockfd (cb_ptr cbuf) (cb_len cbuf) (take (endpoint_length e endpoint) (endpoint_native endpoint)))
            (removeWriteOperation os sockfd r) of
           (Inl errno, r1) \<Rightarrow> user on_write errno (int send_bytes) r1
         | (Inr nwrite, r1) \<Rightarrow>
             (let send_bytes1 = size_add send_bytes nwrite
              in if nwrite \<noteq> cb_len cbuf then
                   registerWriteOperation os (io_failed user) sockfd
                     (Udp_write sockfd endpoint (const_buffer_plus cbuf nwrite) send_bytes1 on_write) r1
                 else user on_write ec (int send_bytes1) r1))
      else user on_write ec (int send_bytes) r)"

definition create_udp_socket :: "'k os \<Rightarrow> u16 \<Rightarrow> ('op, 'k, 'z) reactor_scheme \<Rightarrow> (int + int) \<times> ('op, 'k, 'z) reactor_scheme" where
  "create_udp_socket os family r = create_socket os SOCK_DGRAM family r"

definition destroy_udp_socket :: "'k os \<Rightarrow> int \<Rightarrow> ('op, 'k, 'z) reactor_scheme \<Rightarrow> int \<times> ('op, 'k, 'z) reactor_scheme" where
  "destroy_udp_socket os fd r = destroy_socket os fd r"

definition UDPSocket :: "nat \<Rightarrow> ('u, 'k) io \<Rightarrow> ('u, 'k) io" where
  "UDPSocket s r = r\<lparr>udp_sockfd := (udp_sockfd r)(s := - 1)\<rparr>"

definition udp_async_read :: "'k os \<Rightarrow> ('u, 'k) user \<Rightarrow> nat \<Rightarrow> nat \<Rightarrow> mutable_buffer \<Rightarrow> 'u \<Rightarrow> ('u, 'k) io \<Rightarrow> ('u, 'k) io" where
  "udp_async_read os user s endpoint mbuf on_read r =
     registerReadOperation os (io_failed user) (udp_sockfd r s) (Udp_read (udp_sockfd r s) endpoint mbuf on_read) r"

definition udp_async_write :: "'k os \<Rightarrow> ('u, 'k) user \<Rightarrow> nat \<Rightarrow> endpoint \<Rightarrow> const_buffer \<Rightarrow> 'u \<Rightarrow> ('u, 'k) io \<Rightarrow> ('u, 'k) io" where
  "udp_async_write os user s endpoint cbuf on_write r =
     registerWriteOperation os (io_failed user) (udp_sockfd r s) (Udp_write (udp_sockfd r s) endpoint cbuf 0 on_write) r"

definition udp_cancel :: "'k os \<Rightarrow> ('u, 'k) user \<Rightarrow> nat \<Rightarrow> ('u, 'k) io \<Rightarrow> ('u, 'k) io" where
  "udp_cancel os user s r = cancelAllOperations os (io_failed user) (udp_sockfd r s) r"

definition udp_shutdown :: "'k os \<Rightarrow> ('u, 'k) user \<Rightarrow> nat \<Rightarrow> ('u, 'k) io \<Rightarrow> int \<times> ('u, 'k) io" where
  "udp_shutdown os user s r =
     (let r1 = cancelAllOperations os (io_failed user) (udp_sockfd r s) r
      in case destroy_udp_socket os (udp_sockfd r1 s) r1 of
           (errno, r2) \<Rightarrow>
             if errno \<noteq> 0 then (errno, r2) else (0, r2\<lparr>udp_sockfd := (udp_sockfd r2)(s := - 1)\<rparr>))"

definition destroy_UDPSocket :: "'k os \<Rightarrow> ('u, 'k) user \<Rightarrow> nat \<Rightarrow> ('u, 'k) io \<Rightarrow> ('u, 'k) io" where
  "destroy_UDPSocket os user s r = snd (udp_shutdown os user s r)"

definition udp_open :: "'k os \<Rightarrow> ('u, 'k) user \<Rightarrow> nat \<Rightarrow> u16 \<Rightarrow> ('u, 'k) io \<Rightarrow> int \<times> ('u, 'k) io" where
  "udp_open os user s family r =
     (let r1 = (if udp_sockfd r s \<noteq> - 1 then snd (udp_shutdown os user s r) else r)
      in case create_udp_socket os family r1 of
           (Inl errno, r2) \<Rightarrow> (errno, r2\<lparr>udp_sockfd := (udp_sockfd r2)(s := - 1)\<rparr>)
         | (Inr fd, r2) \<Rightarrow> (0, r2\<lparr>udp_sockfd := (udp_sockfd r2)(s := fd)\<rparr>))"

definition udp_bind :: "endian \<Rightarrow> 'k os \<Rightarrow> nat \<Rightarrow> endpoint \<Rightarrow> ('u, 'k) io \<Rightarrow> int \<times> ('u, 'k) io" where
  "udp_bind e os s endpoint r =
     sys (os_bind os (udp_sockfd r s) (take (endpoint_length e endpoint) (endpoint_native endpoint))) r"

definition udp_setReuseAddr :: "'k os \<Rightarrow> nat \<Rightarrow> ('u, 'k) io \<Rightarrow> int \<times> ('u, 'k) io" where
  "udp_setReuseAddr os s r = sys (os_setsockopt os (udp_sockfd r s) SO_REUSEADDR 1) r"

definition udp_shutdownRead :: "'k os \<Rightarrow> ('u, 'k) user \<Rightarrow> nat \<Rightarrow> ('u, 'k) io \<Rightarrow> int \<times> ('u, 'k) io" where
  "udp_shutdownRead os user s r =
     (let r1 = cancelReadOperation os (io_failed user) (udp_sockfd r s) r
      in sys (os_shutdown os (udp_sockfd r1 s) SHUT_RD) r1)"

definition udp_shutdownWrite :: "'k os \<Rightarrow> ('u, 'k) user \<Rightarrow> nat \<Rightarrow> ('u, 'k) io \<Rightarrow> int \<times> ('u, 'k) io" where
  "udp_shutdownWrite os user s r =
     (let r1 = cancelWriteOperation os (io_failed user) (udp_sockfd r s) r
      in sys (os_shutdown os (udp_sockfd r1 s) SHUT_WR) r1)"

end
