(* ===== verification/Signal_Set.thy ===== *)
theory Signal_Set
  imports Async_Op
begin

section \<open>Signal sets (asio/src/signal_set.h, signal_set.cc)\<close>

text \<open>
  A signal set waits for one signal through a \<^verbatim>\<open>signalfd\<close> registered with the reactor; while it waits the signal is
  blocked for the thread.
\<close>

record signal_set =
  ss_signum :: int
  ss_signal_fd :: int

definition create_signalfd :: "'k os \<Rightarrow> ('op, 'k, 'z) reactor_scheme \<Rightarrow> (int \<times> ('op, 'k, 'z) reactor_scheme) cpp" where
  "create_signalfd os r =
     (case sys (os_signalfd os (- 1) []) r of (Inl errno, r1) \<Rightarrow> Inl Asio_exception | (Inr fd, r1) \<Rightarrow> Inr (fd, r1))"

definition destroy_signalfd :: "'k os \<Rightarrow> int \<Rightarrow> ('op, 'k, 'z) reactor_scheme \<Rightarrow> ('op, 'k, 'z) reactor_scheme" where
  "destroy_signalfd os fd r = (if fd \<noteq> - 1 then snd (sys (os_close os fd) r) else r)"

definition update_signalfd :: "'k os \<Rightarrow> int \<Rightarrow> int \<Rightarrow> ('op, 'k, 'z) reactor_scheme \<Rightarrow> ('op, 'k, 'z) reactor_scheme" where
  "update_signalfd os fd signum r = snd (sys (os_signalfd os fd [signum]) r)"

definition signal_block :: "'k os \<Rightarrow> int \<Rightarrow> ('op, 'k, 'z) reactor_scheme \<Rightarrow> ('op, 'k, 'z) reactor_scheme" where
  "signal_block os signum r = r\<lparr>kernel := os_sigmask os True [signum] (kernel r)\<rparr>"

definition signal_unblock :: "'k os \<Rightarrow> int \<Rightarrow> ('op, 'k, 'z) reactor_scheme \<Rightarrow> ('op, 'k, 'z) reactor_scheme" where
  "signal_unblock os signum r = r\<lparr>kernel := os_sigmask os False [signum] (kernel r)\<rparr>"

definition signal_op_wrap :: "'k os \<Rightarrow> ('u, 'k) user \<Rightarrow> int \<Rightarrow> int \<Rightarrow> 'u \<Rightarrow> ('u, 'k) io \<Rightarrow> ('u, 'k) io" where
  "signal_op_wrap os user ec signal_fd signal_op r =
     (if ec = 0 then
        (case sys (os_read_siginfo os signal_fd) (removeReadOperation os signal_fd r) of
           (ssi_signo, r1) \<Rightarrow> user signal_op ec ssi_signo r1)
      else user signal_op ec (- 1) r)"

definition SignalSet :: "'k os \<Rightarrow> int \<Rightarrow> ('op, 'k, 'z) reactor_scheme \<Rightarrow> (signal_set \<times> ('op, 'k, 'z) reactor_scheme) cpp" where
  "SignalSet os signum r =
     cpp_bind (create_signalfd os r) (\<lambda>(fd, r1). Inr (\<lparr>ss_signum = signum, ss_signal_fd = fd\<rparr>, r1))"

definition destroy_SignalSet :: "'k os \<Rightarrow> ('u, 'k) user \<Rightarrow> signal_set \<Rightarrow> ('u, 'k) io \<Rightarrow> ('u, 'k) io" where
  "destroy_SignalSet os user ss r =
     signal_unblock os (ss_signum ss)
       (destroy_signalfd os (ss_signal_fd ss) (cancelAllOperations os (io_failed user) (ss_signal_fd ss) r))"

definition signal_async_wait :: "'k os \<Rightarrow> ('u, 'k) user \<Rightarrow> 'u \<Rightarrow> signal_set \<Rightarrow> ('u, 'k) io \<Rightarrow> ('u, 'k) io" where
  "signal_async_wait os user signal_op ss r =
     signal_block os (ss_signum ss)
       (update_signalfd os (ss_signal_fd ss) (ss_signum ss)
         (registerReadOperation os (io_failed user) (ss_signal_fd ss) (Signal_read (ss_signal_fd ss) signal_op) r))"

definition signal_cancel :: "'k os \<Rightarrow> ('u, 'k) user \<Rightarrow> signal_set \<Rightarrow> ('u, 'k) io \<Rightarrow> ('u, 'k) io" where
  "signal_cancel os user ss r =
     signal_unblock os (ss_signum ss) (cancelReadOperation os (io_failed user) (ss_signal_fd ss) r)"

end
