(* ===== verification/Reactor_Invariant.thy ===== *)
theory Reactor_Invariant
  imports Reactor
begin

section \<open>The reactor and epoll's interest set\<close>

text \<open>
  The invariant of the reactor: epoll waits for the events of every registered operation. It holds after every
  operation, whatever calls of epoll fail, and while operations run, except that \<open>cancelAllOperations\<close> tells epoll to
  forget the descriptor before the operations are gone: the invariant has a set of exceptions, which is empty between
  operations. Callbacks may use the reactor in any way (\<open>keeps\<close>); a callback that is a sequence of requests,
  whose operations again have callbacks of this kind, keeps the invariant.
\<close>

datatype direction = Reading | Writing

instantiation direction :: enum
begin

definition enum_direction :: "direction list" where
  "enum_direction = [Reading, Writing]"

definition enum_all_direction :: "(direction \<Rightarrow> bool) \<Rightarrow> bool" where
  "enum_all_direction P \<longleftrightarrow> P Reading \<and> P Writing"

definition enum_ex_direction :: "(direction \<Rightarrow> bool) \<Rightarrow> bool" where
  "enum_ex_direction P \<longleftrightarrow> P Reading \<or> P Writing"

instance
proof
  show U: "(UNIV :: direction set) = set enum_class.enum"
    by (auto simp: enum_direction_def intro: direction.exhaust)
  show "distinct (enum_class.enum :: direction list)"
    by (simp add: enum_direction_def)
  show "enum_class.enum_all P \<longleftrightarrow> Ball UNIV P" "enum_class.enum_ex P \<longleftrightarrow> Bex UNIV P" for P :: "direction \<Rightarrow> bool"
    unfolding U by (simp_all add: enum_direction_def enum_all_direction_def enum_ex_direction_def)
qed

end

lemma all_directions: "(\<forall>d. P d) \<longleftrightarrow> P Reading \<and> P Writing"
  using enum_all_UNIV [where P = P] unfolding enum_all_direction_def by simp

definition waits_for :: "direction \<Rightarrow> events" where
  "waits_for d = (case d of Reading \<Rightarrow> EPOLLIN OR EPOLLPRI | Writing \<Rightarrow> EPOLLOUT)"

definition operation :: "direction \<Rightarrow> 'op opinfo \<Rightarrow> 'op option" where
  "operation d i = (case d of Reading \<Rightarrow> read_op i | Writing \<Rightarrow> write_op i)"

definition set_operation :: "direction \<Rightarrow> 'op option \<Rightarrow> 'op opinfo \<Rightarrow> 'op opinfo" where
  "set_operation d op i = (case d of Reading \<Rightarrow> i\<lparr>read_op := op\<rparr> | Writing \<Rightarrow> i\<lparr>write_op := op\<rparr>)"

definition other :: "direction \<Rightarrow> direction" where
  "other d = (case d of Reading \<Rightarrow> Writing | Writing \<Rightarrow> Reading)"

definition interest_inv ::
  "('k \<Rightarrow> int \<Rightarrow> events option) \<Rightarrow> (int \<times> direction) set \<Rightarrow> ('op, 'k, 'z) reactor_scheme \<Rightarrow> bool" where
  "interest_inv interest X r \<longleftrightarrow>
     (\<forall>fd d. operation d (opinfo_at fd r) \<noteq> None \<longrightarrow> (fd, d) \<notin> X \<longrightarrow>
        (\<exists>ev. interest (kernel r) fd = Some ev \<and> waits_for d AND ev = waits_for d))"

text \<open>Callbacks that keep it on the descriptors outside \<open>D\<close>.\<close>

definition keeps :: "('k \<Rightarrow> int \<Rightarrow> events option) \<Rightarrow> int set \<Rightarrow> ('op, 'k, 'z) callback \<Rightarrow> bool" where
  "keeps interest D call \<longleftrightarrow>
     (\<forall>op ec X r. D \<times> UNIV \<subseteq> X \<longrightarrow> interest_inv interest X r \<longrightarrow> interest_inv interest X (call op ec r))"

lemma keepsD:
  "keeps interest D call \<Longrightarrow> D \<times> UNIV \<subseteq> X \<Longrightarrow> interest_inv interest X r \<Longrightarrow> interest_inv interest X (call op ec r)"
  by (simp add: keeps_def)

subsection \<open>Reading and writing the infos\<close>

named_theorems reactor_simps \<open>the state after the basic steps\<close>

lemma opinfo_at_put [reactor_simps]:
  "opinfo_at fd' (put_opinfo fd i r) = (if fd' = fd then i else opinfo_at fd' r)"
  by (simp add: opinfo_at_def put_opinfo_def umap_find_assign)

lemma kernel_put [reactor_simps]: "kernel (put_opinfo fd i r) = kernel r"
  by (simp add: put_opinfo_def)

lemma opinfo_at_kernel [reactor_simps]: "opinfo_at fd (r\<lparr>kernel := k\<rparr>) = opinfo_at fd r"
  by (simp add: opinfo_at_def)

lemma opinfo_at_quit [reactor_simps]:
  "opinfo_at fd (r\<lparr>quit := q\<rparr>) = opinfo_at fd r" "opinfo_at fd (r\<lparr>event_array_size := n\<rparr>) = opinfo_at fd r"
  by (simp_all add: opinfo_at_def)

lemma opinfo_at_need [reactor_simps]: "opinfo_at fd' (need_opinfo fd r) = opinfo_at fd' r"
  by (auto simp: need_opinfo_def opinfo_at_put split: option.split) (simp add: opinfo_at_def)

lemma kernel_need [reactor_simps]: "kernel (need_opinfo fd r) = kernel r"
  by (simp add: need_opinfo_def kernel_put split: option.split)

lemma operation_simps [reactor_simps]:
  "operation Reading i = read_op i" "operation Writing i = write_op i"
  "hasReadOperation i \<longleftrightarrow> operation Reading i \<noteq> None" "hasWriteOperation i \<longleftrightarrow> operation Writing i \<noteq> None"
  "setReadOperation op i = set_operation Reading (Some op) i" "setWriteOperation op i = set_operation Writing (Some op) i"
  "opinfo_removeRead i = set_operation Reading None i" "opinfo_removeWrite i = set_operation Writing None i"
  by (simp_all add: operation_def set_operation_def hasReadOperation_def hasWriteOperation_def setReadOperation_def
        setWriteOperation_def opinfo_removeRead_def opinfo_removeWrite_def)

lemma operation_set [reactor_simps]: "operation d' (set_operation d op i) = (if d' = d then op else operation d' i)"
  by (cases d; cases d') (simp_all add: operation_def set_operation_def)

lemma operation_removeAll [reactor_simps]: "operation d (opinfo_removeAll i) = None"
  by (cases d) (simp_all add: opinfo_removeAll_def operation_simps(7,8) operation_set)

lemma other_cases: "d' = d \<or> d' = other d"
  by (cases d; cases d') (simp_all add: other_def)

lemma other_neq [simp]: "other d \<noteq> d" "d \<noteq> other d"
  by (cases d; simp add: other_def)+

lemma waits_for_masks:
  "waits_for d AND waits_for d = waits_for d"
  "waits_for d AND (waits_for d OR waits_for d') = waits_for d"
  "waits_for d AND (waits_for d' OR waits_for d) = waits_for d"
  by (simp_all add: bit.conj_disj_distrib)

subsection \<open>One call of epoll\<close>

lemma epoll_ctl_opinfo [reactor_simps]: "opinfo_at fd' (snd (epoll_ctl os p fd ev r)) = opinfo_at fd' r"
  by (simp add: epoll_ctl_def opinfo_at_kernel split: prod.split)

lemma epoll_ctl_law:
  "epoll_laws os interest \<Longrightarrow> epoll_ctl os p fd ev r = (c, r') \<Longrightarrow> epoll_law interest p fd ev (kernel r) c (kernel r')"
  by (auto simp: epoll_ctl_def split: prod.splits dest: epoll_lawsD)

lemma epoll_remove_eq: "epoll_remove os fd r = epoll_ctl os EPOLL_CTL_DEL fd 0 r"
  by (auto simp: epoll_remove_def ENOENT_def EBADF_def split: prod.splits if_splits)

text \<open>A registration, of either direction: the code says which call of epoll was made.\<close>

definition register ::
  "'k os \<Rightarrow> direction \<Rightarrow> ('op, 'k, 'z) callback \<Rightarrow> int \<Rightarrow> 'op \<Rightarrow> ('op, 'k, 'z) reactor_scheme \<Rightarrow> ('op, 'k, 'z) reactor_scheme" where
  "register os d call fd op r =
     (let r1 = need_opinfo fd r
      in if operation d (opinfo_at fd r1) \<noteq> None then call op err_EOPEXISTS r1
         else (case (if operation (other d) (opinfo_at fd r1) \<noteq> None
                     then epoll_ctl os EPOLL_CTL_MOD fd (waits_for d OR waits_for (other d)) r1
                     else epoll_ctl os EPOLL_CTL_ADD fd (waits_for d) r1) of
                 (errcode, r2) \<Rightarrow>
                   if errcode \<noteq> 0 then call op errcode r2
                   else put_opinfo fd (set_operation d (Some op) (opinfo_at fd r2)) r2))"

definition forget :: "'k os \<Rightarrow> direction \<Rightarrow> int \<Rightarrow> ('op, 'k, 'z) reactor_scheme \<Rightarrow> ('op, 'k, 'z) reactor_scheme" where
  "forget os d fd r =
     snd (if operation (other d) (opinfo_at fd r) \<noteq> None then epoll_ctl os EPOLL_CTL_MOD fd (waits_for (other d)) r
          else epoll_ctl os EPOLL_CTL_DEL fd 0 r)"

lemmas reactor_unfold = epoll_modify_def epoll_register_def epoll_remove_eq other_def waits_for_def Let_def direction.case
  operation_simps(3-8)

lemma register_eqs:
  "registerReadOperation os call fd op r = register os Reading call fd op r"
  "registerWriteOperation os call fd op r = register os Writing call fd op r"
  by (simp_all only: registerReadOperation_def registerWriteOperation_def register_def reactor_unfold)

lemma forget_eqs:
  "epoll_without_read os fd r = forget os Reading fd r"
  "epoll_without_write os fd r = forget os Writing fd r"
  by (simp_all only: epoll_without_read_def epoll_without_write_def forget_def reactor_unfold)

lemma interest_inv_put:
  assumes "interest_inv interest (X \<union> {(fd, Reading), (fd, Writing)}) r"
    and "\<And>d. operation d i \<noteq> None \<Longrightarrow> (fd, d) \<notin> X \<Longrightarrow>
      \<exists>ev. interest (kernel r) fd = Some ev \<and> waits_for d AND ev = waits_for d"
  shows "interest_inv interest X (put_opinfo fd i r)"
  using assms by (auto simp: interest_inv_def reactor_simps split: if_splits)

lemma interest_inv_mono: "interest_inv interest X r \<Longrightarrow> X \<subseteq> Y \<Longrightarrow> interest_inv interest Y r"
  by (auto simp: interest_inv_def)

lemma direction_pair: "d = Reading \<or> d = Writing"
  by (cases d) simp_all

lemma interest_inv_ctl:
  assumes "epoll_laws os interest" and "epoll_ctl os p fd ev r = (c, r')" and "interest_inv interest X r"
  shows "interest_inv interest (X \<union> {(fd, Reading), (fd, Writing)}) r'"
  unfolding interest_inv_def
proof (intro allI impI)
  fix fd' d
  assume d: "operation d (opinfo_at fd' r') \<noteq> None" "(fd', d) \<notin> X \<union> {(fd, Reading), (fd, Writing)}"
  then have "fd' \<noteq> fd" "(fd', d) \<notin> X"
    using direction_pair [of d] by auto
  moreover have "operation d (opinfo_at fd' r) \<noteq> None"
    using d(1) epoll_ctl_opinfo [of fd' os p fd ev r] assms(2) by simp
  moreover have "interest (kernel r') fd' = interest (kernel r) fd'"
    using epoll_ctl_law [OF assms(1,2)] \<open>fd' \<noteq> fd\<close> by (auto simp: epoll_law_def split: if_splits)
  ultimately show "\<exists>ev. interest (kernel r') fd' = Some ev \<and> waits_for d AND ev = waits_for d"
    using assms(3) by (simp add: interest_inv_def)
qed

lemma interest_inv_same:
  assumes "\<And>fd. opinfo_at fd r' = opinfo_at fd r" and "interest (kernel r') = interest (kernel r)"
    and "interest_inv interest X r"
  shows "interest_inv interest X r'"
  using assms by (simp add: interest_inv_def)

subsection \<open>Every operation keeps the invariant\<close>

lemma register_keeps:
  assumes "epoll_laws os interest" and "keeps interest D call" and "interest_inv interest X r" and "D \<times> UNIV \<subseteq> X"
  shows "interest_inv interest X (register os d call fd op r)"
proof -
  let ?r1 = "need_opinfo fd r"
  have r1: "interest_inv interest X ?r1"
    by (rule interest_inv_same [OF _ _ assms(3)]) (simp_all add: reactor_simps)
  define p where "p = (if operation (other d) (opinfo_at fd ?r1) \<noteq> None then EPOLL_CTL_MOD else EPOLL_CTL_ADD)"
  define ev where "ev = (if operation (other d) (opinfo_at fd ?r1) \<noteq> None then waits_for d OR waits_for (other d) else waits_for d)"
  obtain c r2 where ctl: "epoll_ctl os p fd ev ?r1 = (c, r2)" by fastforce
  have eq: "register os d call fd op r =
      (if operation d (opinfo_at fd ?r1) \<noteq> None then call op err_EOPEXISTS ?r1
       else if c \<noteq> 0 then call op c r2 else put_opinfo fd (set_operation d (Some op) (opinfo_at fd r2)) r2)"
    using ctl by (auto simp: register_def p_def ev_def Let_def)
  have same: "opinfo_at fd' r2 = opinfo_at fd' ?r1" for fd'
    using epoll_ctl_opinfo [of fd' os p fd ev ?r1] ctl by simp
  note law = epoll_ctl_law [OF assms(1) ctl]
  have "interest_inv interest X r2" if "c \<noteq> 0"
    using interest_inv_same [OF same _ r1] law that by (simp add: epoll_law_def)
  moreover have "interest_inv interest X (put_opinfo fd (set_operation d (Some op) (opinfo_at fd r2)) r2)" if "c = 0"
  proof (rule interest_inv_put [OF interest_inv_ctl [OF assms(1) ctl r1]])
    fix d'
    assume d': "operation d' (set_operation d (Some op) (opinfo_at fd r2)) \<noteq> None"
    have "interest (kernel r2) fd = Some ev"
      using law \<open>c = 0\<close> by (simp add: epoll_law_def p_def)
    moreover have "waits_for d' AND ev = waits_for d'"
      using d' other_cases [of d' d] by (auto simp: ev_def same operation_set waits_for_masks)
    ultimately show "\<exists>ev. interest (kernel r2) fd = Some ev \<and> waits_for d' AND ev = waits_for d'" by blast
  qed
  ultimately show ?thesis
    using r1 by (simp add: eq keepsD [OF assms(2,4)])
qed

text \<open>Telling epoll to forget a direction touches only what the other one does not need.\<close>

lemma forget_keeps:
  assumes "epoll_laws os interest" and "interest_inv interest X r"
  shows "interest_inv interest (X \<union> {(fd, d)}) (forget os d fd r)"
    and "opinfo_at fd' (forget os d fd r) = opinfo_at fd' r"
proof -
  define p where "p = (if operation (other d) (opinfo_at fd r) \<noteq> None then EPOLL_CTL_MOD else EPOLL_CTL_DEL)"
  define ev where "ev = (if operation (other d) (opinfo_at fd r) \<noteq> None then waits_for (other d) else 0)"
  obtain c r2 where ctl: "epoll_ctl os p fd ev r = (c, r2)" by fastforce
  have eq: "forget os d fd r = r2"
    using ctl by (auto simp: forget_def p_def ev_def)
  have same: "opinfo_at fd' r2 = opinfo_at fd' r" for fd'
    using epoll_ctl_opinfo [of fd' os p fd ev r] ctl by simp
  then show "opinfo_at fd' (forget os d fd r) = opinfo_at fd' r" by (simp add: eq)
  note law = epoll_ctl_law [OF assms(1) ctl]
  show "interest_inv interest (X \<union> {(fd, d)}) (forget os d fd r)"
  proof (cases "c = 0")
    case False
    then have "interest_inv interest X r2"
      using interest_inv_same [OF same _ assms(2)] law by (simp add: epoll_law_def)
    then show ?thesis using interest_inv_mono eq by blast
  next
    case True
    have "interest_inv interest (X \<union> {(fd, Reading), (fd, Writing)}) r2"
      by (rule interest_inv_ctl [OF assms(1) ctl assms(2)])
    moreover have "operation (other d) (opinfo_at fd r2) \<noteq> None \<Longrightarrow> interest (kernel r2) fd = Some (waits_for (other d))"
      using law True by (simp add: epoll_law_def p_def ev_def same)
    moreover have "{(fd, Reading), (fd, Writing)} = {(fd, d), (fd, other d)}"
      by (cases d) (auto simp: other_def)
    ultimately have inv: "interest_inv interest (X \<union> {(fd, d), (fd, other d)}) r2"
      and it: "operation (other d) (opinfo_at fd r2) \<noteq> None \<Longrightarrow> interest (kernel r2) fd = Some (waits_for (other d))"
      by simp_all
    show ?thesis
      unfolding eq interest_inv_def
    proof (intro allI impI)
      fix fd' d'
      assume d': "operation d' (opinfo_at fd' r2) \<noteq> None" "(fd', d') \<notin> X \<union> {(fd, d)}"
      show "\<exists>ev. interest (kernel r2) fd' = Some ev \<and> waits_for d' AND ev = waits_for d'"
      proof (cases "fd' = fd")
        case True
        then have "d' = other d" using d'(2) other_cases [of d' d] by auto
        then show ?thesis using it d'(1) True by (simp add: waits_for_masks)
      next
        case False
        then show ?thesis using inv d' by (simp add: interest_inv_def)
      qed
    qed
  qed
qed

text \<open>Taking the operation itself away closes the exception.\<close>

lemma interest_inv_clear:
  assumes "interest_inv interest (X \<union> {(fd, d)}) r"
  shows "interest_inv interest X (put_opinfo fd (set_operation d None (opinfo_at fd r)) r)"
  using assms by (auto simp: interest_inv_def reactor_simps)

definition opinfo_cancel :: "direction \<Rightarrow> ('op, 'k, 'z) callback \<Rightarrow> int \<Rightarrow> ('op, 'k, 'z) reactor_scheme \<Rightarrow> ('op, 'k, 'z) reactor_scheme" where
  "opinfo_cancel d call fd r =
     (case operation d (opinfo_at fd r) of
        None \<Rightarrow> r
      | Some op \<Rightarrow> call op err_EOPCANCELED (put_opinfo fd (set_operation d None (opinfo_at fd r)) r))"

lemma opinfo_cancel_eqs:
  "opinfo_cancelRead call fd r = opinfo_cancel Reading call fd r"
  "opinfo_cancelWrite call fd r = opinfo_cancel Writing call fd r"
  by (simp_all add: opinfo_cancelRead_def opinfo_cancelWrite_def opinfo_cancel_def operation_simps(1,2,7,8)
        split: option.split)

lemma interest_inv_drop:
  assumes "operation d (opinfo_at fd r) = None" and "interest_inv interest (X \<union> {(fd, d)}) r"
  shows "interest_inv interest X r"
  unfolding interest_inv_def
proof (intro allI impI)
  fix fd' d'
  assume d': "operation d' (opinfo_at fd' r) \<noteq> None" "(fd', d') \<notin> X"
  then have "(fd', d') \<notin> X \<union> {(fd, d)}"
    using assms(1) by auto
  then show "\<exists>ev. interest (kernel r) fd' = Some ev \<and> waits_for d' AND ev = waits_for d'"
    using assms(2) d'(1) by (simp add: interest_inv_def)
qed

lemma opinfo_cancel_keeps:
  assumes "keeps interest D call" and "D \<times> UNIV \<subseteq> X" and "interest_inv interest (X \<union> {(fd, d)}) r"
  shows "interest_inv interest X (opinfo_cancel d call fd r)"
proof (cases "operation d (opinfo_at fd r)")
  case None
  then show ?thesis
    using interest_inv_drop [OF None assms(3)] by (simp add: opinfo_cancel_def)
next
  case (Some op)
  then show ?thesis
    using keepsD [OF assms(1,2) interest_inv_clear [OF assms(3)]] by (simp add: opinfo_cancel_def)
qed

lemma epoll_remove_keeps:
  assumes "epoll_laws os interest" and "interest_inv interest X r"
  shows "interest_inv interest (X \<union> {(fd, Reading), (fd, Writing)}) (snd (epoll_remove os fd r))"
  using interest_inv_ctl [OF assms(1) _ assms(2)] unfolding epoll_remove_eq by (metis prod.collapse)

lemma reactor_operations_keep:
  assumes "epoll_laws os interest" and "keeps interest D call" and "interest_inv interest X r" and "D \<times> UNIV \<subseteq> X"
  shows "interest_inv interest X (registerReadOperation os call fd op r)"
    and "interest_inv interest X (registerWriteOperation os call fd op r)"
    and "interest_inv interest X (removeReadOperation os fd r)"
    and "interest_inv interest X (removeWriteOperation os fd r)"
    and "interest_inv interest X (cancelReadOperation os call fd r)"
    and "interest_inv interest X (cancelWriteOperation os call fd r)"
    and "interest_inv interest X (removeAllOperations os fd r)"
    and "interest_inv interest X (cancelAllOperations os call fd r)"
    and "interest_inv interest X (reactor_quit r)"
proof -
  note forget = forget_keeps(1) [OF assms(1,3)]
  note clear = interest_inv_clear [OF forget]
  note remove = epoll_remove_keeps [OF assms(1,3), of fd]
  show "interest_inv interest X (registerReadOperation os call fd op r)"
    and "interest_inv interest X (registerWriteOperation os call fd op r)"
    unfolding register_eqs by (rule register_keeps [OF assms])+
  show "interest_inv interest X (removeReadOperation os fd r)"
    and "interest_inv interest X (removeWriteOperation os fd r)"
    using clear assms(3)
    by (simp_all add: removeReadOperation_def removeWriteOperation_def forget_eqs operation_simps(7,8) Let_def)
  show "interest_inv interest X (cancelReadOperation os call fd r)"
    and "interest_inv interest X (cancelWriteOperation os call fd r)"
    using opinfo_cancel_keeps [OF assms(2,4) forget] assms(3)
    by (simp_all add: cancelReadOperation_def cancelWriteOperation_def forget_eqs opinfo_cancel_eqs)
  have "X \<union> {(fd, Reading), (fd, Writing)} = (X \<union> {(fd, Writing)}) \<union> {(fd, Reading)}" by auto
  note remove' = remove [unfolded this]
  have "interest_inv interest X (opinfo_cancelAll call fd (snd (epoll_remove os fd r)))"
    unfolding opinfo_cancelAll_def opinfo_cancel_eqs
    using assms(4) by (intro opinfo_cancel_keeps [OF assms(2)] remove') auto
  then show "interest_inv interest X (cancelAllOperations os call fd r)"
    using assms(3) by (simp add: cancelAllOperations_def)
  have "interest_inv interest X (put_opinfo fd (opinfo_removeAll i) (snd (epoll_remove os fd r)))" for i
    by (rule interest_inv_put [OF remove]) (simp add: operation_removeAll)
  then show "interest_inv interest X (removeAllOperations os fd r)"
    using assms(3) by (simp add: removeAllOperations_def Let_def)
  show "interest_inv interest X (reactor_quit r)"
    using assms(3) by (simp add: reactor_quit_def interest_inv_def opinfo_at_quit)
qed

subsection \<open>What epoll leaves alone\<close>

text \<open>\<open>view\<close> is any part of the state outside that \<^verbatim>\<open>epoll_ctl\<close> does not touch.\<close>

definition untouched :: "'k os \<Rightarrow> ('k \<Rightarrow> 'v) \<Rightarrow> bool" where
  "untouched os view \<longleftrightarrow> (\<forall>p fd ev k. view (snd (os_epoll_ctl os p fd ev k)) = view k)"

lemma untouched_ctl: "untouched os view \<Longrightarrow> epoll_ctl os p fd ev r = (c, r') \<Longrightarrow> view (kernel r') = view (kernel r)"
proof -
  assume "untouched os view" and "epoll_ctl os p fd ev r = (c, r')"
  then have "view (kernel r') = view (snd (os_epoll_ctl os p fd ev (kernel r)))"
    by (auto simp: epoll_ctl_def split: prod.splits)
  then show ?thesis
    using \<open>untouched os view\<close> by (simp add: untouched_def)
qed

lemma forget_untouched:
  assumes "untouched os view"
  shows "view (kernel (forget os d fd r)) = view (kernel r)" and "opinfo_at fd' (forget os d fd r) = opinfo_at fd' r"
  by (simp_all add: forget_def epoll_ctl_opinfo untouched_ctl [OF assms prod.collapse [symmetric]])

text \<open>A registration in a free place: done, or refused by epoll.\<close>

lemma register_cases:
  assumes "untouched os view" and "operation d (opinfo_at fd r) = None"
  obtains (refused) c r2 where "c \<noteq> 0" "register os d call fd op r = call op c r2" "opinfo_at fd r2 = opinfo_at fd r"
      "view (kernel r2) = view (kernel r)"
  | (registered) r2 where "register os d call fd op r = r2" "opinfo_at fd r2 = set_operation d (Some op) (opinfo_at fd r)"
      "view (kernel r2) = view (kernel r)"
proof -
  let ?r1 = "need_opinfo fd r"
  define p where "p = (if operation (other d) (opinfo_at fd ?r1) \<noteq> None then EPOLL_CTL_MOD else EPOLL_CTL_ADD)"
  define ev where "ev = (if operation (other d) (opinfo_at fd ?r1) \<noteq> None then waits_for d OR waits_for (other d) else waits_for d)"
  obtain c r2 where ctl: "epoll_ctl os p fd ev ?r1 = (c, r2)" by fastforce
  have eq: "register os d call fd op r =
      (if c \<noteq> 0 then call op c r2 else put_opinfo fd (set_operation d (Some op) (opinfo_at fd r2)) r2)"
    using ctl assms(2) by (auto simp: register_def p_def ev_def Let_def reactor_simps)
  have "opinfo_at fd r2 = opinfo_at fd r" "view (kernel r2) = view (kernel r)"
    using untouched_ctl [OF assms(1) ctl] epoll_ctl_opinfo [of fd os p fd ev ?r1] ctl by (simp_all add: reactor_simps)
  then show ?thesis
    using eq refused [of c r2] registered [of "put_opinfo fd (set_operation d (Some op) (opinfo_at fd r2)) r2"]
    by (cases "c = 0") (simp_all add: reactor_simps)
qed

subsection \<open>The loop and callbacks\<close>

lemma dispatch_event_keeps:
  assumes "keeps interest D call" and "D \<times> UNIV \<subseteq> X" and "interest_inv interest X r"
  shows "interest_inv interest X (dispatch_event call e r)"
proof -
  have "interest_inv interest X (doReadOperation call fd ec s)" "interest_inv interest X (doWriteOperation call fd ec s)"
    if "interest_inv interest X s" for fd ec s
    using keepsD [OF assms(1,2) that] that by (simp_all add: doReadOperation_def doWriteOperation_def split: option.split)
  then show ?thesis
    using assms(3) by (cases e) (simp add: dispatch_event_def Let_def)
qed

lemma dispatch_events_keep:
  "keeps interest D call \<Longrightarrow> D \<times> UNIV \<subseteq> X \<Longrightarrow> interest_inv interest X r \<Longrightarrow>
   interest_inv interest X (fold (dispatch_event call) evs r)"
  by (induction evs arbitrary: r) (simp_all add: dispatch_event_keeps)

lemma interest_inv_size: "interest_inv interest X s \<Longrightarrow> interest_inv interest X (s\<lparr>event_array_size := m\<rparr>)"
  by (simp add: interest_inv_def opinfo_at_quit)

lemma reactor_loop_keeps:
  assumes "epoll_laws os interest" and "keeps interest D call" and "D \<times> UNIV \<subseteq> X"
  shows "interest_inv interest X r \<Longrightarrow> reactor_loop os call n r = Some (c, r') \<Longrightarrow> interest_inv interest X r'"
proof (induction n arbitrary: r)
  case 0
  then show ?case by (simp split: if_splits)
next
  case (Suc n)
  show ?case
  proof (cases "quit r")
    case True
    then show ?thesis using Suc.prems by simp
  next
    case False
    obtain a k where w: "os_epoll_wait os (event_array_size r) (kernel r) = (a, k)" by fastforce
    have inv: "interest_inv interest X (r\<lparr>kernel := k\<rparr>)"
      using interest_inv_same [OF _ _ Suc.prems(1), of "r\<lparr>kernel := k\<rparr>"] epoll_waitD(1) [OF assms(1) w]
      by (simp add: opinfo_at_kernel)
    note size = interest_inv_size
    show ?thesis
      using Suc.prems(2) False w Suc.IH [OF inv] Suc.IH [OF dispatch_events_keep [OF assms(2,3) inv]]
        Suc.IH [OF size [OF dispatch_events_keep [OF assms(2,3) inv]]] inv
      by (auto simp: Let_def split: sum.splits if_splits)
  qed
qed

text \<open>
  Callbacks that are sequences of requests: \<open>body\<close> says what an operation does when it is run with a code, given the
  state outside the library, which it may change but for the interest set; the operations it runs in turn are nested
  one level deeper.
\<close>

datatype 'op request =
    Register_read int 'op
  | Register_write int 'op
  | Remove_read int
  | Remove_write int
  | Cancel_read int
  | Cancel_write int
  | Remove_all int
  | Cancel_all int
  | Quit

fun perform :: "'k os \<Rightarrow> ('op, 'k, 'z) callback \<Rightarrow> 'op request \<Rightarrow> ('op, 'k, 'z) reactor_scheme \<Rightarrow> ('op, 'k, 'z) reactor_scheme" where
  "perform os call (Register_read fd op) r = registerReadOperation os call fd op r"
| "perform os call (Register_write fd op) r = registerWriteOperation os call fd op r"
| "perform os call (Remove_read fd) r = removeReadOperation os fd r"
| "perform os call (Remove_write fd) r = removeWriteOperation os fd r"
| "perform os call (Cancel_read fd) r = cancelReadOperation os call fd r"
| "perform os call (Cancel_write fd) r = cancelWriteOperation os call fd r"
| "perform os call (Remove_all fd) r = removeAllOperations os fd r"
| "perform os call (Cancel_all fd) r = cancelAllOperations os call fd r"
| "perform os call Quit r = reactor_quit r"

type_synonym ('op, 'k) body = "'op \<Rightarrow> int \<Rightarrow> 'k \<Rightarrow> 'op request list \<times> 'k"

fun run_body :: "'k os \<Rightarrow> ('op, 'k) body \<Rightarrow> nat \<Rightarrow> ('op, 'k, 'z) callback" where
  "run_body os body 0 op ec r = r\<lparr>kernel := snd (body op ec (kernel r))\<rparr>"
| "run_body os body (Suc n) op ec r =
     (case body op ec (kernel r) of
        (requests, k) \<Rightarrow> fold (perform os (run_body os body n)) requests (r\<lparr>kernel := k\<rparr>))"

text \<open>
  What epoll watches outside \<open>D\<close> changes only through the reactor: the descriptors that callbacks close themselves, which epoll
  then forgets, are in \<open>D\<close>.
\<close>

definition leaves_epoll :: "('k \<Rightarrow> int \<Rightarrow> events option) \<Rightarrow> int set \<Rightarrow> ('op, 'k) body \<Rightarrow> bool" where
  "leaves_epoll interest D body \<longleftrightarrow> (\<forall>op ec k fd. fd \<notin> D \<longrightarrow> interest (snd (body op ec k)) fd = interest k fd)"

lemma interest_inv_elsewhere:
  assumes "\<And>fd. fd \<notin> D \<Longrightarrow> interest k fd = interest (kernel r) fd" and "D \<times> UNIV \<subseteq> X" and "interest_inv interest X r"
  shows "interest_inv interest X (r\<lparr>kernel := k\<rparr>)"
  using assms by (force simp: interest_inv_def opinfo_at_kernel)

lemma perform_keeps:
  assumes "epoll_laws os interest" and "keeps interest D call" and "interest_inv interest X r" and "D \<times> UNIV \<subseteq> X"
  shows "interest_inv interest X (perform os call req r)"
  using reactor_operations_keep [OF assms] by (cases req) simp_all

lemma performs_keep:
  "epoll_laws os interest \<Longrightarrow> keeps interest D call \<Longrightarrow> D \<times> UNIV \<subseteq> X \<Longrightarrow> interest_inv interest X r \<Longrightarrow>
   interest_inv interest X (fold (perform os call) reqs r)"
  by (induction reqs arbitrary: r) (simp_all add: perform_keeps)

lemma run_body_keeps:
  assumes "epoll_laws os interest" and "leaves_epoll interest D body"
  shows "keeps interest D (run_body os body n :: ('op, 'k, 'z) callback)"
proof (induction n)
  case 0
  show ?case
    unfolding keeps_def
  proof (intro allI impI)
    fix op ec X and r :: "('op, 'k, 'z) reactor_scheme"
    assume "D \<times> UNIV \<subseteq> X" and "interest_inv interest X r"
    then have "interest_inv interest X (r\<lparr>kernel := snd (body op ec (kernel r))\<rparr>)"
      using assms(2) interest_inv_elsewhere [of D interest "snd (body op ec (kernel r))" r X] by (simp add: leaves_epoll_def)
    then show "interest_inv interest X (run_body os body 0 op ec r)" by simp
  qed
next
  case (Suc n)
  show ?case
    unfolding keeps_def
  proof (intro allI impI)
    fix op ec X and r :: "('op, 'k, 'z) reactor_scheme"
    assume X: "D \<times> UNIV \<subseteq> X" and r: "interest_inv interest X r"
    obtain reqs k where b: "body op ec (kernel r) = (reqs, k)" by fastforce
    then have "interest k fd = interest (kernel r) fd" if "fd \<notin> D" for fd
      using assms(2) that unfolding leaves_epoll_def by (metis snd_conv)
    then have "interest_inv interest X (r\<lparr>kernel := k\<rparr>)"
      using X r by (rule interest_inv_elsewhere)
    then show "interest_inv interest X (run_body os body (Suc n) op ec r)"
      using performs_keep [OF assms(1) Suc.IH X] b by simp
  qed
qed

text \<open>
  The histories of a reactor: requests made outside the loop, such as those of the thread that owns it before it calls
  the loop, batches of events that a running loop has received and dispatched, after which its array may have grown,
  and loops that returned.
\<close>

inductive reactor_reach :: "'k os \<Rightarrow> ('op, 'k) body \<Rightarrow> nat \<Rightarrow> 'k \<Rightarrow> ('op, 'k) reactor \<Rightarrow> bool"
  for os body n k0 where
  start: "reactor_reach os body n k0 (ReactorService k0)"
| request: "reactor_reach os body n k0 r \<Longrightarrow> reactor_reach os body n k0 (perform os (run_body os body n) req r)"
| interrupted: "reactor_reach os body n k0 r \<Longrightarrow> os_epoll_wait os (event_array_size r) (kernel r) = (Inl e, k) \<Longrightarrow>
    reactor_reach os body n k0 (r\<lparr>quit := q, kernel := k\<rparr>)"
| events: "reactor_reach os body n k0 r \<Longrightarrow> os_epoll_wait os (event_array_size r) (kernel r) = (Inr evs, k) \<Longrightarrow>
    reactor_reach os body n k0
      ((fold (dispatch_event (run_body os body n)) evs (r\<lparr>quit := False, kernel := k\<rparr>))\<lparr>event_array_size := m\<rparr>)"
| loop: "reactor_reach os body n k0 r \<Longrightarrow> loop_wait os (run_body os body n) m r = Some (c, r') \<Longrightarrow> reactor_reach os body n k0 r'"

lemma reactor_reach_inv:
  assumes "epoll_laws os interest" and "leaves_epoll interest D body"
  shows "reactor_reach os body n k0 r \<Longrightarrow> interest_inv interest (D \<times> UNIV) r"
proof (induction rule: reactor_reach.induct)
  case start
  show ?case by (simp add: interest_inv_def ReactorService_def opinfo_at_def umap_find_def OperationInfo_def operation_def
        split: direction.split)
next
  case (request r req)
  then show ?case by (intro perform_keeps [OF assms(1) run_body_keeps [OF assms]]) simp_all
next
  case (interrupted r e k q)
  then show ?case
    using epoll_waitD(1) [OF assms(1) interrupted.hyps(2)]
    by (simp add: interest_inv_def opinfo_at_kernel opinfo_at_quit)
next
  case (events r evs k m)
  then have "interest_inv interest (D \<times> UNIV) (r\<lparr>quit := False, kernel := k\<rparr>)"
    using epoll_waitD(1) [OF assms(1) events.hyps(2)]
    by (simp add: interest_inv_def opinfo_at_kernel opinfo_at_quit)
  then show ?case
    by (intro interest_inv_size dispatch_events_keep [OF run_body_keeps [OF assms]]) simp_all
next
  case (loop r m c r')
  then have "interest_inv interest (D \<times> UNIV) (r\<lparr>quit := False\<rparr>)"
    by (simp add: interest_inv_def opinfo_at_quit)
  then show ?case
    using reactor_loop_keeps [OF assms(1) run_body_keeps [OF assms] order_refl] loop.hyps(2) by (auto simp: loop_wait_def)
qed

text \<open>C6: Whatever requests are made of a reactor and whatever events arrive, with operations that use the reactor again
  to any depth while they run, that close any of the descriptors in \<open>D\<close> behind its back, and calls of epoll that fail, every operation
  that is registered for a descriptor outside \<open>D\<close> is known to epoll with the events it waits for: no registered operation is
  forgotten but by closing its descriptor.\<close>

theorem reactor_registered_in_interest:
  assumes "epoll_laws os interest" and "leaves_epoll interest D body" and "reactor_reach os body n k0 r" and "fd \<notin> D"
  shows "(read_op (opinfo_at fd r) \<noteq> None \<longrightarrow>
      (\<exists>ev. interest (kernel r) fd = Some ev \<and> (EPOLLIN OR EPOLLPRI) AND ev = EPOLLIN OR EPOLLPRI)) \<and>
    (write_op (opinfo_at fd r) \<noteq> None \<longrightarrow> (\<exists>ev. interest (kernel r) fd = Some ev \<and> EPOLLOUT AND ev = EPOLLOUT))"
proof -
  have inv: "operation d (opinfo_at fd r) \<noteq> None \<Longrightarrow>
      \<exists>ev. interest (kernel r) fd = Some ev \<and> waits_for d AND ev = waits_for d" for d
    using reactor_reach_inv [OF assms(1-3)] assms(4) by (auto simp: interest_inv_def)
  show ?thesis
    using inv [of Reading] inv [of Writing] by (simp add: operation_def waits_for_def)
qed

subsection \<open>A kernel for the examples\<close>

text \<open>Its state is the interest set, the events to be reported, and a log of the codes operations were run with.\<close>

record small_kernel =
  sk_interest :: "int \<Rightarrow> events option"
  sk_events :: "(int \<times> events) list list"
  sk_log :: "(nat \<times> int) list"

definition small_ctl :: "epoll_op \<Rightarrow> int \<Rightarrow> events \<Rightarrow> small_kernel \<Rightarrow> int \<times> small_kernel" where
  "small_ctl p fd ev k =
     (if p = EPOLL_CTL_ADD \<and> sk_interest k fd \<noteq> None then (17, k)
      else if p \<noteq> EPOLL_CTL_ADD \<and> sk_interest k fd = None then (ENOENT, k)
      else (0, k\<lparr>sk_interest := (sk_interest k)(fd := (if p = EPOLL_CTL_DEL then None else Some ev))\<rparr>))"

definition small_wait :: "nat \<Rightarrow> small_kernel \<Rightarrow> (int + (int \<times> events) list) \<times> small_kernel" where
  "small_wait n k =
     (case sk_events k of
        [] \<Rightarrow> (Inl EINTR, k)
      | evs # rest \<Rightarrow> (Inr (take n evs), k\<lparr>sk_events := rest\<rparr>))"

definition small_os :: "small_kernel os" where
  "small_os =
     \<lparr>os_epoll_ctl = small_ctl, os_epoll_wait = small_wait,
      os_socket = (\<lambda>f t k. (Inr 3, k)), os_getfl = (\<lambda>fd k. 0), os_setfl = (\<lambda>fd fl k. k), os_close = (\<lambda>fd k. (0, k)),
      os_recv = (\<lambda>fd a n k. (Inr 0, k)), os_send = (\<lambda>fd a n k. (Inr n, k)),
      os_recvfrom = (\<lambda>fd a n k. (Inr (0, []), k)), os_sendto = (\<lambda>fd a n ad k. (Inr n, k)),
      os_accept = (\<lambda>fd k. (Inr 4, k)), os_connect = (\<lambda>fd ad k. (0, k)), os_so_error = (\<lambda>fd k. (0, k)),
      os_bind = (\<lambda>fd ad k. (0, k)), os_listen = (\<lambda>fd n k. (0, k)), os_setsockopt = (\<lambda>fd opt v k. (0, k)),
      os_shutdown = (\<lambda>fd h k. (0, k)), os_getpeername = (\<lambda>fd n k. (Inr [], k)), os_getsockname = (\<lambda>fd n k. (Inr [], k)),
      os_signalfd = (\<lambda>fd sigs k. (Inr 6, k)), os_sigmask = (\<lambda>b sigs k. k), os_read_siginfo = (\<lambda>fd k. (2, k))\<rparr>"

definition small_kernel0 :: small_kernel where
  "small_kernel0 = \<lparr>sk_interest = (\<lambda>_. None), sk_events = [], sk_log = []\<rparr>"

lemma small_os_laws: "epoll_laws small_os sk_interest"
  by (auto simp: epoll_laws_def epoll_law_def small_os_def small_ctl_def small_wait_def ENOENT_def split: list.split)

text \<open>Operations that only log, and operations that also close the descriptor 9.\<close>

definition log_body :: "(nat, small_kernel) body" where
  "log_body op ec k = ([], k\<lparr>sk_log := sk_log k @ [(op, ec)]\<rparr>)"

definition closing_body :: "(nat, small_kernel) body" where
  "closing_body op ec k = ([], k\<lparr>sk_log := sk_log k @ [(op, ec)], sk_interest := (sk_interest k)(9 := None)\<rparr>)"

lemma closing_body_leaves: "leaves_epoll sk_interest {9} closing_body"
  by (simp add: leaves_epoll_def closing_body_def)

definition example_reactor :: "(nat, small_kernel) reactor" where
  "example_reactor = perform small_os (run_body small_os closing_body 1) (Register_read 5 7) (ReactorService small_kernel0)"

theorem reactor_registered_in_interest_witness:
  "read_op (opinfo_at 5 example_reactor) = Some 7 \<and>
   (\<exists>ev. sk_interest (kernel example_reactor) 5 = Some ev \<and> (EPOLLIN OR EPOLLPRI) AND ev = EPOLLIN OR EPOLLPRI)"
proof -
  have "reactor_reach small_os closing_body 1 small_kernel0 example_reactor"
    unfolding example_reactor_def by (intro request start)
  note inv = reactor_registered_in_interest [OF small_os_laws closing_body_leaves this, of 5]
  have "read_op (opinfo_at 5 example_reactor) = Some 7"
    by (simp add: example_reactor_def ReactorService_def registerReadOperation_def need_opinfo_def opinfo_at_def
        put_opinfo_def umap_find_def OperationInfo_def hasReadOperation_def hasWriteOperation_def epoll_register_def
        epoll_ctl_def small_os_def small_ctl_def small_kernel0_def setReadOperation_def Let_def)
  then show ?thesis using inv by simp
qed

end
