(* ===== verification/Reactor_Cancel.thy ===== *)
theory Reactor_Cancel
  imports Reactor_Invariant
begin

section \<open>Cancelling operations that register again\<close>

text \<open>
  The comments of \<^verbatim>\<open>OperationInfo::cancelReadOperation\<close> promise that an operation which its callback registers again
  when it is cancelled is not overwritten. The theory shows that this holds for \<open>cancelReadOperation\<close>, and that
  \<open>cancelAllOperations\<close> breaks it when an operation of the other direction waits: epoll has already forgotten the
  descriptor, so the new registration, which changes an entry, is refused with \<^verbatim>\<open>ENOENT\<close>.
\<close>

text \<open>A kernel whose \<^verbatim>\<open>epoll_ctl\<close> fails only where it must.\<close>

definition epoll_reliable :: "'k os \<Rightarrow> ('k \<Rightarrow> int \<Rightarrow> events option) \<Rightarrow> bool" where
  "epoll_reliable os interest \<longleftrightarrow>
     epoll_laws os interest \<and>
     (\<forall>p fd ev k. (interest k fd = None \<longleftrightarrow> p = EPOLL_CTL_ADD) \<longrightarrow> fst (os_epoll_ctl os p fd ev k) = 0)"

lemma epoll_reliable_ctl:
  assumes "epoll_reliable os interest" and "epoll_ctl os p fd ev r = (c, r')"
  shows "c = 0 \<longleftrightarrow> (interest (kernel r) fd = None \<longleftrightarrow> p = EPOLL_CTL_ADD)"
    and "c = 0 \<Longrightarrow> interest (kernel r') = (interest (kernel r))(fd := (if p = EPOLL_CTL_DEL then None else Some ev))"
    and "p = EPOLL_CTL_MOD \<Longrightarrow> interest (kernel r) fd = None \<Longrightarrow> c = ENOENT"
    and "opinfo_at fd' r' = opinfo_at fd' r"
proof -
  have law: "epoll_law interest p fd ev (kernel r) c (kernel r')"
    using epoll_ctl_law [OF _ assms(2)] assms(1) by (simp add: epoll_reliable_def)
  have c: "c = fst (os_epoll_ctl os p fd ev (kernel r))"
    using assms(2) by (auto simp: epoll_ctl_def split: prod.splits)
  have "(interest (kernel r) fd = None \<longleftrightarrow> p = EPOLL_CTL_ADD) \<Longrightarrow> c = 0"
    unfolding c using assms(1) by (simp add: epoll_reliable_def)
  then show "c = 0 \<longleftrightarrow> (interest (kernel r) fd = None \<longleftrightarrow> p = EPOLL_CTL_ADD)"
    using law unfolding epoll_law_def by argo
  show "c = 0 \<Longrightarrow> interest (kernel r') = (interest (kernel r))(fd := (if p = EPOLL_CTL_DEL then None else Some ev))"
    using law by (simp add: epoll_law_def)
  show "p = EPOLL_CTL_MOD \<Longrightarrow> interest (kernel r) fd = None \<Longrightarrow> c = ENOENT"
    using law by (simp add: epoll_law_def split: if_splits)
  show "opinfo_at fd' r' = opinfo_at fd' r"
    using epoll_ctl_opinfo [of fd' os p fd ev r] assms(2) by simp
qed

text \<open>Operations whose runs are logged; the operation \<open>a\<close> registers \<open>b\<close> when it is cancelled.\<close>

definition rereg_body :: "(('op \<times> int) \<Rightarrow> 'k \<Rightarrow> 'k) \<Rightarrow> int \<Rightarrow> 'op \<Rightarrow> 'op \<Rightarrow> ('op, 'k) body" where
  "rereg_body note fd a b op ec k =
     (if op = a \<and> ec = err_EOPCANCELED then [Register_read fd b] else [], note (op, ec) k)"

definition logs :: "'k os \<Rightarrow> ('k \<Rightarrow> int \<Rightarrow> events option) \<Rightarrow> ('k \<Rightarrow> ('op \<times> int) list) \<Rightarrow> (('op \<times> int) \<Rightarrow> 'k \<Rightarrow> 'k) \<Rightarrow> bool" where
  "logs os interest log note \<longleftrightarrow>
     (\<forall>x k. log (note x k) = log k @ [x] \<and> interest (note x k) = interest k) \<and>
     (\<forall>p fd ev k. log (snd (os_epoll_ctl os p fd ev k)) = log k)"

lemma logsD:
  "logs os interest log note \<Longrightarrow> log (note x k) = log k @ [x]"
  "logs os interest log note \<Longrightarrow> interest (note x k) = interest k"
  unfolding logs_def by blast+

lemma logs_untouched: "logs os interest log note \<Longrightarrow> untouched os log"
  unfolding logs_def untouched_def by blast

text \<open>One cancellation of the operation \<open>a\<close>, in a state in which it is \<open>d\<close>'s operation, runs it once and registers \<open>b\<close>.\<close>

lemma run_rereg_cancel:
  "run_body os (rereg_body note fd a b) (Suc n) a err_EOPCANCELED r =
     register os Reading (run_body os (rereg_body note fd a b) n) fd b (r\<lparr>kernel := note (a, err_EOPCANCELED) (kernel r)\<rparr>)"
  by (simp add: rereg_body_def register_eqs)

lemma run_rereg_other:
  "op \<noteq> a \<or> ec \<noteq> err_EOPCANCELED \<Longrightarrow>
   run_body os (rereg_body note fd a b) n op ec r = r\<lparr>kernel := note (op, ec) (kernel r)\<rparr>"
  by (cases n) (auto simp: rereg_body_def)

lemma register_reliable:
  assumes "epoll_reliable os interest" and "untouched os view" and "operation d (opinfo_at fd r) = None"
    and "interest (kernel r) fd = None \<longleftrightarrow> operation (other d) (opinfo_at fd r) = None"
  shows "\<exists>r'. register os d call fd op r = r' \<and> opinfo_at fd r' = set_operation d (Some op) (opinfo_at fd r) \<and>
    view (kernel r') = view (kernel r) \<and> interest (kernel r') fd \<noteq> None"
proof -
  let ?r1 = "need_opinfo fd r"
  define p where "p = (if operation (other d) (opinfo_at fd ?r1) \<noteq> None then EPOLL_CTL_MOD else EPOLL_CTL_ADD)"
  define ev where "ev = (if operation (other d) (opinfo_at fd ?r1) \<noteq> None then waits_for d OR waits_for (other d) else waits_for d)"
  obtain c r2 where ctl: "epoll_ctl os p fd ev ?r1 = (c, r2)" by fastforce
  have "c = 0"
    using epoll_reliable_ctl(1) [OF assms(1) ctl] assms(4) by (simp add: p_def reactor_simps)
  then have "register os d call fd op r = put_opinfo fd (set_operation d (Some op) (opinfo_at fd r2)) r2"
    using ctl assms(3) by (auto simp: register_def p_def ev_def Let_def reactor_simps)
  moreover have "interest (kernel r2) fd = Some ev"
    using epoll_reliable_ctl(2) [OF assms(1) ctl \<open>c = 0\<close>] by (simp add: p_def)
  ultimately show ?thesis
    using epoll_reliable_ctl(4) [OF assms(1) ctl] untouched_ctl [OF assms(2) ctl] by (simp add: reactor_simps)
qed

lemma register_refused:
  assumes "epoll_reliable os interest" and "untouched os view" and "operation d (opinfo_at fd r) = None"
    and "interest (kernel r) fd = None" and "operation (other d) (opinfo_at fd r) \<noteq> None"
  shows "\<exists>r2. register os d call fd op r = call op ENOENT r2 \<and> opinfo_at fd r2 = opinfo_at fd r \<and>
    view (kernel r2) = view (kernel r)"
proof -
  let ?r1 = "need_opinfo fd r"
  obtain c r2 where ctl: "epoll_ctl os EPOLL_CTL_MOD fd (waits_for d OR waits_for (other d)) ?r1 = (c, r2)" by fastforce
  have "c = ENOENT"
    using epoll_reliable_ctl(3) [OF assms(1) ctl] assms(4) by (simp add: reactor_simps)
  then have "register os d call fd op r = call op ENOENT r2"
    using ctl assms(3,5) by (auto simp: register_def Let_def reactor_simps ENOENT_def)
  then show ?thesis
    using epoll_reliable_ctl(4) [OF assms(1) ctl] untouched_ctl [OF assms(2) ctl] by (auto simp: reactor_simps)
qed

lemma forget_reliable:
  assumes "epoll_reliable os interest" and "untouched os view" and "interest (kernel r) fd \<noteq> None"
  shows "view (kernel (forget os d fd r)) = view (kernel r)"
    and "opinfo_at fd (forget os d fd r) = opinfo_at fd r"
    and "interest (kernel (forget os d fd r)) fd = None \<longleftrightarrow> operation (other d) (opinfo_at fd r) = None"
proof -
  define p where "p = (if operation (other d) (opinfo_at fd r) \<noteq> None then EPOLL_CTL_MOD else EPOLL_CTL_DEL)"
  define ev where "ev = (if operation (other d) (opinfo_at fd r) \<noteq> None then waits_for (other d) else 0)"
  obtain c r2 where ctl: "epoll_ctl os p fd ev r = (c, r2)" by fastforce
  have eq: "forget os d fd r = r2"
    using ctl by (auto simp: forget_def p_def ev_def)
  have "c = 0"
    using epoll_reliable_ctl(1) [OF assms(1) ctl] assms(3) by (simp add: p_def)
  then show "view (kernel (forget os d fd r)) = view (kernel r)"
    and "opinfo_at fd (forget os d fd r) = opinfo_at fd r"
    and "interest (kernel (forget os d fd r)) fd = None \<longleftrightarrow> operation (other d) (opinfo_at fd r) = None"
    using untouched_ctl [OF assms(2) ctl] epoll_reliable_ctl(2,4) [OF assms(1) ctl] by (simp_all add: eq p_def)
qed

lemma epoll_remove_reliable:
  assumes "epoll_reliable os interest" and "untouched os view" and "interest (kernel r) fd \<noteq> None"
  shows "view (kernel (snd (epoll_remove os fd r))) = view (kernel r)"
    and "opinfo_at fd (snd (epoll_remove os fd r)) = opinfo_at fd r"
    and "interest (kernel (snd (epoll_remove os fd r))) fd = None"
proof -
  obtain c r2 where ctl: "epoll_ctl os EPOLL_CTL_DEL fd 0 r = (c, r2)" by fastforce
  have "c = 0"
    using epoll_reliable_ctl(1) [OF assms(1) ctl] assms(3) by simp
  then show "view (kernel (snd (epoll_remove os fd r))) = view (kernel r)"
    and "opinfo_at fd (snd (epoll_remove os fd r)) = opinfo_at fd r"
    and "interest (kernel (snd (epoll_remove os fd r))) fd = None"
    using untouched_ctl [OF assms(2) ctl] epoll_reliable_ctl(2,4) [OF assms(1) ctl] ctl by (simp_all add: epoll_remove_eq)
qed

lemma found_if_operation: "operation d (opinfo_at fd r) \<noteq> None \<Longrightarrow> umap_find fd (fd_opinfo_umap r) \<noteq> None"
  by (cases d) (auto simp: opinfo_at_def OperationInfo_def operation_def split: option.splits)

lemma note_state:
  assumes "logs os interest log note"
  shows "opinfo_at fd (r\<lparr>kernel := note x (kernel r)\<rparr>) = opinfo_at fd r"
    and "log (kernel (r\<lparr>kernel := note x (kernel r)\<rparr>)) = log (kernel r) @ [x]"
    and "interest (kernel (r\<lparr>kernel := note x (kernel r)\<rparr>)) = interest (kernel r)"
  using logsD [OF assms] by (simp_all add: opinfo_at_kernel)

text \<open>The cancelled read operation, with or without a write operation beside it.\<close>

lemma cancel_read_reregisters:
  assumes "epoll_reliable os interest" and "logs os interest log note"
    and "read_op (opinfo_at fd r) = Some a" and "interest (kernel r) fd = None \<longleftrightarrow> write_op (opinfo_at fd r) = None"
  shows "\<exists>r'. opinfo_cancel Reading (run_body os (rereg_body note fd a b) (Suc n)) fd r = r' \<and>
    opinfo_at fd r' = set_operation Reading (Some b) (opinfo_at fd r) \<and> log (kernel r') = log (kernel r) @ [(a, err_EOPCANCELED)]"
proof -
  let ?s = "put_opinfo fd (set_operation Reading None (opinfo_at fd r)) r"
  let ?s1 = "?s\<lparr>kernel := note (a, err_EOPCANCELED) (kernel ?s)\<rparr>"
  have at: "opinfo_at fd ?s1 = set_operation Reading None (opinfo_at fd r)"
    by (simp add: note_state(1) [OF assms(2)] opinfo_at_put)
  have none: "operation Reading (opinfo_at fd ?s1) = None"
    "interest (kernel ?s1) fd = None \<longleftrightarrow> operation (other Reading) (opinfo_at fd ?s1) = None"
    using assms(4) logsD(2) [OF assms(2)]
    unfolding at by (simp_all add: operation_set kernel_put) (simp add: other_def operation_def)
  have "opinfo_cancel Reading (run_body os (rereg_body note fd a b) (Suc n)) fd r =
      register os Reading (run_body os (rereg_body note fd a b) n) fd b ?s1"
    using assms(3) unfolding opinfo_cancel_def operation_simps(1) by (simp only: option.case run_rereg_cancel)
  moreover obtain r' where "register os Reading (run_body os (rereg_body note fd a b) n) fd b ?s1 = r'"
    "opinfo_at fd r' = set_operation Reading (Some b) (opinfo_at fd ?s1)" "log (kernel r') = log (kernel ?s1)"
    using register_reliable [OF assms(1) logs_untouched [OF assms(2)] none] by blast
  ultimately show ?thesis
    unfolding at using logsD(1) [OF assms(2)] by (simp add: kernel_put set_operation_def)
qed

lemma cancel_read_refused:
  assumes "epoll_reliable os interest" and "logs os interest log note"
    and "read_op (opinfo_at fd r) = Some a" and "write_op (opinfo_at fd r) \<noteq> None" and "interest (kernel r) fd = None"
  shows "\<exists>r'. opinfo_cancel Reading (run_body os (rereg_body note fd a b) (Suc n)) fd r = r' \<and>
    opinfo_at fd r' = set_operation Reading None (opinfo_at fd r) \<and>
    log (kernel r') = log (kernel r) @ [(a, err_EOPCANCELED), (b, ENOENT)]"
proof -
  let ?s = "put_opinfo fd (set_operation Reading None (opinfo_at fd r)) r"
  let ?s1 = "?s\<lparr>kernel := note (a, err_EOPCANCELED) (kernel ?s)\<rparr>"
  have at: "opinfo_at fd ?s1 = set_operation Reading None (opinfo_at fd r)"
    by (simp add: note_state(1) [OF assms(2)] opinfo_at_put)
  have none: "operation Reading (opinfo_at fd ?s1) = None" "interest (kernel ?s1) fd = None"
    "operation (other Reading) (opinfo_at fd ?s1) \<noteq> None"
    using assms(4,5) logsD(2) [OF assms(2)]
    unfolding at by (simp_all add: operation_set kernel_put) (simp add: other_def operation_def)
  have "opinfo_cancel Reading (run_body os (rereg_body note fd a b) (Suc n)) fd r =
      register os Reading (run_body os (rereg_body note fd a b) n) fd b ?s1"
    using assms(3) unfolding opinfo_cancel_def operation_simps(1) by (simp only: option.case run_rereg_cancel)
  moreover obtain r2 where r2: "register os Reading (run_body os (rereg_body note fd a b) n) fd b ?s1 =
      run_body os (rereg_body note fd a b) n b ENOENT r2"
    "opinfo_at fd r2 = opinfo_at fd ?s1" "log (kernel r2) = log (kernel ?s1)"
    using register_refused [OF assms(1) logs_untouched [OF assms(2)] none] by blast
  moreover have "run_body os (rereg_body note fd a b) n b ENOENT r2 = r2\<lparr>kernel := note (b, ENOENT) (kernel r2)\<rparr>"
    by (rule run_rereg_other) (simp add: ENOENT_def err_codes)
  ultimately have "opinfo_cancel Reading (run_body os (rereg_body note fd a b) (Suc n)) fd r =
      r2\<lparr>kernel := note (b, ENOENT) (kernel r2)\<rparr>" by simp
  then show ?thesis
    using r2(2,3) unfolding at by (simp add: note_state(1) [OF assms(2)] logsD(1) [OF assms(2)] kernel_put)
qed

lemma cancel_write_notes:
  assumes "logs os interest log note" and "write_op (opinfo_at fd r) = Some w" and "w \<noteq> a"
  shows "\<exists>r'. opinfo_cancel Writing (run_body os (rereg_body note fd a b) n) fd r = r' \<and>
    opinfo_at fd r' = set_operation Writing None (opinfo_at fd r) \<and> log (kernel r') = log (kernel r) @ [(w, err_EOPCANCELED)]"
proof -
  let ?s = "put_opinfo fd (set_operation Writing None (opinfo_at fd r)) r"
  have "opinfo_cancel Writing (run_body os (rereg_body note fd a b) n) fd r = ?s\<lparr>kernel := note (w, err_EOPCANCELED) (kernel ?s)\<rparr>"
    using assms(2,3) by (simp add: opinfo_cancel_def operation_simps(2) run_rereg_other)
  then show ?thesis
    by (simp add: opinfo_at_kernel logsD(1) [OF assms(1)] kernel_put opinfo_at_put)
qed

text \<open>C22: A read operation that registers another one when it is cancelled succeeds under \<open>cancelReadOperation\<close>, as the
  comments of the code promise: the new operation is waiting afterwards. Under \<open>cancelAllOperations\<close> it fails
  when a write operation was waiting too: the registration is refused with \<^verbatim>\<open>ENOENT\<close> and nothing is
  registered in the end; without a write operation it succeeds. Each cancelled operation is run exactly once.\<close>

theorem reactor_cancel_reregistration:
  fixes r :: "('op, 'k, 'z) reactor_scheme"
  assumes call_def: "call = run_body os (rereg_body note fd a b) (Suc n)"
    and "epoll_reliable os interest" and "logs os interest log note"
    and "interest_inv interest {} r" and "read_op (opinfo_at fd r) = Some a" and "write_op (opinfo_at fd r) \<noteq> Some a"
  shows "read_op (opinfo_at fd (cancelReadOperation os call fd r)) = Some b \<and>
    write_op (opinfo_at fd (cancelReadOperation os call fd r)) = write_op (opinfo_at fd r) \<and>
    log (kernel (cancelReadOperation os call fd r)) = log (kernel r) @ [(a, err_EOPCANCELED)] \<and>
    (case write_op (opinfo_at fd r) of
       None \<Rightarrow> read_op (opinfo_at fd (cancelAllOperations os call fd r)) = Some b \<and>
         log (kernel (cancelAllOperations os call fd r)) = log (kernel r) @ [(a, err_EOPCANCELED)]
     | Some w \<Rightarrow> \<not> hasOperation (opinfo_at fd (cancelAllOperations os call fd r)) \<and>
         log (kernel (cancelAllOperations os call fd r)) =
           log (kernel r) @ [(a, err_EOPCANCELED), (b, ENOENT), (w, err_EOPCANCELED)])"
proof -
  have a: "operation Reading (opinfo_at fd r) \<noteq> None"
    using assms(5) by (simp add: operation_def)
  then have i: "interest (kernel r) fd \<noteq> None"
    using assms(4) by (auto simp: interest_inv_def)
  note forget = forget_reliable [OF assms(2) logs_untouched [OF assms(3)] i, of Reading]
  have read: "cancelReadOperation os call fd r = opinfo_cancel Reading call fd (forget os Reading fd r)"
    using a found_if_operation [OF a] unfolding cancelReadOperation_def operation_simps(3) forget_eqs opinfo_cancel_eqs by auto
  have "read_op (opinfo_at fd (forget os Reading fd r)) = Some a"
    "interest (kernel (forget os Reading fd r)) fd = None \<longleftrightarrow> write_op (opinfo_at fd (forget os Reading fd r)) = None"
    using forget(2,3) assms(5) by (simp_all add: other_def operation_def)
  from cancel_read_reregisters [OF assms(2,3) this, of b n]
  have 1: "opinfo_at fd (cancelReadOperation os call fd r) = set_operation Reading (Some b) (opinfo_at fd r)"
    "log (kernel (cancelReadOperation os call fd r)) = log (kernel r) @ [(a, err_EOPCANCELED)]"
    using forget(1,2) unfolding read unfolding call_def by simp_all
  note remove = epoll_remove_reliable [OF assms(2) logs_untouched [OF assms(3)] i]
  have all: "cancelAllOperations os call fd r =
      opinfo_cancel Writing call fd (opinfo_cancel Reading call fd (snd (epoll_remove os fd r)))"
    using a found_if_operation [OF a]
    unfolding cancelAllOperations_def hasOperation_def operation_simps(3) opinfo_cancelAll_def opinfo_cancel_eqs by auto
  have ra: "read_op (opinfo_at fd (snd (epoll_remove os fd r))) = Some a"
    using remove(2) assms(5) by simp
  show ?thesis
  proof (cases "write_op (opinfo_at fd r)")
    case None
    then have "interest (kernel (snd (epoll_remove os fd r))) fd = None \<longleftrightarrow>
        write_op (opinfo_at fd (snd (epoll_remove os fd r))) = None"
      using remove(2,3) by simp
    from cancel_read_reregisters [OF assms(2,3) ra this, of b n] None
    show ?thesis
      using 1 remove(1,2) unfolding all unfolding call_def
      by (simp add: opinfo_cancel_def [of Writing] operation_def set_operation_def del: run_body.simps)
  next
    case (Some w)
    then have w: "write_op (opinfo_at fd (snd (epoll_remove os fd r))) \<noteq> None" and "w \<noteq> a"
      using remove(2) assms(6) by auto
    obtain r1 where r1: "opinfo_cancel Reading call fd (snd (epoll_remove os fd r)) = r1"
      "opinfo_at fd r1 = set_operation Reading None (opinfo_at fd r)"
      "log (kernel r1) = log (kernel r) @ [(a, err_EOPCANCELED), (b, ENOENT)]"
      using cancel_read_refused [OF assms(2,3) ra w remove(3), of b n] remove(1,2) by (auto simp: call_def)
    have "write_op (opinfo_at fd r1) = Some w"
      using r1(2) Some by (simp add: set_operation_def)
    from cancel_write_notes [OF assms(3) this \<open>w \<noteq> a\<close>, of b "Suc n"]
    show ?thesis
      using 1 r1 Some unfolding all unfolding call_def
      by (simp add: set_operation_def hasOperation_def hasReadOperation_def hasWriteOperation_def del: run_body.simps)
  qed
qed

text \<open>Both operations wait on descriptor 5; 7 is the read operation, which registers itself again.\<close>

definition example_both :: "(nat, small_kernel) reactor" where
  "example_both =
     (ReactorService (small_kernel0\<lparr>sk_interest := (\<lambda>_. None)(5 := Some (EPOLLIN OR EPOLLPRI OR EPOLLOUT))\<rparr>))
       \<lparr>fd_opinfo_umap := [(5, \<lparr>read_op = Some 7, write_op = Some 8\<rparr>)]\<rparr>"

definition small_note :: "nat \<times> int \<Rightarrow> small_kernel \<Rightarrow> small_kernel" where
  "small_note x k = k\<lparr>sk_log := sk_log k @ [x]\<rparr>"

theorem reactor_cancel_reregistration_witness:
  "sk_log (kernel (cancelAllOperations small_os (run_body small_os (rereg_body small_note 5 7 7) 1) 5 example_both)) =
     [(7, err_EOPCANCELED), (7, ENOENT), (8, err_EOPCANCELED)]"
proof -
  have "epoll_reliable small_os sk_interest"
    using small_os_laws by (auto simp: epoll_reliable_def small_os_def small_ctl_def)
  moreover have "logs small_os sk_interest sk_log small_note"
    by (simp add: logs_def small_note_def small_os_def small_ctl_def)
  moreover have at: "opinfo_at fd example_both = (if fd = 5 then \<lparr>read_op = Some 7, write_op = Some 8\<rparr> else OperationInfo)" for fd
    by (simp add: opinfo_at_def example_both_def umap_find_def)
  then have "interest_inv sk_interest {} example_both"
    unfolding interest_inv_def
  proof (intro allI impI)
    fix fd d
    assume "operation d (opinfo_at fd example_both) \<noteq> None"
    then have "fd = 5" by (cases d) (auto simp: at OperationInfo_def operation_def split: if_splits)
    then show "\<exists>ev. sk_interest (kernel example_both) fd = Some ev \<and> waits_for d AND ev = waits_for d"
      by (cases d) (simp_all add: example_both_def ReactorService_def waits_for_def EPOLLIN_def EPOLLPRI_def EPOLLOUT_def)
  qed
  moreover have "sk_log (kernel example_both) = []"
    by (simp add: example_both_def ReactorService_def small_kernel0_def)
  ultimately show ?thesis
    using reactor_cancel_reregistration
      [of "run_body small_os (rereg_body small_note 5 7 7) 1" small_os small_note 5 7 7 0 sk_interest sk_log example_both]
    by (simp add: at)
qed

end
