(* ===== verification/Io_Loop.thy ===== *)
theory Io_Loop
  imports Tcp_Socket Udp_Socket Signal_Set Reactor_Cancel
begin

section \<open>Sockets on the reactor\<close>

text \<open>
  \<open>io_call\<close> runs a closure: it is the function the reactor's loop calls. With a code other than 0 it is \<open>io_failed\<close>,
  which the operations of the sockets pass to the reactor. The theory then follows a write through the loop: bytes
  reach the kernel in order and none is lost or repeated however little each \<^verbatim>\<open>send\<close> takes, and the user hears of it
  exactly once.
\<close>

definition io_call :: "endian \<Rightarrow> 'k os \<Rightarrow> ('u, 'k) user \<Rightarrow> 'u async_op \<Rightarrow> int \<Rightarrow> ('u, 'k) io \<Rightarrow> ('u, 'k) io" where
  "io_call e os user op ec r =
     (case op of
        Tcp_read fd mbuf u \<Rightarrow> tcp_read_op_wrap os user ec fd mbuf u r
      | Tcp_write fd cbuf n u \<Rightarrow> tcp_write_op_wrap os user ec fd cbuf n u r
      | Tcp_accept fd s u \<Rightarrow> tcp_accept_op_wrap os user ec fd s u r
      | Tcp_connect fd u \<Rightarrow> tcp_connect_op_wrap os user ec fd u r
      | Udp_read fd ep mbuf u \<Rightarrow> udp_read_op_wrap os user ec fd ep mbuf u r
      | Udp_write fd ep cbuf n u \<Rightarrow> udp_write_op_wrap e os user ec fd ep cbuf n u r
      | Signal_read fd u \<Rightarrow> signal_op_wrap os user ec fd u r)"

lemma io_call_failed: "ec \<noteq> 0 \<Longrightarrow> io_call e os user op ec r = io_failed user op ec r"
  by (simp add: io_call_def io_failed_def tcp_read_op_wrap_def tcp_write_op_wrap_def tcp_accept_op_wrap_def
      tcp_connect_op_wrap_def udp_read_op_wrap_def udp_write_op_wrap_def signal_op_wrap_def split: async_op.split)

lemma register_failed:
  "registerReadOperation os (io_call e os user) fd op r = registerReadOperation os (io_failed user) fd op r"
  "registerWriteOperation os (io_call e os user) fd op r = registerWriteOperation os (io_failed user) fd op r"
  by (simp_all add: registerReadOperation_def registerWriteOperation_def io_call_failed err_codes Let_def
      split: prod.split)

text \<open>The behaviour of \<^verbatim>\<open>send\<close>: it takes a prefix of the buffer, or fails and takes nothing. \<open>mem\<close> is the memory,
  \<open>out\<close> what the kernel has taken for a descriptor; no other call touches them.\<close>

definition send_law ::
  "('k \<Rightarrow> nat \<Rightarrow> u8) \<Rightarrow> ('k \<Rightarrow> int \<Rightarrow> bytes) \<Rightarrow> int \<Rightarrow> nat \<Rightarrow> nat \<Rightarrow> 'k \<Rightarrow> (int + nat) \<Rightarrow> 'k \<Rightarrow> bool" where
  "send_law mem out fd p len k res k' \<longleftrightarrow>
     mem k' = mem k \<and>
     (case res of
        Inl errno \<Rightarrow> errno \<noteq> 0 \<and> out k' = out k
      | Inr n \<Rightarrow> n \<le> len \<and> out k' = (out k)(fd := out k fd @ take n (map (mem k) [p ..< p + len])))"

definition send_laws ::
  "'k os \<Rightarrow> ('k \<Rightarrow> nat \<Rightarrow> u8) \<Rightarrow> ('k \<Rightarrow> int \<Rightarrow> bytes) \<Rightarrow> ('k \<Rightarrow> ('u \<times> int \<times> int) list) \<Rightarrow> ('u \<times> int \<times> int \<Rightarrow> 'k \<Rightarrow> 'k) \<Rightarrow> bool" where
  "send_laws os mem out log note \<longleftrightarrow>
     (\<forall>fd p len k. send_law mem out fd p len k (fst (os_send os fd p len k)) (snd (os_send os fd p len k)) \<and>
        log (snd (os_send os fd p len k)) = log k) \<and>
     (\<forall>p fd ev k. mem (snd (os_epoll_ctl os p fd ev k)) = mem k \<and> out (snd (os_epoll_ctl os p fd ev k)) = out k \<and>
        log (snd (os_epoll_ctl os p fd ev k)) = log k) \<and>
     (\<forall>x k. mem (note x k) = mem k \<and> out (note x k) = out k \<and> log (note x k) = log k @ [x])"

text \<open>The part of it that does not depend on the user; \<open>view\<close> is what else of the state \<^verbatim>\<open>send\<close> leaves alone.\<close>

definition send_ok :: "'k os \<Rightarrow> ('k \<Rightarrow> nat \<Rightarrow> u8) \<Rightarrow> ('k \<Rightarrow> int \<Rightarrow> bytes) \<Rightarrow> ('k \<Rightarrow> 'v) \<Rightarrow> bool" where
  "send_ok os mem out view \<longleftrightarrow>
     (\<forall>fd p len k. send_law mem out fd p len k (fst (os_send os fd p len k)) (snd (os_send os fd p len k)) \<and>
        view (snd (os_send os fd p len k)) = view k) \<and>
     untouched os (\<lambda>k. (mem k, out k, view k))"

text \<open>A user that notes the calls of its callbacks.\<close>

definition noting :: "('u \<times> int \<times> int \<Rightarrow> 'k \<Rightarrow> 'k) \<Rightarrow> ('u, 'k) user" where
  "noting note u ec n r = r\<lparr>kernel := note (u, ec, n) (kernel r)\<rparr>"

subsection \<open>A write\<close>

text \<open>After a removal the operation is gone and the other one is not.\<close>

lemma remove_write_state:
  assumes "untouched os view"
  shows "view (kernel (removeWriteOperation os fd r)) = view (kernel r)"
    and "opinfo_at fd (removeWriteOperation os fd r) = set_operation Writing None (opinfo_at fd r)"
proof -
  have "opinfo_at fd r = set_operation Writing None (opinfo_at fd r)"
    if "umap_find fd (fd_opinfo_umap r) = None \<or> \<not> hasWriteOperation (opinfo_at fd r)"
  proof -
    have "write_op (opinfo_at fd r) = None"
      using that by (auto simp: opinfo_at_def OperationInfo_def hasWriteOperation_def)
    then show ?thesis by (simp add: set_operation_def)
  qed
  then show "view (kernel (removeWriteOperation os fd r)) = view (kernel r)"
    and "opinfo_at fd (removeWriteOperation os fd r) = set_operation Writing None (opinfo_at fd r)"
    using forget_untouched(1) [OF assms, of Writing fd r] forget_untouched(2) [OF assms, of fd Writing fd r]
    by (simp_all add: removeWriteOperation_def forget_eqs opinfo_at_put kernel_put operation_simps(8) Let_def)
qed

definition write_pending ::
  "('k \<Rightarrow> nat \<Rightarrow> u8) \<Rightarrow> ('k \<Rightarrow> int \<Rightarrow> bytes) \<Rightarrow> ('k \<Rightarrow> ('u \<times> int \<times> int) list) \<Rightarrow> int \<Rightarrow> const_buffer \<Rightarrow> 'u \<Rightarrow> 'k \<Rightarrow> nat \<Rightarrow>
   ('u, 'k) io \<Rightarrow> bool" where
  "write_pending mem out log fd cbuf u k0 sent r \<longleftrightarrow>
     sent \<le> cb_len cbuf \<and> write_op (opinfo_at fd r) = Some (Tcp_write fd (const_buffer_plus cbuf sent) sent u) \<and>
     mem (kernel r) = mem k0 \<and> out (kernel r) fd = out k0 fd @ take sent (buffer_bytes (mem k0) cbuf) \<and> log (kernel r) = log k0"

definition write_finished ::
  "('k \<Rightarrow> nat \<Rightarrow> u8) \<Rightarrow> ('k \<Rightarrow> int \<Rightarrow> bytes) \<Rightarrow> ('k \<Rightarrow> ('u \<times> int \<times> int) list) \<Rightarrow> int \<Rightarrow> const_buffer \<Rightarrow> 'u \<Rightarrow> 'k \<Rightarrow> nat \<Rightarrow>
   int \<Rightarrow> ('u, 'k) io \<Rightarrow> bool" where
  "write_finished mem out log fd cbuf u k0 sent ec r \<longleftrightarrow>
     sent \<le> cb_len cbuf \<and> (ec = 0 \<longrightarrow> sent = cb_len cbuf) \<and> write_op (opinfo_at fd r) = None \<and>
     out (kernel r) fd = out k0 fd @ take sent (buffer_bytes (mem k0) cbuf) \<and> log (kernel r) = log k0 @ [(u, ec, int sent)]"

lemma send_laws_untouched: "send_laws os mem out log note \<Longrightarrow> untouched os (\<lambda>k. (mem k, out k, log k))"
  by (simp add: send_laws_def untouched_def)

lemma send_laws_note:
  "send_laws os mem out log note \<Longrightarrow> mem (note x k) = mem k"
  "send_laws os mem out log note \<Longrightarrow> out (note x k) = out k"
  "send_laws os mem out log note \<Longrightarrow> log (note x k) = log k @ [x]"
  unfolding send_laws_def by blast+

lemma noting_state:
  "opinfo_at fd (noting note u ec n r) = opinfo_at fd r"
  "kernel (noting note u ec n r) = note (u, ec, n) (kernel r)"
  by (simp_all add: noting_def opinfo_at_kernel)

lemma send_laws_ok: "send_laws os mem out log note \<Longrightarrow> send_ok os mem out log"
  by (simp add: send_laws_def send_ok_def untouched_def)

lemma send_ok_send:
  assumes "send_ok os mem out view" and "sys (os_send os fd p len) r = (res, r')"
  shows "send_law mem out fd p len (kernel r) res (kernel r')" and "view (kernel r') = view (kernel r)"
    and "opinfo_at fd' r' = opinfo_at fd' r"
proof -
  have k: "os_send os fd p len (kernel r) = (res, kernel r')" "r' = r\<lparr>kernel := kernel r'\<rparr>"
    using assms(2) by (auto simp: sys_def split: prod.splits)
  show "send_law mem out fd p len (kernel r) res (kernel r')" and "view (kernel r') = view (kernel r)"
    using assms(1) k(1) unfolding send_ok_def by (metis fst_conv snd_conv)+
  show "opinfo_at fd' r' = opinfo_at fd' r"
    by (subst k(2)) (rule opinfo_at_kernel)
qed

lemma take_more: "take n (drop m xs) = ys \<Longrightarrow> take m xs @ ys = take (m + n) xs"
  by (simp add: take_add)

lemma buffer_bytes_at: "map f [cb_ptr b ..< cb_ptr b + cb_len b] = buffer_bytes f b"
  by (simp add: buffer_bytes_def)

text \<open>One event, with any user: what \<^verbatim>\<open>send\<close> took, and what the wrapper does with it.\<close>

lemma write_event_any:
  assumes ok: "send_ok os mem out view" and "cb_len cbuf < size_mod" and "sent \<le> cb_len cbuf"
    and op: "write_op (opinfo_at fd r) = Some (Tcp_write fd (const_buffer_plus cbuf sent) sent u)"
    and r': "r' = doWriteOperation (io_call e os user) fd err_SUCCESS r"
    and send: "sys (os_send os fd (cb_ptr cbuf + sent) (cb_len cbuf - sent)) (removeWriteOperation os fd r) = (res, r2)"
  shows "mem (kernel r2) = mem (kernel r)" and "view (kernel r2) = view (kernel r)"
    and "opinfo_at fd r2 = set_operation Writing None (opinfo_at fd r)"
    and "case res of
        Inl errno \<Rightarrow> errno \<noteq> 0 \<and> out (kernel r2) fd = out (kernel r) fd \<and> r' = user u errno (int sent) r2
      | Inr n \<Rightarrow> n \<le> cb_len cbuf - sent \<and>
          out (kernel r2) fd = out (kernel r) fd @ take n (drop sent (buffer_bytes (mem (kernel r)) cbuf)) \<and>
          r' = (if n \<noteq> cb_len cbuf - sent
                then register os Writing (io_failed user) fd (Tcp_write fd (const_buffer_plus cbuf (sent + n)) (sent + n) u) r2
                else user u 0 (int (sent + n)) r2)"
proof -
  let ?view = "\<lambda>k. (mem k, out k, view k)" and ?cb = "const_buffer_plus cbuf sent"
  have un: "untouched os ?view" using ok by (simp add: send_ok_def)
  define r1 where "r1 = removeWriteOperation os fd r"
  have r1: "?view (kernel r1) = ?view (kernel r)" "opinfo_at fd r1 = set_operation Writing None (opinfo_at fd r)"
    unfolding r1_def by (rule remove_write_state [OF un])+
  have cb: "cb_ptr ?cb = cb_ptr cbuf + sent" "cb_len ?cb = cb_len cbuf - sent"
    using assms(3) by simp_all
  have send': "sys (os_send os fd (cb_ptr ?cb) (cb_len ?cb)) r1 = (res, r2)"
    using send unfolding cb r1_def .
  note s = send_ok_send [OF ok send']
  show "mem (kernel r2) = mem (kernel r)" and "view (kernel r2) = view (kernel r)"
    and "opinfo_at fd r2 = set_operation Writing None (opinfo_at fd r)"
    using s r1 by (auto simp: send_law_def)
  have wrap: "r' = tcp_write_op_wrap os user 0 fd ?cb sent u r"
    using op by (simp add: r' doWriteOperation_def io_call_def err_codes)
  show "case res of
        Inl errno \<Rightarrow> errno \<noteq> 0 \<and> out (kernel r2) fd = out (kernel r) fd \<and> r' = user u errno (int sent) r2
      | Inr n \<Rightarrow> n \<le> cb_len cbuf - sent \<and>
          out (kernel r2) fd = out (kernel r) fd @ take n (drop sent (buffer_bytes (mem (kernel r)) cbuf)) \<and>
          r' = (if n \<noteq> cb_len cbuf - sent
                then register os Writing (io_failed user) fd (Tcp_write fd (const_buffer_plus cbuf (sent + n)) (sent + n) u) r2
                else user u 0 (int (sent + n)) r2)"
  proof (cases res)
    case (Inl errno)
    then show ?thesis
      using send' s(1) r1 unfolding wrap tcp_write_op_wrap_def r1_def [symmetric] by (auto simp: send_law_def)
  next
    case (Inr n)
    have n: "n \<le> cb_len cbuf - sent" "out (kernel r2) fd = out (kernel r) fd @ take n (buffer_bytes (mem (kernel r)) ?cb)"
      using s(1) r1 unfolding Inr send_law_def by (simp_all add: buffer_bytes_def)
    moreover have "size_add sent n = sent + n"
      using n(1) assms(2,3) by (intro size_add_id) simp
    ultimately show ?thesis
      using send' assms(3) unfolding wrap tcp_write_op_wrap_def r1_def [symmetric] Inr
      by (simp add: const_buffer_plus_plus register_eqs buffer_bytes_plus)
  qed
qed

lemma write_event_send:
  assumes "send_laws os mem out log note" and "cb_len cbuf < size_mod"
    and "write_pending mem out log fd cbuf u k0 sent r"
    and r': "r' = doWriteOperation (io_call e os (noting note)) fd err_SUCCESS r"
    and send: "sys (os_send os fd (cb_ptr cbuf + sent) (cb_len cbuf - sent)) (removeWriteOperation os fd r) = (res, r2)"
  shows "mem (kernel r2) = mem k0" and "log (kernel r2) = log k0" and "write_op (opinfo_at fd r2) = None"
    and "read_op (opinfo_at fd r2) = read_op (opinfo_at fd r)"
    and "case res of
        Inl errno \<Rightarrow> errno \<noteq> 0 \<and> out (kernel r2) fd = out (kernel r) fd \<and> r' = noting note u errno (int sent) r2
      | Inr n \<Rightarrow> n \<le> cb_len cbuf - sent \<and> out (kernel r2) fd = out k0 fd @ take (sent + n) (buffer_bytes (mem k0) cbuf) \<and>
          r' = (if n \<noteq> cb_len cbuf - sent
                then register os Writing (io_failed (noting note)) fd
                       (Tcp_write fd (const_buffer_plus cbuf (sent + n)) (sent + n) u) r2
                else noting note u 0 (int (sent + n)) r2)"
proof -
  have pend: "sent \<le> cb_len cbuf" "write_op (opinfo_at fd r) = Some (Tcp_write fd (const_buffer_plus cbuf sent) sent u)"
    "mem (kernel r) = mem k0" "out (kernel r) fd = out k0 fd @ take sent (buffer_bytes (mem k0) cbuf)" "log (kernel r) = log k0"
    using assms(3) by (simp_all add: write_pending_def)
  note any = write_event_any [OF send_laws_ok [OF assms(1)] assms(2) pend(1,2) r' send]
  show "mem (kernel r2) = mem k0" and "log (kernel r2) = log k0" and "write_op (opinfo_at fd r2) = None"
    and "read_op (opinfo_at fd r2) = read_op (opinfo_at fd r)"
    using any(1-3) pend(3,5) by (simp_all add: set_operation_def)
  show "case res of
        Inl errno \<Rightarrow> errno \<noteq> 0 \<and> out (kernel r2) fd = out (kernel r) fd \<and> r' = noting note u errno (int sent) r2
      | Inr n \<Rightarrow> n \<le> cb_len cbuf - sent \<and> out (kernel r2) fd = out k0 fd @ take (sent + n) (buffer_bytes (mem k0) cbuf) \<and>
          r' = (if n \<noteq> cb_len cbuf - sent
                then register os Writing (io_failed (noting note)) fd
                       (Tcp_write fd (const_buffer_plus cbuf (sent + n)) (sent + n) u) r2
                else noting note u 0 (int (sent + n)) r2)"
    using any(4) pend(3,4) by (simp add: take_add split: sum.splits)
qed

lemma write_event:
  assumes "send_laws os mem out log note" and "cb_len cbuf < size_mod"
    and "write_pending mem out log fd cbuf u k0 sent r"
    and r': "r' = doWriteOperation (io_call e os (noting note)) fd err_SUCCESS r"
  shows "(\<exists>n. write_pending mem out log fd cbuf u k0 n r') \<or> (\<exists>n ec. write_finished mem out log fd cbuf u k0 n ec r')"
proof -
  obtain res r2 where send: "sys (os_send os fd (cb_ptr cbuf + sent) (cb_len cbuf - sent)) (removeWriteOperation os fd r) = (res, r2)"
    by fastforce
  note r2 = write_event_send [OF assms send]
  have sent: "sent \<le> cb_len cbuf" "out (kernel r) fd = out k0 fd @ take sent (buffer_bytes (mem k0) cbuf)"
    using assms(3) by (simp_all add: write_pending_def)
  note note_simps = noting_state send_laws_note [OF assms(1)]
  show ?thesis
  proof (cases res)
    case (Inl errno)
    then have "write_finished mem out log fd cbuf u k0 sent errno r'"
      using r2 sent by (simp add: write_finished_def note_simps)
    then show ?thesis by blast
  next
    case (Inr n)
    have free: "operation Writing (opinfo_at fd r2) = None" using r2(3) by (simp add: operation_def)
    show ?thesis
    proof (cases "n = cb_len cbuf - sent")
      case True
      then have "write_finished mem out log fd cbuf u k0 (sent + n) 0 r'"
        using r2 sent(1) Inr by (simp add: write_finished_def note_simps)
      then show ?thesis by blast
    next
      case False
      let ?op = "Tcp_write fd (const_buffer_plus cbuf (sent + n)) (sent + n) u"
      have n: "sent + n \<le> cb_len cbuf" "out (kernel r2) fd = out k0 fd @ take (sent + n) (buffer_bytes (mem k0) cbuf)"
        "r' = register os Writing (io_failed (noting note)) fd ?op r2"
        using r2(5) False sent(1) by (auto simp: Inr)
      show ?thesis
      proof (cases rule: register_cases [OF send_laws_untouched [OF assms(1)] free, of "io_failed (noting note)" ?op])
        case (1 c r3)
        then have "write_finished mem out log fd cbuf u k0 (sent + n) c r'"
          using n r2 by (simp add: write_finished_def note_simps io_failed_def)
        then show ?thesis by blast
      next
        case (2 r3)
        then have "write_pending mem out log fd cbuf u k0 (sent + n) r'"
          using n r2 by (simp add: write_pending_def set_operation_def)
        then show ?thesis by blast
      qed
    qed
  qed
qed

text \<open>When \<^verbatim>\<open>send\<close> always takes something and epoll fails only where it must, an event goes forward.\<close>

definition send_progress :: "'k os \<Rightarrow> ('k \<Rightarrow> int \<Rightarrow> events option) \<Rightarrow> ('x \<Rightarrow> 'k \<Rightarrow> 'k) \<Rightarrow> bool" where
  "send_progress os interest note \<longleftrightarrow>
     epoll_reliable os interest \<and> (\<forall>x k. interest (note x k) = interest k) \<and>
     (\<forall>fd p len k. interest (snd (os_send os fd p len k)) = interest k \<and>
        (\<exists>n. fst (os_send os fd p len k) = Inr n \<and> (0 < len \<longrightarrow> 0 < n)))"

lemma write_event_finished:
  "write_finished mem out log fd cbuf u k0 sent ec r \<Longrightarrow> doWriteOperation call fd ec' r = r"
  by (simp add: write_finished_def doWriteOperation_def)

lemma write_events:
  assumes "send_laws os mem out log note" and "cb_len cbuf < size_mod"
    and "(\<exists>sent. write_pending mem out log fd cbuf u k0 sent r) \<or> (\<exists>sent ec. write_finished mem out log fd cbuf u k0 sent ec r)"
  shows "(\<exists>sent. write_pending mem out log fd cbuf u k0 sent ((doWriteOperation (io_call e os (noting note)) fd err_SUCCESS ^^ n) r)) \<or>
    (\<exists>sent ec. write_finished mem out log fd cbuf u k0 sent ec ((doWriteOperation (io_call e os (noting note)) fd err_SUCCESS ^^ n) r))"
proof (induction n)
  case 0
  then show ?case using assms(3) by simp
next
  case (Suc n)
  let ?r = "(doWriteOperation (io_call e os (noting note)) fd err_SUCCESS ^^ n) r"
  from Suc.IH show ?case
  proof
    assume "\<exists>sent. write_pending mem out log fd cbuf u k0 sent ?r"
    then show ?thesis using write_event [OF assms(1,2) _ refl] by (simp only: funpow.simps comp_apply) blast
  next
    assume "\<exists>sent ec. write_finished mem out log fd cbuf u k0 sent ec ?r"
    then obtain sent ec where f: "write_finished mem out log fd cbuf u k0 sent ec ?r" by blast
    then show ?thesis using write_event_finished [OF f] by (simp only: funpow.simps comp_apply) blast
  qed
qed

lemma async_write_starts:
  assumes "send_laws os mem out log note" and "write_op (opinfo_at (tcp_sockfd r s) r) = None"
  shows "write_pending mem out log (tcp_sockfd r s) cbuf u (kernel r) 0 (tcp_async_write os (noting note) s cbuf u r) \<or>
    (\<exists>c. c \<noteq> 0 \<and> write_finished mem out log (tcp_sockfd r s) cbuf u (kernel r) 0 c (tcp_async_write os (noting note) s cbuf u r))"
proof -
  let ?fd = "tcp_sockfd r s"
  note un = send_laws_untouched [OF assms(1)]
  have free: "operation Writing (opinfo_at ?fd r) = None" using assms(2) by (simp add: operation_def)
  have reg: "tcp_async_write os (noting note) s cbuf u r =
      register os Writing (io_failed (noting note)) ?fd (Tcp_write ?fd cbuf 0 u) r"
    by (simp add: tcp_async_write_def register_eqs)
  show ?thesis
  proof (cases rule: register_cases [OF un free, of "io_failed (noting note)" "Tcp_write ?fd cbuf 0 u"])
    case (1 c r3)
    then show ?thesis
      using assms(2) unfolding reg
      by (simp add: write_finished_def noting_state send_laws_note [OF assms(1)] io_failed_def)
  next
    case (2 r3)
    then show ?thesis
      unfolding reg by (simp add: write_pending_def set_operation_def)
  qed
qed

lemma write_event_live:
  assumes "send_laws os mem out log note" and "cb_len cbuf < size_mod"
    and "write_pending mem out log fd cbuf u k0 sent r"
    and r': "r' = doWriteOperation (io_call e os (noting note)) fd err_SUCCESS r"
    and live: "send_progress os interest note" "interest (kernel r) fd \<noteq> None"
  shows "write_finished mem out log fd cbuf u k0 (cb_len cbuf) 0 r' \<or>
    (\<exists>n>0. write_pending mem out log fd cbuf u k0 (sent + n) r' \<and> sent + n < cb_len cbuf \<and> interest (kernel r') fd \<noteq> None)"
proof -
  let ?r1 = "removeWriteOperation os fd r"
  note un = send_laws_untouched [OF assms(1)]
  have rel: "epoll_reliable os interest" using live(1) by (simp add: send_progress_def)
  have pend: "sent \<le> cb_len cbuf" "write_op (opinfo_at fd r) \<noteq> None"
    using assms(3) by (simp_all add: write_pending_def)
  have w: "operation Writing (opinfo_at fd r) \<noteq> None" using pend(2) by (simp add: operation_def)
  have r1: "?r1 = put_opinfo fd (opinfo_removeWrite (opinfo_at fd (forget os Writing fd r))) (forget os Writing fd r)"
    using w found_if_operation [OF w] unfolding removeWriteOperation_def forget_eqs operation_simps(4) Let_def by auto
  have i1: "interest (kernel ?r1) fd = None \<longleftrightarrow> read_op (opinfo_at fd r) = None"
    using forget_reliable(3) [OF rel un live(2), of Writing] by (simp add: r1 kernel_put other_def operation_def)
  obtain res r2 where send: "sys (os_send os fd (cb_ptr cbuf + sent) (cb_len cbuf - sent)) ?r1 = (res, r2)"
    by fastforce
  note r2 = write_event_send [OF assms(1-4) send]
  have k: "os_send os fd (cb_ptr cbuf + sent) (cb_len cbuf - sent) (kernel ?r1) = (res, kernel r2)"
    using send by (auto simp: sys_def split: prod.splits)
  have i2: "interest (kernel r2) = interest (kernel ?r1)"
    using live(1) k unfolding send_progress_def by (metis snd_conv)
  obtain n where n: "res = Inr n" "0 < cb_len cbuf - sent \<Longrightarrow> 0 < n"
    using live(1) k unfolding send_progress_def by (metis fst_conv)
  show ?thesis
  proof (cases "n = cb_len cbuf - sent")
    case True
    then show ?thesis
      using r2 pend(1) n(1) by (simp add: write_finished_def noting_state send_laws_note [OF assms(1)])
  next
    case False
    let ?op = "Tcp_write fd (const_buffer_plus cbuf (sent + n)) (sent + n) u"
    have more: "0 < n" "sent + n < cb_len cbuf" "out (kernel r2) fd = out k0 fd @ take (sent + n) (buffer_bytes (mem k0) cbuf)"
      "r' = register os Writing (io_failed (noting note)) fd ?op r2"
      using r2(5) False pend(1) n by auto
    have "operation Writing (opinfo_at fd r2) = None"
      "interest (kernel r2) fd = None \<longleftrightarrow> operation (other Writing) (opinfo_at fd r2) = None"
      using r2(3,4) i1 i2 by (simp_all add: operation_def other_def)
    from register_reliable [OF rel un this, of "io_failed (noting note)" ?op]
    have "write_pending mem out log fd cbuf u k0 (sent + n) r' \<and> interest (kernel r') fd \<noteq> None"
      using more r2 by (auto simp: write_pending_def set_operation_def)
    then show ?thesis using more by blast
  qed
qed

lemma write_events_live:
  assumes "send_laws os mem out log note" and "cb_len cbuf < size_mod" and "send_progress os interest note"
    and "write_pending mem out log fd cbuf u k0 0 r" and "interest (kernel r) fd \<noteq> None"
    and step_def: "step = doWriteOperation (io_call e os (noting note)) fd err_SUCCESS"
  shows "write_finished mem out log fd cbuf u k0 (cb_len cbuf) 0 ((step ^^ n) r) \<or>
    (\<exists>sent\<ge>n. write_pending mem out log fd cbuf u k0 sent ((step ^^ n) r) \<and> (0 < n \<longrightarrow> sent < cb_len cbuf) \<and>
       interest (kernel ((step ^^ n) r)) fd \<noteq> None)"
proof (induction n)
  case 0
  show ?case using assms(4,5) by auto
next
  case (Suc n)
  from Suc.IH show ?case
  proof
    assume f: "write_finished mem out log fd cbuf u k0 (cb_len cbuf) 0 ((step ^^ n) r)"
    then show ?thesis using write_event_finished [OF f] by (simp add: step_def)
  next
    assume "\<exists>sent\<ge>n. write_pending mem out log fd cbuf u k0 sent ((step ^^ n) r) \<and> (0 < n \<longrightarrow> sent < cb_len cbuf) \<and>
       interest (kernel ((step ^^ n) r)) fd \<noteq> None"
    then obtain sent where sent: "n \<le> sent" "write_pending mem out log fd cbuf u k0 sent ((step ^^ n) r)"
      "interest (kernel ((step ^^ n) r)) fd \<noteq> None" by blast
    have "(step ^^ Suc n) r = doWriteOperation (io_call e os (noting note)) fd err_SUCCESS ((step ^^ n) r)"
      by (simp add: step_def)
    from write_event_live [OF assms(1,2) sent(2) this assms(3) sent(3)] show ?thesis
    proof (elim disjE exE conjE)
      fix m
      assume "0 < m" "write_pending mem out log fd cbuf u k0 (sent + m) ((step ^^ Suc n) r)" "sent + m < cb_len cbuf"
        "interest (kernel ((step ^^ Suc n) r)) fd \<noteq> None"
      then show ?thesis using sent(1) by (intro disjI2 exI [of _ "sent + m"]) simp
    qed simp
  qed
qed

text \<open>A write of any buffer on a socket without a waiting write hands the bytes of the buffer to the kernel in order,
  none lost and none repeated, however little each \<^verbatim>\<open>send\<close> takes and whatever calls fail; its callback runs at most once,
  and when it does it has the number of bytes that were taken, with the code 0 only when that is all of them.\<close>

lemma tcp_write_in_order:
  assumes "send_laws os mem out log note" and "cb_len cbuf < size_mod"
    and "write_op (opinfo_at (tcp_sockfd r s) r) = None"
    and "r' = (doWriteOperation (io_call e os (noting note)) (tcp_sockfd r s) err_SUCCESS ^^ n)
      (tcp_async_write os (noting note) s cbuf u r)"
  shows "\<exists>sent \<le> cb_len cbuf. out (kernel r') (tcp_sockfd r s) = out (kernel r) (tcp_sockfd r s) @ take sent (buffer_bytes (mem (kernel r)) cbuf) \<and>
    (if write_op (opinfo_at (tcp_sockfd r s) r') \<noteq> None then log (kernel r') = log (kernel r)
     else \<exists>ec. log (kernel r') = log (kernel r) @ [(u, ec, int sent)] \<and> (ec = 0 \<longrightarrow> sent = cb_len cbuf))"
proof -
  have "(\<exists>sent. write_pending mem out log (tcp_sockfd r s) cbuf u (kernel r) sent r') \<or>
      (\<exists>sent ec. write_finished mem out log (tcp_sockfd r s) cbuf u (kernel r) sent ec r')"
    unfolding assms(4) by (rule write_events [OF assms(1,2)]) (use async_write_starts [OF assms(1,3)] in blast)
  then show ?thesis
    by (auto simp: write_pending_def write_finished_def)
qed

text \<open>C9: When every \<^verbatim>\<open>send\<close> takes at least one byte and \<^verbatim>\<open>epoll_ctl\<close> fails only where it must, a write completes: after
  as many writable events as the buffer has bytes (one for an empty buffer) all bytes are with the kernel and the callback has run
  once, with code 0 and the length of the buffer.\<close>

theorem tcp_write_completes:
  assumes "send_laws os mem out log note" and "cb_len cbuf < size_mod" and "send_progress os interest note"
    and "write_op (opinfo_at (tcp_sockfd r s) r) = None"
    and "interest (kernel r) (tcp_sockfd r s) = None \<longleftrightarrow> read_op (opinfo_at (tcp_sockfd r s) r) = None"
    and "max 1 (cb_len cbuf) \<le> n"
    and "r' = (doWriteOperation (io_call e os (noting note)) (tcp_sockfd r s) err_SUCCESS ^^ n)
      (tcp_async_write os (noting note) s cbuf u r)"
  shows "out (kernel r') (tcp_sockfd r s) = out (kernel r) (tcp_sockfd r s) @ buffer_bytes (mem (kernel r)) cbuf \<and>
    log (kernel r') = log (kernel r) @ [(u, 0, int (cb_len cbuf))]"
proof -
  let ?fd = "tcp_sockfd r s" and ?r1 = "tcp_async_write os (noting note) s cbuf u r"
  note un = send_laws_untouched [OF assms(1)]
  have rel: "epoll_reliable os interest" using assms(3) by (simp add: send_progress_def)
  have "operation Writing (opinfo_at ?fd r) = None"
    "interest (kernel r) ?fd = None \<longleftrightarrow> operation (other Writing) (opinfo_at ?fd r) = None"
    using assms(4,5) by (simp_all add: operation_def other_def)
  from register_reliable [OF rel un this, of "io_failed (noting note)" "Tcp_write ?fd cbuf 0 u"]
  have "write_pending mem out log ?fd cbuf u (kernel r) 0 ?r1" "interest (kernel ?r1) ?fd \<noteq> None"
    by (auto simp: tcp_async_write_def register_eqs write_pending_def set_operation_def)
  from write_events_live [OF assms(1-3) this refl, of n e]
  have "write_finished mem out log ?fd cbuf u (kernel r) (cb_len cbuf) 0 r'"
    unfolding assms(7) using assms(6) by auto
  then show ?thesis by (simp add: write_finished_def)
qed

subsection \<open>A kernel that takes two bytes at a time\<close>

record sending_kernel =
  sn_interest :: "int \<Rightarrow> events option"
  sn_out :: "int \<Rightarrow> bytes"
  sn_log :: "(nat \<times> int \<times> int) list"

definition sn_mem :: "sending_kernel \<Rightarrow> nat \<Rightarrow> u8" where
  "sn_mem k i = of_nat i"

definition sn_ctl :: "epoll_op \<Rightarrow> int \<Rightarrow> events \<Rightarrow> sending_kernel \<Rightarrow> int \<times> sending_kernel" where
  "sn_ctl p fd ev k =
     (if p = EPOLL_CTL_ADD \<and> sn_interest k fd \<noteq> None then (17, k)
      else if p \<noteq> EPOLL_CTL_ADD \<and> sn_interest k fd = None then (ENOENT, k)
      else (0, k\<lparr>sn_interest := (sn_interest k)(fd := (if p = EPOLL_CTL_DEL then None else Some ev))\<rparr>))"

definition sn_send :: "int \<Rightarrow> nat \<Rightarrow> nat \<Rightarrow> sending_kernel \<Rightarrow> (int + nat) \<times> sending_kernel" where
  "sn_send fd p len k =
     (Inr (min 2 len), k\<lparr>sn_out := (sn_out k)(fd := sn_out k fd @ take (min 2 len) (map (sn_mem k) [p ..< p + len]))\<rparr>)"

definition sending_os :: "sending_kernel os" where
  "sending_os =
     \<lparr>os_epoll_ctl = sn_ctl, os_epoll_wait = (\<lambda>n k. (Inl EINTR, k)),
      os_socket = (\<lambda>f t k. (Inr 3, k)), os_getfl = (\<lambda>fd k. 0), os_setfl = (\<lambda>fd fl k. k), os_close = (\<lambda>fd k. (0, k)),
      os_recv = (\<lambda>fd a n k. (Inr 0, k)), os_send = sn_send,
      os_recvfrom = (\<lambda>fd a n k. (Inr (0, []), k)), os_sendto = (\<lambda>fd a n ad k. (Inr n, k)),
      os_accept = (\<lambda>fd k. (Inr 4, k)), os_connect = (\<lambda>fd ad k. (0, k)), os_so_error = (\<lambda>fd k. (0, k)),
      os_bind = (\<lambda>fd ad k. (0, k)), os_listen = (\<lambda>fd n k. (0, k)), os_setsockopt = (\<lambda>fd opt v k. (0, k)),
      os_shutdown = (\<lambda>fd h k. (0, k)), os_getpeername = (\<lambda>fd n k. (Inr [], k)), os_getsockname = (\<lambda>fd n k. (Inr [], k)),
      os_signalfd = (\<lambda>fd sigs k. (Inr 6, k)), os_sigmask = (\<lambda>b sigs k. k), os_read_siginfo = (\<lambda>fd k. (2, k))\<rparr>"

definition sn_note :: "nat \<times> int \<times> int \<Rightarrow> sending_kernel \<Rightarrow> sending_kernel" where
  "sn_note x k = k\<lparr>sn_log := sn_log k @ [x]\<rparr>"

definition sending_io :: "(nat, sending_kernel) io" where
  "sending_io =
     \<lparr>quit = True, event_array_size = 128, fd_opinfo_umap = [],
      kernel = \<lparr>sn_interest = (\<lambda>_. None), sn_out = (\<lambda>_. []), sn_log = []\<rparr>,
      tcp_sockfd = (\<lambda>_. 3), udp_sockfd = (\<lambda>_. - 1), endpoints = (\<lambda>_. Endpoint)\<rparr>"

lemma sending_laws: "send_laws sending_os sn_mem sn_out sn_log sn_note"
  by (auto simp: send_laws_def send_law_def sending_os_def sn_send_def sn_ctl_def sn_note_def sn_mem_def min_def
      intro!: ext)

lemma sending_progress: "send_progress sending_os sn_interest sn_note"
  by (auto simp: send_progress_def epoll_reliable_def epoll_laws_def epoll_law_def sending_os_def sn_send_def sn_ctl_def
      sn_note_def ENOENT_def)

lemma sending_io_fields:
  "tcp_sockfd sending_io s = 3" "opinfo_at fd sending_io = OperationInfo" "sn_interest (kernel sending_io) fd = None"
  "sn_log (kernel sending_io) = []" "sn_out (kernel sending_io) fd = []"
  by (simp_all add: sending_io_def opinfo_at_def umap_find_def)

definition sending_after :: "nat \<Rightarrow> (nat, sending_kernel) io" where
  "sending_after n =
     (doWriteOperation (io_call Little_endian sending_os (noting sn_note)) 3 err_SUCCESS ^^ n)
       (tcp_async_write sending_os (noting sn_note) 0 \<lparr>cb_ptr = 10, cb_len = 3\<rparr> 7 sending_io)"

lemma tcp_write_in_order_witness:
  "\<exists>sent \<le> 3. sn_out (kernel (sending_after 1)) 3 = take sent [10, 11, 12]"
  using tcp_write_in_order [OF sending_laws, of "\<lparr>cb_ptr = 10, cb_len = 3\<rparr>" sending_io 0 "sending_after 1" 1 Little_endian 7]
  by (auto simp: sending_io_fields sending_after_def size_mod_def OperationInfo_def buffer_bytes_def sn_mem_def upt_rec)

theorem tcp_write_completes_witness:
  "sn_out (kernel (sending_after 3)) 3 = [10, 11, 12] \<and> sn_log (kernel (sending_after 3)) = [(7, 0, 3)]"
  using tcp_write_completes [OF sending_laws _ sending_progress, of "\<lparr>cb_ptr = 10, cb_len = 3\<rparr>" sending_io 0 3 "sending_after 3" Little_endian 7]
  by (auto simp: sending_io_fields sending_after_def size_mod_def OperationInfo_def buffer_bytes_def sn_mem_def upt_rec)

end
