(* ===== verification/Socket_Events.thy ===== *)
theory Socket_Events
  imports Io_Loop
begin

section \<open>What an event does to a socket\<close>

text \<open>
  Every closure that a socket or a signal set registers has a descriptor and a direction. Everything but a write is done
  in one go: when its event comes, the closure leaves the reactor, makes its one system call, and runs its callback
  with the answer; the callback may register the next operation.
\<close>

fun op_direction :: "'u async_op \<Rightarrow> direction" where
  "op_direction (Tcp_read _ _ _) = Reading"
| "op_direction (Tcp_write _ _ _ _) = Writing"
| "op_direction (Tcp_accept _ _ _) = Reading"
| "op_direction (Tcp_connect _ _) = Writing"
| "op_direction (Udp_read _ _ _ _) = Reading"
| "op_direction (Udp_write _ _ _ _ _) = Writing"
| "op_direction (Signal_read _ _) = Reading"

fun op_descriptor :: "'u async_op \<Rightarrow> int" where
  "op_descriptor (Tcp_read fd _ _) = fd"
| "op_descriptor (Tcp_write fd _ _ _) = fd"
| "op_descriptor (Tcp_accept fd _ _) = fd"
| "op_descriptor (Tcp_connect fd _) = fd"
| "op_descriptor (Udp_read fd _ _ _) = fd"
| "op_descriptor (Udp_write fd _ _ _ _) = fd"
| "op_descriptor (Signal_read fd _) = fd"

fun op_callback :: "'u async_op \<Rightarrow> 'u" where
  "op_callback (Tcp_read _ _ u) = u"
| "op_callback (Tcp_write _ _ _ u) = u"
| "op_callback (Tcp_accept _ _ u) = u"
| "op_callback (Tcp_connect _ u) = u"
| "op_callback (Udp_read _ _ _ u) = u"
| "op_callback (Udp_write _ _ _ _ u) = u"
| "op_callback (Signal_read _ u) = u"

text \<open>The system call of a closure and what its callback is told: \<open>None\<close> for a write, which may take several calls.\<close>

definition told :: "(int + 'a) \<Rightarrow> ('a \<Rightarrow> int) \<Rightarrow> int \<times> int" where
  "told res value = (case res of Inl errno \<Rightarrow> (errno, 0) | Inr a \<Rightarrow> (0, value a))"

fun op_answer :: "'k os \<Rightarrow> 'u async_op \<Rightarrow> 'k \<Rightarrow> ((int \<times> int) \<times> 'k) option" where
  "op_answer os (Tcp_read fd mbuf _) k =
     (case os_recv os fd (mb_ptr mbuf) (mb_len mbuf) k of (res, k1) \<Rightarrow> Some (told res int, k1))"
| "op_answer os (Tcp_accept fd _ _) k = (case os_accept os fd k of (res, k1) \<Rightarrow> Some (told res (\<lambda>_. 0), k1))"
| "op_answer os (Tcp_connect fd _) k = (case os_so_error os fd k of (errcode, k1) \<Rightarrow> Some ((errcode, 0), k1))"
| "op_answer os (Udp_read fd _ mbuf _) k =
     (case os_recvfrom os fd (mb_ptr mbuf) (mb_len mbuf) k of (res, k1) \<Rightarrow> Some (told res (\<lambda>(n, _). int n), k1))"
| "op_answer os (Signal_read fd _) k = (case os_read_siginfo os fd k of (signum, k1) \<Rightarrow> Some ((0, signum), k1))"
| "op_answer os _ k = None"

subsection \<open>Removal of one operation\<close>

definition remove_operation :: "'k os \<Rightarrow> direction \<Rightarrow> int \<Rightarrow> ('op, 'k, 'z) reactor_scheme \<Rightarrow> ('op, 'k, 'z) reactor_scheme" where
  "remove_operation os d fd r = (case d of Reading \<Rightarrow> removeReadOperation os fd r | Writing \<Rightarrow> removeWriteOperation os fd r)"

lemma forget_opinfo: "opinfo_at fd' (forget os d fd r) = opinfo_at fd' r"
  by (rule forget_untouched(2) [of os "\<lambda>_. ()"]) (simp add: untouched_def)

lemma remove_operation_eq:
  assumes "operation d (opinfo_at fd r) \<noteq> None"
  shows "remove_operation os d fd r = put_opinfo fd (set_operation d None (opinfo_at fd r)) (forget os d fd r)"
  using assms found_if_operation [OF assms]
  by (cases d) (auto simp: remove_operation_def removeReadOperation_def removeWriteOperation_def forget_eqs forget_opinfo
      operation_simps(3,4,7,8) Let_def)

lemma remove_operation_None: "operation d (opinfo_at fd r) = None \<Longrightarrow> remove_operation os d fd r = r"
  by (cases d) (simp_all add: remove_operation_def removeReadOperation_def removeWriteOperation_def operation_simps(3,4))

lemma remove_operation_opinfo:
  assumes "operation d (opinfo_at fd r) \<noteq> None"
  shows "opinfo_at fd' (remove_operation os d fd r) = (if fd' = fd then set_operation d None (opinfo_at fd r) else opinfo_at fd' r)"
  by (simp add: remove_operation_eq [OF assms] opinfo_at_put forget_opinfo)

subsection \<open>What the reactor leaves alone\<close>

text \<open>A part of the state outside the table and the kernel, such as the socket objects.\<close>

definition steady :: "(('op, 'k, 'z) reactor_scheme \<Rightarrow> 'v) \<Rightarrow> bool" where
  "steady f \<longleftrightarrow> (\<forall>r k. f (r\<lparr>kernel := k\<rparr>) = f r) \<and> (\<forall>r m. f (r\<lparr>fd_opinfo_umap := m\<rparr>) = f r)"

lemma steady_sockfd: "steady tcp_sockfd"
  by (simp add: steady_def)

lemma steady_basic:
  assumes "steady f"
  shows "f (r\<lparr>kernel := k\<rparr>) = f r" and "f (put_opinfo fd i r) = f r" and "f (need_opinfo fd r) = f r"
    and "f (snd (epoll_ctl os p fd ev r)) = f r" and "f (snd (sys g r)) = f r"
proof -
  show "f (r\<lparr>kernel := k\<rparr>) = f r" and p: "f (put_opinfo fd i r) = f r"
    using assms by (simp_all add: steady_def put_opinfo_def)
  show "f (need_opinfo fd r) = f r"
    using assms by (simp add: need_opinfo_def steady_def put_opinfo_def split: option.split)
  show "f (snd (epoll_ctl os p fd ev r)) = f r" and "f (snd (sys g r)) = f r"
    using assms by (simp_all add: epoll_ctl_def sys_def steady_def split: prod.split)
qed

lemma steady_remove: "steady f \<Longrightarrow> f (remove_operation os d fd r) = f r"
  by (cases "operation d (opinfo_at fd r)")
    (simp_all add: remove_operation_None remove_operation_eq forget_def steady_basic)

text \<open>A property of such a part that the callbacks keep.\<close>

lemma steady_register_keeps:
  assumes "steady f" and "\<And>c r. c \<noteq> 0 \<Longrightarrow> P (f r) \<Longrightarrow> P (f (call op c r))" and "P (f r)"
  shows "P (f (register os d call fd op r))"
proof -
  have "f r2 = f r" if "epoll_ctl os p fd' ev (need_opinfo fd r) = (c, r2)" for p fd' ev c r2
    using steady_basic(3,4) [OF assms(1)] that by (metis snd_conv)
  then show ?thesis
    using assms(2,3) steady_basic [OF assms(1)] by (auto simp: register_def Let_def err_codes split: prod.split)
qed

lemma steady_register:
  assumes "steady f" and "\<And>c r. c \<noteq> 0 \<Longrightarrow> f (call op c r) = f r"
  shows "f (register os d call fd op r) = f r"
  by (rule steady_register_keeps [OF assms(1), where P = "\<lambda>v. v = f r"]) (simp_all add: assms(2))

lemma steady_perform_keeps:
  assumes f: "steady f" and quit: "\<And>r q. f (r\<lparr>quit := q\<rparr>) = f r" and call: "\<And>op c r. P (f r) \<Longrightarrow> P (f (call op c r))"
    and r: "P (f r)"
  shows "P (f (perform os call q r))"
proof -
  have register: "P (f (register os d call fd op r))" for d fd op
    by (rule steady_register_keeps [where P = P, OF f call r])
  have removes: "f (removeReadOperation os fd r) = f r" "f (removeWriteOperation os fd r) = f r" for fd r
    using steady_remove [OF f, of os Reading] steady_remove [OF f, of os Writing] by (simp_all add: remove_operation_def)
  have forget: "f (forget os d fd r) = f r" for d fd r
    by (simp add: forget_def steady_basic [OF f])
  have cancel: "P (f (opinfo_cancel d call fd r))" if "P (f r)" for d fd r
    using that by (simp add: opinfo_cancel_def call steady_basic [OF f] split: option.split)
  have remove: "f (snd (epoll_remove os fd r)) = f r" for fd r
    by (simp add: epoll_remove_eq steady_basic [OF f])
  show ?thesis
    using r by (cases q) (simp_all add: register_eqs register removes cancelReadOperation_def cancelWriteOperation_def
        removeAllOperations_def cancelAllOperations_def opinfo_cancelAll_def opinfo_cancel_eqs cancel forget_eqs forget remove
        steady_basic [OF f] reactor_quit_def quit Let_def)
qed

lemma steady_perform:
  assumes "steady f" and "\<And>r q. f (r\<lparr>quit := q\<rparr>) = f r" and "\<And>op c r. f (call op c r) = f r"
  shows "f (perform os call q r) = f r"
  by (rule steady_perform_keeps [OF assms(1,2), where P = "\<lambda>v. v = f r"]) (simp_all add: assms(3))

subsection \<open>One event\<close>

text \<open>The events that run the operation of one direction only.\<close>

definition only_event :: "direction \<Rightarrow> events \<Rightarrow> bool" where
  "only_event d events \<longleftrightarrow>
     events AND (EPOLLERR OR EPOLLHUP) = 0 \<and> events AND waits_for d \<noteq> 0 \<and> events AND waits_for (other d) = 0"

lemma dispatch_only_event:
  assumes "only_event d events" and "operation d (opinfo_at fd r) = Some op"
  shows "dispatch_event call (fd, events) r = call op err_SUCCESS r"
  using assms by (cases d) (simp_all add: only_event_def dispatch_event_def doReadOperation_def doWriteOperation_def waits_for_def
      other_def operation_def)

lemma io_call_answer:
  assumes "op_answer os op (kernel (remove_operation os (op_direction op) (op_descriptor op) r)) = Some ((c, n), k)"
  shows "\<exists>r1. io_call e os user op err_SUCCESS r = user (op_callback op) c n r1 \<and> kernel r1 = k \<and>
    (\<forall>fd. opinfo_at fd r1 = opinfo_at fd (remove_operation os (op_direction op) (op_descriptor op) r))"
  using assms
  by (cases op) (auto simp: io_call_def err_codes tcp_read_op_wrap_def tcp_accept_op_wrap_def tcp_connect_op_wrap_def
      udp_read_op_wrap_def signal_op_wrap_def remove_operation_def sys_def told_def opinfo_at_def
      split: prod.splits sum.splits)

text \<open>C21: When the event of an operation comes that is not a write (a read or an accept, a connect, a datagram, a signal),
  the operation makes its one system call and its callback runs exactly once, with what the call answered; by then the operation has
  left the reactor and every other one is as it was, so that the callback may register the next.\<close>

theorem event_completes_operation:
  assumes "operation d (opinfo_at fd r) = Some op" and "op_descriptor op = fd" and "op_direction op = d"
    and "only_event d events" and "op_answer os op (kernel (remove_operation os d fd r)) = Some ((c, n), k)"
  shows "\<exists>r1. dispatch_event (io_call e os user) (fd, events) r = user (op_callback op) c n r1 \<and> kernel r1 = k \<and>
    (\<forall>fd' d'. operation d' (opinfo_at fd' r1) = (if fd' = fd \<and> d' = d then None else operation d' (opinfo_at fd' r)))"
proof -
  have "op_answer os op (kernel (remove_operation os (op_direction op) (op_descriptor op) r)) = Some ((c, n), k)"
    using assms(2,3,5) by simp
  from io_call_answer [OF this, of e user] obtain r1 where
    r1: "io_call e os user op err_SUCCESS r = user (op_callback op) c n r1" "kernel r1 = k"
      "\<And>fd'. opinfo_at fd' r1 = opinfo_at fd' (remove_operation os d fd r)"
    using assms(2,3) by auto
  have "operation d (opinfo_at fd r) \<noteq> None" using assms(1) by simp
  from remove_operation_opinfo [OF this]
  have "operation d' (opinfo_at fd' r1) = (if fd' = fd \<and> d' = d then None else operation d' (opinfo_at fd' r))" for d' fd'
    by (simp add: r1(3) operation_set)
  then show ?thesis
    using r1 dispatch_only_event [OF assms(4,1)] by auto
qed

definition reading_io :: "(nat, sending_kernel) io" where
  "reading_io = sending_io\<lparr>fd_opinfo_umap := [(3, \<lparr>read_op = Some (Tcp_read 3 \<lparr>mb_ptr = 10, mb_len = 5\<rparr> 7), write_op = None\<rparr>)]\<rparr>"

theorem event_completes_operation_witness:
  "\<exists>r1. dispatch_event (io_call Little_endian sending_os (noting sn_note)) (3, EPOLLIN) reading_io = noting sn_note 7 0 0 r1 \<and>
     read_op (opinfo_at 3 r1) = None"
proof -
  let ?op = "Tcp_read 3 \<lparr>mb_ptr = 10, mb_len = 5\<rparr> (7::nat)"
  have op: "operation Reading (opinfo_at 3 reading_io) = Some ?op"
    by (simp add: reading_io_def opinfo_at_def umap_find_def operation_def)
  have ev: "only_event Reading EPOLLIN"
    by (simp add: only_event_def waits_for_def other_def EPOLLIN_def EPOLLPRI_def EPOLLERR_def EPOLLHUP_def EPOLLOUT_def)
  obtain k where "op_answer sending_os ?op (kernel (remove_operation sending_os Reading 3 reading_io)) = Some ((0, 0), k)"
    by (simp add: sending_os_def told_def)
  from event_completes_operation [OF op _ _ ev this, of Little_endian "noting sn_note"]
  obtain r1 where "dispatch_event (io_call Little_endian sending_os (noting sn_note)) (3, EPOLLIN) reading_io = noting sn_note 7 0 0 r1"
    "operation Reading (opinfo_at 3 r1) = None" by auto
  then show ?thesis by (auto simp: operation_def)
qed

end
