(* ===== verification/Rpc_Wire.thy ===== *)
theory Rpc_Wire
  imports Socket_Events Rpc_System
begin

section \<open>The strings of an RPC connection on the wire\<close>

text \<open>
  The send side of a connection (\<open>Rpc_Connection\<close>) run on a TCP socket (\<open>Tcp_Socket\<close>) and the reactor: what the
  connection asks of the socket is done at once, and its callback is the function the closure of the write calls. The queue of
  the connection lives in the state outside the reactor; \<open>place\<close> says where in the memory the bytes of a string
  are, from the moment it is in the queue.
\<close>

datatype conn_callback = Send_completed | Message_received

definition wire_perform :: "'k os \<Rightarrow> (conn_callback, 'k) user \<Rightarrow> nat \<Rightarrow> (bytes \<Rightarrow> const_buffer) \<Rightarrow> action \<Rightarrow> (conn_callback, 'k) io \<Rightarrow> (conn_callback, 'k) io" where
  "wire_perform os user s place act r =
     (case act of Async_write d \<Rightarrow> tcp_async_write os user s (place d) Send_completed r | _ \<Rightarrow> r)"

text \<open>The callbacks of the socket: \<open>recv\<close> is what \<open>onRecvMessage\<close> does with code 0, with another it does nothing. When a registration fails at once the callback runs inside itself: the number is how deep it may.
  \<open>crash\<close> is what undefined behaviour does.\<close>

fun wire_user ::
  "'k os \<Rightarrow> nat \<Rightarrow> (bytes \<Rightarrow> const_buffer) \<Rightarrow> ('k \<Rightarrow> bytes list) \<Rightarrow> (bytes list \<Rightarrow> 'k \<Rightarrow> 'k) \<Rightarrow> ('k \<Rightarrow> 'k) \<Rightarrow>
   (int \<Rightarrow> (conn_callback, 'k) io \<Rightarrow> (conn_callback, 'k) io) \<Rightarrow> nat \<Rightarrow> (conn_callback, 'k) user" where
  "wire_user os s place queue put crash recv 0 u ec n r = r\<lparr>kernel := crash (kernel r)\<rparr>"
| "wire_user os s place queue put crash recv (Suc m) u ec n r =
     (case u of
        Message_received \<Rightarrow> if ec = 0 then recv n r else r
      | Send_completed \<Rightarrow>
          (case onSendCompleted ec (nat n) (queue (kernel r)) of
             Inl _ \<Rightarrow> r\<lparr>kernel := crash (kernel r)\<rparr>
           | Inr (q, acts) \<Rightarrow>
               fold (wire_perform os (wire_user os s place queue put crash recv m) s place) acts (r\<lparr>kernel := put q (kernel r)\<rparr>)))"

definition wire_send ::
  "'k os \<Rightarrow> (conn_callback, 'k) user \<Rightarrow> nat \<Rightarrow> (bytes \<Rightarrow> const_buffer) \<Rightarrow> ('k \<Rightarrow> bytes list) \<Rightarrow> (bytes list \<Rightarrow> 'k \<Rightarrow> 'k) \<Rightarrow> bytes \<Rightarrow>
   (conn_callback, 'k) io \<Rightarrow> (conn_callback, 'k) io cpp" where
  "wire_send os user s place queue put d r =
     cpp_bind (connection_send d (queue (kernel r))) (\<lambda>(q, acts).
       Inr (fold (wire_perform os user s place) acts (r\<lparr>kernel := put q (kernel r)\<rparr>)))"

text \<open>What the outside does: \<^verbatim>\<open>send\<close> as in \<open>Io_Loop\<close>, \<^verbatim>\<open>epoll_ctl\<close> fails only where it must, and the queue is a cell of
  its own. \<open>wire_progress\<close>: \<^verbatim>\<open>send\<close> does not fail and takes something.\<close>

definition wire_laws ::
  "'k os \<Rightarrow> ('k \<Rightarrow> nat \<Rightarrow> u8) \<Rightarrow> ('k \<Rightarrow> int \<Rightarrow> bytes) \<Rightarrow> ('k \<Rightarrow> int \<Rightarrow> events option) \<Rightarrow> ('k \<Rightarrow> bytes list) \<Rightarrow> (bytes list \<Rightarrow> 'k \<Rightarrow> 'k) \<Rightarrow> bool" where
  "wire_laws os mem out interest queue put \<longleftrightarrow>
     send_ok os mem out queue \<and> epoll_reliable os interest \<and>
     (\<forall>fd p len k. interest (snd (os_send os fd p len k)) = interest k) \<and>
     (\<forall>q k. mem (put q k) = mem k \<and> out (put q k) = out k \<and> interest (put q k) = interest k \<and> queue (put q k) = q)"

definition wire_progress :: "'k os \<Rightarrow> bool" where
  "wire_progress os \<longleftrightarrow> (\<forall>fd p len k. \<exists>n. fst (os_send os fd p len k) = Inr n \<and> (0 < len \<longrightarrow> 0 < n))"

definition located :: "(nat \<Rightarrow> u8) \<Rightarrow> (bytes \<Rightarrow> const_buffer) \<Rightarrow> bytes \<Rightarrow> bool" where
  "located memory place d \<longleftrightarrow> buffer_bytes memory (place d) = d \<and> cb_len (place d) = length d \<and> length d < size_mod"

lemma wire_lawsD:
  assumes "wire_laws os mem out interest queue put"
  shows "send_ok os mem out queue" and "epoll_reliable os interest"
    and "interest (snd (os_send os fd p len k)) = interest k"
    and "mem (put q k) = mem k" and "out (put q k) = out k" and "interest (put q k) = interest k" and "queue (put q k) = q"
    and "untouched os (\<lambda>k. (mem k, out k, queue k))"
  using assms unfolding wire_laws_def send_ok_def by blast+

subsection \<open>What never changes\<close>

lemma wire_user_sockfd: "tcp_sockfd (wire_user os s place queue put crash recv m Send_completed ec n r) = tcp_sockfd r"
proof (induction m arbitrary: ec n r)
  case (Suc m)
  have perform: "tcp_sockfd (wire_perform os (wire_user os s place queue put crash recv m) s place act r) = tcp_sockfd r" for act r
    by (auto simp: wire_perform_def tcp_async_write_def register_eqs io_failed_def Suc.IH
        intro!: steady_register [OF steady_sockfd] split: action.split)
  have "tcp_sockfd (fold (wire_perform os (wire_user os s place queue put crash recv m) s place) acts r) = tcp_sockfd r" for acts r
    by (induction acts arbitrary: r) (simp_all add: perform)
  then show ?case by (simp split: sum.split prod.split)
qed simp

subsection \<open>The state of the wire\<close>

text \<open>\<open>finished\<close> are the strings that are done, \<open>sent\<close> is how much of the front of the queue is with the kernel.\<close>

definition wire_idle :: "('k \<Rightarrow> int \<Rightarrow> events option) \<Rightarrow> int \<Rightarrow> (conn_callback, 'k) io \<Rightarrow> bool" where
  "wire_idle interest fd r \<longleftrightarrow>
     write_op (opinfo_at fd r) = None \<and> (interest (kernel r) fd = None \<longleftrightarrow> read_op (opinfo_at fd r) = None)"

definition wire_busy :: "('k \<Rightarrow> int \<Rightarrow> events option) \<Rightarrow> (bytes \<Rightarrow> const_buffer) \<Rightarrow> int \<Rightarrow> bytes \<Rightarrow> nat \<Rightarrow> (conn_callback, 'k) io \<Rightarrow> bool" where
  "wire_busy interest place fd d sent r \<longleftrightarrow>
     sent \<le> length d \<and> write_op (opinfo_at fd r) = Some (Tcp_write fd (const_buffer_plus (place d) sent) sent Send_completed) \<and>
     interest (kernel r) fd \<noteq> None"

definition front :: "bytes list \<Rightarrow> bytes" where
  "front q = (case q of [] \<Rightarrow> [] | d # _ \<Rightarrow> d)"

definition wire_at ::
  "('k \<Rightarrow> nat \<Rightarrow> u8) \<Rightarrow> ('k \<Rightarrow> int \<Rightarrow> bytes) \<Rightarrow> ('k \<Rightarrow> int \<Rightarrow> events option) \<Rightarrow> ('k \<Rightarrow> bytes list) \<Rightarrow> (bytes \<Rightarrow> const_buffer) \<Rightarrow>
   nat \<Rightarrow> int \<Rightarrow> (nat \<Rightarrow> u8) \<Rightarrow> bytes \<Rightarrow> nat \<Rightarrow> (conn_callback, 'k) io \<Rightarrow> bool" where
  "wire_at mem out interest queue place s fd memory finished sent r \<longleftrightarrow>
     tcp_sockfd r s = fd \<and> mem (kernel r) = memory \<and> list_all (located memory place) (queue (kernel r)) \<and>
     (case queue (kernel r) of [] \<Rightarrow> sent = 0 \<and> wire_idle interest fd r | d # _ \<Rightarrow> wire_busy interest place fd d sent r) \<and>
     out (kernel r) fd = finished @ take sent (front (queue (kernel r)))"

lemma wire_write:
  assumes laws: "wire_laws os mem out interest queue put" and "tcp_sockfd r s = fd" and "wire_idle interest fd r"
    and call: "\<And>ec n r. tcp_sockfd (user Send_completed ec n r) = tcp_sockfd r"
    and r': "r' = wire_perform os user s place (Async_write d) r"
  shows "wire_busy interest place fd d 0 r'" and "tcp_sockfd r' = tcp_sockfd r"
    and "mem (kernel r') = mem (kernel r)" and "out (kernel r') = out (kernel r)" and "queue (kernel r') = queue (kernel r)"
proof -
  have eq: "r' = register os Writing (io_failed user) fd (Tcp_write fd (place d) 0 Send_completed) r"
    using assms(2) by (simp add: r' wire_perform_def tcp_async_write_def register_eqs)
  have "operation Writing (opinfo_at fd r) = None"
    "interest (kernel r) fd = None \<longleftrightarrow> operation (other Writing) (opinfo_at fd r) = None"
    using assms(3) by (simp_all add: wire_idle_def operation_def other_def)
  from register_reliable [OF wire_lawsD(2,8) [OF laws] this, of "io_failed user" "Tcp_write fd (place d) 0 Send_completed"]
  show "wire_busy interest place fd d 0 r'" and "mem (kernel r') = mem (kernel r)" and "out (kernel r') = out (kernel r)"
    and "queue (kernel r') = queue (kernel r)"
    by (auto simp: eq wire_busy_def set_operation_def)
  show "tcp_sockfd r' = tcp_sockfd r"
    unfolding eq by (rule steady_register [OF steady_sockfd]) (simp add: io_failed_def call)
qed

text \<open>Sending.\<close>

lemma wire_idle_put:
  "wire_laws os mem out interest queue put \<Longrightarrow> wire_idle interest fd (r\<lparr>kernel := put q (kernel r)\<rparr>) = wire_idle interest fd r"
  by (simp add: wire_idle_def opinfo_at_kernel wire_lawsD)

lemma wire_busy_put:
  "wire_laws os mem out interest queue put \<Longrightarrow>
   wire_busy interest place fd d sent (r\<lparr>kernel := put q (kernel r)\<rparr>) = wire_busy interest place fd d sent r"
  by (simp add: wire_busy_def opinfo_at_kernel wire_lawsD)

lemma wire_send_at:
  assumes laws: "wire_laws os mem out interest queue put" and at: "wire_at mem out interest queue place s fd memory finished sent r"
    and "located memory place d" and call: "\<And>ec n r. tcp_sockfd (user Send_completed ec n r) = tcp_sockfd r"
    and send: "wire_send os user s place queue put d r = Inr r'"
  shows "wire_at mem out interest queue place s fd memory finished sent r'" and "queue (kernel r') = queue (kernel r) @ [d]"
proof -
  note put = wire_lawsD(4-7) [OF laws]
  have "wire_at mem out interest queue place s fd memory finished sent r' \<and> queue (kernel r') = queue (kernel r) @ [d]"
  proof (cases "queue (kernel r)")
    case Nil
    let ?r = "r\<lparr>kernel := put [d] (kernel r)\<rparr>"
    have r': "r' = wire_perform os user s place (Async_write d) ?r"
      using send Nil by (simp add: wire_send_def connection_send_def start_deque_send_def)
    have "tcp_sockfd ?r s = fd" "wire_idle interest fd ?r"
      using at Nil by (simp_all add: wire_at_def wire_idle_put [OF laws])
    note w = wire_write [OF laws this call r']
    then show ?thesis
      using at Nil assms(3) w(1) by (simp add: wire_at_def put front_def)
  next
    case (Cons x xs)
    then have "r' = r\<lparr>kernel := put (x # xs @ [d]) (kernel r)\<rparr>"
      using send by (simp add: wire_send_def connection_send_def)
    then show ?thesis
      using at Cons assms(3) by (simp add: wire_at_def put front_def wire_busy_put [OF laws])
  qed
  then show "wire_at mem out interest queue place s fd memory finished sent r'" and "queue (kernel r') = queue (kernel r) @ [d]"
    by simp_all
qed

text \<open>A writable event takes the front of the queue further. \<open>backlog\<close> goes down with each.\<close>

definition backlog :: "bytes list \<Rightarrow> nat \<Rightarrow> nat" where
  "backlog q sent = sum_list (map (\<lambda>d. length d + 1) q) - sent"

lemma dispatch_writable:
  "dispatch_event call (fd, EPOLLOUT) r = doWriteOperation call fd err_SUCCESS r"
  by (simp add: dispatch_event_def EPOLLOUT_def EPOLLERR_def EPOLLHUP_def EPOLLIN_def EPOLLPRI_def)

text \<open>What one \<^verbatim>\<open>send\<close> leaves behind: the closure is gone, the socket is idle.\<close>

lemma wire_sent:
  assumes laws: "wire_laws os mem out interest queue put" and at: "wire_at mem out interest queue place s fd memory finished sent r"
    and q: "queue (kernel r) = d # q"
    and send: "sys (os_send os fd (cb_ptr (place d) + sent) (cb_len (place d) - sent)) (removeWriteOperation os fd r) = (res, r2)"
    and r': "r' = dispatch_event (io_call e os user) (fd, EPOLLOUT) r"
  shows "tcp_sockfd r2 s = fd" and "wire_idle interest fd r2" and "mem (kernel r2) = memory" and "queue (kernel r2) = d # q"
    and "case res of
        Inl errno \<Rightarrow> errno \<noteq> 0 \<and> out (kernel r2) fd = finished @ take sent d \<and> r' = user Send_completed errno (int sent) r2
      | Inr n \<Rightarrow> n \<le> length d - sent \<and> out (kernel r2) fd = finished @ take (sent + n) d \<and>
          r' = (if n \<noteq> length d - sent
                then register os Writing (io_failed user) fd (Tcp_write fd (const_buffer_plus (place d) (sent + n)) (sent + n) Send_completed) r2
                else user Send_completed 0 (int (sent + n)) r2)"
proof -
  let ?r1 = "remove_operation os Writing fd r"
  have d: "buffer_bytes memory (place d) = d" "cb_len (place d) = length d" "length d < size_mod"
    and sent: "sent \<le> length d" "write_op (opinfo_at fd r) = Some (Tcp_write fd (const_buffer_plus (place d) sent) sent Send_completed)"
      "interest (kernel r) fd \<noteq> None"
    and r: "tcp_sockfd r s = fd" "mem (kernel r) = memory" "out (kernel r) fd = finished @ take sent d"
    using at q by (simp_all add: wire_at_def located_def wire_busy_def front_def)
  have r1: "removeWriteOperation os fd r = ?r1" by (simp add: remove_operation_def)
  have w: "operation Writing (opinfo_at fd r) \<noteq> None" using sent(2) by (simp add: operation_def)
  have "cb_len (place d) < size_mod" "sent \<le> cb_len (place d)" using d sent(1) by simp_all
  note any = write_event_any [OF wire_lawsD(1) [OF laws] this sent(2) r' [unfolded dispatch_writable] send]
  have r2: "r2 = snd (sys (os_send os fd (cb_ptr (place d) + sent) (cb_len (place d) - sent)) ?r1)"
    using send r1 by simp
  show "tcp_sockfd r2 s = fd"
    unfolding r2 steady_basic(5) [OF steady_sockfd] steady_remove [OF steady_sockfd] by (rule r(1))
  have "interest (kernel r2) = interest (kernel ?r1)"
    by (simp add: r2 sys_def wire_lawsD(3) [OF laws] split: prod.split) (metis snd_conv wire_lawsD(3) [OF laws])
  moreover have "interest (kernel ?r1) fd = None \<longleftrightarrow> operation (other Writing) (opinfo_at fd r) = None"
    using forget_reliable(3) [OF wire_lawsD(2,8) [OF laws] sent(3), of Writing] by (simp add: remove_operation_eq [OF w] kernel_put)
  ultimately show "wire_idle interest fd r2"
    by (simp add: wire_idle_def any(3) set_operation_def other_def operation_def)
  show "mem (kernel r2) = memory" and "queue (kernel r2) = d # q"
    using any(1,2) r q by simp_all
  show "case res of
        Inl errno \<Rightarrow> errno \<noteq> 0 \<and> out (kernel r2) fd = finished @ take sent d \<and> r' = user Send_completed errno (int sent) r2
      | Inr n \<Rightarrow> n \<le> length d - sent \<and> out (kernel r2) fd = finished @ take (sent + n) d \<and>
          r' = (if n \<noteq> length d - sent
                then register os Writing (io_failed user) fd (Tcp_write fd (const_buffer_plus (place d) (sent + n)) (sent + n) Send_completed) r2
                else user Send_completed 0 (int (sent + n)) r2)"
    using any(4) r d by (simp add: take_add split: sum.splits)
qed

text \<open>The callback takes the front off the queue, whatever its code, and writes the next.\<close>

lemma wire_completed:
  assumes laws: "wire_laws os mem out interest queue put"
    and r: "tcp_sockfd r s = fd" "wire_idle interest fd r" "mem (kernel r) = memory" "queue (kernel r) = d # q"
      "list_all (located memory place) q" "out (kernel r) fd = fin"
    and r': "r' = wire_user os s place queue put crash recv (Suc m) Send_completed ec n r"
  shows "wire_at mem out interest queue place s fd memory fin 0 r'" and "queue (kernel r') = q"
proof -
  note put = wire_lawsD(4-7) [OF laws]
  let ?r = "r\<lparr>kernel := put q (kernel r)\<rparr>"
  have idle: "tcp_sockfd ?r s = fd" "wire_idle interest fd ?r"
    using r by (simp_all add: wire_idle_put [OF laws])
  have "wire_at mem out interest queue place s fd memory fin 0 r' \<and> queue (kernel r') = q"
  proof (cases q)
    case Nil
    then have "r' = ?r" using r' r(4) by (simp add: onSendCompleted_def)
    then show ?thesis using Nil r idle by (simp add: wire_at_def put front_def)
  next
    case (Cons d2 q2)
    then have "r' = wire_perform os (wire_user os s place queue put crash recv m) s place (Async_write d2) ?r"
      using r' r(4) by (simp add: onSendCompleted_def start_deque_send_def)
    from wire_write [OF laws idle wire_user_sockfd this] show ?thesis
      using Cons r by (simp add: wire_at_def put front_def)
  qed
  then show "wire_at mem out interest queue place s fd memory fin 0 r'" and "queue (kernel r') = q"
    by simp_all
qed

lemma wire_event:
  assumes laws: "wire_laws os mem out interest queue put" and progress: "wire_progress os"
    and at: "wire_at mem out interest queue place s fd memory finished sent r"
    and r': "r' = dispatch_event (io_call e os (wire_user os s place queue put crash recv (Suc m))) (fd, EPOLLOUT) r"
  shows "\<exists>sent_now sent'. wire_at mem out interest queue place s fd memory (finished @ sent_now) sent' r' \<and>
    sent_now @ concat (queue (kernel r')) = concat (queue (kernel r)) \<and>
    backlog (queue (kernel r')) sent' \<le> backlog (queue (kernel r)) sent - 1"
proof (cases "queue (kernel r)")
  case Nil
  then have "r' = r"
    using at by (simp add: r' dispatch_writable doWriteOperation_def wire_at_def wire_idle_def)
  then show ?thesis using at Nil by (auto simp: backlog_def)
next
  case (Cons d q)
  let ?user = "wire_user os s place queue put crash recv (Suc m)"
  obtain res r2 where send: "sys (os_send os fd (cb_ptr (place d) + sent) (cb_len (place d) - sent)) (removeWriteOperation os fd r) = (res, r2)"
    by fastforce
  note r2 = wire_sent [OF laws at Cons send r']
  have d: "cb_len (place d) = length d" "sent \<le> length d" and q: "list_all (located memory place) (d # q)"
    using at Cons by (simp_all add: wire_at_def located_def wire_busy_def)
  have "res = fst (os_send os fd (cb_ptr (place d) + sent) (cb_len (place d) - sent) (kernel (removeWriteOperation os fd r)))"
    using send by (auto simp: sys_def split: prod.splits)
  then obtain n where n: "res = Inr n" "sent < length d \<Longrightarrow> 0 < n"
    using progress d unfolding wire_progress_def by (metis zero_less_diff)
  show ?thesis
  proof (cases "n = length d - sent")
    case True
    then have out: "out (kernel r2) fd = finished @ d" and eq: "r' = ?user Send_completed 0 (int (sent + n)) r2"
      using r2(5) n(1) d(2) by simp_all
    have "list_all (located memory place) q" using q by simp
    from wire_completed [OF laws r2(1-4) this out eq] show ?thesis
      using Cons d(2) by (intro exI [of _ d] exI [of _ 0]) (auto simp: backlog_def)
  next
    case False
    let ?op = "Tcp_write fd (const_buffer_plus (place d) (sent + n)) (sent + n) Send_completed"
    have more: "0 < n" "sent + n < length d" "out (kernel r2) fd = finished @ take (sent + n) d"
      "r' = register os Writing (io_failed ?user) fd ?op r2"
      using r2(5) n d(2) False by auto
    have "operation Writing (opinfo_at fd r2) = None"
      "interest (kernel r2) fd = None \<longleftrightarrow> operation (other Writing) (opinfo_at fd r2) = None"
      using r2(2) by (simp_all add: wire_idle_def operation_def other_def)
    from register_reliable [OF wire_lawsD(2,8) [OF laws] this, of "io_failed ?user" ?op]
    have new: "opinfo_at fd r' = set_operation Writing (Some ?op) (opinfo_at fd r2)" "interest (kernel r') fd \<noteq> None"
      "mem (kernel r') = memory" "out (kernel r') fd = finished @ take (sent + n) d" "queue (kernel r') = d # q"
      using r2(3,4) more(3,4) by auto
    have "tcp_sockfd r' s = fd"
      unfolding more(4) by (subst steady_register [OF steady_sockfd]) (simp_all add: io_failed_def wire_user_sockfd r2(1) del: wire_user.simps)
    then have "wire_at mem out interest queue place s fd memory finished (sent + n) r'"
      using new q more(2) by (simp add: wire_at_def wire_busy_def front_def set_operation_def)
    then show ?thesis
      using new(5) Cons more by (intro exI [of _ "[]"] exI [of _ "sent + n"]) (auto simp: backlog_def)
  qed
qed

subsection \<open>Histories\<close>

text \<open>Strings given to \<open>send\<close> and writable events, in any order; \<open>submitted\<close> are the strings so far.\<close>

inductive wire_reach ::
  "endian \<Rightarrow> 'k os \<Rightarrow> nat \<Rightarrow> int \<Rightarrow> (bytes \<Rightarrow> const_buffer) \<Rightarrow> ('k \<Rightarrow> bytes list) \<Rightarrow> (bytes list \<Rightarrow> 'k \<Rightarrow> 'k) \<Rightarrow> (conn_callback, 'k) user \<Rightarrow>
   (nat \<Rightarrow> u8) \<Rightarrow> (conn_callback, 'k) io \<Rightarrow> bytes list \<Rightarrow> (conn_callback, 'k) io \<Rightarrow> bool"
  for e os s fd place queue put user memory r0 where
  start: "wire_reach e os s fd place queue put user memory r0 [] r0"
| send: "wire_reach e os s fd place queue put user memory r0 submitted r \<Longrightarrow> located memory place d \<Longrightarrow>
    wire_send os user s place queue put d r = Inr r' \<Longrightarrow>
    wire_reach e os s fd place queue put user memory r0 (submitted @ [d]) r'"
| writable: "wire_reach e os s fd place queue put user memory r0 submitted r \<Longrightarrow>
    wire_reach e os s fd place queue put user memory r0 submitted (dispatch_event (io_call e os user) (fd, EPOLLOUT) r)"

definition cost :: "bytes list \<Rightarrow> nat" where
  "cost ds = sum_list (map (\<lambda>d. length d + 1) ds)"

lemma backlog_cost: "backlog q sent = cost q - sent"
  by (simp add: backlog_def cost_def)

lemma wire_reach_at:
  assumes laws: "wire_laws os mem out interest queue put" and progress: "wire_progress os"
    and start: "tcp_sockfd r0 s = fd" "wire_idle interest fd r0" "queue (kernel r0) = []"
    and user: "user = wire_user os s place queue put crash recv (Suc m)"
    and reach: "wire_reach e os s fd place queue put user (mem (kernel r0)) r0 submitted r"
  shows "\<exists>sent_now sent. wire_at mem out interest queue place s fd (mem (kernel r0)) (out (kernel r0) fd @ sent_now) sent r \<and>
    sent_now @ concat (queue (kernel r)) = concat submitted \<and> backlog (queue (kernel r)) sent \<le> cost submitted"
  using reach
proof (induction rule: wire_reach.induct)
  case start
  have "wire_at mem out interest queue place s fd (mem (kernel r0)) (out (kernel r0) fd @ []) 0 r0"
    using assms(3-5) by (simp add: wire_at_def front_def)
  then show ?case using assms(5) by (auto simp: backlog_def)
next
  case (send submitted r d r')
  then obtain sent_now sent where at: "wire_at mem out interest queue place s fd (mem (kernel r0)) (out (kernel r0) fd @ sent_now) sent r"
    "sent_now @ concat (queue (kernel r)) = concat submitted" "backlog (queue (kernel r)) sent \<le> cost submitted" by blast
  have "tcp_sockfd (user Send_completed ec n r) = tcp_sockfd r" for ec n r
    unfolding user by (rule wire_user_sockfd)
  from wire_send_at [OF laws at(1) send.hyps(2) this send.hyps(3)] at(2,3) show ?case
    by (intro exI [of _ sent_now] exI [of _ sent]) (auto simp: backlog_cost cost_def)
next
  case (writable submitted r)
  then obtain sent_now sent where at: "wire_at mem out interest queue place s fd (mem (kernel r0)) (out (kernel r0) fd @ sent_now) sent r"
    "sent_now @ concat (queue (kernel r)) = concat submitted" "backlog (queue (kernel r)) sent \<le> cost submitted" by blast
  from wire_event [OF laws progress at(1) refl, of e crash recv m]
  obtain now sent' where "wire_at mem out interest queue place s fd (mem (kernel r0)) (out (kernel r0) fd @ sent_now @ now) sent'
      (dispatch_event (io_call e os user) (fd, EPOLLOUT) r)"
    "now @ concat (queue (kernel (dispatch_event (io_call e os user) (fd, EPOLLOUT) r))) = concat (queue (kernel r))"
    "backlog (queue (kernel (dispatch_event (io_call e os user) (fd, EPOLLOUT) r))) sent' \<le> backlog (queue (kernel r)) sent - 1"
    unfolding user by auto
  then show ?case
    using at(2,3) by (intro exI [of _ "sent_now @ now"] exI [of _ sent']) auto
qed

lemma wire_events:
  assumes laws: "wire_laws os mem out interest queue put" and progress: "wire_progress os"
    and call: "call = io_call e os (wire_user os s place queue put crash recv (Suc m))"
    and at: "wire_at mem out interest queue place s fd memory finished sent r"
  shows "\<exists>sent_now sent'. wire_at mem out interest queue place s fd memory (finished @ sent_now) sent' ((dispatch_event call (fd, EPOLLOUT) ^^ n) r) \<and>
    sent_now @ concat (queue (kernel ((dispatch_event call (fd, EPOLLOUT) ^^ n) r))) = concat (queue (kernel r)) \<and>
    backlog (queue (kernel ((dispatch_event call (fd, EPOLLOUT) ^^ n) r))) sent' \<le> backlog (queue (kernel r)) sent - n"
proof (induction n)
  case 0
  then show ?case using at by auto
next
  case (Suc n)
  let ?r = "(dispatch_event call (fd, EPOLLOUT) ^^ n) r"
  obtain sent_now sent' where ih: "wire_at mem out interest queue place s fd memory (finished @ sent_now) sent' ?r"
    "sent_now @ concat (queue (kernel ?r)) = concat (queue (kernel r))"
    "backlog (queue (kernel ?r)) sent' \<le> backlog (queue (kernel r)) sent - n"
    using Suc.IH by blast
  from wire_event [OF laws progress ih(1) refl, of e crash recv m, folded call] obtain now sent'' where
    "wire_at mem out interest queue place s fd memory ((finished @ sent_now) @ now) sent'' (dispatch_event call (fd, EPOLLOUT) ?r)"
    "now @ concat (queue (kernel (dispatch_event call (fd, EPOLLOUT) ?r))) = concat (queue (kernel ?r))"
    "backlog (queue (kernel (dispatch_event call (fd, EPOLLOUT) ?r))) sent'' \<le> backlog (queue (kernel ?r)) sent' - 1"
    by blast
  then show ?case
    using ih(2,3) by (intro exI [of _ "sent_now @ now"] exI [of _ sent'']) auto
qed

lemma wire_backlog_empty:
  assumes "wire_at mem out interest queue place s fd memory finished sent r" and "backlog (queue (kernel r)) sent = 0"
  shows "queue (kernel r) = []"
  using assms by (cases "queue (kernel r)") (auto simp: wire_at_def wire_busy_def backlog_def)

lemma wire_in_order:
  assumes laws: "wire_laws os mem out interest queue put" and progress: "wire_progress os"
    and start: "tcp_sockfd r0 s = fd" "wire_idle interest fd r0" "queue (kernel r0) = []"
    and user: "user = wire_user os s place queue put crash recv (Suc m)"
    and reach: "wire_reach e os s fd place queue put user (mem (kernel r0)) r0 submitted r"
  shows "\<exists>sent. out (kernel r) fd = out (kernel r0) fd @ take sent (concat submitted)"
    and "cost submitted \<le> n \<Longrightarrow>
       out (kernel ((dispatch_event (io_call e os user) (fd, EPOLLOUT) ^^ n) r)) fd = out (kernel r0) fd @ concat submitted"
proof -
  obtain sent_now sent where at: "wire_at mem out interest queue place s fd (mem (kernel r0)) (out (kernel r0) fd @ sent_now) sent r"
    "sent_now @ concat (queue (kernel r)) = concat submitted" "backlog (queue (kernel r)) sent \<le> cost submitted"
    using wire_reach_at [OF assms] by blast
  let ?q = "queue (kernel r)" and ?r = "(dispatch_event (io_call e os user) (fd, EPOLLOUT) ^^ n) r"
  have "take (length sent_now + min sent (length (front ?q))) (sent_now @ concat ?q) = sent_now @ take sent (front ?q)"
    by (cases ?q) (auto simp: front_def min_def)
  then have "out (kernel r) fd = out (kernel r0) fd @ take (length sent_now + min sent (length (front ?q))) (concat submitted)"
    using at(1,2) by (simp add: wire_at_def)
  then show "\<exists>sent. out (kernel r) fd = out (kernel r0) fd @ take sent (concat submitted)" by blast
  show "out (kernel ?r) fd = out (kernel r0) fd @ concat submitted" if n: "cost submitted \<le> n"
  proof -
    obtain now sent' where after: "wire_at mem out interest queue place s fd (mem (kernel r0)) ((out (kernel r0) fd @ sent_now) @ now) sent' ?r"
      "now @ concat (queue (kernel ?r)) = concat ?q" "backlog (queue (kernel ?r)) sent' \<le> backlog ?q sent - n"
      using wire_events [OF laws progress _ at(1), of "io_call e os user" e crash recv m n] user by blast
    have "queue (kernel ?r) = []"
      using wire_backlog_empty [OF after(1)] after(3) at(3) n by simp
    then show ?thesis
      using after(1,2) at(2) by (simp add: wire_at_def front_def)
  qed
qed

subsection \<open>A kernel for the examples\<close>

text \<open>It holds two strings in its memory; \<^verbatim>\<open>send\<close> is a parameter.\<close>

record wire_kernel =
  wk_interest :: "int \<Rightarrow> events option"
  wk_out :: "int \<Rightarrow> bytes"
  wk_queue :: "bytes list"

definition wk_put :: "bytes list \<Rightarrow> wire_kernel \<Rightarrow> wire_kernel" where
  "wk_put q k = k\<lparr>wk_queue := q\<rparr>"

definition wk_strings :: bytes where
  "wk_strings = frame Big_endian [7, 8] @ frame Big_endian [9]"

definition wk_mem :: "wire_kernel \<Rightarrow> nat \<Rightarrow> u8" where
  "wk_mem k i = (if i < length wk_strings then wk_strings ! i else 0)"

definition wk_place :: "bytes \<Rightarrow> const_buffer" where
  "wk_place d = (if length d = 6 then \<lparr>cb_ptr = 0, cb_len = 6\<rparr> else \<lparr>cb_ptr = 6, cb_len = 5\<rparr>)"

definition wk_ctl :: "epoll_op \<Rightarrow> int \<Rightarrow> events \<Rightarrow> wire_kernel \<Rightarrow> int \<times> wire_kernel" where
  "wk_ctl p fd ev k =
     (if p = EPOLL_CTL_ADD \<and> wk_interest k fd \<noteq> None then (17, k)
      else if p \<noteq> EPOLL_CTL_ADD \<and> wk_interest k fd = None then (ENOENT, k)
      else (0, k\<lparr>wk_interest := (wk_interest k)(fd := (if p = EPOLL_CTL_DEL then None else Some ev))\<rparr>))"

definition wk_send :: "int \<Rightarrow> nat \<Rightarrow> nat \<Rightarrow> wire_kernel \<Rightarrow> (int + nat) \<times> wire_kernel" where
  "wk_send fd p len k =
     (Inr (min 4 len), k\<lparr>wk_out := (wk_out k)(fd := wk_out k fd @ take (min 4 len) (map (wk_mem k) [p ..< p + len]))\<rparr>)"

definition wk_os :: "(int \<Rightarrow> nat \<Rightarrow> nat \<Rightarrow> wire_kernel \<Rightarrow> (int + nat) \<times> wire_kernel) \<Rightarrow> wire_kernel os" where
  "wk_os send =
     \<lparr>os_epoll_ctl = wk_ctl, os_epoll_wait = (\<lambda>n k. (Inl EINTR, k)),
      os_socket = (\<lambda>f t k. (Inr 3, k)), os_getfl = (\<lambda>fd k. 0), os_setfl = (\<lambda>fd fl k. k), os_close = (\<lambda>fd k. (0, k)),
      os_recv = (\<lambda>fd a n k. (Inr 0, k)), os_send = send,
      os_recvfrom = (\<lambda>fd a n k. (Inr (0, []), k)), os_sendto = (\<lambda>fd a n ad k. (Inr n, k)),
      os_accept = (\<lambda>fd k. (Inr 4, k)), os_connect = (\<lambda>fd ad k. (0, k)), os_so_error = (\<lambda>fd k. (0, k)),
      os_bind = (\<lambda>fd ad k. (0, k)), os_listen = (\<lambda>fd n k. (0, k)), os_setsockopt = (\<lambda>fd opt v k. (0, k)),
      os_shutdown = (\<lambda>fd h k. (0, k)), os_getpeername = (\<lambda>fd n k. (Inr [], k)), os_getsockname = (\<lambda>fd n k. (Inr [], k)),
      os_signalfd = (\<lambda>fd sigs k. (Inr 6, k)), os_sigmask = (\<lambda>b sigs k. k), os_read_siginfo = (\<lambda>fd k. (2, k))\<rparr>"

definition wk_io :: "(conn_callback, wire_kernel) io" where
  "wk_io =
     \<lparr>quit = True, event_array_size = 128, fd_opinfo_umap = [],
      kernel = \<lparr>wk_interest = (\<lambda>_. None), wk_out = (\<lambda>_. []), wk_queue = []\<rparr>,
      tcp_sockfd = (\<lambda>_. 3), udp_sockfd = (\<lambda>_. - 1), endpoints = (\<lambda>_. Endpoint)\<rparr>"

lemma wk_mem_eq: "wk_mem k = wk_mem k'"
  by (rule ext) (simp add: wk_mem_def)

lemma wk_ctl_simps:
  "wk_mem (snd (wk_ctl p fd ev k)) = wk_mem k" "wk_out (snd (wk_ctl p fd ev k)) = wk_out k"
  "wk_queue (snd (wk_ctl p fd ev k)) = wk_queue k"
  using wk_mem_eq by (auto simp: wk_ctl_def)

lemma wk_laws:
  assumes "\<And>fd p len k. send_law wk_mem wk_out fd p len k (fst (f fd p len k)) (snd (f fd p len k))"
    and "\<And>fd p len k. wk_queue (snd (f fd p len k)) = wk_queue k \<and> wk_interest (snd (f fd p len k)) = wk_interest k"
  shows "wire_laws (wk_os f) wk_mem wk_out wk_interest wk_queue wk_put"
  unfolding wire_laws_def
proof (intro conjI)
  show "send_ok (wk_os f) wk_mem wk_out wk_queue"
    using assms by (simp add: send_ok_def untouched_def wk_os_def wk_ctl_simps)
  show "epoll_reliable (wk_os f) wk_interest"
    by (auto simp: epoll_reliable_def epoll_laws_def epoll_law_def wk_os_def wk_ctl_def ENOENT_def)
  show "\<forall>fd p len k. wk_interest (snd (os_send (wk_os f) fd p len k)) = wk_interest k"
    using assms(2) by (simp add: wk_os_def)
  show "\<forall>q k. wk_mem (wk_put q k) = wk_mem k \<and> wk_out (wk_put q k) = wk_out k \<and> wk_interest (wk_put q k) = wk_interest k \<and>
      wk_queue (wk_put q k) = q"
    using wk_mem_eq by (simp add: wk_put_def)
qed

lemma wk_located: "located (wk_mem k) wk_place (frame Big_endian [7, 8])" "located (wk_mem k) wk_place (frame Big_endian [9])"
proof -
  have len: "length (frame Big_endian [7, 8]) = 6" "length (frame Big_endian [9]) = 5" "length wk_strings = 11"
    by (simp_all add: frame_def wk_strings_def)
  have "map (wk_mem k) [p ..< p + n] = take n (drop p wk_strings)" if "p + n \<le> 11" for p n
    by (rule nth_equalityI) (use that len(3) in \<open>simp_all add: wk_mem_def\<close>)
  from this [of 0 6] this [of 6 5] show "located (wk_mem k) wk_place (frame Big_endian [7, 8])"
    "located (wk_mem k) wk_place (frame Big_endian [9])"
    using len by (simp_all add: located_def wk_place_def buffer_bytes_def size_mod_def) (simp_all add: wk_strings_def)
qed

lemma wk_send_laws: "wire_laws (wk_os wk_send) wk_mem wk_out wk_interest wk_queue wk_put" "wire_progress (wk_os wk_send)"
proof -
  show "wire_laws (wk_os wk_send) wk_mem wk_out wk_interest wk_queue wk_put"
    by (rule wk_laws) (auto simp: send_law_def wk_send_def wk_mem_eq [of "wk_out_update _ _"] min_def)
  show "wire_progress (wk_os wk_send)"
    by (simp add: wire_progress_def wk_os_def wk_send_def)
qed

lemma wk_io_start: "tcp_sockfd wk_io 0 = 3" "wire_idle wk_interest 3 wk_io" "wk_queue (kernel wk_io) = []" "wk_out (kernel wk_io) 3 = []"
  by (simp_all add: wk_io_def wire_idle_def opinfo_at_def umap_find_def OperationInfo_def)

definition wk_user :: "(conn_callback, wire_kernel) user" where
  "wk_user = wire_user (wk_os wk_send) 0 wk_place wk_queue wk_put (\<lambda>k. k) (\<lambda>n r. r) 1"

text \<open>Two strings given to \<open>send\<close>, one after the other.\<close>

lemma wk_two_sent:
  "\<exists>r. wire_reach Little_endian (wk_os wk_send) 0 3 wk_place wk_queue wk_put wk_user (wk_mem (kernel wk_io)) wk_io
     [frame Big_endian [7, 8], frame Big_endian [9]] r"
proof -
  let ?reach = "wire_reach Little_endian (wk_os wk_send) 0 3 wk_place wk_queue wk_put wk_user (wk_mem (kernel wk_io)) wk_io"
  have some: "\<exists>r'. wire_send (wk_os wk_send) wk_user 0 wk_place wk_queue wk_put d r = Inr r'" for d r
    by (cases "wk_queue (kernel r)") (simp_all add: wire_send_def connection_send_def start_deque_send_def)
  obtain r1 where "wire_send (wk_os wk_send) wk_user 0 wk_place wk_queue wk_put (frame Big_endian [7, 8]) wk_io = Inr r1"
    using some by blast
  then have r1: "?reach ([] @ [frame Big_endian [7, 8]]) r1"
    by (rule wire_reach.send [OF wire_reach.start wk_located(1)])
  obtain r2 where "wire_send (wk_os wk_send) wk_user 0 wk_place wk_queue wk_put (frame Big_endian [9]) r1 = Inr r2"
    using some by blast
  then have "?reach (([] @ [frame Big_endian [7, 8]]) @ [frame Big_endian [9]]) r2"
    by (rule wire_reach.send [OF r1 wk_located(2)])
  then show ?thesis by auto
qed

subsection \<open>Properties\<close>

text \<open>Strings given to an RPC connection, at any time and however little each \<^verbatim>\<open>send\<close> takes, reach the kernel in
  their order with nothing between them: at every moment a prefix of their concatenation, and all of it after as many writable
  events as they have bytes, and one more for each.\<close>

lemma rpc_wire_in_order:
  assumes "wire_laws os mem out interest queue put" and "wire_progress os"
    and "tcp_sockfd r0 s = fd" and "wire_idle interest fd r0" and "queue (kernel r0) = []"
    and "user = wire_user os s place queue put crash recv (Suc m)"
    and "wire_reach e os s fd place queue put user (mem (kernel r0)) r0 submitted r"
  shows "(\<exists>sent. out (kernel r) fd = out (kernel r0) fd @ take sent (concat submitted)) \<and>
    (cost submitted \<le> n \<longrightarrow>
       out (kernel ((dispatch_event (io_call e os user) (fd, EPOLLOUT) ^^ n) r)) fd = out (kernel r0) fd @ concat submitted)"
  using wire_in_order [OF assms] by blast

lemma rpc_wire_in_order_witness:
  "\<exists>r. wk_out (kernel ((dispatch_event (io_call Little_endian (wk_os wk_send) wk_user) (3, EPOLLOUT) ^^ 13) r)) 3 = wk_strings"
proof -
  obtain r where r: "wire_reach Little_endian (wk_os wk_send) 0 3 wk_place wk_queue wk_put wk_user (wk_mem (kernel wk_io)) wk_io
     [frame Big_endian [7, 8], frame Big_endian [9]] r"
    using wk_two_sent by blast
  have "wk_user = wire_user (wk_os wk_send) 0 wk_place wk_queue wk_put (\<lambda>k. k) (\<lambda>n r. r) (Suc 0)" by (simp add: wk_user_def)
  from rpc_wire_in_order [OF wk_send_laws wk_io_start(1-3) this r, of 13] show ?thesis
    by (auto simp: cost_def frame_def wk_strings_def wk_io_start)
qed

text \<open>Messages framed and given to one connection, pushed through its socket by the reactor, and read by another
  connection from that socket's bytes cut in any way, arrive as they were sent, each once and in order, with nothing left over.\<close>

lemma rpc_messages_cross_the_wire:
  assumes "wire_laws os mem out interest queue put" and "wire_progress os"
    and "tcp_sockfd r0 s = fd" and "wire_idle interest fd r0" and "queue (kernel r0) = []"
    and "user = wire_user os s place queue put crash recv (Suc m)"
    and "wire_reach e os s fd place queue put user (mem (kernel r0)) r0 (map (frame sender) msgs) r"
    and "cost (map (frame sender) msgs) \<le> n" and "\<And>x. x \<in> set msgs \<Longrightarrow> length x < 2 ^ 32"
    and "out (kernel r0) fd @ concat cs = out (kernel ((dispatch_event (io_call e os user) (fd, EPOLLOUT) ^^ n) r)) fd"
    and "list_all (\<lambda>c. c \<noteq> [] \<and> length c \<le> 4096) cs" and "length (concat cs) \<le> 2 ^ 62"
    and "start_recv (read_buf Connection) = Inr (b, reads)" and "run_messages op msgs st = Inr (st', acts)"
  shows "\<exists>b' acts'. recv_run receiver op cs b st = Inr (b', st', acts') \<and> unread b' = []"
proof -
  have "concat cs = concat (map (frame sender) msgs)"
    using wire_in_order(2) [OF assms(1-8)] assms(10) by simp
  from new_connection_receives [OF assms(11,12) this assms(9,13,14)] show ?thesis .
qed

lemma rpc_messages_cross_the_wire_witness:
  "\<exists>b reads b' acts'. start_recv (read_buf Connection) = Inr (b, reads) \<and>
     recv_run Little_endian (Some keep_op) [take 7 wk_strings, drop 7 wk_strings] b [] = Inr (b', [[7, 8], [9]], acts') \<and> unread b' = []"
proof -
  have "\<exists>b n. start_recv (read_buf Connection) = Inr (b, [Async_read n])"
    using start_recv_ready [of "DynamicBuffer 1024" 100]
    by (simp add: Connection_def DynamicBuffer_inv) (auto simp: DynamicBuffer_def)
  then obtain b k where b: "start_recv (read_buf Connection) = Inr (b, [Async_read k])" by blast
  obtain r where "wire_reach Little_endian (wk_os wk_send) 0 3 wk_place wk_queue wk_put wk_user (wk_mem (kernel wk_io)) wk_io
     [frame Big_endian [7, 8], frame Big_endian [9]] r"
    using wk_two_sent by blast
  then have r: "wire_reach Little_endian (wk_os wk_send) 0 3 wk_place wk_queue wk_put wk_user (wk_mem (kernel wk_io)) wk_io
     (map (frame Big_endian) [[7, 8], [9]]) r" by simp
  have user: "wk_user = wire_user (wk_os wk_send) 0 wk_place wk_queue wk_put (\<lambda>k. k) (\<lambda>n r. r) (Suc 0)" by (simp add: wk_user_def)
  have len: "length wk_strings = 11" and cost: "cost (map (frame Big_endian) [[7, 8], [9]]) \<le> 13"
    by (simp_all add: frame_def wk_strings_def cost_def)
  have "wk_out (kernel wk_io) 3 @ concat [take 7 wk_strings, drop 7 wk_strings] =
      wk_out (kernel ((dispatch_event (io_call Little_endian (wk_os wk_send) wk_user) (3, EPOLLOUT) ^^ 13) r)) 3"
  proof -
    have "concat [take 7 wk_strings, drop 7 wk_strings] = concat (map (frame Big_endian) [[7, 8], [9]])"
      by simp (simp add: wk_strings_def)
    then show ?thesis
      using wire_in_order(2) [OF wk_send_laws wk_io_start(1-3) user r cost] by (simp add: wk_io_start)
  qed
  moreover have "list_all (\<lambda>c. c \<noteq> [] \<and> length c \<le> 4096) [take 7 wk_strings, drop 7 wk_strings]"
    using len by auto
  moreover have "run_messages (Some keep_op) [[7, 8], [9]] [] = Inr ([[7, 8], [9]], [])"
    by (simp add: call_message_op_def keep_op_def)
  moreover have "length x < 2 ^ 32" if "x \<in> set [[7, 8], [9 :: u8]]" for x
    using that by auto
  moreover have "length (concat [take 7 wk_strings, drop 7 wk_strings]) \<le> 2 ^ 62"
    using len by simp
  ultimately have "\<exists>b' acts'. recv_run Little_endian (Some keep_op) [take 7 wk_strings, drop 7 wk_strings] b [] =
      Inr (b', [[7, 8], [9]], acts') \<and> unread b' = []"
    by (intro rpc_messages_cross_the_wire [OF wk_send_laws wk_io_start(1-3) user r cost _ _ _ _ b])
  then show ?thesis using b by blast
qed

text \<open>What a peer reads of a stream with the first part of one frame and the next frame behind it: a message of the announced length, with the
  beginning of the next frame in the place of its end.\<close>

lemma split_cut_frame:
  assumes "d = frame e x" and "length x < 2 ^ 32" and "4 \<le> sent" and "sent \<le> length d" and "length d - sent \<le> length y"
  shows "split_frame (take sent d @ y) = Some (drop 4 (take sent d) @ take (length d - sent) y, drop (length d - sent) y)"
proof -
  have len: "unat (of_nat (length x) :: u32) = length x"
    using assms(2) by (simp add: unat_of_nat)
  have d: "length d = length x + 4" "take 4 d = object_repr e 4 (htonl e (of_nat (length x)))"
    using assms(1) by (simp_all add: frame_def)
  have "take 4 (take sent d @ y) = take 4 d" using assms(3,4) by (simp add: min_def)
  then show ?thesis
    using assms(3-5) len d by (auto simp: split_frame_def bytes_simps Let_def min_def)
qed

text \<open>C24: When one \<^verbatim>\<open>send\<close> fails in the middle of a string, the connection goes on with the next one: the next \<^verbatim>\<open>send\<close>
  that succeeds puts the beginning of the next frame right behind the part of the cut one. A peer then reads a message that neither side sent: what
  had got through of the first, continued with the bytes (length and all) of the second, and loses its place in the stream.\<close>

theorem failed_send_cuts_string:
  assumes laws: "wire_laws os mem out interest queue put"
    and at: "wire_at mem out interest queue place s fd memory finished sent r" and q: "queue (kernel r) = d # d2 # q"
    and user: "user = wire_user os s place queue put crash recv (Suc m)"
    and fail: "fst (os_send os fd (cb_ptr (place d) + sent) (cb_len (place d) - sent) (kernel (removeWriteOperation os fd r))) = Inl errno"
    and r1: "r1 = dispatch_event (io_call e os user) (fd, EPOLLOUT) r"
    and goes: "fst (os_send os fd (cb_ptr (place d2)) (cb_len (place d2)) (kernel (removeWriteOperation os fd r1))) = Inr n"
    and r2: "r2 = dispatch_event (io_call e os user) (fd, EPOLLOUT) r1"
  shows "queue (kernel r1) = d2 # q \<and> out (kernel r1) fd = finished @ take sent d \<and>
    write_op (opinfo_at fd r1) = Some (Tcp_write fd (place d2) 0 Send_completed) \<and>
    n \<le> length d2 \<and> out (kernel r2) fd = finished @ take sent d @ take n d2 \<and> (n = length d2 \<longrightarrow> queue (kernel r2) = q) \<and>
    (\<forall>sender x. d = frame sender x \<and> length x < 2 ^ 32 \<and> 4 \<le> sent \<and> length d - sent \<le> n \<longrightarrow>
       split_frame (take sent d @ take n d2) =
         Some (drop 4 (take sent d) @ take (length d - sent) d2, drop (length d - sent) (take n d2)))"
proof -
  obtain res rk where send: "sys (os_send os fd (cb_ptr (place d) + sent) (cb_len (place d) - sent)) (removeWriteOperation os fd r) = (res, rk)"
    by fastforce
  note first = wire_sent [OF laws at q send r1]
  have "res = Inl errno"
    using send fail by (auto simp: sys_def split: prod.splits)
  then have eq: "r1 = wire_user os s place queue put crash recv (Suc m) Send_completed errno (int sent) rk"
    and out: "out (kernel rk) fd = finished @ take sent d"
    using first(5) user by simp_all
  have all: "list_all (located memory place) (d2 # q)" "sent \<le> length d"
    using at q by (simp_all add: wire_at_def wire_busy_def)
  note at1 = wire_completed [OF laws first(1-4) all(1) out eq]
  obtain res2 rk2 where send2: "sys (os_send os fd (cb_ptr (place d2) + 0) (cb_len (place d2) - 0)) (removeWriteOperation os fd r1) = (res2, rk2)"
    by fastforce
  note second = wire_sent [OF laws at1 send2 r2]
  have "res2 = Inr n"
    using send2 goes by (auto simp: sys_def split: prod.splits)
  then have n: "n \<le> length d2" "out (kernel rk2) fd = finished @ take sent d @ take n d2"
    and eq2: "r2 = (if n \<noteq> length d2
      then register os Writing (io_failed user) fd (Tcp_write fd (const_buffer_plus (place d2) n) n Send_completed) rk2
      else user Send_completed 0 (int n) rk2)"
    using second(5) by simp_all
  have r2: "out (kernel r2) fd = finished @ take sent d @ take n d2 \<and> (n = length d2 \<longrightarrow> queue (kernel r2) = q)"
  proof (cases "n = length d2")
    case True
    then have "r2 = wire_user os s place queue put crash recv (Suc m) Send_completed 0 (int n) rk2"
      using eq2 user by simp
    from wire_completed [OF laws second(1-4) _ n(2) this] show ?thesis
      using all(1) True by (auto simp: wire_at_def front_def split: list.splits)
  next
    case False
    then have "r2 = register os Writing (io_failed user) fd (Tcp_write fd (const_buffer_plus (place d2) n) n Send_completed) rk2"
      using eq2 by simp
    moreover have "operation Writing (opinfo_at fd rk2) = None"
      "interest (kernel rk2) fd = None \<longleftrightarrow> operation (other Writing) (opinfo_at fd rk2) = None"
      using second(2) by (simp_all add: wire_idle_def operation_def other_def)
    note register_reliable [OF wire_lawsD(2,8) [OF laws] this, of "io_failed user" "Tcp_write fd (const_buffer_plus (place d2) n) n Send_completed"]
    ultimately show ?thesis
      using n(2) False by simp
  qed
  have "split_frame (take sent d @ take n d2) =
      Some (drop 4 (take sent d) @ take (length d - sent) d2, drop (length d - sent) (take n d2))"
    if "d = frame sender x" and "length x < 2 ^ 32" and "4 \<le> sent" and "length d - sent \<le> n" for sender x
    using split_cut_frame [OF that(1-3) all(2), of "take n d2"] that(4) n(1) by (simp add: min_def)
  then show ?thesis
    using at1 n(1) r2 by (auto simp: wire_at_def wire_busy_def front_def)
qed

text \<open>A kernel that is interrupted in a \<^verbatim>\<open>send\<close> of the two bytes that the first of the two strings has left, and in no other.\<close>

definition wk_fail :: "int \<Rightarrow> nat \<Rightarrow> nat \<Rightarrow> wire_kernel \<Rightarrow> (int + nat) \<times> wire_kernel" where
  "wk_fail fd p len k = (if len = 2 then (Inl EINTR, k) else wk_send fd p len k)"

definition wk_half_sent :: "(conn_callback, wire_kernel) io" where
  "wk_half_sent = wk_io\<lparr>fd_opinfo_umap := [(3, \<lparr>read_op = None, write_op = Some (Tcp_write 3 \<lparr>cb_ptr = 4, cb_len = 2\<rparr> 4 Send_completed)\<rparr>)],
     kernel := \<lparr>wk_interest = (\<lambda>_. Some EPOLLOUT), wk_out = (\<lambda>_. take 4 (frame Big_endian [7, 8])),
       wk_queue = [frame Big_endian [7, 8], frame Big_endian [9]]\<rparr>\<rparr>"

lemma wk_half_sent_at:
  "wire_at wk_mem wk_out wk_interest wk_queue wk_place 0 3 (wk_mem (kernel wk_half_sent)) [] 4 wk_half_sent"
proof -
  have "length (frame Big_endian [7, 8]) = 6" by (simp add: frame_def)
  then show ?thesis
    using wk_located [of "kernel wk_half_sent"]
    by (simp add: wire_at_def wk_half_sent_def wk_io_def wire_busy_def front_def opinfo_at_def umap_find_def wk_place_def
        const_buffer_plus_def ConstBuffer_def)
qed

definition wk_event :: "(conn_callback, wire_kernel) io \<Rightarrow> (conn_callback, wire_kernel) io" where
  "wk_event = dispatch_event (io_call Little_endian (wk_os wk_fail)
     (wire_user (wk_os wk_fail) 0 wk_place wk_queue wk_put (\<lambda>k. k) (\<lambda>n r. r) (Suc 0))) (3, EPOLLOUT)"

theorem failed_send_cuts_string_witness:
  "wk_out (kernel (wk_event wk_half_sent)) 3 = take 4 (frame Big_endian [7, 8]) \<and>
     wk_queue (kernel (wk_event wk_half_sent)) = [frame Big_endian [9]] \<and>
     wk_out (kernel (wk_event (wk_event wk_half_sent))) 3 = take 4 (frame Big_endian [7, 8]) @ take 4 (frame Big_endian [9]) \<and>
     split_frame (wk_out (kernel (wk_event (wk_event wk_half_sent))) 3) =
       Some (take 2 (frame Big_endian [9]), take 2 (drop 2 (frame Big_endian [9])))"
proof -
  let ?fr = "frame Big_endian"
  have laws: "wire_laws (wk_os wk_fail) wk_mem wk_out wk_interest wk_queue wk_put"
    by (rule wk_laws) (auto simp: send_law_def wk_fail_def wk_send_def EINTR_def wk_mem_eq [of "wk_out_update _ _"] min_def)
  have len: "length (?fr [7, 8]) = 6" "length (?fr [9]) = 5" "length [7, 8 :: u8] < 2 ^ 32"
    by (simp_all add: frame_def)
  have q: "wk_queue (kernel wk_half_sent) = ?fr [7, 8] # ?fr [9] # []"
    by (simp add: wk_half_sent_def)
  have fail: "fst (os_send (wk_os wk_fail) 3 (cb_ptr (wk_place (?fr [7, 8])) + 4) (cb_len (wk_place (?fr [7, 8])) - 4) k) = Inl EINTR" for k
    using len(1) by (simp add: wk_os_def wk_fail_def wk_place_def)
  have goes: "fst (os_send (wk_os wk_fail) 3 (cb_ptr (wk_place (?fr [9]))) (cb_len (wk_place (?fr [9]))) k) = Inr 4" for k
    using len(2) by (simp add: wk_os_def wk_fail_def wk_send_def wk_place_def)
  note event = fun_cong [OF wk_event_def]
  note both = failed_send_cuts_string [OF laws wk_half_sent_at q refl fail event goes event]
  have "split_frame (take 4 (?fr [7, 8]) @ take 4 (?fr [9])) =
      Some (drop 4 (take 4 (?fr [7, 8])) @ take (length (?fr [7, 8]) - 4) (?fr [9]), drop (length (?fr [7, 8]) - 4) (take 4 (?fr [9])))"
    by (rule both [THEN conjunct2, THEN conjunct2, THEN conjunct2, THEN conjunct2, THEN conjunct2, THEN conjunct2,
          THEN spec, THEN spec, THEN mp, of Big_endian "[7, 8]"]) (simp add: len)
  then show ?thesis
    using both [THEN conjunct1] both [THEN conjunct2, THEN conjunct1] len(1,2)
      both [THEN conjunct2, THEN conjunct2, THEN conjunct2, THEN conjunct2, THEN conjunct1]
    by (simp add: drop_take)
qed

text \<open>Cancelling everything on the descriptor of a connection that is sending: the read is told, the write is told, and its callback
  registers the next write.\<close>

lemma cancel_all_writes_next:
  assumes laws: "wire_laws os mem out interest queue put"
    and at: "wire_at mem out interest queue place s fd memory finished sent r" and q: "queue (kernel r) = d # q"
    and read: "read_op (opinfo_at fd r) = None \<or> (\<exists>mbuf. read_op (opinfo_at fd r) = Some (Tcp_read fd mbuf Message_received))"
    and user: "user = wire_user os s place queue put crash recv (Suc m)"
  shows "wire_at mem out interest queue place s fd memory (finished @ take sent d) 0 (cancelAllOperations os (io_failed user) fd r)"
    and "queue (kernel (cancelAllOperations os (io_failed user) fd r)) = q"
proof -
  let ?op = "Tcp_write fd (const_buffer_plus (place d) sent) sent Send_completed"
  define r1 where "r1 = snd (epoll_remove os fd r)"
  define r2 where "r2 = (if read_op (opinfo_at fd r) = None then r1 else put_opinfo fd (set_operation Reading None (opinfo_at fd r1)) r1)"
  define r3 where "r3 = put_opinfo fd (set_operation Writing None (opinfo_at fd r2)) r2"
  have busy: "write_op (opinfo_at fd r) = Some ?op" "interest (kernel r) fd \<noteq> None" and sock: "tcp_sockfd r s = fd"
    and mem: "mem (kernel r) = memory" and out: "out (kernel r) fd = finished @ take sent d"
    and located: "list_all (located memory place) q"
    using at q by (simp_all add: wire_at_def wire_busy_def front_def)
  note rem = epoll_remove_reliable [OF wire_lawsD(2,8) [OF laws] busy(2), folded r1_def]
  have w: "operation Writing (opinfo_at fd r) \<noteq> None" using busy(1) by (simp add: operation_def)
  have "opinfo_cancel Reading (io_failed user) fd r1 = r2"
    using read rem(2) by (auto simp: opinfo_cancel_def r2_def operation_def io_failed_def user err_codes)
  moreover have "opinfo_cancel Writing (io_failed user) fd r2 = user Send_completed err_EOPCANCELED (int sent) r3"
    using busy(1) rem(2) by (simp add: opinfo_cancel_def r2_def r3_def operation_def io_failed_def opinfo_at_put set_operation_def)
  ultimately have eq: "cancelAllOperations os (io_failed user) fd r = user Send_completed err_EOPCANCELED (int sent) r3"
    using found_if_operation [OF w] w
    by (auto simp: cancelAllOperations_def hasOperation_def operation_simps(4) opinfo_cancelAll_def opinfo_cancel_eqs r1_def)
  have k: "kernel r3 = kernel r1" and op: "operation e (opinfo_at fd r3) = None" for e
    using read rem(2) by (auto simp: r3_def r2_def kernel_put opinfo_at_put operation_set operation_def set_operation_def split: direction.split)
  have "tcp_sockfd r3 = tcp_sockfd r"
    by (simp add: r3_def r2_def r1_def steady_basic [OF steady_sockfd] epoll_remove_eq)
  then have "tcp_sockfd r3 s = fd" "wire_idle interest fd r3" "mem (kernel r3) = memory" "queue (kernel r3) = d # q"
    "out (kernel r3) fd = finished @ take sent d"
    using sock k op [of Writing] op [of Reading] rem(1,3) mem q out by (simp_all add: wire_idle_def operation_def)
  from wire_completed [OF laws this(1-4) located this(5) eq [unfolded user]]
  show "wire_at mem out interest queue place s fd memory (finished @ take sent d) 0 (cancelAllOperations os (io_failed user) fd r)"
    and "queue (kernel (cancelAllOperations os (io_failed user) fd r)) = q"
    unfolding user by simp_all
qed

lemma register_taken:
  assumes "operation d (opinfo_at fd r) \<noteq> None"
  shows "register os d call fd op r = call op err_EOPEXISTS r"
proof -
  have "need_opinfo fd r = r"
    using found_if_operation [OF assms] by (auto simp: need_opinfo_def)
  then show ?thesis
    using assms by (simp add: register_def)
qed

text \<open>C23: Shutting down a connection that still has a string waiting behind the one being written leaves that string's
  write registered on the descriptor that has just been closed: the callback of the cancelled write registers it. The next socket that gets
  the number of the descriptor cannot write: its write is refused with \<^verbatim>\<open>EOPEXISTS\<close>.\<close>

theorem shutdown_leaves_next_write:
  assumes "wire_laws os mem out interest queue put"
    and "wire_at mem out interest queue place s fd memory finished sent r" and "queue (kernel r) = d # d2 # q" and "fd \<noteq> - 1"
    and "read_op (opinfo_at fd r) = None \<or> (\<exists>mbuf. read_op (opinfo_at fd r) = Some (Tcp_read fd mbuf Message_received))"
    and "user = wire_user os s place queue put crash recv (Suc m)"
    and "tcp_shutdown os user s r = (0, r')"
  shows "tcp_sockfd r' s = - 1 \<and> write_op (opinfo_at fd r') = Some (Tcp_write fd (place d2) 0 Send_completed) \<and>
    (tcp_sockfd r'' t = fd \<and> opinfo_at fd r'' = opinfo_at fd r' \<longrightarrow> tcp_async_write os user t cbuf u r'' = user u err_EOPEXISTS 0 r'')"
proof -
  let ?r1 = "cancelAllOperations os (io_failed user) fd r"
  have sock: "tcp_sockfd r s = fd" using assms(2) by (simp add: wire_at_def)
  have "wire_at mem out interest queue place s fd memory (finished @ take sent d) 0 ?r1" "queue (kernel ?r1) = d2 # q"
    using cancel_all_writes_next [OF assms(1-3,5,6)] by simp_all
  then have r1: "tcp_sockfd ?r1 s = fd" "write_op (opinfo_at fd ?r1) = Some (Tcp_write fd (place d2) 0 Send_completed)"
    by (simp_all add: wire_at_def wire_busy_def)
  then have "tcp_sockfd r' s = - 1" and op: "write_op (opinfo_at fd r') = Some (Tcp_write fd (place d2) 0 Send_completed)"
    using assms(4,7) sock
    by (auto simp: tcp_shutdown_def destroy_socket_def sys_def opinfo_at_def Let_def split: prod.splits if_splits)
  moreover have "tcp_async_write os user t cbuf u r'' = user u err_EOPEXISTS 0 r''"
    if "tcp_sockfd r'' t = fd" and "opinfo_at fd r'' = opinfo_at fd r'"
    using that op register_taken [of Writing fd r''] by (simp add: tcp_async_write_def register_eqs operation_def io_failed_def)
  ultimately show ?thesis by blast
qed

theorem shutdown_leaves_next_write_witness:
  "\<exists>r' :: (conn_callback, wire_kernel) io. tcp_sockfd r' 0 = - 1 \<and>
     write_op (opinfo_at 3 r') = Some (Tcp_write 3 \<lparr>cb_ptr = 6, cb_len = 5\<rparr> 0 Send_completed)"
proof -
  have len: "length (frame Big_endian [9]) = 5" by (simp add: frame_def)
  have at: "wire_at wk_mem wk_out wk_interest wk_queue wk_place 0 3 (wk_mem (kernel wk_half_sent)) [] 4 wk_half_sent"
    "wk_queue (kernel wk_half_sent) = frame Big_endian [7, 8] # frame Big_endian [9] # []"
    "read_op (opinfo_at 3 wk_half_sent) = None"
    by (rule wk_half_sent_at) (simp_all add: wk_half_sent_def opinfo_at_def umap_find_def)
  obtain c r' where r': "tcp_shutdown (wk_os wk_send) wk_user 0 wk_half_sent = (c, r')" by fastforce
  moreover have "c = 0"
    using r' by (auto simp: tcp_shutdown_def destroy_socket_def sys_def wk_os_def Let_def split: prod.splits if_splits)
  moreover have "wk_user = wire_user (wk_os wk_send) 0 wk_place wk_queue wk_put (\<lambda>k. k) (\<lambda>n r. r) (Suc 0)" by (simp add: wk_user_def)
  ultimately have "tcp_sockfd r' 0 = - 1 \<and> write_op (opinfo_at 3 r') = Some (Tcp_write 3 (wk_place (frame Big_endian [9])) 0 Send_completed)"
    using shutdown_leaves_next_write [OF wk_send_laws(1) at(1,2), of wk_user "\<lambda>k. k" "\<lambda>n r. r" 0 r'] at(3) by simp
  then show ?thesis
    using len by (intro exI [of _ r']) (simp add: wk_place_def)
qed

end
