(* ===== verification/Hang_Up.thy ===== *)
theory Hang_Up
  imports Rpc_Wire
begin

section \<open>A peer that hangs up, from the reactor to the RPC connection\<close>

text \<open>
  Reactor, socket and RPC connection together (\<open>Rpc_Wire\<close>): when epoll reports an error or a hang-up, the reactor runs the
  operations of the descriptor with \<^verbatim>\<open>EFDHUP\<close>; unlike with code 0, the sockets' wrappers then leave the operation
  registered. The connection takes one string off its queue for every completion. With another string waiting it
  asks for the next write at once, which is refused because the old one is still there, and the refusal is a completion again: the whole
  queue is lost. Epoll, which is level-triggered, reports the hang-up again, and that completion finds the queue empty.
\<close>

text \<open>A completion while the write is still registered.\<close>

lemma completion_drains:
  assumes laws: "wire_laws os mem out interest queue put"
    and "tcp_sockfd r s = fd" and "write_op (opinfo_at fd r) \<noteq> None" and "queue (kernel r) = d # q" and "length q \<le> m"
  shows "\<exists>k. wire_user os s place queue put crash recv (Suc m) Send_completed ec n r = r\<lparr>kernel := k\<rparr> \<and>
    queue k = [] \<and> out k = out (kernel r)"
  using assms(2-5)
proof (induction q arbitrary: d m ec n r)
  case Nil
  then show ?case
    by (intro exI [of _ "put [] (kernel r)"]) (simp add: onSendCompleted_def wire_lawsD(5,7) [OF laws])
next
  case (Cons d2 q)
  obtain m' where m: "m = Suc m'" "length q \<le> m'"
    using Cons.prems(4) by (cases m) auto
  let ?user = "wire_user os s place queue put crash recv"
  let ?r = "r\<lparr>kernel := put (d2 # q) (kernel r)\<rparr>"
  have r: "tcp_sockfd ?r s = fd" "write_op (opinfo_at fd ?r) \<noteq> None" "queue (kernel ?r) = d2 # q"
    using Cons.prems(1,2) by (simp_all add: opinfo_at_kernel wire_lawsD(7) [OF laws])
  have "operation Writing (opinfo_at fd ?r) \<noteq> None"
    using r(2) by (simp add: operation_def)
  from register_taken [OF this, of os "io_failed (?user m)"]
  have "wire_perform os (?user m) s place (Async_write d2) ?r = ?user m Send_completed err_EOPEXISTS 0 ?r"
    using r(1) by (simp add: wire_perform_def tcp_async_write_def register_eqs io_failed_def)
  then have "?user (Suc m) Send_completed ec n r = ?user (Suc m') Send_completed err_EOPEXISTS 0 ?r"
    using Cons.prems(3) m(1) by (simp add: onSendCompleted_def start_deque_send_def)
  then show ?case
    using Cons.IH [OF r m(2), of err_EOPEXISTS 0] by (auto simp: wire_lawsD(5) [OF laws])
qed

text \<open>A report of a hang-up is a completion with \<^verbatim>\<open>EFDHUP\<close>; the read hears of it too, and does nothing.\<close>

lemma hang_up_event:
  assumes "write_op (opinfo_at fd r) = Some (Tcp_write fd cbuf sent Send_completed)"
    and "read_op (opinfo_at fd r) = None \<or> (\<exists>mbuf. read_op (opinfo_at fd r) = Some (Tcp_read fd mbuf Message_received))"
    and "events AND (EPOLLERR OR EPOLLHUP) \<noteq> 0" and "user = wire_user os s place queue put crash recv (Suc m)"
  shows "dispatch_event (io_call e os user) (fd, events) r = user Send_completed err_EFDHUP (int sent) r"
proof -
  have "doReadOperation (io_call e os user) fd err_EFDHUP r = r"
    using assms(2,4) by (auto simp: doReadOperation_def io_call_def tcp_read_op_wrap_def err_codes)
  then show ?thesis
    using assms(1,3) by (simp add: dispatch_event_def doWriteOperation_def io_call_def tcp_write_op_wrap_def err_codes)
qed

text \<open>C25: A connection that is sending when its peer hangs up loses every string in its queue at the first report of the
  hang-up, without a byte of them given to the kernel, while the write stays registered. At the second report it runs
  \<^verbatim>\<open>pop_front\<close> on its empty queue, which is undefined. The connection may be reading or not.\<close>

theorem hang_up_breaks_sender:
  assumes laws: "wire_laws os mem out interest queue put"
    and at: "wire_at mem out interest queue place s fd memory finished sent r" and q: "queue (kernel r) = d # q" and "length q \<le> m"
    and read: "read_op (opinfo_at fd r) = None \<or> (\<exists>mbuf. read_op (opinfo_at fd r) = Some (Tcp_read fd mbuf Message_received))"
    and hup: "events AND (EPOLLERR OR EPOLLHUP) \<noteq> 0" and user: "user = wire_user os s place queue put crash recv (Suc m)"
    and r1: "r1 = dispatch_event (io_call e os user) (fd, events) r"
    and r2: "r2 = dispatch_event (io_call e os user) (fd, events) r1"
  shows "queue (kernel r1) = [] \<and> out (kernel r1) = out (kernel r) \<and> opinfo_at fd r1 = opinfo_at fd r \<and>
    write_op (opinfo_at fd r1) \<noteq> None \<and> r2 = r1\<lparr>kernel := crash (kernel r1)\<rparr>"
proof -
  have r: "tcp_sockfd r s = fd" "write_op (opinfo_at fd r) = Some (Tcp_write fd (const_buffer_plus (place d) sent) sent Send_completed)"
    using at q by (simp_all add: wire_at_def wire_busy_def)
  then have "write_op (opinfo_at fd r) \<noteq> None" by simp
  from completion_drains [OF laws r(1) this q assms(4), of place crash recv err_EFDHUP "int sent"]
  obtain k where k: "r1 = r\<lparr>kernel := k\<rparr>" "queue k = []" "out k = out (kernel r)"
    using r1 [unfolded hang_up_event [OF r(2) read hup user], unfolded user] by blast
  then have same: "opinfo_at fd r1 = opinfo_at fd r" by (simp add: opinfo_at_kernel)
  then have "r2 = user Send_completed err_EFDHUP (int sent) r1"
    unfolding r2 using r(2) read by (intro hang_up_event [OF _ _ hup user]) simp_all
  then have "r2 = r1\<lparr>kernel := crash (kernel r1)\<rparr>"
    using k(1,2) by (simp add: user onSendCompleted_def)
  then show ?thesis using k same r(2) by simp
qed

text \<open>Two strings in the queue, four bytes of the first sent, a read outstanding. What is undefined leaves a mark.\<close>

definition wk_crash :: "wire_kernel \<Rightarrow> wire_kernel" where
  "wk_crash k = k\<lparr>wk_out := (\<lambda>_. [255])\<rparr>"

definition wk_reading :: "(conn_callback, wire_kernel) io" where
  "wk_reading = wk_half_sent\<lparr>fd_opinfo_umap := [(3, \<lparr>read_op = Some (Tcp_read 3 \<lparr>mb_ptr = 100, mb_len = 4096\<rparr> Message_received),
     write_op = Some (Tcp_write 3 \<lparr>cb_ptr = 4, cb_len = 2\<rparr> 4 Send_completed)\<rparr>)]\<rparr>"

lemma wk_reading_at: "wire_at wk_mem wk_out wk_interest wk_queue wk_place 0 3 (wk_mem (kernel wk_reading)) [] 4 wk_reading"
proof -
  have "length (frame Big_endian [7, 8]) = 6" by (simp add: frame_def)
  then show ?thesis
    using wk_located [of "kernel wk_half_sent"]
    by (simp add: wire_at_def wk_reading_def wk_half_sent_def wk_io_def wire_busy_def front_def opinfo_at_def umap_find_def wk_place_def
        const_buffer_plus_def ConstBuffer_def)
qed

definition wk_report :: "(conn_callback, wire_kernel) io \<Rightarrow> (conn_callback, wire_kernel) io" where
  "wk_report = dispatch_event (io_call Little_endian (wk_os wk_send)
     (wire_user (wk_os wk_send) 0 wk_place wk_queue wk_put wk_crash (\<lambda>n r. r) (Suc 1))) (3, EPOLLHUP)"

theorem hang_up_breaks_sender_witness:
  "wk_queue (kernel (wk_report wk_reading)) = [] \<and> wk_out (kernel (wk_report wk_reading)) 3 = take 4 (frame Big_endian [7, 8]) \<and>
     wk_out (kernel (wk_report (wk_report wk_reading))) 3 = [255]"
proof -
  have q: "wk_queue (kernel wk_reading) = frame Big_endian [7, 8] # [frame Big_endian [9]]"
    and out: "wk_out (kernel wk_reading) 3 = take 4 (frame Big_endian [7, 8])"
    by (simp_all add: wk_reading_def wk_half_sent_def)
  have "read_op (opinfo_at 3 wk_reading) = Some (Tcp_read 3 \<lparr>mb_ptr = 100, mb_len = 4096\<rparr> Message_received)"
    by (simp add: wk_reading_def opinfo_at_def umap_find_def)
  then have read: "read_op (opinfo_at 3 wk_reading) = None \<or>
      (\<exists>mbuf. read_op (opinfo_at 3 wk_reading) = Some (Tcp_read 3 mbuf Message_received))"
    by simp
  have hup: "EPOLLHUP AND (EPOLLERR OR EPOLLHUP) \<noteq> 0"
    by (simp add: EPOLLHUP_def EPOLLERR_def)
  note report = fun_cong [OF wk_report_def]
  have "length [frame Big_endian [9]] \<le> 1" by simp
  from hang_up_breaks_sender [OF wk_send_laws(1) wk_reading_at q this read hup refl report report] show ?thesis
    using out by (auto simp: wk_crash_def)
qed

end
