(* ===== verification/Loop_Wait.thy ===== *)
theory Loop_Wait
  imports Reactor
begin

section \<open>When the loop of the reactor returns\<close>

text \<open>
  \<open>reactor_loop\<close> counts calls of \<^verbatim>\<open>epoll_wait\<close> to be a total function. Here its results are described without
  the count: the loop goes through the states after each round, and returns at the first in which \<open>quit\<close> is
  set or \<^verbatim>\<open>epoll_wait\<close> has failed; otherwise no count is enough.
\<close>

definition wait_round :: "'k os \<Rightarrow> ('op, 'k, 'z) callback \<Rightarrow> ('op, 'k, 'z) reactor_scheme \<Rightarrow> ('op, 'k, 'z) reactor_scheme" where
  "wait_round os call r =
     (case os_epoll_wait os (event_array_size r) (kernel r) of
        (Inl errno, k) \<Rightarrow> r\<lparr>kernel := k\<rparr>
      | (Inr evs, k) \<Rightarrow>
          (let r1 = fold (dispatch_event call) evs (r\<lparr>kernel := k\<rparr>)
           in if length evs \<ge> event_array_size r1 then r1\<lparr>event_array_size := length evs * 2\<rparr> else r1))"

definition wait_error :: "'k os \<Rightarrow> ('op, 'k, 'z) reactor_scheme \<Rightarrow> int option" where
  "wait_error os r =
     (case fst (os_epoll_wait os (event_array_size r) (kernel r)) of
        Inl errno \<Rightarrow> if errno = EINTR then None else Some errno
      | Inr _ \<Rightarrow> None)"

lemma reactor_loop_step:
  "reactor_loop os call (Suc n) r =
     (if quit r then Some (0, r)
      else case wait_error os r of
             Some c \<Rightarrow> Some (c, wait_round os call r)
           | None \<Rightarrow> reactor_loop os call n (wait_round os call r))"
  by (auto simp: wait_error_def wait_round_def Let_def split: prod.split sum.split)

text \<open>The state after \<open>i\<close> rounds, and that the loop has not ended in the rounds before.\<close>

definition after_rounds :: "'k os \<Rightarrow> ('op, 'k, 'z) callback \<Rightarrow> nat \<Rightarrow> ('op, 'k, 'z) reactor_scheme \<Rightarrow> ('op, 'k, 'z) reactor_scheme" where
  "after_rounds os call i r = (wait_round os call ^^ i) r"

definition goes_on :: "'k os \<Rightarrow> ('op, 'k, 'z) callback \<Rightarrow> nat \<Rightarrow> ('op, 'k, 'z) reactor_scheme \<Rightarrow> bool" where
  "goes_on os call n r \<longleftrightarrow>
     (\<forall>i < n. \<not> quit (after_rounds os call i r) \<and> wait_error os (after_rounds os call i r) = None)"

lemma after_rounds_simps [simp]:
  "after_rounds os call 0 r = r"
  "after_rounds os call (Suc n) r = after_rounds os call n (wait_round os call r)"
  by (simp_all add: after_rounds_def funpow_swap1)

lemma goes_on_simps [simp]:
  "goes_on os call 0 r"
  "goes_on os call (Suc n) r \<longleftrightarrow> \<not> quit r \<and> wait_error os r = None \<and> goes_on os call n (wait_round os call r)"
  by (simp_all add: goes_on_def All_less_Suc2)

lemma reactor_loop_returns:
  "reactor_loop os call fuel r = Some (c, r') \<longleftrightarrow>
     (\<exists>n \<le> fuel. goes_on os call n r \<and> quit (after_rounds os call n r) \<and> c = 0 \<and> r' = after_rounds os call n r) \<or>
     (\<exists>n < fuel. goes_on os call n r \<and> \<not> quit (after_rounds os call n r) \<and>
        wait_error os (after_rounds os call n r) = Some c \<and> r' = after_rounds os call (Suc n) r)"
proof (induction fuel arbitrary: r)
  case 0
  show ?case by auto
next
  case (Suc fuel)
  have le: "(\<exists>n \<le> Suc fuel. P n) \<longleftrightarrow> P 0 \<or> (\<exists>n \<le> fuel. P (Suc n))" for P
    by (auto simp: Suc_le_eq) (metis Suc_le_mono not0_implies_Suc)
  show ?case
    unfolding reactor_loop_step le Ex_less_Suc2
    by (cases "quit r"; cases "wait_error os r") (auto simp: Suc.IH)
qed

text \<open>C31: \<open>loop_wait\<close> returns 0 exactly when \<open>quit\<close> is called, after all events of that round have been dispatched,
  and an error exactly when \<^verbatim>\<open>epoll_wait\<close> fails with it (\<^verbatim>\<open>EINTR\<close> apart); until then it goes on, and a \<open>quit\<close> from before the call
  counts for nothing.\<close>

theorem loop_wait_returns:
  "loop_wait os call fuel r = Some (c, r') \<longleftrightarrow>
     (\<exists>n \<le> fuel. goes_on os call n (r\<lparr>quit := False\<rparr>) \<and> quit (after_rounds os call n (r\<lparr>quit := False\<rparr>)) \<and>
        c = 0 \<and> r' = after_rounds os call n (r\<lparr>quit := False\<rparr>)) \<or>
     (\<exists>n < fuel. goes_on os call n (r\<lparr>quit := False\<rparr>) \<and> \<not> quit (after_rounds os call n (r\<lparr>quit := False\<rparr>)) \<and>
        wait_error os (after_rounds os call n (r\<lparr>quit := False\<rparr>)) = Some c \<and>
        r' = after_rounds os call (Suc n) (r\<lparr>quit := False\<rparr>))"
  unfolding loop_wait_def by (rule reactor_loop_returns)

end
