(* ===== verification/Socket_Program.thy ===== *)
theory Socket_Program
  imports Socket_Events
begin

section \<open>Programs on sockets\<close>

text \<open>
  A program that uses the reactor only through sockets and signal sets: what it does at the start and in its callbacks
  are sequences of requests to them, and callbacks may be nested to any depth. The invariant is the typing of
  the reactor's table: every closure in it is there under its own descriptor and in its own direction, so that an event of a
  descriptor can only run an operation on that descriptor, and the removal in the wrapper removes the closure itself.
\<close>

datatype 'u io_request =
    Req_tcp_open nat u16
  | Req_tcp_read nat mutable_buffer 'u
  | Req_tcp_write nat const_buffer 'u
  | Req_tcp_accept nat nat 'u
  | Req_tcp_connect nat endpoint 'u
  | Req_tcp_cancel nat
  | Req_tcp_shutdown nat
  | Req_tcp_shutdown_read nat
  | Req_tcp_shutdown_write nat
  | Req_acceptor_setup nat endpoint
  | Req_udp_open nat u16
  | Req_udp_read nat nat mutable_buffer 'u
  | Req_udp_write nat endpoint const_buffer 'u
  | Req_udp_cancel nat
  | Req_udp_shutdown nat
  | Req_signal_wait signal_set 'u
  | Req_signal_cancel signal_set
  | Req_tcp_bind nat endpoint
  | Req_tcp_listen nat int
  | Req_tcp_destroy nat
  | Req_acceptor_cancel nat
  | Req_acceptor_destroy nat
  | Req_udp_bind nat endpoint
  | Req_udp_destroy nat
  | Req_signal_destroy signal_set

fun io_perform :: "endian \<Rightarrow> 'k os \<Rightarrow> ('u, 'k) user \<Rightarrow> 'u io_request \<Rightarrow> ('u, 'k) io \<Rightarrow> ('u, 'k) io" where
  "io_perform e os user (Req_tcp_open s family) r = snd (tcp_open os user s family r)"
| "io_perform e os user (Req_tcp_read s mbuf u) r = tcp_async_read os user s mbuf u r"
| "io_perform e os user (Req_tcp_write s cbuf u) r = tcp_async_write os user s cbuf u r"
| "io_perform e os user (Req_tcp_accept s socket u) r = acceptor_async_accept os user s socket u r"
| "io_perform e os user (Req_tcp_connect s ep u) r = tcp_async_connect e os user s ep u r"
| "io_perform e os user (Req_tcp_cancel s) r = tcp_cancel os user s r"
| "io_perform e os user (Req_tcp_shutdown s) r = snd (tcp_shutdown os user s r)"
| "io_perform e os user (Req_tcp_shutdown_read s) r = snd (tcp_shutdownRead os user s r)"
| "io_perform e os user (Req_tcp_shutdown_write s) r = snd (tcp_shutdownWrite os user s r)"
| "io_perform e os user (Req_acceptor_setup s ep) r = snd (acceptor_setup e os user s ep r)"
| "io_perform e os user (Req_udp_open s family) r = snd (udp_open os user s family r)"
| "io_perform e os user (Req_udp_read s ep mbuf u) r = udp_async_read os user s ep mbuf u r"
| "io_perform e os user (Req_udp_write s ep cbuf u) r = udp_async_write os user s ep cbuf u r"
| "io_perform e os user (Req_udp_cancel s) r = udp_cancel os user s r"
| "io_perform e os user (Req_udp_shutdown s) r = snd (udp_shutdown os user s r)"
| "io_perform e os user (Req_signal_wait ss u) r = signal_async_wait os user u ss r"
| "io_perform e os user (Req_signal_cancel ss) r = signal_cancel os user ss r"
| "io_perform e os user (Req_tcp_bind s ep) r = snd (tcp_bind e os s ep r)"
| "io_perform e os user (Req_tcp_listen s backlog) r = snd (tcp_listen os s backlog r)"
| "io_perform e os user (Req_tcp_destroy s) r = destroy_TCPSocket os user s r"
| "io_perform e os user (Req_acceptor_cancel s) r = acceptor_cancel os user s r"
| "io_perform e os user (Req_acceptor_destroy s) r = destroy_Acceptor os user s r"
| "io_perform e os user (Req_udp_bind s ep) r = snd (udp_bind e os s ep r)"
| "io_perform e os user (Req_udp_destroy s) r = destroy_UDPSocket os user s r"
| "io_perform e os user (Req_signal_destroy ss) r = destroy_SignalSet os user ss r"

text \<open>A callback gets its code and number and answers with requests; the callbacks these run at once are one level deeper.\<close>

type_synonym ('u, 'k) io_body = "'u \<Rightarrow> int \<Rightarrow> int \<Rightarrow> 'k \<Rightarrow> 'u io_request list \<times> 'k"

fun io_user :: "endian \<Rightarrow> 'k os \<Rightarrow> ('u, 'k) io_body \<Rightarrow> nat \<Rightarrow> ('u, 'k) user" where
  "io_user e os body 0 u ec n r = r\<lparr>kernel := snd (body u ec n (kernel r))\<rparr>"
| "io_user e os body (Suc m) u ec n r =
     (case body u ec n (kernel r) of
        (reqs, k) \<Rightarrow> fold (io_perform e os (io_user e os body m)) reqs (r\<lparr>kernel := k\<rparr>))"

inductive io_reach :: "endian \<Rightarrow> 'k os \<Rightarrow> ('u, 'k) io_body \<Rightarrow> nat \<Rightarrow> ('u, 'k) io \<Rightarrow> bool"
  for e os body m where
  start: "fd_opinfo_umap r = [] \<Longrightarrow> io_reach e os body m r"
| request: "io_reach e os body m r \<Longrightarrow> io_reach e os body m (io_perform e os (io_user e os body m) req r)"
| event: "io_reach e os body m r \<Longrightarrow> io_reach e os body m (dispatch_event (io_call e os (io_user e os body m)) ev r)"
| loop: "io_reach e os body m r \<Longrightarrow> loop_wait os (io_call e os (io_user e os body m)) n r = Some (c, r') \<Longrightarrow>
    io_reach e os body m r'"

subsection \<open>The typing of the table\<close>

definition well_placed :: "('u, 'k) io \<Rightarrow> bool" where
  "well_placed r \<longleftrightarrow> (\<forall>fd d op. operation d (opinfo_at fd r) = Some op \<longrightarrow> op_descriptor op = fd \<and> op_direction op = d)"

definition places :: "(('u, 'k) io \<Rightarrow> ('u, 'k) io) \<Rightarrow> bool" where
  "places f \<longleftrightarrow> (\<forall>r. well_placed r \<longrightarrow> well_placed (f r))"

named_theorems placed \<open>what keeps the table well placed\<close>

lemma places_applyD: "places f \<Longrightarrow> well_placed r \<Longrightarrow> well_placed (f r)"
  by (simp add: places_def)

lemma well_placed_same: "(\<And>fd. opinfo_at fd r' = opinfo_at fd r) \<Longrightarrow> well_placed r' = well_placed r"
  by (simp add: well_placed_def)

lemma well_placed_update [placed]:
  "well_placed (r\<lparr>kernel := k\<rparr>) = well_placed r"
  "well_placed (r\<lparr>quit := q\<rparr>) = well_placed r"
  "well_placed (r\<lparr>event_array_size := n\<rparr>) = well_placed r"
  "well_placed (r\<lparr>tcp_sockfd := f\<rparr>) = well_placed r"
  "well_placed (r\<lparr>udp_sockfd := f\<rparr>) = well_placed r"
  "well_placed (r\<lparr>endpoints := g\<rparr>) = well_placed r"
  by (rule well_placed_same; simp add: opinfo_at_def)+

lemma sys_placed [placed]: "well_placed (snd (sys f r)) = well_placed r"
  by (simp add: sys_def placed split: prod.split)

lemma sys_placedD: "sys f r = (a, r') \<Longrightarrow> well_placed r' = well_placed r"
  using sys_placed [of f r] by simp

lemma well_placed_need: "well_placed (need_opinfo fd r) = well_placed r"
  by (rule well_placed_same) (simp add: reactor_simps)

lemma well_placed_ctl: "epoll_ctl os p fd ev r = (c, r') \<Longrightarrow> well_placed r' = well_placed r"
  by (rule well_placed_same) (metis epoll_ctl_opinfo snd_conv)

lemma well_placed_clear: "well_placed r \<Longrightarrow> well_placed (put_opinfo fd (set_operation d None (opinfo_at fd r)) r)"
  by (auto simp: well_placed_def opinfo_at_put operation_set split: if_splits)

lemma well_placed_put:
  assumes "well_placed r" and "op_descriptor op = fd" and "op_direction op = d"
  shows "well_placed (put_opinfo fd (set_operation d (Some op) (opinfo_at fd r)) r)"
  using assms by (auto simp: well_placed_def opinfo_at_put operation_set split: if_splits)

lemma register_placed:
  assumes "\<And>ec. places (call op ec)" and "op_descriptor op = fd" and "op_direction op = d" and "well_placed r"
  shows "well_placed (register os d call fd op r)"
proof -
  have n: "well_placed (need_opinfo fd r)" using assms(4) by (simp add: well_placed_need)
  have p: "well_placed (put_opinfo fd (set_operation d (Some op) (opinfo_at fd r2)) r2)" "well_placed (call op c r2)"
    if "epoll_ctl os q fd ev (need_opinfo fd r) = (c, r2)" for q ev c r2
    using that n well_placed_put [OF _ assms(2,3)] assms(1) well_placed_ctl [OF that] by (auto simp: places_def)
  show ?thesis
    using n assms(1) by (auto simp: register_def Let_def places_def split: prod.split dest: p)
qed

lemma forget_placed: "well_placed (forget os d fd r) = well_placed r"
  by (rule well_placed_same) (rule forget_opinfo)

lemma remove_placed: "well_placed r \<Longrightarrow> well_placed (remove_operation os d fd r)"
proof (cases "operation d (opinfo_at fd r)")
  case (Some op)
  assume "well_placed r"
  then have "well_placed (put_opinfo fd (set_operation d None (opinfo_at fd (forget os d fd r))) (forget os d fd r))"
    by (intro well_placed_clear) (simp add: forget_placed)
  then show ?thesis using Some by (simp add: remove_operation_eq forget_opinfo)
qed (simp add: remove_operation_None)

lemmas removes_placed [placed] = remove_placed [of _ _ Reading, simplified remove_operation_def direction.case]
  remove_placed [of _ _ Writing, simplified remove_operation_def direction.case]

lemma opinfo_cancel_placed:
  assumes "\<And>op ec. places (call op ec)" and "well_placed r"
  shows "well_placed (opinfo_cancel d call fd r)"
  using assms well_placed_clear [OF assms(2), of fd d] by (auto simp: opinfo_cancel_def places_def split: option.split)

lemma cancel_placed:
  assumes "\<And>op ec. places (call op ec)" and "well_placed r"
  shows "well_placed (cancelReadOperation os call fd r)" and "well_placed (cancelWriteOperation os call fd r)"
    and "well_placed (cancelAllOperations os call fd r)"
proof -
  note c = opinfo_cancel_placed [OF assms(1)]
  show "well_placed (cancelReadOperation os call fd r)" "well_placed (cancelWriteOperation os call fd r)"
    using assms(2) by (auto simp: cancelReadOperation_def cancelWriteOperation_def forget_eqs forget_placed opinfo_cancel_eqs intro!: c)
  have "well_placed (snd (epoll_remove os fd r))"
    using assms(2) well_placed_ctl [OF prod.collapse [symmetric], of os EPOLL_CTL_DEL fd 0 r] by (simp add: epoll_remove_eq)
  then show "well_placed (cancelAllOperations os call fd r)"
    using assms(2) by (auto simp: cancelAllOperations_def opinfo_cancelAll_def opinfo_cancel_eqs intro!: c)
qed

subsection \<open>Every request and every event keeps it\<close>

definition user_places :: "('u, 'k) user \<Rightarrow> bool" where
  "user_places user \<longleftrightarrow> (\<forall>u ec n. places (user u ec n))"

lemma user_placesD: "user_places user \<Longrightarrow> well_placed r \<Longrightarrow> well_placed (user u ec n r)"
  by (simp add: user_places_def places_def)

lemma io_failed_places: "user_places user \<Longrightarrow> places (io_failed user op ec)"
  by (simp add: places_def io_failed_def user_placesD split: async_op.split)

lemma async_placed:
  assumes "user_places user" and "well_placed r"
  shows "op_descriptor op = fd \<Longrightarrow> op_direction op = Reading \<Longrightarrow> well_placed (registerReadOperation os (io_failed user) fd op r)"
    and "op_descriptor op = fd \<Longrightarrow> op_direction op = Writing \<Longrightarrow> well_placed (registerWriteOperation os (io_failed user) fd op r)"
    and "well_placed (cancelReadOperation os (io_failed user) fd r)"
    and "well_placed (cancelWriteOperation os (io_failed user) fd r)"
    and "well_placed (cancelAllOperations os (io_failed user) fd r)"
  using assms by (auto simp: register_eqs intro!: register_placed cancel_placed io_failed_places)

lemma io_call_places:
  assumes "user_places user"
  shows "places (io_call e os user op ec)"
proof -
  note keep = placed user_placesD [OF assms] async_placed [OF assms]
  have "well_placed (io_call e os user op ec r)" if r: "well_placed r" for r
    using r by (cases op) (auto simp: io_call_def keep tcp_read_op_wrap_def tcp_write_op_wrap_def tcp_accept_op_wrap_def
        tcp_connect_op_wrap_def udp_read_op_wrap_def udp_write_op_wrap_def signal_op_wrap_def Let_def
        split: prod.split sum.split dest: sys_placedD)
  then show ?thesis by (simp add: places_def)
qed

lemma destroy_socket_placed: "destroy_socket os fd r = (c, r') \<Longrightarrow> well_placed r' = well_placed r"
  by (auto simp: destroy_socket_def dest: sys_placedD split: if_splits)

lemma create_socket_placed: "create_socket os tp family r = (c, r') \<Longrightarrow> well_placed r' = well_placed r"
  by (auto simp: create_socket_def Let_def placed dest: sys_placedD split: prod.splits sum.splits)

lemma shutdown_placed:
  assumes "user_places user" and "well_placed r"
  shows "well_placed (snd (tcp_shutdown os user s r))" and "well_placed (snd (udp_shutdown os user s r))"
    and "well_placed (snd (tcp_shutdownRead os user s r))" and "well_placed (snd (tcp_shutdownWrite os user s r))"
  using async_placed(3-5) [OF assms]
  by (auto simp: tcp_shutdown_def udp_shutdown_def destroy_udp_socket_def tcp_shutdownRead_def tcp_shutdownWrite_def Let_def placed
      dest: destroy_socket_placed split: prod.split)

lemma open_placed:
  assumes "user_places user" and "well_placed r"
  shows "well_placed (snd (tcp_open os user s family r))" and "well_placed (snd (udp_open os user s family r))"
  using assms(2) shutdown_placed(1,2) [OF assms]
  by (auto simp: tcp_open_def udp_open_def create_udp_socket_def Let_def placed dest: create_socket_placed split: prod.split sum.split)

lemma and_then_placed:
  assumes "well_placed (snd res)" and "\<And>r. well_placed r \<Longrightarrow> well_placed (snd (f r))"
  shows "well_placed (snd (and_then res f))"
  using assms by (auto simp: and_then_def split: prod.split)

lemma setup_placed: "user_places user \<Longrightarrow> well_placed r \<Longrightarrow> well_placed (snd (acceptor_setup e os user s ep r))"
  unfolding acceptor_setup_def
  by (auto intro!: and_then_placed open_placed simp: tcp_setReuseAddr_def tcp_bind_def tcp_listen_def tcp_setDelay_def
      tcp_setKeepAlive_def placed)

lemma io_perform_placed:
  assumes "user_places user" and "well_placed r"
  shows "well_placed (io_perform e os user req r)"
proof -
  note keep = placed user_placesD [OF assms(1)] async_placed [OF assms] shutdown_placed [OF assms] open_placed [OF assms]
    setup_placed [OF assms] async_placed(2,5) [OF assms(1)] shutdown_placed(1) [OF assms(1)]
  show ?thesis
    using assms(2)
    by (cases req) (auto simp: keep tcp_async_read_def tcp_async_write_def tcp_async_accept_def acceptor_async_accept_def
        tcp_async_connect_def tcp_cancel_def udp_async_read_def udp_async_write_def udp_cancel_def signal_async_wait_def
        signal_cancel_def signal_block_def signal_unblock_def update_signalfd_def tcp_bind_def tcp_listen_def udp_bind_def
        destroy_TCPSocket_def destroy_Acceptor_def acceptor_cancel_def destroy_UDPSocket_def destroy_SignalSet_def
        destroy_signalfd_def dest: sys_placedD split: prod.split)
qed

lemma io_user_places: "user_places (io_user e os body m)"
proof (induction m)
  case 0
  show ?case by (simp add: user_places_def places_def placed)
next
  case (Suc m)
  have "well_placed (fold (io_perform e os (io_user e os body m)) reqs r)" if "well_placed r" for reqs and r :: "('a, 'b) io"
    using that by (induction reqs arbitrary: r) (simp_all add: io_perform_placed [OF Suc.IH])
  then show ?case
    by (simp add: user_places_def places_def placed split: prod.split)
qed

lemma dispatch_placed:
  assumes "\<And>op ec. places (call op ec)" and "well_placed r"
  shows "well_placed (dispatch_event call ev r)"
proof -
  have "well_placed (doReadOperation call fd ec s)" "well_placed (doWriteOperation call fd ec s)" if "well_placed s" for fd ec s
    using that assms(1) by (auto simp: doReadOperation_def doWriteOperation_def places_def split: option.split)
  then show ?thesis
    using assms(2) by (simp add: dispatch_event_def Let_def split: prod.split)
qed

lemma dispatches_placed:
  "(\<And>op ec. places (call op ec)) \<Longrightarrow> well_placed r \<Longrightarrow> well_placed (fold (dispatch_event call) evs r)"
  by (induction evs arbitrary: r) (simp_all add: dispatch_placed)

lemma reactor_loop_placed:
  assumes "\<And>op ec. places (call op ec)"
  shows "well_placed r \<Longrightarrow> reactor_loop os call n r = Some (c, r') \<Longrightarrow> well_placed r'"
proof (induction n arbitrary: r)
  case 0
  then show ?case by (simp split: if_splits)
next
  case (Suc n)
  obtain a k where w: "os_epoll_wait os (event_array_size r) (kernel r) = (a, k)" by fastforce
  have r: "well_placed (r\<lparr>kernel := k\<rparr>)" using Suc.prems(1) by (simp add: placed)
  have "well_placed (fold (dispatch_event call) evs (r\<lparr>kernel := k\<rparr>))"
    "well_placed ((fold (dispatch_event call) evs (r\<lparr>kernel := k\<rparr>))\<lparr>event_array_size := length evs * 2\<rparr>)" for evs
    using dispatches_placed [OF assms r] by (simp_all add: placed)
  note step = Suc.IH [OF r] Suc.IH [OF this(1)] Suc.IH [OF this(2)]
  show ?case
    using Suc.prems r w by (auto simp: Let_def split: if_splits sum.splits dest: step)
qed

text \<open>C11: Whatever a program does through sockets and signal sets, in callbacks nested to any depth and whatever the system
  answers, every closure in the reactor's table is under the descriptor it works on and in the direction it waits for.\<close>

theorem operations_well_placed:
  assumes "io_reach e os body m r" and "operation d (opinfo_at fd r) = Some op"
  shows "op_descriptor op = fd \<and> op_direction op = d"
proof -
  note calls = io_call_places [OF io_user_places]
  have "well_placed r"
    using assms(1)
  proof (induction rule: io_reach.induct)
    case (start r)
    then show ?case by (simp add: well_placed_def opinfo_at_def umap_find_def OperationInfo_def operation_def split: direction.split)
  next
    case (request r req)
    then show ?case by (intro io_perform_placed [OF io_user_places])
  next
    case (event r ev)
    then show ?case by (intro dispatch_placed [OF calls])
  next
    case (loop r n c r')
    then show ?case
      using reactor_loop_placed [OF calls, of "r\<lparr>quit := False\<rparr>"] by (simp add: loop_wait_def placed)
  qed
  then show ?thesis using assms(2) by (simp add: well_placed_def)
qed

theorem operations_well_placed_witness:
  "read_op (opinfo_at 3 (io_perform Little_endian sending_os (io_user Little_endian sending_os (\<lambda>u ec n k. ([], k)) 0)
      (Req_tcp_read 0 \<lparr>mb_ptr = 10, mb_len = 5\<rparr> 7) sending_io)) = Some (Tcp_read 3 \<lparr>mb_ptr = 10, mb_len = 5\<rparr> 7) \<and>
    op_descriptor (Tcp_read 3 \<lparr>mb_ptr = 10, mb_len = 5\<rparr> (7::nat)) = 3"
proof -
  let ?user = "io_user Little_endian sending_os (\<lambda>u ec n k. ([], k)) 0"
  let ?r = "io_perform Little_endian sending_os ?user (Req_tcp_read 0 \<lparr>mb_ptr = 10, mb_len = 5\<rparr> 7) sending_io"
  have "io_reach Little_endian sending_os (\<lambda>u ec n k. ([], k)) 0 sending_io"
    by (rule io_reach.start) (simp add: sending_io_def)
  then have reach: "io_reach Little_endian sending_os (\<lambda>u ec n k. ([], k)) 0 ?r"
    by (rule io_reach.request)
  have "operation Reading (opinfo_at 3 sending_io) = None"
    by (simp add: sending_io_fields OperationInfo_def operation_def)
  moreover have "sn_interest (kernel sending_io) 3 = None \<longleftrightarrow> operation (other Reading) (opinfo_at 3 sending_io) = None"
    by (simp add: sending_io_fields OperationInfo_def operation_def other_def)
  ultimately have op: "operation Reading (opinfo_at 3 ?r) = Some (Tcp_read 3 \<lparr>mb_ptr = 10, mb_len = 5\<rparr> 7)"
    using register_reliable [of sending_os sn_interest "\<lambda>_. ()" Reading 3 sending_io "io_failed ?user"
        "Tcp_read 3 \<lparr>mb_ptr = 10, mb_len = 5\<rparr> 7"] sending_progress
    by (simp add: tcp_async_read_def register_eqs sending_io_fields operation_set untouched_def send_progress_def)
  from operations_well_placed [OF reach op] op show ?thesis by (simp add: operation_def)
qed

end
