(* ===== verification/Context_Loop.thy ===== *)
theory Context_Loop
  imports Bridge_Service Timer_Service Socket_Events
begin

section \<open>The services of a context on its reactor\<close>

text \<open>
  A context with all its services: the reactor, the bridge and the timers in one state. The bridge and the timer service
  register one read operation each when they are made, \<open>execute\<close> for the \<^verbatim>\<open>eventfd\<close> and \<open>expireTimerExecute\<close> for the
  \<^verbatim>\<open>timerfd\<close>, and never take it away. What the user does, in the operations, tasks and timers that run, is a
  sequence of requests, nested to any depth. The theory shows that the services keep their registrations whatever the user does on other
  descriptors, so that each event of theirs runs all the tasks that wait, and all the timers that are due.
\<close>

datatype 'op context_op = Execute_tasks | Expire_timers | User_op 'op

record ('op, 'k, 't, 'c, 'tm) cx = "('op context_op, 'k) reactor" +
  cx_bridge :: "('t, 'c) bridge"
  cx_timers :: "'tm timer_service"

text \<open>What runs, and what it may ask for: the reactor, for its own operations, and the timers, by one of the operations of the
  service, which gives the new state and the callbacks to run at once.\<close>

datatype ('op, 't, 'tm) activity = Run_op 'op | Run_task 't | Run_timer 'tm

text \<open>\<open>timer_request\<close> is such an operation: on each state a registration or a cancellation, with some readings of the clock.\<close>

definition timer_request :: "('tm timer_service \<Rightarrow> 'tm timer_service \<times> ('tm \<times> int) list) \<Rightarrow> bool" where
  "timer_request f \<longleftrightarrow>
     (\<forall>s. (\<exists>timer_id tm_op timeout now now2 i. registerTimer timer_id tm_op timeout now now2 s = Inr (i, f s)) \<or>
        (\<exists>timer_id now s' calls. cancelTimer timer_id now s = (s', calls) \<and> f s = (s', map (\<lambda>(t, ec). (t_op t, ec)) calls)))"

lemma timer_request_inv: "timer_request f \<Longrightarrow> timer_inv s \<Longrightarrow> timer_inv (fst (f s))"
proof -
  assume f: "timer_request f" and s: "timer_inv s"
  consider (register) timer_id tm_op timeout now now2 i where "registerTimer timer_id tm_op timeout now now2 s = Inr (i, f s)"
    | (cancel) timer_id now s' calls where "cancelTimer timer_id now s = (s', calls)" "fst (f s) = s'"
    using f unfolding timer_request_def by (metis fst_conv)
  then show "timer_inv (fst (f s))"
  proof cases
    case register
    then show ?thesis using registerTimer_inv [of timer_id tm_op timeout now now2 s i "fst (f s)" "snd (f s)"] s by simp
  next
    case cancel
    then show ?thesis using cancelTimer_inv [OF s, of timer_id now] by simp
  qed
qed

datatype ('op, 'tm) cx_request =
    Cx_reactor "'op request"
  | Cx_timers "'tm timer_service \<Rightarrow> 'tm timer_service \<times> ('tm \<times> int) list"

type_synonym ('op, 'k, 't, 'tm) cx_body = "('op, 't, 'tm) activity \<Rightarrow> int \<Rightarrow> 'k \<Rightarrow> ('op, 'tm) cx_request list \<times> 'k"
type_synonym ('op, 'k, 't, 'c, 'tm) cx_act = "('op, 't, 'tm) activity \<Rightarrow> int \<Rightarrow> ('op, 'k, 't, 'c, 'tm) cx \<Rightarrow> ('op, 'k, 't, 'c, 'tm) cx"

text \<open>The closures registered by the user; the services' own get no code but 0, and ignore any other.\<close>

definition user_call :: "('op, 'k, 't, 'c, 'tm) cx_act \<Rightarrow> 'op context_op \<Rightarrow> int \<Rightarrow> ('op, 'k, 't, 'c, 'tm) cx \<Rightarrow> ('op, 'k, 't, 'c, 'tm) cx" where
  "user_call act op ec r = (case op of User_op a \<Rightarrow> act (Run_op a) ec r | _ \<Rightarrow> r)"

fun cx_perform :: "'k os \<Rightarrow> ('op, 'k, 't, 'c, 'tm) cx_act \<Rightarrow> ('op, 'tm) cx_request \<Rightarrow> ('op, 'k, 't, 'c, 'tm) cx \<Rightarrow> ('op, 'k, 't, 'c, 'tm) cx" where
  "cx_perform os act (Cx_reactor q) r = perform os (user_call act) (map_request User_op q) r"
| "cx_perform os act (Cx_timers f) r =
     (case f (cx_timers r) of (s, calls) \<Rightarrow> fold (\<lambda>(t, ec). act (Run_timer t) ec) calls (r\<lparr>cx_timers := s\<rparr>))"

fun cx_act :: "'k os \<Rightarrow> ('op, 'k, 't, 'tm) cx_body \<Rightarrow> nat \<Rightarrow> ('op, 'k, 't, 'c, 'tm) cx_act" where
  "cx_act os body 0 a ec r = r\<lparr>kernel := snd (body a ec (kernel r))\<rparr>"
| "cx_act os body (Suc n) a ec r =
     (case body a ec (kernel r) of
        (reqs, k) \<Rightarrow> fold (cx_perform os (cx_act os body n)) reqs (r\<lparr>kernel := k\<rparr>))"

text \<open>\<open>execute\<close> and \<open>expireTimerExecute\<close> as the reactor runs them; \<open>clock\<close> is the time.\<close>

definition execute_tasks ::
  "('c \<Rightarrow> 'c) \<Rightarrow> ('op, 'k, 't, 'c, 'tm) cx_act \<Rightarrow> int \<Rightarrow> ('op, 'k, 't, 'c, 'tm) cx \<Rightarrow> ('op, 'k, 't, 'c, 'tm) cx" where
  "execute_tasks efd_clear act ec r =
     (case bridge_execute efd_clear ec (cx_bridge r) of
        (ts, b) \<Rightarrow> fold (\<lambda>t. act (Run_task t) 0) ts (r\<lparr>cx_bridge := b\<rparr>))"

definition expire_timers ::
  "('k \<Rightarrow> int) \<Rightarrow> ('op, 'k, 't, 'c, 'tm) cx_act \<Rightarrow> int \<Rightarrow> ('op, 'k, 't, 'c, 'tm) cx \<Rightarrow> ('op, 'k, 't, 'c, 'tm) cx" where
  "expire_timers clock act ec r =
     (case expireTimerExecute ec (clock (kernel r)) (clock (kernel r)) (cx_timers r) of
        (s, ts) \<Rightarrow> fold (\<lambda>t. act (Run_timer (t_op t)) err_SUCCESS) ts (r\<lparr>cx_timers := s\<rparr>))"

definition cx_call ::
  "('c \<Rightarrow> 'c) \<Rightarrow> ('k \<Rightarrow> int) \<Rightarrow> ('op, 'k, 't, 'c, 'tm) cx_act \<Rightarrow> 'op context_op \<Rightarrow> int \<Rightarrow>
   ('op, 'k, 't, 'c, 'tm) cx \<Rightarrow> ('op, 'k, 't, 'c, 'tm) cx" where
  "cx_call efd_clear clock act op ec r =
     (case op of
        Execute_tasks \<Rightarrow> execute_tasks efd_clear act ec r
      | Expire_timers \<Rightarrow> expire_timers clock act ec r
      | User_op a \<Rightarrow> act (Run_op a) ec r)"

text \<open>The services as \<open>use_service\<close> leaves them once made, in either order; \<open>efd\<close> and \<open>tfd\<close> are their descriptors.\<close>

definition new_context :: "'k \<Rightarrow> 'c \<Rightarrow> ('op, 'k, 't, 'c, 'tm) cx" where
  "new_context k efd_state =
     \<lparr>quit = True, event_array_size = 128, fd_opinfo_umap = [], kernel = k,
      cx_bridge = BridgeService efd_state, cx_timers = TimerService\<rparr>"

definition make_services ::
  "'k os \<Rightarrow> ('op, 'k, 't, 'c, 'tm) cx_act \<Rightarrow> int \<Rightarrow> int \<Rightarrow> ('op, 'k, 't, 'c, 'tm) cx \<Rightarrow> ('op, 'k, 't, 'c, 'tm) cx" where
  "make_services os act efd tfd r =
     registerReadOperation os (user_call act) tfd Expire_timers (registerReadOperation os (user_call act) efd Execute_tasks r)"

subsection \<open>What the user does elsewhere\<close>

fun request_descriptor :: "'op request \<Rightarrow> int option" where
  "request_descriptor (Register_read fd _) = Some fd"
| "request_descriptor (Register_write fd _) = Some fd"
| "request_descriptor (Remove_read fd) = Some fd"
| "request_descriptor (Remove_write fd) = Some fd"
| "request_descriptor (Cancel_read fd) = Some fd"
| "request_descriptor (Cancel_write fd) = Some fd"
| "request_descriptor (Remove_all fd) = Some fd"
| "request_descriptor (Cancel_all fd) = Some fd"
| "request_descriptor Quit = None"

fun elsewhere :: "int set \<Rightarrow> ('op, 'tm) cx_request \<Rightarrow> bool" where
  "elsewhere fds (Cx_reactor q) = (case request_descriptor q of None \<Rightarrow> True | Some fd \<Rightarrow> fd \<notin> fds)"
| "elsewhere fds (Cx_timers f) = timer_request f"

definition body_elsewhere :: "int set \<Rightarrow> ('op, 'k, 't, 'tm) cx_body \<Rightarrow> bool" where
  "body_elsewhere fds body \<longleftrightarrow> (\<forall>a ec k. list_all (elsewhere fds) (fst (body a ec k)))"

text \<open>A function on the state that leaves the infos of some descriptors alone.\<close>

definition leaves :: "int set \<Rightarrow> (('op, 'k, 'z) reactor_scheme \<Rightarrow> ('op, 'k, 'z) reactor_scheme) \<Rightarrow> bool" where
  "leaves fds f \<longleftrightarrow> (\<forall>r. \<forall>fd \<in> fds. opinfo_at fd (f r) = opinfo_at fd r)"

lemma leavesD: "leaves fds f \<Longrightarrow> fd \<in> fds \<Longrightarrow> opinfo_at fd (f r) = opinfo_at fd r"
  by (simp add: leaves_def)

lemma leaves_fold: "(\<And>x. x \<in> set xs \<Longrightarrow> leaves fds (f x)) \<Longrightarrow> leaves fds (fold f xs)"
  by (induction xs) (simp_all add: leaves_def)

lemma register_leaves:
  assumes "\<And>op ec. leaves fds (call op ec)" and "fd' \<notin> fds"
  shows "leaves fds (register os d call fd' op)"
proof -
  have ctl: "opinfo_at fd r2 = opinfo_at fd r" if "epoll_ctl os p g ev (need_opinfo g' r) = (c, r2)" for fd p g g' ev c r r2
    using epoll_ctl_opinfo [of fd os p g ev "need_opinfo g' r"] that by (simp add: opinfo_at_need)
  show ?thesis
    using assms unfolding leaves_def register_def Let_def
    by (auto simp: opinfo_at_need opinfo_at_put ctl split: prod.split)
qed

lemma remove_leaves: "fd' \<notin> fds \<Longrightarrow> leaves fds (remove_operation os d fd')"
  unfolding leaves_def
proof (intro allI ballI)
  fix r fd
  assume "fd' \<notin> fds" and "fd \<in> fds"
  then show "opinfo_at fd (remove_operation os d fd' r) = opinfo_at fd r"
    by (cases "operation d (opinfo_at fd' r)") (auto simp: remove_operation_None remove_operation_opinfo)
qed

lemma opinfo_cancel_leaves:
  assumes "\<And>op ec. leaves fds (call op ec)" and "fd' \<notin> fds"
  shows "leaves fds (opinfo_cancel d call fd')"
  using assms by (auto simp: leaves_def opinfo_cancel_def opinfo_at_put split: option.split)

lemma perform_leaves:
  assumes call: "\<And>op ec. leaves fds (call op ec)" and "case request_descriptor q of None \<Rightarrow> True | Some fd \<Rightarrow> fd \<notin> fds"
  shows "leaves fds (perform os call q)"
proof -
  have cancel: "opinfo_at fd (opinfo_cancel d call fd' r) = opinfo_at fd r" if "fd' \<notin> fds" "fd \<in> fds" for d fd fd' r
    using leavesD [OF opinfo_cancel_leaves [OF call that(1)] that(2)] .
  have register: "opinfo_at fd (register os d call fd' op r) = opinfo_at fd r" if "fd' \<notin> fds" "fd \<in> fds" for d fd fd' op r
    using leavesD [OF register_leaves [OF call that(1)] that(2)] .
  have removes: "opinfo_at fd (removeReadOperation os fd' r) = opinfo_at fd r"
    "opinfo_at fd (removeWriteOperation os fd' r) = opinfo_at fd r" if "fd' \<notin> fds" "fd \<in> fds" for fd fd' r
    using leavesD [OF remove_leaves [OF that(1), of os Reading] that(2)] leavesD [OF remove_leaves [OF that(1), of os Writing] that(2)]
    by (simp_all add: remove_operation_def)
  have remove: "opinfo_at fd (snd (epoll_remove os fd' r)) = opinfo_at fd r" for fd fd' r
    by (simp add: epoll_remove_eq epoll_ctl_opinfo)
  have "opinfo_at fd (perform os call q r) = opinfo_at fd r" if "fd \<in> fds" for fd r
    using assms(2) that
    by (cases q) (auto simp: register_eqs register removes cancelReadOperation_def cancelWriteOperation_def
        removeAllOperations_def cancelAllOperations_def opinfo_cancelAll_def opinfo_cancel_eqs cancel forget_eqs forget_opinfo
        reactor_quit_def opinfo_at_quit opinfo_at_put remove Let_def)
  then show ?thesis by (simp add: leaves_def)
qed

subsection \<open>The services keep their registrations\<close>

lemma cx_state [reactor_simps]:
  "opinfo_at fd (r\<lparr>cx_bridge := b\<rparr>) = opinfo_at fd r" "opinfo_at fd (r\<lparr>cx_timers := s\<rparr>) = opinfo_at fd r"
  "interest_inv interest X (r\<lparr>cx_bridge := b\<rparr>) = interest_inv interest X r"
  "interest_inv interest X (r\<lparr>cx_timers := s\<rparr>) = interest_inv interest X r"
  by (simp_all add: opinfo_at_def interest_inv_def)

lemma request_descriptor_map: "request_descriptor (map_request f q) = request_descriptor q"
  by (cases q) simp_all

lemma cx_perform_leaves:
  assumes act: "\<And>a ec. leaves fds (act a ec)" and "elsewhere fds req"
  shows "leaves fds (cx_perform os act req)"
proof (cases req)
  case (Cx_reactor q)
  have "leaves fds (user_call act op ec)" for op ec
    using act by (auto simp: leaves_def user_call_def split: context_op.split)
  then show ?thesis
    using perform_leaves [of fds "user_call act" "map_request User_op q" os] assms(2)
    by (simp add: Cx_reactor leaves_def request_descriptor_map)
next
  case (Cx_timers f)
  have "leaves fds (fold (\<lambda>(t, ec). act (Run_timer t) ec) calls)" for calls
    by (rule leaves_fold) (auto simp: act)
  then show ?thesis by (simp add: Cx_timers leaves_def cx_state split: prod.split)
qed

lemma cx_act_leaves: "body_elsewhere fds body \<Longrightarrow> leaves fds ((cx_act os body n :: ('op, 'k, 't, 'c, 'tm) cx_act) a ec)"
proof (induction n arbitrary: a ec)
  case 0
  show ?case by (simp add: leaves_def opinfo_at_kernel)
next
  case (Suc n)
  have "leaves fds (fold (cx_perform os (cx_act os body n :: ('op, 'k, 't, 'c, 'tm) cx_act)) (fst (body a ec k)))" for k
    using Suc.prems
    by (intro leaves_fold cx_perform_leaves Suc.IH [OF Suc.prems]) (auto simp: body_elsewhere_def list_all_iff)
  then show ?case
    by (simp add: leaves_def opinfo_at_kernel split: prod.split) (metis fst_conv opinfo_at_kernel)
qed

lemma cx_call_leaves:
  assumes act: "\<And>a ec. leaves fds (act a ec)"
  shows "leaves fds (cx_call efd_clear clock act op ec)"
proof -
  have "leaves fds (fold (\<lambda>t. act (Run_task t) 0) ts)" "leaves fds (fold (\<lambda>t. act (Run_timer (t_op t)) err_SUCCESS) tms)" for ts and tms :: "_ timer list"
    by (rule leaves_fold, rule act)+
  then show ?thesis
    using act by (auto simp: leaves_def cx_call_def execute_tasks_def expire_timers_def cx_state split: context_op.split prod.split)
qed

lemma dispatch_leaves:
  assumes "\<And>op ec. leaves fds (call op ec)"
  shows "leaves fds (dispatch_event call ev)"
proof -
  have "leaves fds (doReadOperation call fd ec)" "leaves fds (doWriteOperation call fd ec)" for fd ec
    using assms by (auto simp: leaves_def doReadOperation_def doWriteOperation_def split: option.split)
  then show ?thesis by (auto simp: leaves_def dispatch_event_def Let_def split: prod.split)
qed

subsection \<open>Epoll keeps watching them\<close>

text \<open>On the descriptors outside \<open>D\<close>, those the user may close behind the reactor's back.\<close>

definition act_keeps :: "('k \<Rightarrow> int \<Rightarrow> events option) \<Rightarrow> int set \<Rightarrow> ('op, 'k, 't, 'c, 'tm) cx_act \<Rightarrow> bool" where
  "act_keeps interest D act \<longleftrightarrow>
     (\<forall>a ec X r. D \<times> UNIV \<subseteq> X \<longrightarrow> interest_inv interest X r \<longrightarrow> interest_inv interest X (act a ec r))"

lemma act_keepsD:
  "act_keeps interest D act \<Longrightarrow> D \<times> UNIV \<subseteq> X \<Longrightarrow> interest_inv interest X r \<Longrightarrow> interest_inv interest X (act a ec r)"
  by (simp add: act_keeps_def)

lemma interest_inv_fold:
  "(\<And>x r. interest_inv interest X r \<Longrightarrow> interest_inv interest X (f x r)) \<Longrightarrow> interest_inv interest X r \<Longrightarrow>
   interest_inv interest X (fold f xs r)"
  by (induction xs arbitrary: r) simp_all

lemma user_call_keeps: "act_keeps interest D act \<Longrightarrow> keeps interest D (user_call act)"
  by (simp add: keeps_def user_call_def act_keepsD split: context_op.split)

lemma cx_call_keeps: "act_keeps interest D act \<Longrightarrow> keeps interest D (cx_call efd_clear clock act)"
  by (auto simp: keeps_def cx_call_def execute_tasks_def expire_timers_def act_keepsD cx_state
      intro!: interest_inv_fold split: context_op.split prod.split)

lemma cx_perform_keeps:
  assumes "epoll_laws os interest" and "act_keeps interest D act" and "interest_inv interest X r" and "D \<times> UNIV \<subseteq> X"
  shows "interest_inv interest X (cx_perform os act req r)"
  using perform_keeps [OF assms(1) user_call_keeps [OF assms(2)] assms(3,4)] assms(3)
  by (cases req) (auto simp: cx_state act_keepsD [OF assms(2,4)] intro!: interest_inv_fold split: prod.split)

definition body_leaves_epoll :: "('k \<Rightarrow> int \<Rightarrow> events option) \<Rightarrow> int set \<Rightarrow> ('op, 'k, 't, 'tm) cx_body \<Rightarrow> bool" where
  "body_leaves_epoll interest D body \<longleftrightarrow> (\<forall>a ec k fd. fd \<notin> D \<longrightarrow> interest (snd (body a ec k)) fd = interest k fd)"

lemma cx_act_keeps:
  assumes "epoll_laws os interest" and "body_leaves_epoll interest D body"
  shows "act_keeps interest D (cx_act os body n)"
proof (induction n)
  case 0
  show ?case
    using assms(2) by (auto simp: act_keeps_def body_leaves_epoll_def intro!: interest_inv_elsewhere [where D = D])
next
  case (Suc n)
  have "interest_inv interest X (r\<lparr>kernel := k\<rparr>)"
    if "body a ec (kernel r) = (reqs, k)" "interest_inv interest X r" "D \<times> UNIV \<subseteq> X" for a ec r reqs k X
    by (rule interest_inv_elsewhere [OF _ that(3,2)])
      (use assms(2) that(1) in \<open>simp add: body_leaves_epoll_def, metis snd_conv\<close>)
  then show ?case
    unfolding act_keeps_def
    by (auto intro!: interest_inv_fold cx_perform_keeps [OF assms(1) Suc.IH] split: prod.split)
qed

subsection \<open>Histories of a context\<close>

text \<open>The services are made and registered; then other threads post, the context's own thread makes requests outside the
  loop, and the loop dispatches events, in any order.\<close>

inductive cx_reach ::
  "'k os \<Rightarrow> ('op, 'k, 't, 'tm) cx_body \<Rightarrow> nat \<Rightarrow> ('c \<Rightarrow> 'c) \<Rightarrow> ('c \<Rightarrow> 'c) \<Rightarrow> ('k \<Rightarrow> int) \<Rightarrow> int \<Rightarrow> int \<Rightarrow>
   ('op, 'k, 't, 'c, 'tm) cx \<Rightarrow> bool"
  for os body n efd_write efd_clear clock efd tfd where
  start: "r = make_services os (cx_act os body n) efd tfd (new_context k c) \<Longrightarrow>
    read_op (opinfo_at efd r) = Some Execute_tasks \<Longrightarrow> read_op (opinfo_at tfd r) = Some Expire_timers \<Longrightarrow>
    cx_reach os body n efd_write efd_clear clock efd tfd r"
| post: "cx_reach os body n efd_write efd_clear clock efd tfd r \<Longrightarrow>
    cx_reach os body n efd_write efd_clear clock efd tfd (r\<lparr>cx_bridge := bridge_batch efd_write ts (cx_bridge r)\<rparr>)"
| request: "cx_reach os body n efd_write efd_clear clock efd tfd r \<Longrightarrow> elsewhere {efd, tfd} req \<Longrightarrow>
    cx_reach os body n efd_write efd_clear clock efd tfd (cx_perform os (cx_act os body n) req r)"
| event: "cx_reach os body n efd_write efd_clear clock efd tfd r \<Longrightarrow>
    cx_reach os body n efd_write efd_clear clock efd tfd (dispatch_event (cx_call efd_clear clock (cx_act os body n)) ev r)"

text \<open>The bridge's \<^verbatim>\<open>eventfd\<close> stays readable while a task waits.\<close>

definition wakes :: "('c \<Rightarrow> bool) \<Rightarrow> ('op, 'k, 't, 'c, 'tm) cx \<Rightarrow> bool" where
  "wakes readable r \<longleftrightarrow> (task_list (cx_bridge r) \<noteq> [] \<longrightarrow> readable (event_fd (cx_bridge r)))"

text \<open>Only \<open>execute\<close> and \<open>post\<close> touch the bridge.\<close>

lemma steady_bridge: "steady cx_bridge"
  by (simp add: steady_def)

definition keeps_bridge :: "(('op, 'k, 't, 'c, 'tm) cx \<Rightarrow> ('op, 'k, 't, 'c, 'tm) cx) \<Rightarrow> bool" where
  "keeps_bridge f \<longleftrightarrow> (\<forall>r. cx_bridge (f r) = cx_bridge r)"

lemma keeps_bridge_fold: "(\<And>x. keeps_bridge (f x)) \<Longrightarrow> keeps_bridge (fold f xs)"
  by (induction xs) (simp_all add: keeps_bridge_def)

lemma cx_perform_keeps_bridge:
  assumes act: "\<And>a ec r. cx_bridge (act a ec r) = cx_bridge r"
  shows "cx_bridge (cx_perform os act req r) = cx_bridge r"
proof (cases req)
  case (Cx_reactor q)
  have "cx_bridge (user_call act op ec r) = cx_bridge r" for op ec r
    by (simp add: user_call_def act split: context_op.split)
  then show ?thesis by (simp add: Cx_reactor steady_perform [OF steady_bridge])
next
  case (Cx_timers f)
  have "keeps_bridge (fold (\<lambda>(t, ec). act (Run_timer t) ec) calls)" for calls
    by (rule keeps_bridge_fold) (simp add: keeps_bridge_def act split: prod.split)
  then show ?thesis by (simp add: Cx_timers keeps_bridge_def split: prod.split)
qed

lemma cx_act_keeps_bridge: "cx_bridge ((cx_act os body n :: ('op, 'k, 't, 'c, 'tm) cx_act) a ec r) = cx_bridge r"
proof (induction n arbitrary: a ec r)
  case (Suc n)
  have "keeps_bridge (fold (cx_perform os (cx_act os body n :: ('op, 'k, 't, 'c, 'tm) cx_act)) reqs)" for reqs
    by (rule keeps_bridge_fold) (simp add: keeps_bridge_def cx_perform_keeps_bridge Suc.IH)
  then show ?case by (simp add: keeps_bridge_def split: prod.split)
qed simp

lemma cx_call_bridge:
  "cx_bridge (cx_call efd_clear clock (cx_act os body n :: ('op, 'k, 't, 'c, 'tm) cx_act) op ec r) =
     (if op = Execute_tasks then snd (bridge_execute efd_clear ec (cx_bridge r)) else cx_bridge r)"
proof -
  let ?act = "cx_act os body n :: ('op, 'k, 't, 'c, 'tm) cx_act"
  have "keeps_bridge (fold (\<lambda>t. ?act (Run_task t) 0) ts)"
    "keeps_bridge (fold (\<lambda>t. ?act (Run_timer (t_op t)) err_SUCCESS) tms)" for ts and tms :: "'tm timer list"
    by (rule keeps_bridge_fold, simp add: keeps_bridge_def cx_act_keeps_bridge)+
  then show ?thesis
    by (simp add: cx_call_def execute_tasks_def expire_timers_def keeps_bridge_def cx_act_keeps_bridge
        split: context_op.split prod.split)
qed

lemma cx_call_wakes: "wakes readable r \<Longrightarrow> wakes readable (cx_call efd_clear clock (cx_act os body n) op ec r)"
  by (simp add: wakes_def cx_call_bridge bridge_execute_def)

lemma dispatch_wakes:
  "wakes readable r \<Longrightarrow> wakes readable (dispatch_event (cx_call efd_clear clock (cx_act os body n)) ev r)"
  by (simp add: dispatch_event_def doReadOperation_def doWriteOperation_def Let_def cx_call_wakes split: prod.split option.split)

text \<open>The timers stay in order whatever registers and cancels them.\<close>

lemma steady_timers: "steady cx_timers"
  by (simp add: steady_def)

definition keeps_timers :: "(('op, 'k, 't, 'c, 'tm) cx \<Rightarrow> ('op, 'k, 't, 'c, 'tm) cx) \<Rightarrow> bool" where
  "keeps_timers f \<longleftrightarrow> (\<forall>r. timer_inv (cx_timers r) \<longrightarrow> timer_inv (cx_timers (f r)))"

lemma keeps_timersD: "keeps_timers f \<Longrightarrow> timer_inv (cx_timers r) \<Longrightarrow> timer_inv (cx_timers (f r))"
  by (simp add: keeps_timers_def)

lemma keeps_timers_fold: "(\<And>x. x \<in> set xs \<Longrightarrow> keeps_timers (f x)) \<Longrightarrow> keeps_timers (fold f xs)"
  by (induction xs) (simp_all add: keeps_timers_def)

lemma user_call_keeps_timers: "(\<And>a ec. keeps_timers (act a ec)) \<Longrightarrow> keeps_timers (user_call act op ec)"
  by (auto simp: keeps_timers_def user_call_def split: context_op.split)

lemma cx_perform_keeps_timers:
  assumes act: "\<And>a ec. keeps_timers (act a ec)" and req: "elsewhere fds req"
  shows "keeps_timers (cx_perform os act req)"
proof (cases req)
  case (Cx_reactor q)
  have "timer_inv (cx_timers (perform os (user_call act) (map_request User_op q) r))" if "timer_inv (cx_timers r)" for r
    by (rule steady_perform_keeps [where P = timer_inv, OF steady_timers _ _ that])
      (use user_call_keeps_timers [of act, OF act] in \<open>simp_all add: keeps_timers_def\<close>)
  then show ?thesis by (simp add: Cx_reactor keeps_timers_def)
next
  case (Cx_timers f)
  have "keeps_timers (fold (\<lambda>(t, ec). act (Run_timer t) ec) calls)" for calls
    by (rule keeps_timers_fold) (auto simp: act)
  moreover have "timer_inv s'" if "f s = (s', calls)" "timer_inv s" for s s' calls
    using timer_request_inv [of f s] req that by (simp add: Cx_timers)
  ultimately show ?thesis by (auto simp: Cx_timers keeps_timers_def split: prod.split)
qed

lemma cx_act_keeps_timers:
  "body_elsewhere fds body \<Longrightarrow> keeps_timers ((cx_act os body n :: ('op, 'k, 't, 'c, 'tm) cx_act) a ec)"
proof (induction n arbitrary: a ec)
  case 0
  show ?case by (simp add: keeps_timers_def)
next
  case (Suc n)
  have "keeps_timers (fold (cx_perform os (cx_act os body n :: ('op, 'k, 't, 'c, 'tm) cx_act)) (fst (body a ec k)))" for k
    using Suc.prems
    by (intro keeps_timers_fold cx_perform_keeps_timers Suc.IH [OF Suc.prems]) (auto simp: body_elsewhere_def list_all_iff)
  note step = keeps_timersD [OF this]
  show ?case
    unfolding keeps_timers_def
  proof (intro allI impI)
    fix r :: "('op, 'k, 't, 'c, 'tm) cx"
    assume r: "timer_inv (cx_timers r)"
    obtain reqs k where b: "body a ec (kernel r) = (reqs, k)" by fastforce
    show "timer_inv (cx_timers (cx_act os body (Suc n) a ec r))"
      using step [of "r\<lparr>kernel := k\<rparr>" "kernel r"] r by (simp add: b)
  qed
qed

lemma cx_call_keeps_timers:
  fixes act :: "('a, 'b, 'c, 'd, 'e) cx_act"
  assumes act: "\<And>a ec. keeps_timers (act a ec)"
  shows "keeps_timers (cx_call efd_clear clock act op ec)"
proof -
  have "keeps_timers (fold (\<lambda>t. act (Run_task t) 0) ts)" "keeps_timers (fold (\<lambda>t. act (Run_timer (t_op t)) err_SUCCESS) tms)"
    for ts and tms :: "_ timer list"
    by (rule keeps_timers_fold, rule act)+
  note folds = this [THEN keeps_timersD]
  have "timer_inv s'" if "expireTimerExecute c now now2 s = (s', ts)" "timer_inv s" for c now now2 s s' and ts :: "_ timer list"
    using expire_facts(4) [of s now now2 s' ts] that by (cases "c = 0") (auto simp: expireTimerExecute_def)
  note expire = this
  show ?thesis
    unfolding keeps_timers_def
  proof (intro allI impI)
    fix r :: "('a, 'b, 'c, 'd, 'e) cx"
    assume r: "timer_inv (cx_timers r)"
    obtain ts b where b: "bridge_execute efd_clear ec (cx_bridge r) = (ts, b)" by fastforce
    obtain s ds where e: "expireTimerExecute ec (clock (kernel r)) (clock (kernel r)) (cx_timers r) = (s, ds)" by fastforce
    show "timer_inv (cx_timers (cx_call efd_clear clock act op ec r))"
      using folds(1) [of "r\<lparr>cx_bridge := b\<rparr>" ts] folds(2) [of "r\<lparr>cx_timers := s\<rparr>" ds] expire [OF e r] keeps_timersD [OF act r] r
      by (cases op) (simp_all add: cx_call_def execute_tasks_def expire_timers_def b e)
  qed
qed

lemma dispatch_keeps_timers:
  assumes "\<And>op ec. keeps_timers (call op ec)"
  shows "keeps_timers (dispatch_event call ev)"
proof -
  have "keeps_timers (doReadOperation call fd ec)" "keeps_timers (doWriteOperation call fd ec)" for fd ec
    using assms by (auto simp: keeps_timers_def doReadOperation_def doWriteOperation_def split: option.split)
  then show ?thesis by (auto simp: keeps_timers_def dispatch_event_def Let_def split: prod.split)
qed

lemma make_services_keep_timers:
  assumes "\<And>a ec. keeps_timers (act a ec)"
  shows "keeps_timers (make_services os act efd tfd)"
proof -
  have "timer_inv (cx_timers (register os Reading (user_call act) fd op r))" if "timer_inv (cx_timers r)" for fd op r
    by (rule steady_register_keeps [where P = timer_inv, OF steady_timers _ that])
      (use user_call_keeps_timers [of act, OF assms] in \<open>simp add: keeps_timers_def\<close>)
  then show ?thesis by (simp add: keeps_timers_def make_services_def register_eqs)
qed

lemma make_services_keep:
  assumes "epoll_laws os interest" and "act_keeps interest D act" and "\<And>a ec r. cx_bridge (act a ec r) = cx_bridge r"
    and "interest_inv interest X r" and "D \<times> UNIV \<subseteq> X"
  shows "interest_inv interest X (make_services os act efd tfd r)" and "cx_bridge (make_services os act efd tfd r) = cx_bridge r"
proof -
  note reg = reactor_operations_keep(1) [OF assms(1) user_call_keeps [OF assms(2)]]
  show "interest_inv interest X (make_services os act efd tfd r)"
    unfolding make_services_def by (intro reg assms(4,5))
  have "cx_bridge (user_call act op ec r) = cx_bridge r" for op ec r
    by (simp add: user_call_def assms(3) split: context_op.split)
  then show "cx_bridge (make_services os act efd tfd r) = cx_bridge r"
    by (simp add: make_services_def register_eqs steady_register [OF steady_bridge])
qed

lemma cx_reach_inv:
  fixes r :: "('op, 'k, 't, 'c, 'tm) cx"
  assumes laws: "epoll_laws os interest" "eventfd_law efd_write readable"
    and body: "body_elsewhere {efd, tfd} body" "body_leaves_epoll interest (- {efd, tfd}) body"
    and reach: "cx_reach os body n efd_write efd_clear clock efd tfd r"
  shows "read_op (opinfo_at efd r) = Some Execute_tasks" and "read_op (opinfo_at tfd r) = Some Expire_timers"
    and "interest_inv interest ((- {efd, tfd}) \<times> UNIV) r" and "wakes readable r" and "timer_inv (cx_timers r)"
proof -
  let ?D = "(- {efd, tfd}) \<times> (UNIV :: direction set)"
  let ?act = "cx_act os body n :: ('op, 'k, 't, 'c, 'tm) cx_act"
  note act = cx_act_leaves [OF body(1), of os n] and keeps = cx_act_keeps [OF laws(1) body(2), of n]
    and timers = cx_act_keeps_timers [OF body(1), of os n]
  have "read_op (opinfo_at efd r) = Some Execute_tasks \<and> read_op (opinfo_at tfd r) = Some Expire_timers \<and>
      interest_inv interest ?D r \<and> wakes readable r \<and> timer_inv (cx_timers r)"
    using reach
  proof (induction rule: cx_reach.induct)
    case (start r k c)
    have "interest_inv interest ?D (new_context k c :: ('op, 'k, 't, 'c, 'tm) cx)"
      by (simp add: interest_inv_def new_context_def opinfo_at_def umap_find_def OperationInfo_def operation_def split: direction.split)
    note m = make_services_keep [OF laws(1) keeps cx_act_keeps_bridge this order_refl, of efd tfd]
    have "timer_inv (cx_timers r)"
      unfolding start(1)
      by (rule keeps_timersD [OF make_services_keep_timers [of ?act, OF timers]]) (simp add: new_context_def TimerService_inv)
    then show ?case
      using start m by (simp add: wakes_def new_context_def BridgeService_def)
  next
    case (post r ts)
    then show ?case
      using laws(2) by (simp add: cx_state wakes_def bridge_batch_def batchNoLock_def eventfd_law_def)
  next
    case (request r req)
    then show ?case
      using leavesD [OF cx_perform_leaves [OF act request.hyps(2), of os], where r = r] cx_perform_keeps [OF laws(1) keeps, of ?D r req]
        cx_perform_keeps_timers [of ?act, OF timers request.hyps(2), of os]
      by (simp add: wakes_def cx_perform_keeps_bridge cx_act_keeps_bridge keeps_timers_def)
  next
    case (event r ev)
    then show ?case
      using leavesD [OF dispatch_leaves [OF cx_call_leaves [OF act, of efd_clear clock]], where r = r]
        dispatch_event_keeps [OF cx_call_keeps [OF keeps] order_refl, of r efd_clear clock ev] dispatch_wakes [of readable r]
        dispatch_keeps_timers [of "cx_call efd_clear clock ?act" ev, OF cx_call_keeps_timers [of ?act, OF timers]]
      by (simp add: keeps_timers_def)
  qed
  then show "read_op (opinfo_at efd r) = Some Execute_tasks" and "read_op (opinfo_at tfd r) = Some Expire_timers"
    and "interest_inv interest ?D r" and "wakes readable r" and "timer_inv (cx_timers r)" by simp_all
qed

text \<open>C7: Whatever the user's operations, tasks and timers do that touches neither of the two descriptors of the services (requests
  to the reactor for other descriptors, closing other descriptors behind its back, registering and cancelling timers), and whatever
  calls of epoll fail once the services are made, the bridge and the timer service stay registered and epoll keeps watching their
  descriptors; while a task waits the \<^verbatim>\<open>eventfd\<close> is readable; an event of the \<^verbatim>\<open>eventfd\<close> runs all the tasks that wait, in order
  and once, and an event of the \<^verbatim>\<open>timerfd\<close> all the timers that are due and no other, in the order of their deadlines.\<close>

theorem context_serves_its_services:
  assumes "epoll_laws os interest" and "eventfd_law efd_write readable"
    and "body_elsewhere {efd, tfd} body" and "body_leaves_epoll interest (- {efd, tfd}) body"
    and "cx_reach os body n efd_write efd_clear clock efd tfd r"
    and "act = cx_act os body n" and "call = cx_call efd_clear clock act"
  shows "(task_list (cx_bridge r) \<noteq> [] \<longrightarrow> readable (event_fd (cx_bridge r))) \<and>
    (\<forall>fd \<in> {efd, tfd}. \<exists>ev. interest (kernel r) fd = Some ev \<and> (EPOLLIN OR EPOLLPRI) AND ev = EPOLLIN OR EPOLLPRI) \<and>
    (\<exists>b. task_list b = [] \<and>
       dispatch_event call (efd, EPOLLIN) r = fold (\<lambda>t. act (Run_task t) 0) (task_list (cx_bridge r)) (r\<lparr>cx_bridge := b\<rparr>)) \<and>
    (\<exists>s. ts_timer_mset s = filter (\<lambda>t. \<not> t_time t \<le> clock (kernel r)) (ts_timer_mset (cx_timers r)) \<and>
       dispatch_event call (tfd, EPOLLIN) r =
         fold (\<lambda>t. act (Run_timer (t_op t)) err_SUCCESS)
           (filter (\<lambda>t. t_time t \<le> clock (kernel r)) (ts_timer_mset (cx_timers r))) (r\<lparr>cx_timers := s\<rparr>)) \<and>
    sorted (map t_time (ts_timer_mset (cx_timers r)))"
proof -
  note inv = cx_reach_inv [OF assms(1-5)]
  have watched: "\<exists>ev. interest (kernel r) fd = Some ev \<and> (EPOLLIN OR EPOLLPRI) AND ev = EPOLLIN OR EPOLLPRI" if "fd \<in> {efd, tfd}" for fd
  proof -
    have "operation Reading (opinfo_at fd r) \<noteq> None" using that inv(1,2) by (auto simp: operation_def)
    then show ?thesis using inv(3) that by (force simp: interest_inv_def waits_for_def)
  qed
  have ev: "only_event Reading EPOLLIN"
    by (simp add: only_event_def waits_for_def other_def EPOLLIN_def EPOLLPRI_def EPOLLERR_def EPOLLHUP_def EPOLLOUT_def)
  have "dispatch_event call (efd, EPOLLIN) r = execute_tasks efd_clear act err_SUCCESS r"
    "dispatch_event call (tfd, EPOLLIN) r = expire_timers clock act err_SUCCESS r"
    using dispatch_only_event [OF ev, of efd r Execute_tasks call] dispatch_only_event [OF ev, of tfd r Expire_timers call] inv(1,2)
    by (simp_all add: operation_def assms(7) cx_call_def)
  moreover have "\<exists>b. task_list b = [] \<and>
      execute_tasks efd_clear act err_SUCCESS r = fold (\<lambda>t. act (Run_task t) 0) (task_list (cx_bridge r)) (r\<lparr>cx_bridge := b\<rparr>)"
    by (rule exI [of _ "snd (bridge_execute efd_clear 0 (cx_bridge r))"])
      (simp add: execute_tasks_def bridge_execute_def err_codes)
  moreover obtain s ds where e: "expireTimerExecute 0 (clock (kernel r)) (clock (kernel r)) (cx_timers r) = (s, ds)" by fastforce
  have "\<exists>s. ts_timer_mset s = filter (\<lambda>t. \<not> t_time t \<le> clock (kernel r)) (ts_timer_mset (cx_timers r)) \<and>
       expire_timers clock act err_SUCCESS r =
         fold (\<lambda>t. act (Run_timer (t_op t)) err_SUCCESS)
           (filter (\<lambda>t. t_time t \<le> clock (kernel r)) (ts_timer_mset (cx_timers r))) (r\<lparr>cx_timers := s\<rparr>)"
    using expire_facts(1,2) [OF inv(5) e] e by (intro exI [of _ s]) (simp add: expire_timers_def err_codes)
  moreover have "sorted (map t_time (ts_timer_mset (cx_timers r)))"
    using inv(5) by (simp add: timer_inv_def timers_sorted_def)
  ultimately show ?thesis
    using inv(4) watched by (simp add: wakes_def)
qed

text \<open>Two tasks posted to a context whose tasks log themselves; the counter of the \<^verbatim>\<open>eventfd\<close> is a number.\<close>

definition task_log_body :: "(nat, small_kernel, nat, nat) cx_body" where
  "task_log_body a ec k = ([], case a of Run_task t \<Rightarrow> k\<lparr>sk_log := sk_log k @ [(t, ec)]\<rparr> | _ \<Rightarrow> k)"

definition example_cx :: "(nat, small_kernel, nat, nat, nat) cx" where
  "example_cx = make_services small_os (cx_act small_os task_log_body 1) 5 6 (new_context small_kernel0 0)"

lemma example_cx_state:
  "opinfo_at 5 example_cx = \<lparr>read_op = Some Execute_tasks, write_op = None\<rparr>"
  "opinfo_at 6 example_cx = \<lparr>read_op = Some Expire_timers, write_op = None\<rparr>"
  "cx_bridge example_cx = BridgeService 0" "sk_log (kernel example_cx) = []"
  by (simp_all add: example_cx_def make_services_def new_context_def registerReadOperation_def need_opinfo_def opinfo_at_def
      put_opinfo_def umap_find_def OperationInfo_def hasReadOperation_def hasWriteOperation_def epoll_register_def
      epoll_ctl_def small_os_def small_ctl_def small_kernel0_def setReadOperation_def Let_def)

theorem context_serves_its_services_witness:
  "sk_log (kernel (dispatch_event (cx_call (\<lambda>_. 0) (\<lambda>_. 0) (cx_act small_os task_log_body 1)) (5, EPOLLIN)
     (example_cx\<lparr>cx_bridge := bridge_batch Suc [1, 2] (cx_bridge example_cx)\<rparr>))) = [(1, 0), (2, 0)]"
proof -
  let ?r = "example_cx\<lparr>cx_bridge := bridge_batch Suc [1, 2] (cx_bridge example_cx)\<rparr>"
  have "cx_reach small_os task_log_body 1 Suc (\<lambda>_. 0) (\<lambda>_. 0) 5 6 example_cx"
    by (rule cx_reach.start [OF example_cx_def [unfolded]]) (simp_all add: example_cx_state)
  then have reach: "cx_reach small_os task_log_body 1 Suc (\<lambda>_. 0) (\<lambda>_. 0) 5 6 ?r"
    by (rule cx_reach.post)
  have laws: "eventfd_law Suc (\<lambda>c. 0 < c)" "body_elsewhere {5, 6} task_log_body" "body_leaves_epoll sk_interest (- {5, 6}) task_log_body"
    by (simp_all add: eventfd_law_def body_elsewhere_def task_log_body_def body_leaves_epoll_def split: activity.split)
  obtain b where "dispatch_event (cx_call (\<lambda>_. 0) (\<lambda>_. 0) (cx_act small_os task_log_body 1)) (5, EPOLLIN) ?r =
      fold (\<lambda>t. cx_act small_os task_log_body 1 (Run_task t) 0) (task_list (cx_bridge ?r)) (?r\<lparr>cx_bridge := b\<rparr>)"
    using context_serves_its_services [OF small_os_laws laws reach refl refl] by blast
  then show ?thesis
    by (simp add: example_cx_state bridge_batch_def batchNoLock_def BridgeService_def task_log_body_def)
qed

end
