(* ===== verification/Socket_Info.thy ===== *)
theory Socket_Info
  imports Tcp_Socket Udp_Socket
begin

section \<open>What sockets print about themselves (tcpInfo, udpInfo)\<close>

text \<open>
  \<^verbatim>\<open>TCPSocket::tcpInfo\<close> and \<^verbatim>\<open>UDPSocket::udpInfo\<close> ask the kernel for numbers and print them into a buffer of fixed size with
  \<^verbatim>\<open>snprintf\<close>. The options are a parameter: what \<^verbatim>\<open>getsockopt\<close> stores for a descriptor, or nothing when it fails. The results
  of the calls are not looked at: \<^verbatim>\<open>tcpInfo\<close> has cleared its variable before, \<^verbatim>\<open>udpInfo\<close> has not. Proved: no
  text is cut, and \<^verbatim>\<open>udpInfo\<close> is undefined exactly when a call fails.
\<close>

record tcp_info =
  tcpi_retransmits :: u8
  tcpi_rto :: u32
  tcpi_ato :: u32
  tcpi_snd_mss :: u32
  tcpi_rcv_mss :: u32
  tcpi_lost :: u32
  tcpi_retrans :: u32
  tcpi_rtt :: u32
  tcpi_rttvar :: u32
  tcpi_snd_ssthresh :: u32
  tcpi_snd_cwnd :: u32
  tcpi_total_retrans :: u32

definition cleared_tcp_info :: tcp_info where
  "cleared_tcp_info =
     \<lparr>tcpi_retransmits = 0, tcpi_rto = 0, tcpi_ato = 0, tcpi_snd_mss = 0, tcpi_rcv_mss = 0, tcpi_lost = 0, tcpi_retrans = 0,
      tcpi_rtt = 0, tcpi_rttvar = 0, tcpi_snd_ssthresh = 0, tcpi_snd_cwnd = 0, tcpi_total_retrans = 0\<rparr>"

text \<open>\<open>std::string(buff)\<close> after \<^verbatim>\<open>snprintf\<close> into \<open>buff\<close>: what fits before the final NUL, up to the first one.\<close>

definition printed :: "nat \<Rightarrow> string \<Rightarrow> string" where
  "printed n s = takeWhile (\<lambda>c. c \<noteq> CHR 0x00) (take (n - 1) s)"

definition show_u32 :: "u32 \<Rightarrow> string" where
  "show_u32 w = show_nat (unat w)"

definition tcp_info_text :: "tcp_info \<Rightarrow> string" where
  "tcp_info_text t =
     ''unrecovered='' @ show_nat (unat (tcpi_retransmits t)) @
     '' rto='' @ show_u32 (tcpi_rto t) @ '' ato='' @ show_u32 (tcpi_ato t) @
     '' snd_mss='' @ show_u32 (tcpi_snd_mss t) @ '' rcv_mss='' @ show_u32 (tcpi_rcv_mss t) @
     '' lost='' @ show_u32 (tcpi_lost t) @ '' retrans='' @ show_u32 (tcpi_retrans t) @
     '' rtt='' @ show_u32 (tcpi_rtt t) @ '' rttvar='' @ show_u32 (tcpi_rttvar t) @
     '' sshthresh='' @ show_u32 (tcpi_snd_ssthresh t) @ '' cwnd='' @ show_u32 (tcpi_snd_cwnd t) @
     '' total_retrans='' @ show_u32 (tcpi_total_retrans t)"

definition tcpInfo :: "(int \<Rightarrow> tcp_info option) \<Rightarrow> nat \<Rightarrow> ('u, 'k) io \<Rightarrow> string" where
  "tcpInfo getsockopt s r =
     (let tcpi = (case getsockopt (tcp_sockfd r s) of None \<Rightarrow> cleared_tcp_info | Some t \<Rightarrow> t)
      in printed 1024 (tcp_info_text tcpi))"

datatype buffer_option = SO_SNDBUF | SO_RCVBUF

definition udp_info_text :: "u32 \<Rightarrow> u32 \<Rightarrow> string" where
  "udp_info_text sndbuf rcvbuf = ''sndbuf='' @ show_int (sint sndbuf) @ '' rcvbuf='' @ show_int (sint rcvbuf)"

definition udpInfo :: "(int \<Rightarrow> buffer_option \<Rightarrow> u32 option) \<Rightarrow> nat \<Rightarrow> ('u, 'k) io \<Rightarrow> string cpp" where
  "udpInfo getsockopt s r =
     (case (getsockopt (udp_sockfd r s) SO_SNDBUF, getsockopt (udp_sockfd r s) SO_RCVBUF) of
        (Some sndbuf, Some rcvbuf) \<Rightarrow> Inr (printed 512 (udp_info_text sndbuf rcvbuf))
      | _ \<Rightarrow> Inl Undefined_behaviour)"

subsection \<open>The buffers are large enough\<close>

lemma show_nat_chars: "c \<in> set (show_nat n) \<Longrightarrow> c \<noteq> CHR 0x00"
proof (induction n rule: show_nat.induct)
  case (1 n)
  have digit: "(char_of (48 + d) :: char) \<noteq> CHR 0x00" if "d < 10" for d :: nat
  proof
    assume "(char_of (48 + d) :: char) = CHR 0x00"
    from arg_cong [OF this, of "of_char :: char \<Rightarrow> nat"] that show False by simp
  qed
  show ?case
  proof (cases "n < 10")
    case True
    with 1(2) digit [of n] show ?thesis by (subst (asm) show_nat.simps) simp
  next
    case False
    with 1(2) have "c \<in> set (show_nat (n div 10)) \<or> c = char_of (48 + n mod 10)"
      by (subst (asm) show_nat.simps) auto
    with 1(1) [OF False] digit [of "n mod 10"] show ?thesis by auto
  qed
qed

lemma show_u32_fits: "length (show_u32 w) \<le> 10" "c \<in> set (show_u32 w) \<Longrightarrow> c \<noteq> CHR 0x00"
  using show_nat_length [of "unat w" 10] unsigned_less [of w, where ?'a = nat] show_nat_chars by (auto simp: show_u32_def)

lemma show_int_fits: "length (show_int (sint w)) \<le> 11" "c \<in> set (show_int (sint w)) \<Longrightarrow> c \<noteq> CHR 0x00"
  for w :: u32
proof -
  have "- (2 ^ 31) \<le> sint w" "sint w < 2 ^ 31"
    using sint_ge [of w] sint_lt [of w] by simp_all
  then have "nat (- sint w) < 10 ^ 10" "nat (sint w) < 10 ^ 10" by simp_all
  then show "length (show_int (sint w)) \<le> 11"
    using show_nat_length [of _ 10] by (fastforce simp: show_int_def)
  show "c \<in> set (show_int (sint w)) \<Longrightarrow> c \<noteq> CHR 0x00"
    using show_nat_chars by (auto simp: show_int_def split: if_splits)
qed

lemma printed_whole: "length s < n \<Longrightarrow> CHR 0x00 \<notin> set s \<Longrightarrow> printed n s = s"
  by (auto simp: printed_def takeWhile_eq_all_conv)

lemma tcpInfo_whole:
  "tcpInfo getsockopt s r =
     tcp_info_text (case getsockopt (tcp_sockfd r s) of None \<Rightarrow> cleared_tcp_info | Some t \<Rightarrow> t)"
proof -
  have len: "length (tcp_info_text t) < 1024" for t
    using show_nat_length [of "unat (tcpi_retransmits t)" 3] unsigned_less [of "tcpi_retransmits t", where ?'a = nat]
      show_u32_fits(1) [of "tcpi_rto t"] show_u32_fits(1) [of "tcpi_ato t"] show_u32_fits(1) [of "tcpi_snd_mss t"]
      show_u32_fits(1) [of "tcpi_rcv_mss t"] show_u32_fits(1) [of "tcpi_lost t"] show_u32_fits(1) [of "tcpi_retrans t"]
      show_u32_fits(1) [of "tcpi_rtt t"] show_u32_fits(1) [of "tcpi_rttvar t"] show_u32_fits(1) [of "tcpi_snd_ssthresh t"]
      show_u32_fits(1) [of "tcpi_snd_cwnd t"] show_u32_fits(1) [of "tcpi_total_retrans t"]
    by (simp add: tcp_info_text_def)
  have "CHR 0x00 \<notin> set (tcp_info_text t)" for t
    using show_u32_fits(2) show_nat_chars by (auto simp: tcp_info_text_def)
  with len show ?thesis by (simp add: tcpInfo_def Let_def printed_whole)
qed

lemma udpInfo_whole:
  "udpInfo getsockopt s r =
     (case (getsockopt (udp_sockfd r s) SO_SNDBUF, getsockopt (udp_sockfd r s) SO_RCVBUF) of
        (Some sndbuf, Some rcvbuf) \<Rightarrow> Inr (udp_info_text sndbuf rcvbuf)
      | _ \<Rightarrow> Inl Undefined_behaviour)"
proof -
  have len: "length (udp_info_text a b) < 512" for a b
    using show_int_fits(1) [of a] show_int_fits(1) [of b] by (simp add: udp_info_text_def)
  have "CHR 0x00 \<notin> set (udp_info_text a b)" for a b
    using show_int_fits(2) by (auto simp: udp_info_text_def)
  with len show ?thesis by (simp add: udpInfo_def printed_whole split: option.split)
qed

end
