(* ===== verification/Rpc_Closure.thy ===== *)
theory Rpc_Closure
  imports Rpc_Server
begin

section \<open>The objects of a call at the server (rpc/src/callback.h, server.cc)\<close>

text \<open>
  What \<open>onConnectionMessage\<close> of \<open>Rpc_Server\<close> leaves out: the request, the response and the closure of a call are objects on the heap, which
  the handler, the closure and the service use and delete. The service is a sequence of uses (\<open>service_act\<close>) while \<open>CallMethod\<close> runs;
  the arguments of the closure (\<open>func_\<close>) are those of the lambda in \<open>onConnectionMessage\<close>. The heap knows which addresses are
  alive; using or deleting another one is undefined behaviour. A message made by \<open>New()\<close> is empty and serialises to no bytes.
\<close>

record server_heap =
  sh_live :: "nat list"
  sh_next :: nat

definition heap_ok :: "server_heap \<Rightarrow> bool" where
  "heap_ok h \<longleftrightarrow> distinct (sh_live h) \<and> (\<forall>a \<in> set (sh_live h). a < sh_next h)"

definition heap_new :: "server_heap \<Rightarrow> nat \<times> server_heap" where
  "heap_new h = (sh_next h, h\<lparr>sh_live := sh_next h # sh_live h, sh_next := Suc (sh_next h)\<rparr>)"

definition heap_use :: "nat \<Rightarrow> server_heap \<Rightarrow> server_heap cpp" where
  "heap_use a h = (if a \<in> set (sh_live h) then Inr h else Inl Undefined_behaviour)"

definition heap_delete :: "nat \<Rightarrow> server_heap \<Rightarrow> server_heap cpp" where
  "heap_delete a h = (if a \<in> set (sh_live h) then Inr (h\<lparr>sh_live := remove1 a (sh_live h)\<rparr>) else Inl Undefined_behaviour)"

text \<open>The state of a call: the heap, what the response holds, the send queue of the connection and what was asked of its socket.\<close>

record call_state =
  cs_heap :: server_heap
  cs_response :: bytes
  cs_queue :: "bytes list"
  cs_sends :: "action list"

record lambda_closure =
  lc_owner :: bool
  lc_address :: nat

definition NewLambdaClosure :: "bool \<Rightarrow> server_heap \<Rightarrow> lambda_closure \<times> server_heap" where
  "NewLambdaClosure owner h = (case heap_new h of (a, h1) \<Rightarrow> (\<lparr>lc_owner = owner, lc_address = a\<rparr>, h1))"

definition LambdaClosure_Run :: "(call_state \<Rightarrow> call_state cpp) \<Rightarrow> lambda_closure \<Rightarrow> call_state \<Rightarrow> call_state cpp" where
  "LambdaClosure_Run func c st =
     cpp_bind (heap_use (lc_address c) (cs_heap st)) (\<lambda>_.
     cpp_bind (func st) (\<lambda>st1.
       if lc_owner c then cpp_bind (heap_delete (lc_address c) (cs_heap st1)) (\<lambda>h. Inr (st1\<lparr>cs_heap := h\<rparr>)) else Inr st1))"

text \<open>The lambda: it serialises the response and sends it.\<close>

definition send_done :: "endian \<Rightarrow> serialize_message \<Rightarrow> u64 \<Rightarrow> nat \<Rightarrow> call_state \<Rightarrow> call_state cpp" where
  "send_done e ser i response st =
     cpp_bind (heap_use response (cs_heap st)) (\<lambda>_.
     cpp_bind (send_response e ser i (cs_response st) (cs_queue st)) (\<lambda>(q, acts).
       Inr (st\<lparr>cs_queue := q, cs_sends := cs_sends st @ acts\<rparr>)))"

datatype service_act = Read_request | Write_response bytes | Run_done

record call_objects =
  co_request :: nat
  co_response :: nat
  co_done :: lambda_closure

definition service_step :: "endian \<Rightarrow> serialize_message \<Rightarrow> u64 \<Rightarrow> call_objects \<Rightarrow> service_act \<Rightarrow> call_state \<Rightarrow> call_state cpp" where
  "service_step e ser i ob act st =
     (case act of
        Read_request \<Rightarrow> cpp_bind (heap_use (co_request ob) (cs_heap st)) (\<lambda>_. Inr st)
      | Write_response bs \<Rightarrow> cpp_bind (heap_use (co_response ob) (cs_heap st)) (\<lambda>_. Inr (st\<lparr>cs_response := bs\<rparr>))
      | Run_done \<Rightarrow> LambdaClosure_Run (send_done e ser i (co_response ob)) (co_done ob) st)"

fun service_run :: "endian \<Rightarrow> serialize_message \<Rightarrow> u64 \<Rightarrow> call_objects \<Rightarrow> service_act list \<Rightarrow> call_state \<Rightarrow> call_state cpp" where
  "service_run e ser i ob [] st = Inr st"
| "service_run e ser i ob (act # acts) st = cpp_bind (service_step e ser i ob act st) (service_run e ser i ob acts)"

text \<open>The handler from the response object on; the objects are given back to say what may happen to them later.\<close>

definition call_service_objects ::
  "endian \<Rightarrow> serialize_message \<Rightarrow> u64 \<Rightarrow> nat \<Rightarrow> service_act list \<Rightarrow> call_state \<Rightarrow> (call_state \<times> call_objects) cpp" where
  "call_service_objects e ser i request acts st =
     (case heap_new (cs_heap st) of
        (response, h1) \<Rightarrow>
          (case NewLambdaClosure True h1 of
             (done1, h2) \<Rightarrow>
               let ob = \<lparr>co_request = request, co_response = response, co_done = done1\<rparr>
               in cpp_bind (service_run e ser i ob acts (st\<lparr>cs_heap := h2, cs_response := []\<rparr>)) (\<lambda>st1.
                  cpp_bind (heap_delete request (cs_heap st1)) (\<lambda>h3.
                  cpp_bind (heap_delete response h3) (\<lambda>h4. Inr (st1\<lparr>cs_heap := h4\<rparr>, ob))))))"

text \<open>The whole handler; \<open>script\<close> is what a service does for a method and a request.\<close>

definition onConnectionMessage_objects ::
  "endian \<Rightarrow> parse_message \<Rightarrow> serialize_message \<Rightarrow> 'q service_umap \<Rightarrow> ('q service \<Rightarrow> nat \<Rightarrow> 'q \<Rightarrow> service_act list) \<Rightarrow> bytes \<Rightarrow>
   bytes list \<times> server_heap \<Rightarrow> ((bytes list \<times> server_heap) \<times> action list) cpp" where
  "onConnectionMessage_objects e prs ser services script data st =
     (case st of (q, h) \<Rightarrow>
       let fail = (\<lambda>i code h1. cpp_bind (send_error_response e ser i code q) (\<lambda>(q1, acts). Inr ((q1, h1), acts)))
       in case prs data of
            None \<Rightarrow> Inr ((q, h), [])
          | Some msg \<Rightarrow>
              if msg_tp msg \<noteq> type_request then fail (msg_id msg) rpc_NOT_SUPPORT h
              else
                (let i = msg_id msg; req = get_request msg
                 in case umap_find (service_name req) services of
                      None \<Rightarrow> fail i rpc_NO_SERVICE h
                    | Some info \<Rightarrow>
                        (case getMethod (service_method req) info of
                           None \<Rightarrow> fail i rpc_NO_METHOD h
                         | Some mdesc \<Rightarrow>
                             (case heap_new h of
                                (request, h1) \<Rightarrow>
                                  (case sv_parse (si_service info) mdesc (rq_arguments req) of
                                     None \<Rightarrow> fail i rpc_INVALID_REQUEST h1
                                   | Some rq \<Rightarrow>
                                       cpp_bind (call_service_objects e ser i request (script (si_service info) mdesc rq)
                                           \<lparr>cs_heap = h1, cs_response = [], cs_queue = q, cs_sends = []\<rparr>) (\<lambda>(st1, ob).
                                         Inr ((cs_queue st1, cs_heap st1), cs_sends st1)))))))"

subsection \<open>What a service may do\<close>

text \<open>How often it runs \<open>done\<close>, and what the response holds when it first does.\<close>

definition runs_done :: "service_act list \<Rightarrow> nat" where
  "runs_done acts = length (filter (\<lambda>act. act = Run_done) acts)"

fun service_reply :: "bytes \<Rightarrow> service_act list \<Rightarrow> bytes option" where
  "service_reply bs [] = None"
| "service_reply bs (Read_request # acts) = service_reply bs acts"
| "service_reply bs (Write_response bs2 # acts) = service_reply bs2 acts"
| "service_reply bs (Run_done # acts) = Some bs"

lemma runs_done_simps [simp]:
  "runs_done [] = 0" "runs_done (Run_done # acts) = Suc (runs_done acts)"
  "runs_done (Read_request # acts) = runs_done acts" "runs_done (Write_response bs # acts) = runs_done acts"
  by (simp_all add: runs_done_def)

lemma service_reply_None: "service_reply bs acts = None \<longleftrightarrow> runs_done acts = 0"
  by (induction bs acts rule: service_reply.induct) simp_all

text \<open>After \<open>done\<close> has run, and before. \<open>call_answered\<close> is the state when it has.\<close>

lemma service_steps:
  assumes "co_request ob \<in> set (sh_live (cs_heap st))" and "co_response ob \<in> set (sh_live (cs_heap st))"
  shows "service_run e ser i ob (Read_request # acts) st = service_run e ser i ob acts st"
    and "service_run e ser i ob (Write_response bs # acts) st = service_run e ser i ob acts (st\<lparr>cs_response := bs\<rparr>)"
  using assms by (simp_all add: service_step_def heap_use_def)

lemma response_twice: "(st\<lparr>cs_response := bs\<rparr>)\<lparr>cs_response := bs2\<rparr> = st\<lparr>cs_response := bs2\<rparr>"
  for st :: call_state
  by simp

lemma response_read: "cs_response (st\<lparr>cs_response := bs\<rparr>) = bs"
  by simp

lemma service_run_after:
  assumes "co_request ob \<in> set (sh_live h)" and "co_response ob \<in> set (sh_live h)" and "lc_address (co_done ob) \<notin> set (sh_live h)"
  shows "cs_heap st = h \<Longrightarrow>
    if runs_done acts = 0 then \<exists>bs. service_run e ser i ob acts st = Inr (st\<lparr>cs_response := bs\<rparr>)
    else service_run e ser i ob acts st = Inl Undefined_behaviour"
proof (induction acts arbitrary: st)
  case Nil
  show ?case by (simp, intro exI [of _ "cs_response st"]) simp
next
  case (Cons act acts)
  have ready: "co_request ob \<in> set (sh_live (cs_heap st))" "co_response ob \<in> set (sh_live (cs_heap st))"
    using Cons.prems assms by simp_all
  show ?case
  proof (cases act)
    case Read_request
    show ?thesis
      using Cons.IH [OF Cons.prems] unfolding Read_request service_steps(1) [OF ready] runs_done_simps .
  next
    case (Write_response bs)
    have "cs_heap (st\<lparr>cs_response := bs\<rparr>) = h" using Cons.prems by simp
    from Cons.IH [OF this] show ?thesis
      unfolding Write_response service_steps(2) [OF ready] runs_done_simps response_twice .
  next
    case Run_done
    then show ?thesis
      using Cons.prems assms by (simp add: service_step_def LambdaClosure_Run_def heap_use_def)
  qed
qed

definition call_answered :: "endian \<Rightarrow> serialize_message \<Rightarrow> u64 \<Rightarrow> call_objects \<Rightarrow> bytes \<Rightarrow> call_state \<Rightarrow> call_state" where
  "call_answered e ser i ob reply st =
     (let d = frame e (ser (success_response i reply))
      in st\<lparr>cs_heap := (cs_heap st)\<lparr>sh_live := remove1 (lc_address (co_done ob)) (sh_live (cs_heap st))\<rparr>,
            cs_queue := cs_queue st @ [d], cs_sends := cs_sends st @ (if cs_queue st = [] then [Async_write d] else [])\<rparr>)"

lemma call_answered_response: "(call_answered e ser i ob reply (st\<lparr>cs_response := bs\<rparr>))\<lparr>cs_response := bs2\<rparr> =
    (call_answered e ser i ob reply st)\<lparr>cs_response := bs2\<rparr>"
  by (simp add: call_answered_def Let_def)

lemma service_run_before:
  assumes "co_request ob \<in> set (sh_live h)" and "co_response ob \<in> set (sh_live h)" and "lc_address (co_done ob) \<in> set (sh_live h)"
    and "distinct (sh_live h)" and "lc_owner (co_done ob)" and "lc_address (co_done ob) \<noteq> co_request ob" and "lc_address (co_done ob) \<noteq> co_response ob"
  shows "cs_heap st = h \<Longrightarrow>
    case service_reply (cs_response st) acts of
      None \<Rightarrow> \<exists>bs. service_run e ser i ob acts st = Inr (st\<lparr>cs_response := bs\<rparr>)
    | Some reply \<Rightarrow>
        if runs_done acts = 1 then \<exists>bs. service_run e ser i ob acts st = Inr ((call_answered e ser i ob reply st)\<lparr>cs_response := bs\<rparr>)
        else service_run e ser i ob acts st = Inl Undefined_behaviour"
proof (induction acts arbitrary: st)
  case Nil
  show ?case by (simp, intro exI [of _ "cs_response st"]) simp
next
  case (Cons act acts)
  have ready: "co_request ob \<in> set (sh_live (cs_heap st))" "co_response ob \<in> set (sh_live (cs_heap st))"
    using Cons.prems assms by simp_all
  show ?case
  proof (cases act)
    case Read_request
    show ?thesis
      using Cons.IH [OF Cons.prems] unfolding Read_request service_steps(1) [OF ready] runs_done_simps service_reply.simps .
  next
    case (Write_response bs)
    have "cs_heap (st\<lparr>cs_response := bs\<rparr>) = h" using Cons.prems by simp
    from Cons.IH [OF this] show ?thesis
      unfolding Write_response service_steps(2) [OF ready] runs_done_simps service_reply.simps call_answered_response response_twice
        response_read .
  next
    case Run_done
    let ?st = "call_answered e ser i ob (cs_response st) st"
    have step: "service_step e ser i ob Run_done st = Inr ?st"
      using Cons.prems assms
      by (simp add: service_step_def LambdaClosure_Run_def send_done_def send_response_def connection_send_queue heap_use_def heap_delete_def
          call_answered_def Let_def)
    have run: "service_run e ser i ob (act # acts) st = service_run e ser i ob acts ?st"
      by (simp add: Run_done step)
    have "co_request ob \<in> set (sh_live (cs_heap ?st))" "co_response ob \<in> set (sh_live (cs_heap ?st))"
      "lc_address (co_done ob) \<notin> set (sh_live (cs_heap ?st))"
      using assms Cons.prems by (simp_all add: call_answered_def Let_def)
    from service_run_after [OF this refl, of acts e ser i] show ?thesis
      unfolding run by (cases "runs_done acts") (simp_all add: Run_done)
  qed
qed

subsection \<open>One call from the response object to the deletes\<close>

text \<open>The objects of a call are the last two addresses; the closure stays behind when the service never ran it.\<close>

definition call_left :: "service_act list \<Rightarrow> server_heap \<Rightarrow> nat list" where
  "call_left acts h = (if runs_done acts = 0 then [Suc (sh_next h)] else [])"

lemma call_service_objects_step:
  assumes ok: "heap_ok (cs_heap st)" and request: "request \<in> set (sh_live (cs_heap st))"
  shows "if runs_done acts > 1 then call_service_objects e ser i request acts st = Inl Undefined_behaviour
    else \<exists>st1 ob. call_service_objects e ser i request acts st = Inr (st1, ob) \<and>
      cs_heap st1 = \<lparr>sh_live = call_left acts (cs_heap st) @ remove1 request (sh_live (cs_heap st)), sh_next = sh_next (cs_heap st) + 2\<rparr> \<and>
      ob = \<lparr>co_request = request, co_response = sh_next (cs_heap st), co_done = \<lparr>lc_owner = True, lc_address = Suc (sh_next (cs_heap st))\<rparr>\<rparr> \<and>
      (case service_reply [] acts of
         None \<Rightarrow> cs_queue st1 = cs_queue st \<and> cs_sends st1 = cs_sends st
       | Some reply \<Rightarrow> \<exists>out. send_response e ser i reply (cs_queue st) = Inr (cs_queue st1, out) \<and> cs_sends st1 = cs_sends st @ out)"
proof -
  let ?n = "sh_next (cs_heap st)" and ?L = "sh_live (cs_heap st)"
  define ob where "ob = \<lparr>co_request = request, co_response = ?n, co_done = \<lparr>lc_owner = True, lc_address = Suc ?n\<rparr>\<rparr>"
  define h where "h = \<lparr>sh_live = Suc ?n # ?n # ?L, sh_next = Suc (Suc ?n)\<rparr>"
  define st0 where "st0 = st\<lparr>cs_heap := h, cs_response := []\<rparr>"
  have fresh: "?n \<notin> set ?L" "Suc ?n \<notin> set ?L" "distinct ?L" "request \<noteq> ?n" "request \<noteq> Suc ?n"
    using ok request by (auto simp: heap_ok_def)
  have objects: "call_service_objects e ser i request acts st =
      cpp_bind (service_run e ser i ob acts st0) (\<lambda>st1.
        cpp_bind (heap_delete request (cs_heap st1)) (\<lambda>h3.
        cpp_bind (heap_delete ?n h3) (\<lambda>h4. Inr (st1\<lparr>cs_heap := h4\<rparr>, ob))))"
    by (cases "cs_heap st") (simp add: call_service_objects_def heap_new_def NewLambdaClosure_def ob_def h_def st0_def Let_def)
  have live: "co_request ob \<in> set (sh_live h)" "co_response ob \<in> set (sh_live h)" "lc_address (co_done ob) \<in> set (sh_live h)"
    "distinct (sh_live h)" "lc_owner (co_done ob)" "lc_address (co_done ob) \<noteq> co_request ob"
    "lc_address (co_done ob) \<noteq> co_response ob"
    using fresh request by (simp_all add: ob_def h_def)
  have st0: "cs_heap st0 = h" "cs_response st0 = []" "cs_queue st0 = cs_queue st" "cs_sends st0 = cs_sends st"
    by (simp_all add: st0_def)
  have run: "case service_reply [] acts of
      None \<Rightarrow> \<exists>bs. service_run e ser i ob acts st0 = Inr (st0\<lparr>cs_response := bs\<rparr>)
    | Some reply \<Rightarrow>
        if runs_done acts = 1 then \<exists>bs. service_run e ser i ob acts st0 = Inr ((call_answered e ser i ob reply st0)\<lparr>cs_response := bs\<rparr>)
        else service_run e ser i ob acts st0 = Inl Undefined_behaviour"
    using service_run_before [OF live st0(1), where acts = acts and e = e and ser = ser and i = i] unfolding st0 .
  show ?thesis
  proof (cases "service_reply [] acts")
    case None
    with run obtain bs where bs: "service_run e ser i ob acts st0 = Inr (st0\<lparr>cs_response := bs\<rparr>)" by auto
    have "runs_done acts = 0" using None service_reply_None by blast
    with None fresh request show ?thesis
      unfolding objects bs by (simp add: st0 h_def heap_delete_def call_left_def ob_def)
  next
    case (Some reply)
    have ran: "runs_done acts \<noteq> 0" using Some service_reply_None [of "[]" acts] by simp
    show ?thesis
    proof (cases "runs_done acts = 1")
      case True
      with run Some obtain bs where bs: "service_run e ser i ob acts st0 = Inr ((call_answered e ser i ob reply st0)\<lparr>cs_response := bs\<rparr>)"
        by auto
      from True Some fresh request show ?thesis
        unfolding objects bs
        by (simp add: st0 h_def heap_delete_def call_left_def ob_def call_answered_def send_response_def connection_send_queue Let_def)
    next
      case False
      with run Some have "service_run e ser i ob acts st0 = Inl Undefined_behaviour" by simp
      with False ran show ?thesis unfolding objects by simp
    qed
  qed
qed

text \<open>Whatever a service does with the objects after \<open>CallMethod\<close> has returned is undefined behaviour, its first \<open>Run\<close> included.\<close>

lemma late_use_faults:
  assumes "heap_ok (cs_heap st)" and "request \<in> set (sh_live (cs_heap st))"
    and "call_service_objects e ser i request acts st = Inr (st1, ob)"
  shows "service_step e ser i ob act st1 = Inl Undefined_behaviour"
proof -
  have "\<not> runs_done acts > 1"
    using call_service_objects_step [OF assms(1,2), where acts = acts and e = e and ser = ser and i = i] assms(3) by auto
  with call_service_objects_step [OF assms(1,2), where acts = acts and e = e and ser = ser and i = i] assms(3)
  have heap: "cs_heap st1 = \<lparr>sh_live = call_left acts (cs_heap st) @ remove1 request (sh_live (cs_heap st)), sh_next = sh_next (cs_heap st) + 2\<rparr>"
    and ob: "ob = \<lparr>co_request = request, co_response = sh_next (cs_heap st), co_done = \<lparr>lc_owner = True, lc_address = Suc (sh_next (cs_heap st))\<rparr>\<rparr>"
    by auto
  have "request \<notin> set (sh_live (cs_heap st1))" "sh_next (cs_heap st) \<notin> set (sh_live (cs_heap st1))"
    using assms(1,2) by (auto simp: heap heap_ok_def call_left_def)
  then show ?thesis
    by (cases act) (simp_all add: service_step_def LambdaClosure_Run_def send_done_def heap_use_def ob)
qed

subsection \<open>The handler with its objects refines the one without\<close>

text \<open>The call a message makes, and what it leaves on the heap.\<close>

definition call_of :: "parse_message \<Rightarrow> 'q service_umap \<Rightarrow> bytes \<Rightarrow> ('q service \<times> nat \<times> bytes) option" where
  "call_of prs services data =
     Option.bind (prs data) (\<lambda>msg.
       if msg_tp msg \<noteq> type_request then None
       else Option.bind (umap_find (service_name (get_request msg)) services) (\<lambda>info.
         map_option (\<lambda>mdesc. (si_service info, mdesc, rq_arguments (get_request msg))) (getMethod (service_method (get_request msg)) info)))"

definition service_acts :: "parse_message \<Rightarrow> 'q service_umap \<Rightarrow> ('q service \<Rightarrow> nat \<Rightarrow> 'q \<Rightarrow> service_act list) \<Rightarrow> bytes \<Rightarrow> service_act list" where
  "service_acts prs services script data =
     (case call_of prs services data of None \<Rightarrow> [] | Some (sv, m, args) \<Rightarrow> (case sv_parse sv m args of None \<Rightarrow> [] | Some rq \<Rightarrow> script sv m rq))"

definition left_behind ::
  "parse_message \<Rightarrow> 'q service_umap \<Rightarrow> ('q service \<Rightarrow> nat \<Rightarrow> 'q \<Rightarrow> service_act list) \<Rightarrow> bytes \<Rightarrow> server_heap \<Rightarrow> nat list" where
  "left_behind prs services script data h =
     (case call_of prs services data of
        None \<Rightarrow> []
      | Some (sv, m, args) \<Rightarrow>
          (case sv_parse sv m args of
             None \<Rightarrow> [sh_next h]
           | Some rq \<Rightarrow> if runs_done (script sv m rq) = 0 then [sh_next h + 2] else []))"

definition carries_out :: "('q service \<Rightarrow> nat \<Rightarrow> 'q \<Rightarrow> service_act list) \<Rightarrow> 'q service_umap \<Rightarrow> bool" where
  "carries_out script services \<longleftrightarrow>
     (\<forall>name info m rq. umap_find name services = Some info \<longrightarrow>
        sv_call (si_service info) m rq = service_reply [] (script (si_service info) m rq))"

lemma handler_call:
  assumes h: "heap_ok h"
    and call: "sv_call (si_service info) m rq = service_reply [] (script (si_service info) m rq)"
  shows "if runs_done (script (si_service info) m rq) > 1
    then call_service_objects e ser i (sh_next h) (script (si_service info) m rq)
      \<lparr>cs_heap = snd (heap_new h), cs_response = [], cs_queue = q, cs_sends = []\<rparr> = Inl Undefined_behaviour
    else \<exists>st1 ob. call_service_objects e ser i (sh_next h) (script (si_service info) m rq)
        \<lparr>cs_heap = snd (heap_new h), cs_response = [], cs_queue = q, cs_sends = []\<rparr> = Inr (st1, ob) \<and>
      (case sv_call (si_service info) m rq of None \<Rightarrow> Inr (q, []) | Some response_str \<Rightarrow> send_response e ser i response_str q) =
        Inr (cs_queue st1, cs_sends st1) \<and>
      heap_ok (cs_heap st1) \<and>
      sh_live (cs_heap st1) = (if runs_done (script (si_service info) m rq) = 0 then [sh_next h + 2] else []) @ sh_live h"
proof -
  let ?acts = "script (si_service info) m rq"
  let ?st = "\<lparr>cs_heap = snd (heap_new h), cs_response = [], cs_queue = q, cs_sends = []\<rparr>"
  have new: "snd (heap_new h) = \<lparr>sh_live = sh_next h # sh_live h, sh_next = Suc (sh_next h)\<rparr>"
    by (cases h) (simp add: heap_new_def)
  have ok: "heap_ok (cs_heap ?st)" using h by (auto simp: new heap_ok_def)
  have mem: "sh_next h \<in> set (sh_live (cs_heap ?st))" by (simp add: new)
  have later: "heap_ok \<lparr>sh_live = call_left ?acts \<lparr>sh_live = sh_next h # sh_live h, sh_next = Suc (sh_next h)\<rparr> @ sh_live h,
      sh_next = Suc (Suc (Suc (sh_next h)))\<rparr>"
    using h by (fastforce simp: heap_ok_def call_left_def)
  from call_service_objects_step [OF ok mem, where acts = ?acts and e = e and ser = ser and i = i] later
  show ?thesis
    unfolding call by (auto simp: new call_left_def split: if_splits option.splits)
qed

text \<open>C29: The handler with its heap objects does what the handler without them does, with the same queue and the same sends, and it
  neither uses nor deletes a dead object, as long as the service runs the closure at most once: a second run is undefined
  behaviour, since the first deletes the closure. What is left on the heap is exactly what was there, plus the request when
  its arguments do not parse, plus the closure when the service never ran it.\<close>

theorem rpc_handler_objects:
  assumes "heap_ok h" and "carries_out script services"
  shows "if runs_done (service_acts prs services script data) > 1
    then onConnectionMessage_objects e prs ser services script data (q, h) = Inl Undefined_behaviour
    else \<exists>q1 h1 sends. onConnectionMessage e prs ser services data q = Inr (q1, sends) \<and>
      onConnectionMessage_objects e prs ser services script data (q, h) = Inr ((q1, h1), sends) \<and>
      heap_ok h1 \<and> sh_live h1 = left_behind prs services script data h @ sh_live h"
proof (cases "call_of prs services data")
  case None
  with assms(1) show ?thesis
    by (auto simp: onConnectionMessage_def onConnectionMessage_objects_def call_of_def service_acts_def left_behind_def Let_def
        send_error_response_def connection_send_queue split: option.splits if_splits)
next
  case (Some c)
  then obtain msg info m where msg: "prs data = Some msg" "msg_tp msg = type_request"
    "umap_find (service_name (get_request msg)) services = Some info" "getMethod (service_method (get_request msg)) info = Some m"
    and c: "c = (si_service info, m, rq_arguments (get_request msg))"
    by (auto simp: call_of_def bind_eq_Some_conv split: if_splits)
  show ?thesis
  proof (cases "sv_parse (si_service info) m (rq_arguments (get_request msg))")
    case parse: None
    show ?thesis
      using assms(1) by (auto simp: onConnectionMessage_def onConnectionMessage_objects_def service_acts_def left_behind_def Let_def Some c msg
          parse send_error_response_def connection_send_queue heap_new_def heap_ok_def)
  next
    case parse: (Some rq)
    have "sv_call (si_service info) m rq = service_reply [] (script (si_service info) m rq)"
      using assms(2) msg(3) by (auto simp: carries_out_def)
    note run = handler_call [where script = script and info = info and m = m and rq = rq and e = e and ser = ser and i = "msg_id msg" and q = q,
        OF assms(1) this]
    show ?thesis
      using run unfolding heap_new_def
      by (auto simp: onConnectionMessage_def onConnectionMessage_objects_def service_acts_def left_behind_def Let_def Some c msg
          parse heap_new_def)
  qed
qed

text \<open>The echo service as a script that reads the request, writes the response and runs the closure.\<close>

definition echo_script :: "bytes service \<Rightarrow> nat \<Rightarrow> bytes \<Rightarrow> service_act list" where
  "echo_script sv m rq = (case sv_call sv m rq of None \<Rightarrow> [] | Some bs \<Rightarrow> [Read_request, Write_response bs, Run_done])"

lemma echo_script_carries_out: "carries_out echo_script services"
  by (simp add: carries_out_def echo_script_def split: option.split)

lemma echo_call_of: "call_of (\<lambda>_. Some echo_request) (registerService echo_service []) [] = Some (echo_service, 0, [1, 2])"
  by (simp add: call_of_def echo_request_def echo_service_def registerService_def umap_find_def get_request_def
      ServiceInfo_def getMethod_def)

lemma echo_service_parts: "sv_parse echo_service m args = Some args" "sv_call echo_service m rq = Some rq"
  by (simp_all add: echo_service_def)

theorem rpc_handler_objects_witness:
  "heap_ok \<lparr>sh_live = [4], sh_next = 5\<rparr> \<and>
   (\<exists>q1 h1 sends. onConnectionMessage Little_endian (\<lambda>_. Some echo_request) (rs_arguments \<circ> get_response) (registerService echo_service []) [] [] = Inr (q1, sends) \<and>
      onConnectionMessage_objects Little_endian (\<lambda>_. Some echo_request) (rs_arguments \<circ> get_response) (registerService echo_service []) echo_script []
        ([], \<lparr>sh_live = [4], sh_next = 5\<rparr>) = Inr ((q1, h1), sends) \<and> heap_ok h1 \<and> sh_live h1 = [4])"
proof -
  have ok: "heap_ok \<lparr>sh_live = [4], sh_next = 5\<rparr>" by (simp add: heap_ok_def)
  have "service_acts (\<lambda>_. Some echo_request) (registerService echo_service []) echo_script [] = [Read_request, Write_response [1, 2], Run_done]"
    "left_behind (\<lambda>_. Some echo_request) (registerService echo_service []) echo_script [] h = []" for h
    by (simp_all add: service_acts_def left_behind_def echo_call_of echo_service_parts echo_script_def)
  with rpc_handler_objects [OF ok echo_script_carries_out, of "\<lambda>_. Some echo_request" "registerService echo_service []" "[]" Little_endian
      "rs_arguments \<circ> get_response" "[]"] ok
  show ?thesis by simp
qed

end
