(* ===== verification/Rpc_Duplex.thy ===== *)
theory Rpc_Duplex
  imports Rpc_Wire
begin

section \<open>An RPC connection on its socket, both directions\<close>

text \<open>
  The receive side of a connection (\<open>Rpc_Connection\<close>) run on a TCP socket and the reactor, together with its send side
  (\<open>Rpc_Wire\<close>): \<open>onRecvMessage\<close> is the callback of the read, what \<open>message_op_\<close> sends goes to the same
  socket at once, and \<open>start_recv\<close> registers the next read. The vector of the receive buffer and the strings of the send queue
  are different blocks of memory: \<open>dx_memory\<close> is what the vector's block holds, at the address \<open>dx_vec\<close>. The
  connection's buffer and the state of the application, with the send queue, live in the state outside the reactor.
\<close>

record ('a, 'k) duplex =
  dx_socket :: nat
  dx_place :: "bytes \<Rightarrow> const_buffer"
  dx_vec :: "dynamic_buffer \<Rightarrow> nat"
  dx_memory :: "'k \<Rightarrow> nat \<Rightarrow> u8"
  dx_queue :: "'k \<Rightarrow> bytes list"
  dx_put :: "bytes list \<Rightarrow> 'k \<Rightarrow> 'k"
  dx_conn :: "'k \<Rightarrow> dynamic_buffer \<times> 'a"
  dx_set_conn :: "dynamic_buffer \<times> 'a \<Rightarrow> 'k \<Rightarrow> 'k"
  dx_crash :: "'k \<Rightarrow> 'k"

text \<open>The buffer given to the read starts at \<open>writeBegin()\<close>.\<close>

definition duplex_perform ::
  "'k os \<Rightarrow> (conn_callback, 'k) user \<Rightarrow> ('a, 'k) duplex \<Rightarrow> action \<Rightarrow> (conn_callback, 'k) io \<Rightarrow> (conn_callback, 'k) io" where
  "duplex_perform os user w act r =
     (case act of
        Async_read n \<Rightarrow>
          (let b = fst (dx_conn w (kernel r))
           in tcp_async_read os user (dx_socket w) (MutableBuffer (dx_vec w b + write_index b) n) Message_received r)
      | _ \<Rightarrow> wire_perform os user (dx_socket w) (dx_place w) act r)"

text \<open>The loop of \<open>onRecvMessage\<close>: what a message makes the connection send is asked of the socket before the next message.\<close>

function duplex_loop ::
  "endian \<Rightarrow> 'k os \<Rightarrow> (conn_callback, 'k) user \<Rightarrow> ('a, 'k) duplex \<Rightarrow> (bytes list \<times> 'a) message_op option \<Rightarrow>
   dynamic_buffer \<Rightarrow> (conn_callback, 'k) io \<Rightarrow> (dynamic_buffer \<times> (conn_callback, 'k) io) cpp" where
  "duplex_loop e os user w op b r =
     cpp_bind (recv_frame e b) (\<lambda>frame.
       case frame of
         None \<Rightarrow> Inr (b, r)
       | Some (data, b1) \<Rightarrow>
           cpp_bind (call_message_op op data (dx_queue w (kernel r), snd (dx_conn w (kernel r)))) (\<lambda>((q, a), acts).
             duplex_loop e os user w op b1
               (fold (duplex_perform os user w) acts
                 (r\<lparr>kernel := dx_set_conn w (fst (dx_conn w (kernel r)), a) (dx_put w q (kernel r))\<rparr>))))"
  by pat_completeness auto
termination
  by (relation "measure (\<lambda>(e, os, user, w, op, b, r). dataBytes b)") (auto dest: recv_frame_less)

declare duplex_loop.simps [simp del]

text \<open>\<open>start_recv\<close> on the buffer \<open>b\<close>.\<close>

definition duplex_start ::
  "'k os \<Rightarrow> (conn_callback, 'k) user \<Rightarrow> ('a, 'k) duplex \<Rightarrow> dynamic_buffer \<Rightarrow> (conn_callback, 'k) io \<Rightarrow> (conn_callback, 'k) io cpp" where
  "duplex_start os user w b r =
     cpp_bind (start_recv b) (\<lambda>(b1, acts).
       Inr (fold (duplex_perform os user w) acts (r\<lparr>kernel := dx_set_conn w (b1, snd (dx_conn w (kernel r))) (kernel r)\<rparr>)))"

text \<open>\<open>onRecvMessage\<close> with code 0 and \<open>n\<close> bytes.\<close>

definition duplex_recv ::
  "endian \<Rightarrow> 'k os \<Rightarrow> (conn_callback, 'k) user \<Rightarrow> ('a, 'k) duplex \<Rightarrow> (bytes list \<times> 'a) message_op option \<Rightarrow>
   int \<Rightarrow> (conn_callback, 'k) io \<Rightarrow> (conn_callback, 'k) io" where
  "duplex_recv e os user w op n r =
     (if n = 0 then snd (tcp_shutdown os user (dx_socket w) r)
      else
        (let b = fst (dx_conn w (kernel r));
             to = dx_vec w b + write_index b;
             data = map (dx_memory w (kernel r)) [to ..< to + nat n]
         in case cpp_bind (store data b) (\<lambda>b1.
                 cpp_bind (duplex_loop e os user w op b1 r) (\<lambda>(b2, r2). duplex_start os user w b2 r2)) of
              Inl _ \<Rightarrow> r\<lparr>kernel := dx_crash w (kernel r)\<rparr>
            | Inr r3 \<Rightarrow> r3))"

primrec duplex_user ::
  "endian \<Rightarrow> 'k os \<Rightarrow> ('a, 'k) duplex \<Rightarrow> (bytes list \<times> 'a) message_op option \<Rightarrow> nat \<Rightarrow> (conn_callback, 'k) user" where
  "duplex_user e os w op 0 = (\<lambda>u ec n r. r\<lparr>kernel := dx_crash w (kernel r)\<rparr>)"
| "duplex_user e os w op (Suc m) =
     wire_user os (dx_socket w) (dx_place w) (dx_queue w) (dx_put w) (dx_crash w)
       (duplex_recv e os (duplex_user e os w op m) w op) (Suc m)"

subsection \<open>What the outside does\<close>

text \<open>\<open>inbox\<close> is what has arrived for a descriptor and was not read. \<^verbatim>\<open>recv\<close> gives the first bytes of it, as many as it
  likes up to the length, or fails; no other call touches it, and the cells of the connection are only changed by itself.
  \<open>duplex_progress\<close>: \<^verbatim>\<open>send\<close> and \<^verbatim>\<open>recv\<close> do not fail when there is something to do.\<close>

definition recv_law ::
  "('k \<Rightarrow> nat \<Rightarrow> u8) \<Rightarrow> ('k \<Rightarrow> int \<Rightarrow> bytes) \<Rightarrow> int \<Rightarrow> nat \<Rightarrow> nat \<Rightarrow> 'k \<Rightarrow> (int + nat) \<Rightarrow> 'k \<Rightarrow> bool" where
  "recv_law vector inbox fd p len k res k' \<longleftrightarrow>
     (case res of
        Inl errno \<Rightarrow> errno \<noteq> 0 \<and> inbox k' = inbox k
      | Inr n \<Rightarrow> n \<le> len \<and> n \<le> length (inbox k fd) \<and> map (vector k') [p ..< p + n] = take n (inbox k fd) \<and>
          inbox k' = (inbox k)(fd := drop n (inbox k fd)))"

definition duplex_laws ::
  "'k os \<Rightarrow> ('k \<Rightarrow> nat \<Rightarrow> u8) \<Rightarrow> ('k \<Rightarrow> int \<Rightarrow> bytes) \<Rightarrow> ('k \<Rightarrow> int \<Rightarrow> events option) \<Rightarrow> ('k \<Rightarrow> int \<Rightarrow> bytes) \<Rightarrow> ('a, 'k) duplex \<Rightarrow> bool" where
  "duplex_laws os mem out interest inbox w \<longleftrightarrow>
     wire_laws os mem out interest (dx_queue w) (dx_put w) \<and>
     (\<forall>fd p len k. recv_law (dx_memory w) inbox fd p len k (fst (os_recv os fd p len k)) (snd (os_recv os fd p len k))) \<and>
     (\<forall>fd p len k. (mem (snd (os_recv os fd p len k)), out (snd (os_recv os fd p len k)), interest (snd (os_recv os fd p len k)),
        dx_queue w (snd (os_recv os fd p len k)), dx_conn w (snd (os_recv os fd p len k))) =
        (mem k, out k, interest k, dx_queue w k, dx_conn w k)) \<and>
     (\<forall>p fd ev k. (inbox (snd (os_epoll_ctl os p fd ev k)), dx_conn w (snd (os_epoll_ctl os p fd ev k))) = (inbox k, dx_conn w k)) \<and>
     (\<forall>fd p len k. (inbox (snd (os_send os fd p len k)), dx_conn w (snd (os_send os fd p len k))) = (inbox k, dx_conn w k)) \<and>
     (\<forall>q k. (inbox (dx_put w q k), dx_conn w (dx_put w q k)) = (inbox k, dx_conn w k)) \<and>
     (\<forall>c k. dx_conn w (dx_set_conn w c k) = c \<and>
        (mem (dx_set_conn w c k), out (dx_set_conn w c k), interest (dx_set_conn w c k), dx_queue w (dx_set_conn w c k), inbox (dx_set_conn w c k)) =
        (mem k, out k, interest k, dx_queue w k, inbox k))"

definition duplex_progress :: "'k os \<Rightarrow> ('k \<Rightarrow> int \<Rightarrow> bytes) \<Rightarrow> bool" where
  "duplex_progress os inbox \<longleftrightarrow> wire_progress os \<and>
     (\<forall>fd p len k. inbox k fd \<noteq> [] \<longrightarrow> 0 < len \<longrightarrow> (\<exists>n. fst (os_recv os fd p len k) = Inr n \<and> 0 < n))"

text \<open>A \<open>message_op_\<close> that only uses \<open>send\<close>: \<open>says\<close> are the strings it sends, \<open>nxt\<close> is what it does to its own state, on
  the messages and states that are \<open>ok\<close>. \<open>fine\<close>: a sequence of messages that are.\<close>

definition sends_only ::
  "(bytes list \<times> 'a) message_op option \<Rightarrow> (bytes \<Rightarrow> 'a \<Rightarrow> bool) \<Rightarrow> (bytes \<Rightarrow> 'a \<Rightarrow> bytes list) \<Rightarrow> (bytes \<Rightarrow> 'a \<Rightarrow> 'a) \<Rightarrow> bool" where
  "sends_only op ok says nxt \<longleftrightarrow>
     (\<forall>data q a. ok data a \<longrightarrow> call_message_op op data (q, a) =
        Inr ((q @ says data a, nxt data a), if q = [] \<and> says data a \<noteq> [] then [Async_write (hd (says data a))] else []))"

fun replies :: "(bytes \<Rightarrow> 'a \<Rightarrow> bytes list) \<Rightarrow> (bytes \<Rightarrow> 'a \<Rightarrow> 'a) \<Rightarrow> bytes list \<Rightarrow> 'a \<Rightarrow> bytes list" where
  "replies says nxt [] a = []"
| "replies says nxt (d # ds) a = says d a @ replies says nxt ds (nxt d a)"

fun fine :: "(bytes \<Rightarrow> 'a \<Rightarrow> bool) \<Rightarrow> (bytes \<Rightarrow> 'a \<Rightarrow> 'a) \<Rightarrow> bytes list \<Rightarrow> 'a \<Rightarrow> bool" where
  "fine ok nxt [] a = True"
| "fine ok nxt (d # ds) a \<longleftrightarrow> ok d a \<and> fine ok nxt ds (nxt d a)"

lemma replies_append: "replies says nxt (ds @ es) a = replies says nxt ds a @ replies says nxt es (fold nxt ds a)"
  by (induction ds arbitrary: a) simp_all

lemma fine_append: "fine ok nxt (ds @ es) a \<longleftrightarrow> fine ok nxt ds a \<and> fine ok nxt es (fold nxt ds a)"
  by (induction ds arbitrary: a) simp_all

lemma fine_prefix: "fine ok nxt (fst (frames (x @ y))) a \<Longrightarrow> fine ok nxt (fst (frames x)) a"
  by (simp add: frames_append [of x y] fine_append)

lemma duplex_lawsD:
  assumes "duplex_laws os mem out interest inbox w"
  shows "wire_laws os mem out interest (dx_queue w) (dx_put w)"
    and "recv_law (dx_memory w) inbox fd p len k (fst (os_recv os fd p len k)) (snd (os_recv os fd p len k))"
    and "mem (snd (os_recv os fd p len k)) = mem k" and "out (snd (os_recv os fd p len k)) = out k"
    and "interest (snd (os_recv os fd p len k)) = interest k" and "dx_queue w (snd (os_recv os fd p len k)) = dx_queue w k"
    and "dx_conn w (snd (os_recv os fd p len k)) = dx_conn w k"
  using assms unfolding duplex_laws_def by blast+

lemma duplex_cells:
  assumes "duplex_laws os mem out interest inbox w"
  shows "inbox (snd (os_send os fd p len k)) = inbox k" and "dx_conn w (snd (os_send os fd p len k)) = dx_conn w k"
    and "inbox (dx_put w q k) = inbox k" and "dx_conn w (dx_put w q k) = dx_conn w k"
    and "dx_conn w (dx_set_conn w c k) = c" and "mem (dx_set_conn w c k) = mem k" and "out (dx_set_conn w c k) = out k"
    and "interest (dx_set_conn w c k) = interest k" and "dx_queue w (dx_set_conn w c k) = dx_queue w k"
    and "inbox (dx_set_conn w c k) = inbox k"
  using assms unfolding duplex_laws_def by blast+

text \<open>The part of the state that the calls of epoll leave alone.\<close>

definition duplex_view ::
  "('k \<Rightarrow> nat \<Rightarrow> u8) \<Rightarrow> ('k \<Rightarrow> int \<Rightarrow> bytes) \<Rightarrow> ('k \<Rightarrow> int \<Rightarrow> bytes) \<Rightarrow> ('a, 'k) duplex \<Rightarrow> 'k \<Rightarrow>
   (nat \<Rightarrow> u8) \<times> (int \<Rightarrow> bytes) \<times> bytes list \<times> (int \<Rightarrow> bytes) \<times> dynamic_buffer \<times> 'a" where
  "duplex_view mem out inbox w k = (mem k, out k, dx_queue w k, inbox k, dx_conn w k)"

lemma duplex_untouched:
  assumes "duplex_laws os mem out interest inbox w"
  shows "untouched os (duplex_view mem out inbox w)"
proof -
  have "inbox (snd (os_epoll_ctl os p fd ev k)) = inbox k" "dx_conn w (snd (os_epoll_ctl os p fd ev k)) = dx_conn w k" for p fd ev k
    using assms unfolding duplex_laws_def by blast+
  then show ?thesis
    using wire_lawsD(8) [OF duplex_lawsD(1) [OF assms]] by (simp add: untouched_def duplex_view_def)
qed

lemma duplex_reliable: "duplex_laws os mem out interest inbox w \<Longrightarrow> epoll_reliable os interest"
  by (rule wire_lawsD(2) [OF duplex_lawsD(1)])

subsection \<open>Sending from the message operation\<close>

lemma wire_write_keeps:
  assumes laws: "duplex_laws os mem out interest inbox w" and "tcp_sockfd r s = fd" and "wire_idle interest fd r"
    and r': "r' = wire_perform os user s place (Async_write d) r"
  shows "read_op (opinfo_at fd r') = read_op (opinfo_at fd r)" and "inbox (kernel r') = inbox (kernel r)"
    and "dx_conn w (kernel r') = dx_conn w (kernel r)"
proof -
  have eq: "r' = register os Writing (io_failed user) fd (Tcp_write fd (place d) 0 Send_completed) r"
    using assms(2) by (simp add: r' wire_perform_def tcp_async_write_def register_eqs)
  have "operation Writing (opinfo_at fd r) = None"
    "interest (kernel r) fd = None \<longleftrightarrow> operation (other Writing) (opinfo_at fd r) = None"
    using assms(3) by (simp_all add: wire_idle_def operation_def other_def)
  from register_reliable [OF duplex_reliable [OF laws] duplex_untouched [OF laws] this, of "io_failed user" "Tcp_write fd (place d) 0 Send_completed"]
  show "read_op (opinfo_at fd r') = read_op (opinfo_at fd r)" and "inbox (kernel r') = inbox (kernel r)"
    and "dx_conn w (kernel r') = dx_conn w (kernel r)"
    by (auto simp: eq set_operation_def duplex_view_def)
qed

text \<open>The invariant of the send side, and what the receive side adds.\<close>

abbreviation duplex_wire where
  "duplex_wire mem out interest w \<equiv> wire_at mem out interest (dx_queue w) (dx_place w) (dx_socket w)"

lemma duplex_user_sockfd:
  "tcp_sockfd (duplex_user e os w op m Send_completed ec n r) = tcp_sockfd r"
  by (cases m) (simp_all add: wire_user_sockfd del: wire_user.simps)

lemma duplex_says:
  assumes laws: "duplex_laws os mem out interest inbox w"
    and at: "duplex_wire mem out interest w fd memory finished sent r" and "list_all (located memory (dx_place w)) ds"
    and call: "\<And>ec n r. tcp_sockfd (user Send_completed ec n r) = tcp_sockfd r"
    and r': "r' = fold (duplex_perform os user w) (if dx_queue w (kernel r) = [] \<and> ds \<noteq> [] then [Async_write (hd ds)] else [])
      (r\<lparr>kernel := dx_set_conn w c (dx_put w (dx_queue w (kernel r) @ ds) (kernel r))\<rparr>)"
  shows "duplex_wire mem out interest w fd memory finished sent r' \<and>
    dx_queue w (kernel r') = dx_queue w (kernel r) @ ds \<and> dx_conn w (kernel r') = c \<and> inbox (kernel r') = inbox (kernel r) \<and>
    read_op (opinfo_at fd r') = read_op (opinfo_at fd r)"
proof -
  note put = wire_lawsD(4-7) [OF duplex_lawsD(1) [OF laws]] and cells = duplex_cells [OF laws]
  let ?r = "r\<lparr>kernel := dx_set_conn w c (dx_put w (dx_queue w (kernel r) @ ds) (kernel r))\<rparr>"
  have idle: "wire_idle interest fd (r\<lparr>kernel := dx_set_conn w c (dx_put w q (kernel r))\<rparr>) \<longleftrightarrow> wire_idle interest fd r" for q
    by (simp add: wire_idle_def opinfo_at_kernel put cells)
  have busy: "wire_busy interest place fd d sent (r\<lparr>kernel := dx_set_conn w c (dx_put w q (kernel r))\<rparr>) \<longleftrightarrow>
      wire_busy interest place fd d sent r" for place d q
    by (simp add: wire_busy_def opinfo_at_kernel put cells)
  show ?thesis
  proof (cases "dx_queue w (kernel r) = [] \<and> ds \<noteq> []")
    case True
    then obtain d ds2 where ds: "ds = d # ds2" by (cases ds) auto
    have r2: "r' = wire_perform os user (dx_socket w) (dx_place w) (Async_write d) ?r"
      using True by (simp add: r' ds duplex_perform_def)
    have "tcp_sockfd ?r (dx_socket w) = fd" "wire_idle interest fd ?r"
      using at True by (simp_all add: idle wire_at_def)
    note w = wire_write [OF duplex_lawsD(1) [OF laws] this call r2] wire_write_keeps [OF laws this r2]
    then show ?thesis
      using at True assms(3) by (simp add: wire_at_def put cells front_def opinfo_at_kernel ds)
  next
    case False
    then have r2: "r' = ?r" by (auto simp: r')
    show ?thesis
    proof (cases "dx_queue w (kernel r)")
      case Nil
      then show ?thesis
        using at False idle by (simp add: wire_at_def r2 put cells opinfo_at_kernel front_def)
    next
      case (Cons x xs)
      then show ?thesis
        using at assms(3) busy by (simp add: wire_at_def r2 put cells opinfo_at_kernel front_def)
    qed
  qed
qed

lemma duplex_loop_frames:
  assumes laws: "duplex_laws os mem out interest inbox w" and op: "sends_only op ok says nxt"
    and ok: "\<forall>d a. ok d a \<longrightarrow> list_all (located memory (dx_place w)) (says d a)"
    and call: "\<And>ec n r. tcp_sockfd (user Send_completed ec n r) = tcp_sockfd r"
  shows "buffer_inv b \<Longrightarrow> duplex_wire mem out interest w fd memory finished sent r \<Longrightarrow>
    fine ok nxt (fst (frames (unread b))) (snd (dx_conn w (kernel r))) \<Longrightarrow>
    \<exists>b' r'. duplex_loop e os user w op b r = Inr (b', r') \<and> buffer_inv b' \<and> unread b' = snd (frames (unread b)) \<and>
      char_vector b' = char_vector b \<and> expand_size b' = expand_size b \<and>
      duplex_wire mem out interest w fd memory finished sent r' \<and>
      dx_queue w (kernel r') = dx_queue w (kernel r) @ replies says nxt (fst (frames (unread b))) (snd (dx_conn w (kernel r))) \<and>
      snd (dx_conn w (kernel r')) = fold nxt (fst (frames (unread b))) (snd (dx_conn w (kernel r))) \<and>
      inbox (kernel r') = inbox (kernel r) \<and> read_op (opinfo_at fd r') = read_op (opinfo_at fd r)"
proof (induction "length (unread b)" arbitrary: b r rule: less_induct)
  case less
  let ?a = "snd (dx_conn w (kernel r))"
  show ?case
  proof (cases "split_frame (unread b)")
    case None
    have "duplex_loop e os user w op b r = Inr (b, r)"
      using recv.next_frame_None [OF less.prems(1) None] by (subst duplex_loop.simps) simp
    then show ?thesis
      using less.prems frames_None [OF None] by auto
  next
    case (Some p)
    obtain data rest where p: "split_frame (unread b) = Some (data, rest)" using Some by (cases p) auto
    obtain b1 where b1: "recv_frame e b = Inr (Some (data, b1))" "buffer_inv b1" "unread b1 = rest"
      using recv.next_frame_Some [OF less.prems(1) p] by blast
    have vec: "char_vector b1 = char_vector b" "expand_size b1 = expand_size b"
      using b1(1) by (auto simp: next_frame_def cpp_bind_eq_Inr_iff Let_def buffer_read_def split: if_splits)
    have less1: "length (unread b1) < length (unread b)"
      using split_frame_less [OF p] b1 by simp
    define r1 where "r1 = fold (duplex_perform os user w)
      (if dx_queue w (kernel r) = [] \<and> says data ?a \<noteq> [] then [Async_write (hd (says data ?a))] else [])
      (r\<lparr>kernel := dx_set_conn w (fst (dx_conn w (kernel r)), nxt data ?a) (dx_put w (dx_queue w (kernel r) @ says data ?a) (kernel r))\<rparr>)"
    have good: "ok data ?a"
      using less.prems(3) frames_Some [OF p] by simp
    then have "list_all (located memory (dx_place w)) (says data ?a)"
      using ok by blast
    note r1 = duplex_says [OF laws less.prems(2) this call r1_def]
    have step: "duplex_loop e os user w op b r = duplex_loop e os user w op b1 r1"
      using b1(1) op good by (subst duplex_loop.simps) (simp add: sends_only_def r1_def)
    have located: "fine ok nxt (fst (frames (unread b1))) (snd (dx_conn w (kernel r1)))"
      using less.prems(3) frames_Some [OF p] b1(3) r1 by simp
    from less.hyps [OF less1 b1(2) _ located] r1 obtain b2 r2 where
      "duplex_loop e os user w op b1 r1 = Inr (b2, r2)" "buffer_inv b2" "unread b2 = snd (frames (unread b1))"
      "char_vector b2 = char_vector b1" "expand_size b2 = expand_size b1"
      "duplex_wire mem out interest w fd memory finished sent r2"
      "dx_queue w (kernel r2) = dx_queue w (kernel r1) @ replies says nxt (fst (frames (unread b1))) (snd (dx_conn w (kernel r1)))"
      "snd (dx_conn w (kernel r2)) = fold nxt (fst (frames (unread b1))) (snd (dx_conn w (kernel r1)))"
      "inbox (kernel r2) = inbox (kernel r1)" "read_op (opinfo_at fd r2) = read_op (opinfo_at fd r1)"
      by blast
    then show ?thesis
      using frames_Some [OF p] b1(3) vec r1 step by (intro exI [of _ b2] exI [of _ r2]) simp
  qed
qed

subsection \<open>Starting the next read\<close>

definition read_waits ::
  "('k \<Rightarrow> int \<Rightarrow> events option) \<Rightarrow> ('a, 'k) duplex \<Rightarrow> nat \<Rightarrow> int \<Rightarrow> dynamic_buffer \<Rightarrow> (conn_callback, 'k) io \<Rightarrow> bool" where
  "read_waits interest w tot fd b r \<longleftrightarrow>
     recv_ready tot b \<and> interest (kernel r) fd \<noteq> None \<and>
     read_op (opinfo_at fd r) = Some (Tcp_read fd (MutableBuffer (dx_vec w b + write_index b) (availableBytes b)) Message_received)"

text \<open>Registering the read keeps the send side as it is.\<close>

lemma start_read_registered:
  assumes laws: "duplex_laws os mem out interest inbox w"
    and at: "duplex_wire mem out interest w fd memory finished sent r" and "read_op (opinfo_at fd r) = None"
    and call: "\<And>c n r. c \<noteq> 0 \<Longrightarrow> user Message_received c n r = r"
    and r': "r' = tcp_async_read os user (dx_socket w) mbuf Message_received r"
  shows "duplex_wire mem out interest w fd memory finished sent r'" and "dx_queue w (kernel r') = dx_queue w (kernel r)"
    and "dx_conn w (kernel r') = dx_conn w (kernel r)" and "inbox (kernel r') = inbox (kernel r)"
    and "interest (kernel r') fd \<noteq> None" and "read_op (opinfo_at fd r') = Some (Tcp_read fd mbuf Message_received)"
proof -
  have sock: "tcp_sockfd r (dx_socket w) = fd" using at by (simp add: wire_at_def)
  have eq: "r' = register os Reading (io_failed user) fd (Tcp_read fd mbuf Message_received) r"
    by (simp add: r' tcp_async_read_def register_eqs sock)
  have "operation Reading (opinfo_at fd r) = None"
    "interest (kernel r) fd = None \<longleftrightarrow> operation (other Reading) (opinfo_at fd r) = None"
    using at assms(3) by (auto simp: wire_at_def wire_idle_def wire_busy_def operation_def other_def split: list.splits)
  from register_reliable [OF duplex_reliable [OF laws] duplex_untouched [OF laws] this, of "io_failed user" "Tcp_read fd mbuf Message_received"]
  have new: "opinfo_at fd r' = set_operation Reading (Some (Tcp_read fd mbuf Message_received)) (opinfo_at fd r)"
    "mem (kernel r') = mem (kernel r)" "out (kernel r') = out (kernel r)" "dx_queue w (kernel r') = dx_queue w (kernel r)"
    "inbox (kernel r') = inbox (kernel r)" "dx_conn w (kernel r') = dx_conn w (kernel r)" "interest (kernel r') fd \<noteq> None"
    by (auto simp: eq duplex_view_def)
  then show "dx_queue w (kernel r') = dx_queue w (kernel r)" "dx_conn w (kernel r') = dx_conn w (kernel r)"
    "inbox (kernel r') = inbox (kernel r)" "interest (kernel r') fd \<noteq> None"
    "read_op (opinfo_at fd r') = Some (Tcp_read fd mbuf Message_received)"
    by (simp_all add: set_operation_def)
  have "tcp_sockfd r' = tcp_sockfd r"
    unfolding eq by (rule steady_register [OF steady_sockfd]) (simp add: io_failed_def call)
  then show "duplex_wire mem out interest w fd memory finished sent r'"
    using at new by (auto simp: wire_at_def wire_idle_def wire_busy_def set_operation_def split: list.splits)
qed

lemma duplex_set_conn:
  assumes "duplex_laws os mem out interest inbox w" and "duplex_wire mem out interest w fd memory finished sent r"
  shows "duplex_wire mem out interest w fd memory finished sent (r\<lparr>kernel := dx_set_conn w c (kernel r)\<rparr>)"
  using assms(2) by (simp add: wire_at_def wire_idle_def wire_busy_def opinfo_at_kernel duplex_cells [OF assms(1)] split: list.splits)

lemma duplex_start_waits:
  assumes laws: "duplex_laws os mem out interest inbox w"
    and at: "duplex_wire mem out interest w fd memory finished sent r" and "read_op (opinfo_at fd r) = None"
    and call: "\<And>c n r. c \<noteq> 0 \<Longrightarrow> user Message_received c n r = r"
    and b: "buffer_inv b" "expand_size b = 1024" "length (unread b) \<le> tot" "length (char_vector b) \<le> tot + 9216" "tot \<le> 2 ^ 62"
  shows "\<exists>b' r'. duplex_start os user w b r = Inr r' \<and> duplex_wire mem out interest w fd memory finished sent r' \<and>
    dx_queue w (kernel r') = dx_queue w (kernel r) \<and> dx_conn w (kernel r') = (b', snd (dx_conn w (kernel r))) \<and>
    inbox (kernel r') = inbox (kernel r) \<and> unread b' = unread b \<and> read_waits interest w tot fd b' r'"
proof -
  obtain b' n where b': "start_recv b = Inr (b', [Async_read n])" "recv_ready tot b'" "unread b' = unread b"
    using start_recv_ready [OF b] by blast
  then have n: "n = availableBytes b'"
    by (auto simp: start_recv_def cpp_bind_eq_Inr_iff)
  let ?r = "r\<lparr>kernel := dx_set_conn w (b', snd (dx_conn w (kernel r))) (kernel r)\<rparr>"
  define r' where "r' = tcp_async_read os user (dx_socket w) (MutableBuffer (dx_vec w b' + write_index b') n) Message_received ?r"
  have start: "duplex_start os user w b r = Inr r'"
    using b'(1) by (simp add: duplex_start_def duplex_perform_def r'_def duplex_cells [OF laws])
  have "read_op (opinfo_at fd ?r) = None" using assms(3) by (simp add: opinfo_at_kernel)
  note new = start_read_registered [OF laws duplex_set_conn [OF laws at] this call r'_def]
  show ?thesis
    using start new b'(2,3) n by (intro exI [of _ b'] exI [of _ r']) (simp add: read_waits_def duplex_cells [OF laws])
qed

subsection \<open>A readable event\<close>

text \<open>When the read has left the reactor and \<^verbatim>\<open>recv\<close> has answered, the send side is as it was.\<close>

lemma duplex_received:
  assumes laws: "duplex_laws os mem out interest inbox w"
    and at: "duplex_wire mem out interest w fd memory finished sent r" and waits: "read_waits interest w tot fd b r"
    and recv: "sys (os_recv os fd p len) (removeReadOperation os fd r) = (res, r2)"
  shows "duplex_wire mem out interest w fd memory finished sent r2" and "read_op (opinfo_at fd r2) = None"
    and "dx_queue w (kernel r2) = dx_queue w (kernel r)" and "dx_conn w (kernel r2) = dx_conn w (kernel r)"
    and "case res of Inl _ \<Rightarrow> True | Inr n \<Rightarrow> n \<le> len \<and> map (dx_memory w (kernel r2)) [p ..< p + n] = take n (inbox (kernel r) fd) \<and>
      n \<le> length (inbox (kernel r) fd) \<and> inbox (kernel r2) fd = drop n (inbox (kernel r) fd)"
proof -
  let ?r1 = "removeReadOperation os fd r"
  have op: "operation Reading (opinfo_at fd r) \<noteq> None" and int: "interest (kernel r) fd \<noteq> None"
    using waits by (simp_all add: read_waits_def operation_def)
  note forget = forget_reliable [OF duplex_reliable [OF laws] duplex_untouched [OF laws] int, of Reading]
  have r1: "?r1 = put_opinfo fd (set_operation Reading None (opinfo_at fd r)) (forget os Reading fd r)"
    using remove_operation_eq [OF op] by (simp add: remove_operation_def)
  then have view: "duplex_view mem out inbox w (kernel ?r1) = duplex_view mem out inbox w (kernel r)"
    and opinfo: "opinfo_at fd ?r1 = set_operation Reading None (opinfo_at fd r)"
    and int1: "interest (kernel ?r1) fd = None \<longleftrightarrow> write_op (opinfo_at fd r) = None"
    using forget by (simp_all add: kernel_put opinfo_at_put operation_def other_def)
  have k: "os_recv os fd p len (kernel ?r1) = (res, kernel r2)" "r2 = ?r1\<lparr>kernel := kernel r2\<rparr>"
    using recv by (auto simp: sys_def split: prod.splits)
  note rl = duplex_lawsD(2-7) [OF laws, of fd p len "kernel ?r1", unfolded k(1) fst_conv snd_conv]
  have opinfo2: "opinfo_at fd r2 = set_operation Reading None (opinfo_at fd r)"
    by (subst k(2)) (simp add: opinfo_at_kernel opinfo)
  show "read_op (opinfo_at fd r2) = None"
    by (simp add: opinfo2 set_operation_def)
  show "dx_queue w (kernel r2) = dx_queue w (kernel r)" and "dx_conn w (kernel r2) = dx_conn w (kernel r)"
    using view rl by (simp_all add: duplex_view_def)
  have "tcp_sockfd ?r1 = tcp_sockfd r"
    using steady_remove [OF steady_sockfd, of os Reading fd r] by (simp add: remove_operation_def)
  then have "tcp_sockfd r2 = tcp_sockfd r"
    by (subst k(2)) simp
  then show "duplex_wire mem out interest w fd memory finished sent r2"
    using at view rl int1 opinfo2
    by (auto simp: wire_at_def wire_idle_def wire_busy_def duplex_view_def set_operation_def split: list.splits)
  show "case res of Inl _ \<Rightarrow> True | Inr n \<Rightarrow> n \<le> len \<and> map (dx_memory w (kernel r2)) [p ..< p + n] = take n (inbox (kernel r) fd) \<and>
      n \<le> length (inbox (kernel r) fd) \<and> inbox (kernel r2) fd = drop n (inbox (kernel r) fd)"
    using rl(1) view by (auto simp: recv_law_def duplex_view_def split: sum.splits)
qed

lemma dispatch_readable:
  "dispatch_event call (fd, EPOLLIN) r = doReadOperation call fd err_SUCCESS r"
  by (simp add: dispatch_event_def EPOLLOUT_def EPOLLERR_def EPOLLHUP_def EPOLLIN_def EPOLLPRI_def)

lemma duplex_user_received: "c \<noteq> 0 \<Longrightarrow> 0 < m \<Longrightarrow> duplex_user e os w op m Message_received c n r = r"
  by (cases m) simp_all

text \<open>\<open>onRecvMessage\<close> on the bytes \<open>c\<close>.\<close>

lemma duplex_recv_frames:
  assumes laws: "duplex_laws os mem out interest inbox w" and op: "sends_only op ok says nxt"
    and ok: "\<forall>d a. ok d a \<longrightarrow> list_all (located memory (dx_place w)) (says d a)"
    and at: "duplex_wire mem out interest w fd memory finished sent r" and "read_op (opinfo_at fd r) = None"
    and conn: "dx_conn w (kernel r) = (b, a)" and ready: "recv_ready tot b"
    and c: "c = map (dx_memory w (kernel r)) [dx_vec w b + write_index b ..< dx_vec w b + write_index b + n]"
    and n: "0 < n" "n \<le> availableBytes b" and tot: "length (unread b @ c) \<le> tot" "tot \<le> 2 ^ 62"
    and fine: "fine ok nxt (fst (frames (unread b @ c))) a"
    and r': "r' = duplex_recv e os (duplex_user e os w op (Suc m)) w op (int n) r"
  shows "\<exists>b'. duplex_wire mem out interest w fd memory finished sent r' \<and>
    dx_queue w (kernel r') = dx_queue w (kernel r) @ replies says nxt (fst (frames (unread b @ c))) a \<and>
    dx_conn w (kernel r') = (b', fold nxt (fst (frames (unread b @ c))) a) \<and> unread b' = snd (frames (unread b @ c)) \<and>
    inbox (kernel r') = inbox (kernel r) \<and> read_waits interest w tot fd b' r'"
proof -
  let ?user = "duplex_user e os w op (Suc m)"
  have len: "length c = n" by (simp add: c)
  obtain b1 where b1: "store c b = Inr b1" "buffer_inv b1" "unread b1 = unread b @ c" "expand_size b1 = 1024"
    "length (char_vector b1) = length (char_vector b)"
    using store_unread [of b c] ready n(2) len by (auto simp: recv_ready_def)
  have "fine ok nxt (fst (frames (unread b1))) (snd (dx_conn w (kernel r)))"
    using fine b1(3) conn by simp
  from duplex_loop_frames [where user = ?user and e = e, OF laws op ok duplex_user_sockfd b1(2) at this] obtain b2 r2 where
    loop: "duplex_loop e os ?user w op b1 r = Inr (b2, r2)"
    and b2: "buffer_inv b2" "unread b2 = snd (frames (unread b1))" "char_vector b2 = char_vector b1" "expand_size b2 = expand_size b1"
    and r2: "duplex_wire mem out interest w fd memory finished sent r2"
      "dx_queue w (kernel r2) = dx_queue w (kernel r) @ replies says nxt (fst (frames (unread b1))) (snd (dx_conn w (kernel r)))"
      "snd (dx_conn w (kernel r2)) = fold nxt (fst (frames (unread b1))) (snd (dx_conn w (kernel r)))"
      "inbox (kernel r2) = inbox (kernel r)" "read_op (opinfo_at fd r2) = read_op (opinfo_at fd r)"
    by blast
  have vec: "expand_size b2 = 1024" "length (unread b2) \<le> tot" "length (char_vector b2) \<le> tot + 9216"
    using ready b1 b2 tot frames_rest_length [of "unread b1"] by (simp_all add: recv_ready_def)
  have "read_op (opinfo_at fd r2) = None" using r2(5) assms(5) by simp
  from duplex_start_waits [where user = ?user, OF laws r2(1) this _ b2(1) vec tot(2)] duplex_user_received [of _ "Suc m" e os w op]
  obtain b' r3 where "duplex_start os ?user w b2 r2 = Inr r3" "duplex_wire mem out interest w fd memory finished sent r3"
    "dx_queue w (kernel r3) = dx_queue w (kernel r2)" "dx_conn w (kernel r3) = (b', snd (dx_conn w (kernel r2)))"
    "inbox (kernel r3) = inbox (kernel r2)" "unread b' = unread b2" "read_waits interest w tot fd b' r3" by auto
  moreover have "r' = r3"
    using calculation(1) loop b1(1) n(1) by (simp add: r' duplex_recv_def conn Let_def flip: c del: duplex_user.simps)
  ultimately show ?thesis
    using r2 b2(2) b1(3) conn by (intro exI [of _ b']) simp
qed

lemma duplex_readable:
  assumes laws: "duplex_laws os mem out interest inbox w" and progress: "duplex_progress os inbox" and op: "sends_only op ok says nxt"
    and ok: "\<forall>d a. ok d a \<longrightarrow> list_all (located memory (dx_place w)) (says d a)"
    and at: "duplex_wire mem out interest w fd memory finished sent r" and waits: "read_waits interest w tot fd b r"
    and conn: "dx_conn w (kernel r) = (b, a)" and inbox: "inbox (kernel r) fd \<noteq> []"
    and tot: "length (unread b @ inbox (kernel r) fd) \<le> tot" "tot \<le> 2 ^ 62"
    and fine: "fine ok nxt (fst (frames (unread b @ inbox (kernel r) fd))) a"
    and r': "r' = dispatch_event (io_call e os (duplex_user e os w op (Suc (Suc m)))) (fd, EPOLLIN) r"
  shows "\<exists>c b'. c \<noteq> [] \<and> inbox (kernel r) fd = c @ inbox (kernel r') fd \<and>
    duplex_wire mem out interest w fd memory finished sent r' \<and>
    dx_queue w (kernel r') = dx_queue w (kernel r) @ replies says nxt (fst (frames (unread b @ c))) a \<and>
    dx_conn w (kernel r') = (b', fold nxt (fst (frames (unread b @ c))) a) \<and> unread b' = snd (frames (unread b @ c)) \<and>
    read_waits interest w tot fd b' r'"
proof -
  let ?p = "dx_vec w b + write_index b" and ?len = "availableBytes b"
  have ready: "recv_ready tot b" and read: "read_op (opinfo_at fd r) = Some (Tcp_read fd (MutableBuffer ?p ?len) Message_received)"
    using waits by (simp_all add: read_waits_def)
  obtain res r2 where recv: "sys (os_recv os fd ?p ?len) (removeReadOperation os fd r) = (res, r2)" by fastforce
  note r2 = duplex_received [OF laws at waits recv]
  have "duplex_view mem out inbox w (kernel (removeReadOperation os fd r)) = duplex_view mem out inbox w (kernel r)"
  proof -
    have "operation Reading (opinfo_at fd r) \<noteq> None" using read by (simp add: operation_def)
    from remove_operation_eq [OF this] show ?thesis
      using forget_untouched(1) [OF duplex_untouched [OF laws]] by (simp add: remove_operation_def kernel_put)
  qed
  then have inbox1: "inbox (kernel (removeReadOperation os fd r)) fd \<noteq> []"
    using inbox by (simp add: duplex_view_def)
  have "0 < ?len" using ready by (simp add: recv_ready_def)
  have "os_recv os fd ?p ?len (kernel (removeReadOperation os fd r)) = (res, kernel r2)"
    using recv by (auto simp: sys_def split: prod.splits)
  with inbox1 progress \<open>0 < ?len\<close> obtain n where n: "res = Inr n" "0 < n"
    unfolding duplex_progress_def by (metis fst_conv)
  define c where "c = take n (inbox (kernel r) fd)"
  have c: "c = map (dx_memory w (kernel r2)) [?p ..< ?p + n]" "n \<le> ?len" "inbox (kernel r) fd = c @ inbox (kernel r2) fd" "c \<noteq> []"
    using r2(5) n inbox by (auto simp: c_def)
  have "r' = duplex_recv e os (duplex_user e os w op (Suc m)) w op (int n) r2"
    using read recv n by (simp add: r' dispatch_readable doReadOperation_def io_call_def tcp_read_op_wrap_def err_codes
        MutableBuffer_def)
  note final = duplex_recv_frames [OF laws op ok r2(1,2) _ ready c(1) n(2) c(2) _ tot(2) _ this]
  have good: "fine ok nxt (fst (frames (unread b @ c))) a"
    using fine_prefix [of ok nxt "unread b @ c" "inbox (kernel r2) fd"] fine c(3) by simp
  have "dx_conn w (kernel r2) = (b, a)" "length (unread b @ c) \<le> tot"
    using r2(4) conn tot(1) c(3) by simp_all
  from final [OF this good] obtain b' where "duplex_wire mem out interest w fd memory finished sent r' \<and>
    dx_queue w (kernel r') = dx_queue w (kernel r2) @ replies says nxt (fst (frames (unread b @ c))) a \<and>
    dx_conn w (kernel r') = (b', fold nxt (fst (frames (unread b @ c))) a) \<and> unread b' = snd (frames (unread b @ c)) \<and>
    inbox (kernel r') = inbox (kernel r2) \<and> read_waits interest w tot fd b' r'" ..
  then show ?thesis
    using c(3,4) r2(3) by (intro exI [of _ c] exI [of _ b']) simp
qed

subsection \<open>A writable event\<close>

text \<open>It takes the send side further (\<open>wire_event\<close>) and leaves the receive side as it was.\<close>

lemma wire_completed_keeps:
  assumes laws: "duplex_laws os mem out interest inbox w"
    and r: "tcp_sockfd r (dx_socket w) = fd" "wire_idle interest fd r" "dx_queue w (kernel r) = d # q"
    and r': "r' = wire_user os (dx_socket w) (dx_place w) (dx_queue w) (dx_put w) crash recv (Suc m) Send_completed ec n r"
  shows "read_op (opinfo_at fd r') = read_op (opinfo_at fd r)" and "inbox (kernel r') = inbox (kernel r)"
    and "dx_conn w (kernel r') = dx_conn w (kernel r)"
proof -
  let ?r = "r\<lparr>kernel := dx_put w q (kernel r)\<rparr>"
  have same: "read_op (opinfo_at fd ?r) = read_op (opinfo_at fd r)" "inbox (kernel ?r) = inbox (kernel r)"
    "dx_conn w (kernel ?r) = dx_conn w (kernel r)"
    by (simp_all add: opinfo_at_kernel duplex_cells [OF laws])
  have idle: "tcp_sockfd ?r (dx_socket w) = fd" "wire_idle interest fd ?r"
    using r by (simp_all add: wire_idle_put [OF duplex_lawsD(1) [OF laws]])
  have "read_op (opinfo_at fd r') = read_op (opinfo_at fd ?r) \<and> inbox (kernel r') = inbox (kernel ?r) \<and>
      dx_conn w (kernel r') = dx_conn w (kernel ?r)"
  proof (cases q)
    case Nil
    then have "r' = ?r" using r' r(3) by (simp add: onSendCompleted_def)
    then show ?thesis by simp
  next
    case (Cons d2 q2)
    then have "r' = wire_perform os (wire_user os (dx_socket w) (dx_place w) (dx_queue w) (dx_put w) crash recv m) (dx_socket w)
        (dx_place w) (Async_write d2) ?r"
      using r' r(3) by (simp add: onSendCompleted_def start_deque_send_def)
    from wire_write_keeps [OF laws idle this] show ?thesis by blast
  qed
  then show "read_op (opinfo_at fd r') = read_op (opinfo_at fd r)" and "inbox (kernel r') = inbox (kernel r)"
    and "dx_conn w (kernel r') = dx_conn w (kernel r)"
    using same by simp_all
qed

lemma duplex_writable:
  assumes laws: "duplex_laws os mem out interest inbox w"
    and at: "duplex_wire mem out interest w fd memory finished sent r"
    and r': "r' = dispatch_event (io_call e os (wire_user os (dx_socket w) (dx_place w) (dx_queue w) (dx_put w) crash recv (Suc m)))
      (fd, EPOLLOUT) r"
  shows "read_op (opinfo_at fd r') = read_op (opinfo_at fd r)" and "inbox (kernel r') = inbox (kernel r)"
    and "dx_conn w (kernel r') = dx_conn w (kernel r)"
proof -
  have "read_op (opinfo_at fd r') = read_op (opinfo_at fd r) \<and> inbox (kernel r') = inbox (kernel r) \<and>
      dx_conn w (kernel r') = dx_conn w (kernel r)"
  proof (cases "dx_queue w (kernel r)")
    case Nil
    then have "r' = r"
      using at by (simp add: r' dispatch_writable doWriteOperation_def wire_at_def wire_idle_def)
    then show ?thesis by simp
  next
    case (Cons d q)
    let ?user = "wire_user os (dx_socket w) (dx_place w) (dx_queue w) (dx_put w) crash recv (Suc m)"
    obtain res r2 where send: "sys (os_send os fd (cb_ptr (dx_place w d) + sent) (cb_len (dx_place w d) - sent))
        (removeWriteOperation os fd r) = (res, r2)" by fastforce
    note r2 = wire_sent [OF duplex_lawsD(1) [OF laws] at Cons send r']
    have "cb_len (dx_place w d) < size_mod" "sent \<le> cb_len (dx_place w d)"
      and op: "write_op (opinfo_at fd r) = Some (Tcp_write fd (const_buffer_plus (dx_place w d) sent) sent Send_completed)"
      using at Cons by (simp_all add: wire_at_def located_def wire_busy_def)
    note any = write_event_any [OF wire_lawsD(1) [OF duplex_lawsD(1) [OF laws]] this r' [unfolded dispatch_writable] send]
    have same: "read_op (opinfo_at fd r2) = read_op (opinfo_at fd r)" "inbox (kernel r2) = inbox (kernel r)"
      "dx_conn w (kernel r2) = dx_conn w (kernel r)"
    proof -
      show "read_op (opinfo_at fd r2) = read_op (opinfo_at fd r)"
        by (simp add: any(3) set_operation_def)
      have "os_send os fd (cb_ptr (dx_place w d) + sent) (cb_len (dx_place w d) - sent) (kernel (removeWriteOperation os fd r)) = (res, kernel r2)"
        using send by (auto simp: sys_def split: prod.splits)
      then have "inbox (kernel r2) = inbox (kernel (removeWriteOperation os fd r))"
        "dx_conn w (kernel r2) = dx_conn w (kernel (removeWriteOperation os fd r))"
        using duplex_cells(1,2) [OF laws] by (metis snd_conv)+
      then show "inbox (kernel r2) = inbox (kernel r)" and "dx_conn w (kernel r2) = dx_conn w (kernel r)"
        using remove_write_state(1) [OF duplex_untouched [OF laws], of fd r] by (simp_all add: duplex_view_def)
    qed
    have finished: "read_op (opinfo_at fd r') = read_op (opinfo_at fd r2) \<and> inbox (kernel r') = inbox (kernel r2) \<and>
        dx_conn w (kernel r') = dx_conn w (kernel r2)" if "r' = ?user Send_completed c n r2" for c n
      using wire_completed_keeps [OF laws r2(1,2,4) that] by blast
    have more: "read_op (opinfo_at fd r') = read_op (opinfo_at fd r2) \<and> inbox (kernel r') = inbox (kernel r2) \<and>
        dx_conn w (kernel r') = dx_conn w (kernel r2)" if "r' = register os Writing (io_failed ?user) fd op r2" for op
    proof -
      have "operation Writing (opinfo_at fd r2) = None"
        "interest (kernel r2) fd = None \<longleftrightarrow> operation (other Writing) (opinfo_at fd r2) = None"
        using r2(2) by (simp_all add: wire_idle_def operation_def other_def)
      from register_reliable [OF duplex_reliable [OF laws] duplex_untouched [OF laws] this, of "io_failed ?user" op]
      show ?thesis using that by (auto simp: duplex_view_def set_operation_def simp del: wire_user.simps)
    qed
    show ?thesis
      using r2(5) finished more same by (cases res) (auto simp del: wire_user.simps split: if_splits)
  qed
  then show "read_op (opinfo_at fd r') = read_op (opinfo_at fd r)" and "inbox (kernel r') = inbox (kernel r)"
    and "dx_conn w (kernel r') = dx_conn w (kernel r)"
    by simp_all
qed

end
