(* ===== verification/Rpc_Peer.thy ===== *)
theory Rpc_Peer
  imports Rpc_Duplex
begin

section \<open>A connection on its socket as a machine on streams\<close>

text \<open>
  \<open>duplex_at\<close> describes a connection on its socket (\<open>Rpc_Duplex\<close>) by what has happened: \<open>arrived\<close> is everything that has come for
  the descriptor, \<open>got\<close> what the connection has read of it, \<open>said\<close> the strings it was made to send, \<open>a\<close> the state of the
  application. Each thing that can happen (bytes arrive, an event, a call of \<open>send\<close>) is a step on these, and as many
  rounds of the loop as there are bytes to read and to write bring everything in and out.
\<close>

definition duplex_at ::
  "('k \<Rightarrow> nat \<Rightarrow> u8) \<Rightarrow> ('k \<Rightarrow> int \<Rightarrow> bytes) \<Rightarrow> ('k \<Rightarrow> int \<Rightarrow> events option) \<Rightarrow> ('k \<Rightarrow> int \<Rightarrow> bytes) \<Rightarrow> ('a, 'k) duplex \<Rightarrow>
   int \<Rightarrow> (nat \<Rightarrow> u8) \<Rightarrow> bytes \<Rightarrow> bytes \<Rightarrow> bytes \<Rightarrow> bytes list \<Rightarrow> 'a \<Rightarrow> (conn_callback, 'k) io \<Rightarrow> bool" where
  "duplex_at mem out interest inbox w fd memory out0 arrived got said a r \<longleftrightarrow>
     (\<exists>finished sent b.
        duplex_wire mem out interest w fd memory (out0 @ finished) sent r \<and> arrived = got @ inbox (kernel r) fd \<and>
        dx_conn w (kernel r) = (b, a) \<and> unread b = snd (frames got) \<and> read_waits interest w (2 ^ 62) fd b r \<and>
        finished @ concat (dx_queue w (kernel r)) = concat said \<and> backlog (dx_queue w (kernel r)) sent \<le> cost said)"

lemma duplex_atE:
  assumes "duplex_at mem out interest inbox w fd memory out0 arrived got said a r"
  obtains finished sent b where "duplex_wire mem out interest w fd memory (out0 @ finished) sent r"
    and "arrived = got @ inbox (kernel r) fd" and "dx_conn w (kernel r) = (b, a)" and "unread b = snd (frames got)"
    and "read_waits interest w (2 ^ 62) fd b r" and "finished @ concat (dx_queue w (kernel r)) = concat said"
    and "backlog (dx_queue w (kernel r)) sent \<le> cost said"
  using assms unfolding duplex_at_def by blast

lemma duplex_atI:
  assumes "duplex_wire mem out interest w fd memory (out0 @ finished) sent r"
    and "arrived = got @ inbox (kernel r) fd" and "dx_conn w (kernel r) = (b, a)" and "unread b = snd (frames got)"
    and "read_waits interest w (2 ^ 62) fd b r" and "finished @ concat (dx_queue w (kernel r)) = concat said"
    and "backlog (dx_queue w (kernel r)) sent \<le> cost said"
  shows "duplex_at mem out interest inbox w fd memory out0 arrived got said a r"
  using assms unfolding duplex_at_def by blast

lemma duplex_at_arrived: "duplex_at mem out interest inbox w fd memory out0 arrived got said a r \<Longrightarrow> arrived = got @ inbox (kernel r) fd"
  by (rule duplex_atE)

subsection \<open>Steps\<close>

text \<open>What a kernel does when bytes arrive: \<open>c\<close> is appended to the inbox, and the rest is as before.\<close>

definition arrives ::
  "('k \<Rightarrow> nat \<Rightarrow> u8) \<Rightarrow> ('k \<Rightarrow> int \<Rightarrow> bytes) \<Rightarrow> ('k \<Rightarrow> int \<Rightarrow> events option) \<Rightarrow> ('k \<Rightarrow> int \<Rightarrow> bytes) \<Rightarrow> ('a, 'k) duplex \<Rightarrow>
   int \<Rightarrow> bytes \<Rightarrow> 'k \<Rightarrow> 'k \<Rightarrow> bool" where
  "arrives mem out interest inbox w fd c k k' \<longleftrightarrow>
     inbox k' fd = inbox k fd @ c \<and> mem k' = mem k \<and> out k' = out k \<and> interest k' = interest k \<and>
     dx_queue w k' = dx_queue w k \<and> dx_conn w k' = dx_conn w k"

lemma duplex_at_arrival:
  assumes "duplex_at mem out interest inbox w fd memory out0 arrived got said a r"
    and "arrives mem out interest inbox w fd c (kernel r) k"
  shows "duplex_at mem out interest inbox w fd memory out0 (arrived @ c) got said a (r\<lparr>kernel := k\<rparr>)"
proof (rule duplex_atE [OF assms(1)])
  fix finished sent b
  assume r: "duplex_wire mem out interest w fd memory (out0 @ finished) sent r" "arrived = got @ inbox (kernel r) fd"
    "dx_conn w (kernel r) = (b, a)" "unread b = snd (frames got)" "read_waits interest w (2 ^ 62) fd b r"
    "finished @ concat (dx_queue w (kernel r)) = concat said" "backlog (dx_queue w (kernel r)) sent \<le> cost said"
  note k = assms(2) [unfolded arrives_def]
  have wire: "duplex_wire mem out interest w fd memory (out0 @ finished) sent (r\<lparr>kernel := k\<rparr>)"
    using r(1) k by (simp add: wire_at_def wire_idle_def wire_busy_def opinfo_at_kernel split: list.splits)
  have waits: "read_waits interest w (2 ^ 62) fd b (r\<lparr>kernel := k\<rparr>)"
    using r(5) k by (simp add: read_waits_def opinfo_at_kernel)
  show ?thesis
    by (rule duplex_atI [OF wire _ _ _ waits]) (use r k in simp_all)
qed

text \<open>The messages that become complete when \<open>c\<close> is read after \<open>got\<close>.\<close>

definition new_messages :: "bytes \<Rightarrow> bytes \<Rightarrow> bytes list" where
  "new_messages got c = fst (frames (snd (frames got) @ c))"

lemma frames_new: "fst (frames (got @ c)) = fst (frames got) @ new_messages got c"
  by (simp add: frames_append [of got c] new_messages_def)

lemma new_messages_append: "new_messages got (c @ d) = new_messages got c @ new_messages (got @ c) d"
  using frames_new [of got "c @ d"] frames_new [of got c] frames_new [of "got @ c" d] by simp

lemma fine_new_prefix: "fine ok nxt (new_messages got (c @ d)) a \<Longrightarrow> fine ok nxt (new_messages got c) a"
  by (simp add: new_messages_append fine_append)

lemma duplex_at_readable:
  assumes laws: "duplex_laws os mem out interest inbox w" and progress: "duplex_progress os inbox" and op: "sends_only op ok says nxt"
    and ok: "\<forall>d a. ok d a \<longrightarrow> list_all (located memory (dx_place w)) (says d a)"
    and user: "user = duplex_user e os w op (Suc (Suc m))"
    and at: "duplex_at mem out interest inbox w fd memory out0 arrived got said a r" and inbox: "inbox (kernel r) fd \<noteq> []"
    and len: "length arrived \<le> 2 ^ 62" and fine: "fine ok nxt (new_messages got (inbox (kernel r) fd)) a"
    and r': "r' = dispatch_event (io_call e os user) (fd, EPOLLIN) r"
  shows "\<exists>c. c \<noteq> [] \<and> inbox (kernel r) fd = c @ inbox (kernel r') fd \<and>
    duplex_at mem out interest inbox w fd memory out0 arrived (got @ c) (said @ replies says nxt (new_messages got c) a)
      (fold nxt (new_messages got c) a) r'"
proof (rule duplex_atE [OF at])
  fix finished sent b
  assume r: "duplex_wire mem out interest w fd memory (out0 @ finished) sent r" "arrived = got @ inbox (kernel r) fd"
    "dx_conn w (kernel r) = (b, a)" "unread b = snd (frames got)" "read_waits interest w (2 ^ 62) fd b r"
    "finished @ concat (dx_queue w (kernel r)) = concat said" "backlog (dx_queue w (kernel r)) sent \<le> cost said"
  have "length (unread b @ inbox (kernel r) fd) \<le> 2 ^ 62"
    using len r(2,4) frames_rest_length [of got] by simp
  moreover have "fine ok nxt (fst (frames (unread b @ inbox (kernel r) fd))) a"
    using fine by (simp add: new_messages_def r(4))
  ultimately obtain c b' where c: "c \<noteq> []" "inbox (kernel r) fd = c @ inbox (kernel r') fd"
    and r2: "duplex_wire mem out interest w fd memory (out0 @ finished) sent r'"
      "dx_queue w (kernel r') = dx_queue w (kernel r) @ replies says nxt (new_messages got c) a"
      "dx_conn w (kernel r') = (b', fold nxt (new_messages got c) a)"
      "unread b' = snd (frames (snd (frames got) @ c))" "read_waits interest w (2 ^ 62) fd b' r'"
    using duplex_readable [OF laws progress op ok r(1,5,3) inbox _ order_refl _ r' [unfolded user]]
    unfolding r(4) new_messages_def by blast
  have "duplex_at mem out interest inbox w fd memory out0 arrived (got @ c) (said @ replies says nxt (new_messages got c) a)
      (fold nxt (new_messages got c) a) r'"
    by (rule duplex_atI [OF r2(1) _ r2(3) _ r2(5)])
      (use r r2(2,4) c(2) in \<open>auto simp: frames_append [of got c] backlog_cost cost_def\<close>)
  then show ?thesis using c by blast
qed

lemma duplex_at_writable:
  assumes laws: "duplex_laws os mem out interest inbox w" and progress: "duplex_progress os inbox"
    and user: "user = duplex_user e os w op (Suc m)"
    and at: "duplex_at mem out interest inbox w fd memory out0 arrived got said a r"
    and r': "r' = dispatch_event (io_call e os user) (fd, EPOLLOUT) r"
  shows "duplex_at mem out interest inbox w fd memory out0 arrived got said a r'" and "inbox (kernel r') = inbox (kernel r)"
proof -
  obtain finished sent b where r: "duplex_wire mem out interest w fd memory (out0 @ finished) sent r" "arrived = got @ inbox (kernel r) fd"
    "dx_conn w (kernel r) = (b, a)" "unread b = snd (frames got)" "read_waits interest w (2 ^ 62) fd b r"
    "finished @ concat (dx_queue w (kernel r)) = concat said" "backlog (dx_queue w (kernel r)) sent \<le> cost said"
    using at by (rule duplex_atE)
  have "wire_progress os" using progress by (simp add: duplex_progress_def)
  note event = wire_event [OF duplex_lawsD(1) [OF laws] this r(1) r' [unfolded user duplex_user.simps(2)]]
  note keeps = duplex_writable [OF laws r(1) r' [unfolded user duplex_user.simps(2)]]
  show "inbox (kernel r') = inbox (kernel r)" by (rule keeps(2))
  obtain now sent' where now: "duplex_wire mem out interest w fd memory ((out0 @ finished) @ now) sent' r'"
    "now @ concat (dx_queue w (kernel r')) = concat (dx_queue w (kernel r))"
    "backlog (dx_queue w (kernel r')) sent' \<le> backlog (dx_queue w (kernel r)) sent - 1"
    using event by blast
  have waits: "read_waits interest w (2 ^ 62) fd b r'"
    using r(5) keeps(1) now(1) by (auto simp: read_waits_def wire_at_def wire_idle_def wire_busy_def split: list.splits)
  show "duplex_at mem out interest inbox w fd memory out0 arrived got said a r'"
    by (rule duplex_atI [OF now(1) [unfolded append_assoc] _ _ _ waits]) (use r keeps now in auto)
qed

text \<open>The application sends strings outside a message, as a call of a channel does.\<close>

lemma duplex_at_send:
  assumes laws: "duplex_laws os mem out interest inbox w"
    and at: "duplex_at mem out interest inbox w fd memory out0 arrived got said a r"
    and located: "list_all (located memory (dx_place w)) ds"
    and r': "r' = fold (duplex_perform os (duplex_user e os w op m) w)
      (if dx_queue w (kernel r) = [] \<and> ds \<noteq> [] then [Async_write (hd ds)] else [])
      (r\<lparr>kernel := dx_set_conn w (fst (dx_conn w (kernel r)), a') (dx_put w (dx_queue w (kernel r) @ ds) (kernel r))\<rparr>)"
  shows "duplex_at mem out interest inbox w fd memory out0 arrived got (said @ ds) a' r'"
proof (rule duplex_atE [OF at])
  fix finished sent b
  assume r: "duplex_wire mem out interest w fd memory (out0 @ finished) sent r" "arrived = got @ inbox (kernel r) fd"
    "dx_conn w (kernel r) = (b, a)" "unread b = snd (frames got)" "read_waits interest w (2 ^ 62) fd b r"
    "finished @ concat (dx_queue w (kernel r)) = concat said" "backlog (dx_queue w (kernel r)) sent \<le> cost said"
  note new = duplex_says [OF laws r(1) located duplex_user_sockfd r']
  then have waits: "read_waits interest w (2 ^ 62) fd b r'"
    using r(5) by (auto simp: read_waits_def wire_at_def wire_idle_def wire_busy_def split: list.splits)
  show ?thesis
    by (rule duplex_atI [OF conjunct1 [OF new] _ _ _ waits]) (use r new in \<open>auto simp: backlog_cost cost_def\<close>)
qed

subsection \<open>What is out\<close>

lemma duplex_at_out:
  assumes "duplex_at mem out interest inbox w fd memory out0 arrived got said a r"
  shows "\<exists>sent. out (kernel r) fd = out0 @ take sent (concat said)"
proof (rule duplex_atE [OF assms])
  fix finished sent b
  assume r: "duplex_wire mem out interest w fd memory (out0 @ finished) sent r" "finished @ concat (dx_queue w (kernel r)) = concat said"
  let ?q = "dx_queue w (kernel r)"
  have "take (length finished + min sent (length (front ?q))) (finished @ concat ?q) = finished @ take sent (front ?q)"
    by (cases ?q) (auto simp: front_def min_def)
  then have "out (kernel r) fd = out0 @ take (length finished + min sent (length (front ?q))) (concat said)"
    using r by (simp add: wire_at_def)
  then show ?thesis by blast
qed

subsection \<open>Rounds\<close>

text \<open>One round of the loop for the descriptor: it is readable while there is something to read, and writable.\<close>

definition duplex_round ::
  "endian \<Rightarrow> 'k os \<Rightarrow> (conn_callback, 'k) user \<Rightarrow> ('k \<Rightarrow> int \<Rightarrow> bytes) \<Rightarrow> int \<Rightarrow> (conn_callback, 'k) io \<Rightarrow> (conn_callback, 'k) io" where
  "duplex_round e os user inbox fd r =
     dispatch_event (io_call e os user) (fd, EPOLLOUT)
       (if inbox (kernel r) fd \<noteq> [] then dispatch_event (io_call e os user) (fd, EPOLLIN) r else r)"

text \<open>Events since \<open>got\<close> was read, \<open>said\<close> was sent and the application was in the state \<open>a\<close>.\<close>

definition duplex_since where
  "duplex_since mem out interest inbox w says nxt fd memory out0 arrived got said a r \<longleftrightarrow>
     (\<exists>c. duplex_at mem out interest inbox w fd memory out0 arrived (got @ c) (said @ replies says nxt (new_messages got c) a)
        (fold nxt (new_messages got c) a) r)"

lemma frames_rest_None: "split_frame (snd (frames bs)) = None"
proof (induction bs rule: length_induct)
  case (1 bs)
  show ?case
  proof (cases "split_frame bs")
    case None
    then show ?thesis by (simp add: frames_None)
  next
    case (Some p)
    then obtain data rest where p: "split_frame bs = Some (data, rest)" by (cases p) auto
    then show ?thesis
      using 1 split_frame_less [OF p] frames_Some [OF p] by simp
  qed
qed

lemma new_messages_Nil [simp]: "new_messages got [] = []"
  by (simp add: new_messages_def frames_None [OF frames_rest_None])

lemma duplex_since_refl:
  "duplex_at mem out interest inbox w fd memory out0 arrived got said a r \<Longrightarrow>
   duplex_since mem out interest inbox w says nxt fd memory out0 arrived got said a r"
  unfolding duplex_since_def by (intro exI [of _ "[]"]) simp

lemma duplex_since_readable:
  assumes laws: "duplex_laws os mem out interest inbox w" and progress: "duplex_progress os inbox" and op: "sends_only op ok says nxt"
    and ok: "\<forall>d a. ok d a \<longrightarrow> list_all (located memory (dx_place w)) (says d a)"
    and user: "user = duplex_user e os w op (Suc (Suc m))" and len: "length (got @ rest) \<le> 2 ^ 62"
    and fine: "fine ok nxt (new_messages got rest) a"
    and at: "duplex_since mem out interest inbox w says nxt fd memory out0 (got @ rest) got said a r" and inbox: "inbox (kernel r) fd \<noteq> []"
    and r': "r' = dispatch_event (io_call e os user) (fd, EPOLLIN) r"
  shows "duplex_since mem out interest inbox w says nxt fd memory out0 (got @ rest) got said a r'"
    and "length (inbox (kernel r') fd) < length (inbox (kernel r) fd)"
proof -
  obtain c where c: "duplex_at mem out interest inbox w fd memory out0 (got @ rest) (got @ c) (said @ replies says nxt (new_messages got c) a)
        (fold nxt (new_messages got c) a) r"
    using at unfolding duplex_since_def by blast
  then have rest: "rest = c @ inbox (kernel r) fd"
    using duplex_at_arrived by fastforce
  have "fine ok nxt (new_messages (got @ c) (inbox (kernel r) fd)) (fold nxt (new_messages got c) a)"
    using fine by (simp add: rest new_messages_append fine_append)
  from duplex_at_readable [OF laws progress op ok user c inbox len this r'] obtain d where
    d: "d \<noteq> []" "inbox (kernel r) fd = d @ inbox (kernel r') fd"
    "duplex_at mem out interest inbox w fd memory out0 (got @ rest) ((got @ c) @ d)
      ((said @ replies says nxt (new_messages got c) a) @ replies says nxt (new_messages (got @ c) d) (fold nxt (new_messages got c) a))
      (fold nxt (new_messages (got @ c) d) (fold nxt (new_messages got c) a)) r'" by blast
  show "length (inbox (kernel r') fd) < length (inbox (kernel r) fd)"
    using d by simp
  show "duplex_since mem out interest inbox w says nxt fd memory out0 (got @ rest) got said a r'"
    unfolding duplex_since_def using d(3) by (intro exI [of _ "c @ d"]) (simp add: new_messages_append replies_append)
qed

lemma duplex_since_writable:
  assumes "duplex_laws os mem out interest inbox w" and "duplex_progress os inbox" and "user = duplex_user e os w op (Suc m)"
    and "duplex_since mem out interest inbox w says nxt fd memory out0 arrived got said a r"
    and "r' = dispatch_event (io_call e os user) (fd, EPOLLOUT) r"
  shows "duplex_since mem out interest inbox w says nxt fd memory out0 arrived got said a r'" and "inbox (kernel r') = inbox (kernel r)"
  using duplex_at_writable [OF assms(1-3) _ assms(5)] assms(4) unfolding duplex_since_def by blast+

lemma duplex_rounds_read:
  assumes laws: "duplex_laws os mem out interest inbox w" and progress: "duplex_progress os inbox" and op: "sends_only op ok says nxt"
    and ok: "\<forall>d a. ok d a \<longrightarrow> list_all (located memory (dx_place w)) (says d a)"
    and user: "user = duplex_user e os w op (Suc (Suc m))" and len: "length (got @ rest) \<le> 2 ^ 62"
    and fine: "fine ok nxt (new_messages got rest) a"
  shows "duplex_since mem out interest inbox w says nxt fd memory out0 (got @ rest) got said a r \<Longrightarrow>
    duplex_since mem out interest inbox w says nxt fd memory out0 (got @ rest) got said a ((duplex_round e os user inbox fd ^^ n) r) \<and>
    length (inbox (kernel ((duplex_round e os user inbox fd ^^ n) r)) fd) \<le> length (inbox (kernel r) fd) - n"
proof (induction n)
  case (Suc n)
  let ?r = "(duplex_round e os user inbox fd ^^ n) r"
  define r1 where "r1 = (if inbox (kernel ?r) fd \<noteq> [] then dispatch_event (io_call e os user) (fd, EPOLLIN) ?r else ?r)"
  have at: "duplex_since mem out interest inbox w says nxt fd memory out0 (got @ rest) got said a ?r"
    and less: "length (inbox (kernel ?r) fd) \<le> length (inbox (kernel r) fd) - n"
    using Suc by simp_all
  have r1: "duplex_since mem out interest inbox w says nxt fd memory out0 (got @ rest) got said a r1 \<and>
      length (inbox (kernel r1) fd) \<le> length (inbox (kernel ?r) fd) - 1"
  proof (cases "inbox (kernel ?r) fd = []")
    case True
    then show ?thesis using at by (simp add: r1_def)
  next
    case False
    then have "r1 = dispatch_event (io_call e os user) (fd, EPOLLIN) ?r"
      by (simp add: r1_def)
    from duplex_since_readable [OF assms at False this] show ?thesis by auto
  qed
  have "(duplex_round e os user inbox fd ^^ Suc n) r = dispatch_event (io_call e os user) (fd, EPOLLOUT) r1"
    by (simp add: duplex_round_def r1_def)
  from duplex_since_writable [OF laws progress user _ this] r1 less show ?case by auto
qed simp

lemma duplex_rounds_write:
  assumes laws: "duplex_laws os mem out interest inbox w" and progress: "duplex_progress os inbox"
    and user: "user = duplex_user e os w op (Suc m)" and at: "duplex_at mem out interest inbox w fd memory out0 arrived got said a r"
    and "inbox (kernel r) fd = []"
  shows "(duplex_round e os user inbox fd ^^ n) r = (dispatch_event (io_call e os user) (fd, EPOLLOUT) ^^ n) r \<and>
    duplex_at mem out interest inbox w fd memory out0 arrived got said a ((duplex_round e os user inbox fd ^^ n) r) \<and>
    inbox (kernel ((duplex_round e os user inbox fd ^^ n) r)) fd = []"
proof (induction n)
  case 0
  then show ?case using assms(4,5) by simp
next
  case (Suc n)
  let ?event = "dispatch_event (io_call e os user) (fd, EPOLLOUT)"
  obtain r1 where r1: "(duplex_round e os user inbox fd ^^ n) r = r1" "(?event ^^ n) r = r1"
    "duplex_at mem out interest inbox w fd memory out0 arrived got said a r1" "inbox (kernel r1) fd = []"
    using Suc.IH by metis
  have "duplex_round e os user inbox fd r1 = ?event r1"
    using r1(4) by (simp add: duplex_round_def)
  with duplex_at_writable [OF laws progress user r1(3) refl] r1 show ?case
    by simp
qed

lemma duplex_writes_out:
  assumes laws: "duplex_laws os mem out interest inbox w" and progress: "duplex_progress os inbox"
    and user: "user = duplex_user e os w op (Suc m)" and at: "duplex_at mem out interest inbox w fd memory out0 arrived got said a r"
    and n: "cost said \<le> n" and r': "r' = (dispatch_event (io_call e os user) (fd, EPOLLOUT) ^^ n) r"
  shows "out (kernel r') fd = out0 @ concat said"
proof (rule duplex_atE [OF at])
  fix finished sent b
  assume r: "duplex_wire mem out interest w fd memory (out0 @ finished) sent r" "finished @ concat (dx_queue w (kernel r)) = concat said"
    "backlog (dx_queue w (kernel r)) sent \<le> cost said"
  have "wire_progress os" using progress by (simp add: duplex_progress_def)
  from wire_events [OF duplex_lawsD(1) [OF laws] this user [unfolded duplex_user.simps(2), THEN arg_cong [of _ _ "io_call e os"]] r(1), of n]
  obtain now sent' where after: "duplex_wire mem out interest w fd memory ((out0 @ finished) @ now) sent' r'"
    "now @ concat (dx_queue w (kernel r')) = concat (dx_queue w (kernel r))"
    "backlog (dx_queue w (kernel r')) sent' \<le> backlog (dx_queue w (kernel r)) sent - n"
    unfolding r' by blast
  have "dx_queue w (kernel r') = []"
    by (rule wire_backlog_empty [OF after(1)]) (use after(3) r(3) n in simp)
  then show ?thesis
    using after(1,2) r(2) by (simp add: wire_at_def front_def)
qed

text \<open>Everything in and out.\<close>

lemma duplex_rounds:
  assumes laws: "duplex_laws os mem out interest inbox w" and progress: "duplex_progress os inbox" and op: "sends_only op ok says nxt"
    and ok: "\<forall>d a. ok d a \<longrightarrow> list_all (located memory (dx_place w)) (says d a)"
    and user: "user = duplex_user e os w op (Suc (Suc m))" and len: "length (got @ rest) \<le> 2 ^ 62"
    and fine: "fine ok nxt (new_messages got rest) a"
    and at: "duplex_at mem out interest inbox w fd memory out0 (got @ rest) got said a r"
    and n: "length rest + cost (said @ replies says nxt (new_messages got rest) a) \<le> n"
    and r': "r' = (duplex_round e os user inbox fd ^^ n) r"
  shows "duplex_at mem out interest inbox w fd memory out0 (got @ rest) (got @ rest) (said @ replies says nxt (new_messages got rest) a)
      (fold nxt (new_messages got rest) a) r'"
    and "out (kernel r') fd = out0 @ concat (said @ replies says nxt (new_messages got rest) a)"
proof -
  let ?said = "said @ replies says nxt (new_messages got rest) a"
  define r1 where "r1 = (duplex_round e os user inbox fd ^^ length rest) r"
  have rest: "rest = inbox (kernel r) fd"
    using duplex_at_arrived [OF at] by simp
  have since: "duplex_since mem out interest inbox w says nxt fd memory out0 (got @ rest) got said a r"
    using duplex_since_refl [OF at] by simp
  have r1: "duplex_since mem out interest inbox w says nxt fd memory out0 (got @ rest) got said a r1" "inbox (kernel r1) fd = []"
    using duplex_rounds_read [OF assms(1-7) since, of "length rest"] by (simp_all add: r1_def rest)
  then obtain c where "duplex_at mem out interest inbox w fd memory out0 (got @ rest) (got @ c) (said @ replies says nxt (new_messages got c) a)
        (fold nxt (new_messages got c) a) r1"
    unfolding duplex_since_def by blast
  moreover have "c = rest"
    using duplex_at_arrived [OF calculation] r1(2) by simp
  ultimately have at1: "duplex_at mem out interest inbox w fd memory out0 (got @ rest) (got @ rest) ?said (fold nxt (new_messages got rest) a) r1"
    by simp
  have "n = (n - length rest) + length rest" using n by simp
  then have eq: "r' = (duplex_round e os user inbox fd ^^ (n - length rest)) r1"
    unfolding r' r1_def by (metis comp_apply funpow_add)
  note writes = duplex_rounds_write [OF laws progress user at1 r1(2), of "n - length rest"]
  have last: "r' = (dispatch_event (io_call e os user) (fd, EPOLLOUT) ^^ (n - length rest)) r1"
    using eq conjunct1 [OF writes] by (rule trans)
  show "duplex_at mem out interest inbox w fd memory out0 (got @ rest) (got @ rest) ?said (fold nxt (new_messages got rest) a) r'"
    unfolding eq using writes by blast
  show "out (kernel r') fd = out0 @ concat ?said"
    by (rule duplex_writes_out [OF laws progress user at1 _ last]) (use n in simp)
qed

end
