(* ===== verification/Rpc_Client.thy ===== *)
theory Rpc_Client
  imports Rpc_Peer Rpc_System
begin

section \<open>The channel of an RPC client on its socket\<close>

text \<open>
  A channel (\<open>Rpc_Channel\<close>) as the application of a connection that runs on its socket and the reactor (\<open>Rpc_Peer\<close>): calls
  and responses in any order. \<open>channel_at\<close> is the channel after \<open>n\<close> of a list of calls were made and the first \<open>j\<close> of
  the answers to the whole list have come.
\<close>

subsection \<open>The message operation\<close>

definition client_next :: "parse_message \<Rightarrow> bytes \<Rightarrow> 'h channel \<Rightarrow> 'h channel" where
  "client_next prs data ch = snd (fst (projr (onMessageOp prs data ([], ch))))"

definition client_ok :: "parse_message \<Rightarrow> bytes \<Rightarrow> 'h channel \<Rightarrow> bool" where
  "client_ok prs data ch \<longleftrightarrow>
     (\<exists>r h. prs data = Some r \<and> msg_tp r = type_response \<and> umap_find (msg_id r) (id_method_umap ch) = Some (Some h))"

lemma client_sends_only: "sends_only (Some (onMessageOp prs)) (client_ok prs) (\<lambda>_ _. []) (client_next prs)"
  by (auto simp: sends_only_def client_ok_def client_next_def call_message_op_def onMessageOp_def Let_def)

lemma no_replies [simp]: "replies (\<lambda>_ _. []) nxt ds a = []"
  by (induction ds arbitrary: a) simp_all

lemma client_next_known:
  assumes "prs data = Some r" and "msg_tp r = type_response" and "umap_find (msg_id r) (id_method_umap ch) = Some (Some h)"
    and "channel_inv ch"
  shows "channel_inv (client_next prs data ch)" and "id_allocator (client_next prs data ch) = id_allocator ch"
    and "ch_completed (client_next prs data ch) = ch_completed ch @ [(h, rs_arguments (get_response r))]"
    and "umap_find i (id_method_umap (client_next prs data ch)) = (if i = msg_id r then None else umap_find i (id_method_umap ch))"
  using assms by (simp_all add: client_next_def onMessageOp_def Let_def channel_inv_def umap_ok_erase umap_find_erase)

subsection \<open>A call\<close>

definition duplex_call ::
  "endian \<Rightarrow> serialize_message \<Rightarrow> 'k os \<Rightarrow> (conn_callback, 'k) user \<Rightarrow> ('h channel, 'k) duplex \<Rightarrow> 'h call \<Rightarrow>
   (conn_callback, 'k) io \<Rightarrow> (conn_callback, 'k) io" where
  "duplex_call e ser os user w c r =
     (case CallMethod e ser (call_service c) (call_method c) (call_args c) (call_handle c) (dx_queue w (kernel r), snd (dx_conn w (kernel r))) of
        Inl _ \<Rightarrow> r\<lparr>kernel := dx_crash w (kernel r)\<rparr>
      | Inr ((q, ch), acts) \<Rightarrow>
          fold (duplex_perform os user w) acts (r\<lparr>kernel := dx_set_conn w (fst (dx_conn w (kernel r)), ch) (dx_put w q (kernel r))\<rparr>))"

lemma duplex_call_sends:
  assumes "channel_inv (snd (dx_conn w (kernel r)))" and "id_allocator (snd (dx_conn w (kernel r))) \<noteq> -1"
  shows "\<exists>ch ds. ds = [frame e (ser (call_request (id_allocator (snd (dx_conn w (kernel r)))) (call_service c) (call_method c) (call_args c)))] \<and>
    duplex_call e ser os user w c r = fold (duplex_perform os user w)
      (if dx_queue w (kernel r) = [] \<and> ds \<noteq> [] then [Async_write (hd ds)] else [])
      (r\<lparr>kernel := dx_set_conn w (fst (dx_conn w (kernel r)), ch) (dx_put w (dx_queue w (kernel r) @ ds) (kernel r))\<rparr>) \<and>
    channel_inv ch \<and> id_allocator ch = id_allocator (snd (dx_conn w (kernel r))) + 1 \<and>
    ch_completed ch = ch_completed (snd (dx_conn w (kernel r))) \<and>
    (\<forall>i. umap_find i (id_method_umap ch) = (if i = id_allocator (snd (dx_conn w (kernel r))) then Some (Some (call_handle c))
       else umap_find i (id_method_umap (snd (dx_conn w (kernel r))))))"
proof -
  let ?ch = "snd (dx_conn w (kernel r))" and ?q = "dx_queue w (kernel r)"
  let ?d = "frame e (ser (call_request (id_allocator ?ch) (call_service c) (call_method c) (call_args c)))"
  obtain acts ch where ch: "CallMethod e ser (call_service c) (call_method c) (call_args c) (call_handle c) (?q, ?ch) = Inr ((?q @ [?d], ch), acts)"
    "channel_inv ch" "id_allocator ch = id_allocator ?ch + 1" "ch_completed ch = ch_completed ?ch"
    "\<forall>i. umap_find i (id_method_umap ch) = (if i = id_allocator ?ch then Some (Some (call_handle c)) else umap_find i (id_method_umap ?ch))"
    using CallMethod_inv [OF assms] by blast
  then have "acts = (if ?q = [] then [Async_write ?d] else [])"
    by (simp add: CallMethod_def connection_send_queue Let_def)
  then have "duplex_call e ser os user w c r = fold (duplex_perform os user w)
      (if ?q = [] \<and> [?d] \<noteq> [] then [Async_write (hd [?d])] else [])
      (r\<lparr>kernel := dx_set_conn w (fst (dx_conn w (kernel r)), ch) (dx_put w (?q @ [?d]) (kernel r))\<rparr>)"
    using ch(1) by (simp add: duplex_call_def)
  then show ?thesis
    using ch(2-5) by blast
qed

subsection \<open>The answers to a list of calls\<close>

lemma answered_append: "answered ans (ms @ ns) = answered ans ms @ answered ans ns"
  by (simp add: answered_def)

lemma answered_take: "\<exists>rest. answered ans ms = answered ans (take n ms) @ rest"
  using answered_append [of ans "take n ms" "drop n ms"] by simp

lemma answered_Cons: "answered ans (m # ms) = (case ans m of None \<Rightarrow> [] | Some r \<Rightarrow> [r]) @ answered ans ms"
  by (simp add: answered_def)

lemma completions_Cons:
  "completions ans (m # ms) (c # cs) =
     (case ans m of None \<Rightarrow> [] | Some r \<Rightarrow> [(call_handle c, rs_arguments (get_response r))]) @ completions ans ms cs"
  by (simp add: completions_def)

lemma answered_length: "length ms = length cs \<Longrightarrow> length (completions ans ms cs) = length (answered ans ms)"
proof (induction ms cs rule: list_induct2)
  case (Cons m ms c cs)
  then show ?case by (cases "ans m") (simp_all add: answered_Cons completions_Cons)
qed (simp add: answered_def completions_def)

text \<open>The answer with a number below those to the first \<open>n\<close> calls is the answer to one of these calls.\<close>

lemma answered_nth:
  "length ms = length cs \<Longrightarrow> j < length (answered ans (take n ms)) \<Longrightarrow>
   \<exists>i < n. i < length ms \<and> ans (ms ! i) = Some (answered ans ms ! j) \<and>
     completions ans ms cs ! j = (call_handle (cs ! i), rs_arguments (get_response (answered ans ms ! j)))"
proof (induction ms cs arbitrary: n j rule: list_induct2)
  case Nil
  then show ?case by (simp add: answered_def)
next
  case (Cons m ms c cs)
  obtain n' where n: "n = Suc n'"
    using Cons.prems by (cases n) (auto simp: answered_def)
  have later: ?case if "j = length (case ans m of None \<Rightarrow> [] | Some r \<Rightarrow> [r]) + j'" and less: "j' < length (answered ans (take n' ms))" for j'
  proof -
    obtain i where "i < n'" "i < length ms" "ans (ms ! i) = Some (answered ans ms ! j')"
      "completions ans ms cs ! j' = (call_handle (cs ! i), rs_arguments (get_response (answered ans ms ! j')))"
      using Cons.IH [OF less] by blast
    then show ?thesis
      using that by (intro exI [of _ "Suc i"]) (auto simp: n answered_Cons completions_Cons split: option.splits)
  qed
  show ?case
  proof (cases "ans m")
    case None
    then show ?thesis
      using later [of j] Cons.prems by (simp add: n answered_Cons)
  next
    case (Some r)
    show ?thesis
    proof (cases j)
      case 0
      then show ?thesis
        using Some by (intro exI [of _ 0]) (simp add: n answered_Cons completions_Cons)
    next
      case (Suc j')
      then show ?thesis
        using later [of j'] Cons.prems Some by (simp add: n answered_Cons)
    qed
  qed
qed

lemma answered_distinct:
  assumes "\<And>m r. ans m = Some r \<Longrightarrow> msg_id r = msg_id m"
  shows "distinct (map msg_id ms) \<Longrightarrow> distinct (map msg_id (answered ans ms))"
proof (induction ms)
  case (Cons m ms)
  have "msg_id r \<noteq> msg_id m" if r: "r \<in> set (answered ans ms)" for r
  proof -
    obtain m' where m': "m' \<in> set ms" "ans m' = Some r"
      using answered_mem [OF r] by blast
    then have "msg_id m' \<noteq> msg_id m"
      using Cons.prems by (auto simp: image_iff)
    then show ?thesis using assms [OF m'(2)] by simp
  qed
  moreover have "distinct (map msg_id (answered ans ms))"
    using Cons by simp
  ultimately show ?case
    by (cases "ans m") (fastforce simp: answered_Cons dest: assms)+
qed (simp add: answered_def)

lemma requests_nth:
  "k < length cs \<Longrightarrow> requests i cs ! k = call_request (i + of_nat k) (call_service (cs ! k)) (call_method (cs ! k)) (call_args (cs ! k))"
  by (induction cs arbitrary: i k) (auto simp: nth_Cons' algebra_simps)

subsection \<open>The channel during the calls\<close>

lemma unat_of_nat_len: "i < 2 ^ 64 \<Longrightarrow> unat (of_nat i :: u64) = i"
  by (simp only: unsigned_of_nat) (simp add: take_bit_nat_eq_self)

lemma of_nat_eq_iff_64: "i < 2 ^ 64 \<Longrightarrow> j < 2 ^ 64 \<Longrightarrow> (of_nat i :: u64) = of_nat j \<longleftrightarrow> i = j"
  by (metis unat_of_nat_len)

definition channel_at :: "(rpc_message \<Rightarrow> rpc_message option) \<Rightarrow> 'h call list \<Rightarrow> nat \<Rightarrow> nat \<Rightarrow> 'h channel \<Rightarrow> bool" where
  "channel_at ans calls n j ch \<longleftrightarrow>
     channel_inv ch \<and> id_allocator ch = of_nat n \<and> ch_completed ch = take j (completions ans (requests 0 calls) calls) \<and>
     (\<forall>i < n. of_nat i \<notin> msg_id ` set (take j (answered ans (requests 0 calls))) \<longrightarrow>
        umap_find (of_nat i) (id_method_umap ch) = Some (Some (call_handle (calls ! i))))"

lemma channel_at_new: "channel_at ans calls 0 0 (Channel\<lparr>ch_is_connected := True\<rparr>)"
  by (simp add: channel_at_def channel_inv_def Channel_def umap_ok_def umap_find_def)

lemma channel_at_call:
  assumes "channel_at ans calls n j ch" and "n < length calls" and "length calls < 2 ^ 64"
    and "channel_inv ch'" and "id_allocator ch' = id_allocator ch + 1" and "ch_completed ch' = ch_completed ch"
    and "\<forall>i. umap_find i (id_method_umap ch') =
       (if i = id_allocator ch then Some (Some (call_handle (calls ! n))) else umap_find i (id_method_umap ch))"
  shows "channel_at ans calls (Suc n) j ch'"
proof -
  have "umap_find (of_nat i) (id_method_umap ch') = Some (Some (call_handle (calls ! i)))"
    if "i < Suc n" and "of_nat i \<notin> msg_id ` set (take j (answered ans (requests 0 calls)))" for i
  proof (cases "i = n")
    case True
    then show ?thesis using assms(1,7) by (simp add: channel_at_def)
  next
    case False
    then have "(of_nat i :: u64) \<noteq> of_nat n"
      using that(1) assms(2,3) by (simp add: of_nat_eq_iff_64)
    then show ?thesis
      using False that assms(1,7) by (simp add: channel_at_def)
  qed
  then show ?thesis
    using assms(1,4-6) by (simp add: channel_at_def add.commute)
qed

lemma channel_at_response:
  assumes at: "channel_at (answer services) calls n j ch" and calls: "length calls < 2 ^ 64"
    and j: "j < length (answered (answer services) (take n (requests 0 calls)))" and n: "n \<le> length calls"
    and r: "r = answered (answer services) (requests 0 calls) ! j" and prs: "prs (ser r) = Some r"
  shows "client_ok prs (ser r) ch" and "channel_at (answer services) calls n (Suc j) (client_next prs (ser r) ch)"
proof -
  let ?ans = "answer services" and ?reqs = "requests 0 calls"
  obtain i where i: "i < n" "i < length calls" "?ans (?reqs ! i) = Some r"
    "completions ?ans ?reqs calls ! j = (call_handle (calls ! i), rs_arguments (get_response r))"
    using answered_nth [OF length_requests j] r by auto
  have id: "msg_id r = of_nat i" and tp: "msg_tp r = type_response"
    using answer_id [OF i(3)] requests_nth [OF i(2), of 0] by (simp_all add: call_request_def)
  obtain more where "answered ?ans ?reqs = answered ?ans (take n ?reqs) @ more"
    using answered_take by blast
  then have less: "j < length (answered ?ans ?reqs)" using j by simp
  have "distinct (map msg_id (answered ?ans ?reqs))"
    by (intro answered_distinct requests_distinct) (use answer_id calls in auto)
  then have "distinct (take (Suc j) (map msg_id (answered ?ans ?reqs)))"
    by (rule distinct_take)
  then have new: "msg_id r \<notin> msg_id ` set (take j (answered ?ans ?reqs))"
    using less r by (simp add: take_Suc_conv_app_nth take_map)
  then have found: "umap_find (msg_id r) (id_method_umap ch) = Some (Some (call_handle (calls ! i)))"
    using at i(1) by (simp add: channel_at_def id)
  show "client_ok prs (ser r) ch"
    using prs tp found by (auto simp: client_ok_def)
  have inv: "channel_inv ch" using at by (simp add: channel_at_def)
  note now = client_next_known [of prs "ser r", OF prs tp found inv]
  have "take (Suc j) (completions ?ans ?reqs calls) = take j (completions ?ans ?reqs calls) @ [(call_handle (calls ! i), rs_arguments (get_response r))]"
    using less i(4) by (simp add: take_Suc_conv_app_nth answered_length)
  moreover have "set (take (Suc j) (answered ?ans ?reqs)) = insert r (set (take j (answered ?ans ?reqs)))"
    using less r by (simp add: take_Suc_conv_app_nth)
  ultimately show "channel_at ?ans calls n (Suc j) (client_next prs (ser r) ch)"
    using at now by (auto simp: channel_at_def)
qed

text \<open>Several responses.\<close>

lemma channel_at_responses:
  assumes "length calls < 2 ^ 64" and "n \<le> length calls"
    and prs: "\<forall>r \<in> set (answered (answer services) (requests 0 calls)). prs (ser r) = Some r"
  shows "channel_at (answer services) calls n j ch \<Longrightarrow> j + length ds \<le> length (answered (answer services) (take n (requests 0 calls))) \<Longrightarrow>
    ds = map ser (take (length ds) (drop j (answered (answer services) (requests 0 calls)))) \<Longrightarrow>
    fine (client_ok prs) (client_next prs) ds ch \<and>
    channel_at (answer services) calls n (j + length ds) (fold (client_next prs) ds ch)"
proof (induction ds arbitrary: j ch)
  case (Cons d ds)
  let ?A = "answered (answer services) (requests 0 calls)"
  obtain more where "?A = answered (answer services) (take n (requests 0 calls)) @ more"
    using answered_take by blast
  then have j: "j < length (answered (answer services) (take n (requests 0 calls)))" and less: "j < length ?A"
    using Cons.prems(2) by (simp_all only: length_append) simp_all
  have drop: "drop j ?A = ?A ! j # drop (Suc j) ?A"
    using less by (simp add: Cons_nth_drop_Suc)
  have d: "d = ser (?A ! j)" and ds: "ds = map ser (take (length ds) (drop (Suc j) ?A))"
    using Cons.prems(3) by (simp_all add: drop)
  have "prs (ser (?A ! j)) = Some (?A ! j)" using prs less by simp
  note step = channel_at_response [OF Cons.prems(1) assms(1) j assms(2) refl, of prs ser, OF this]
  from Cons.IH [OF step(2) _ ds] step(1) Cons.prems(2) show ?case
    by (simp add: d)
qed simp

end
