(* ===== verification/Rpc_Service.thy ===== *)
theory Rpc_Service
  imports Rpc_Peer
begin

section \<open>An RPC server's connection from socket to socket\<close>

text \<open>
  The message operation of the server (\<open>Rpc_Server\<close>) on a connection that runs on its socket and the reactor
  (\<open>Rpc_Duplex\<close>, \<open>Rpc_Peer\<close>): what the kernel has taken for the peer is the responses to the requests that have arrived, in order.
\<close>

text \<open>\<open>connect_op_\<close> of the server gives the connection this \<open>message_op_\<close>; it has no state but the send queue.\<close>

definition server_message_op ::
  "endian \<Rightarrow> parse_message \<Rightarrow> serialize_message \<Rightarrow> 'q service_umap \<Rightarrow> (bytes list \<times> unit) message_op" where
  "server_message_op e prs ser services data st =
     cpp_bind (onConnectionMessage e prs ser services data (fst st)) (\<lambda>(q, acts). Inr ((q, snd st), acts))"

definition responses :: "endian \<Rightarrow> parse_message \<Rightarrow> serialize_message \<Rightarrow> 'q service_umap \<Rightarrow> bytes list \<Rightarrow> bytes list" where
  "responses e prs ser services ds = map (\<lambda>r. frame e (ser r)) (concat (map (answers prs services) ds))"

abbreviation server_says :: "endian \<Rightarrow> parse_message \<Rightarrow> serialize_message \<Rightarrow> 'q service_umap \<Rightarrow> bytes \<Rightarrow> unit \<Rightarrow> bytes list" where
  "server_says e prs ser services data u \<equiv> responses e prs ser services [data]"

lemma server_sends_only:
  "sends_only (Some (server_message_op e prs ser services)) ok (server_says e prs ser services) (\<lambda>_. id)"
  by (auto simp: sends_only_def call_message_op_def server_message_op_def responses_def onConnectionMessage_def answers_def answer_def
      send_error_response_def send_response_def connection_send_queue Let_def split: option.split)

lemma server_replies: "replies (server_says e prs ser services) nxt ds a = responses e prs ser services ds"
  by (induction ds arbitrary: a) (simp_all add: responses_def)

lemma server_fine:
  "fine (\<lambda>d u. list_all P (server_says e prs ser services d u)) nxt ds a \<longleftrightarrow> list_all P (responses e prs ser services ds)"
  by (induction ds arbitrary: a) (auto simp: responses_def)

subsection \<open>A new connection\<close>

text \<open>An accepted socket with nothing registered, and the connection object made for it.\<close>

definition duplex_fresh ::
  "('k \<Rightarrow> int \<Rightarrow> events option) \<Rightarrow> ('a, 'k) duplex \<Rightarrow> int \<Rightarrow> 'a \<Rightarrow> (conn_callback, 'k) io \<Rightarrow> bool" where
  "duplex_fresh interest w fd a0 r \<longleftrightarrow>
     tcp_sockfd r (dx_socket w) = fd \<and> opinfo_at fd r = OperationInfo \<and> interest (kernel r) fd = None \<and>
     dx_queue w (kernel r) = send_buf_deque Connection \<and> dx_conn w (kernel r) = (read_buf Connection, a0)"

lemma frames_Nil: "frames [] = ([], [])"
  by (rule frames_None) (simp add: split_frame_def)

lemma new_messages_first: "new_messages [] c = fst (frames c)"
  by (simp add: new_messages_def frames_Nil)

lemma duplex_started:
  assumes laws: "duplex_laws os mem out interest inbox w" and fresh: "duplex_fresh interest w fd a0 r"
    and start: "duplex_start os (duplex_user e os w op (Suc m)) w (read_buf Connection) r = Inr r0"
  shows "duplex_at mem out interest inbox w fd (mem (kernel r)) (out (kernel r) fd) (inbox (kernel r0) fd) [] [] a0 r0"
    and "inbox (kernel r0) = inbox (kernel r)"
proof -
  let ?user = "duplex_user e os w op (Suc m)"
  have b: "buffer_inv (DynamicBuffer 1024)" "expand_size (DynamicBuffer 1024) = 1024" "unread (DynamicBuffer 1024) = []"
    "length (char_vector (DynamicBuffer 1024)) = 1"
    by (simp_all add: DynamicBuffer_inv) (simp_all add: DynamicBuffer_def)
  have at: "duplex_wire mem out interest w fd (mem (kernel r)) (out (kernel r) fd) 0 r" and none: "read_op (opinfo_at fd r) = None"
    using fresh by (simp_all add: duplex_fresh_def wire_at_def wire_idle_def OperationInfo_def Connection_def front_def)
  have len: "length (unread (DynamicBuffer 1024)) \<le> 2 ^ 62" "length (char_vector (DynamicBuffer 1024)) \<le> 2 ^ 62 + 9216"
    by (simp_all add: b)
  from duplex_start_waits [where user = ?user, OF laws at none _ b(1,2) len order_refl] duplex_user_received [of _ "Suc m" e os w op]
  obtain b' r' where r': "duplex_start os ?user w (DynamicBuffer 1024) r = Inr r'"
    "duplex_wire mem out interest w fd (mem (kernel r)) (out (kernel r) fd) 0 r'" "dx_queue w (kernel r') = dx_queue w (kernel r)"
    "dx_conn w (kernel r') = (b', snd (dx_conn w (kernel r)))" "unread b' = unread (DynamicBuffer 1024)"
    "read_waits interest w (2 ^ 62) fd b' r'" "inbox (kernel r') = inbox (kernel r)" by auto
  have r0: "r0 = r'"
    using start r'(1) by (simp add: Connection_def)
  show "duplex_at mem out interest inbox w fd (mem (kernel r)) (out (kernel r) fd) (inbox (kernel r0) fd) [] [] a0 r0"
    unfolding r0 by (rule duplex_atI [where finished = "[]", unfolded append_Nil2, OF r'(2) _ _ _ r'(6)])
      (use fresh r' in \<open>simp_all add: frames_Nil b duplex_fresh_def Connection_def backlog_def\<close>)
  show "inbox (kernel r0) = inbox (kernel r)"
    using r0 r'(7) by simp
qed

text \<open>The histories of the connection: bytes arrive and events come, in any order.\<close>

inductive duplex_reach ::
  "endian \<Rightarrow> 'k os \<Rightarrow> ('k \<Rightarrow> nat \<Rightarrow> u8) \<Rightarrow> ('k \<Rightarrow> int \<Rightarrow> bytes) \<Rightarrow> ('k \<Rightarrow> int \<Rightarrow> events option) \<Rightarrow> ('k \<Rightarrow> int \<Rightarrow> bytes) \<Rightarrow> ('a, 'k) duplex \<Rightarrow>
   (conn_callback, 'k) user \<Rightarrow> int \<Rightarrow> (conn_callback, 'k) io \<Rightarrow> bytes \<Rightarrow> (conn_callback, 'k) io \<Rightarrow> bool"
  for e os mem out interest inbox w user fd r0 where
  start: "duplex_reach e os mem out interest inbox w user fd r0 (inbox (kernel r0) fd) r0"
| arrival: "duplex_reach e os mem out interest inbox w user fd r0 arrived r \<Longrightarrow> arrives mem out interest inbox w fd c (kernel r) k \<Longrightarrow>
    duplex_reach e os mem out interest inbox w user fd r0 (arrived @ c) (r\<lparr>kernel := k\<rparr>)"
| readable: "duplex_reach e os mem out interest inbox w user fd r0 arrived r \<Longrightarrow> inbox (kernel r) fd \<noteq> [] \<Longrightarrow>
    duplex_reach e os mem out interest inbox w user fd r0 arrived (dispatch_event (io_call e os user) (fd, EPOLLIN) r)"
| writable: "duplex_reach e os mem out interest inbox w user fd r0 arrived r \<Longrightarrow>
    duplex_reach e os mem out interest inbox w user fd r0 arrived (dispatch_event (io_call e os user) (fd, EPOLLOUT) r)"

text \<open>The hypotheses on all that has arrived are needed only at the end of a history.\<close>

lemma duplex_reach_since:
  assumes laws: "duplex_laws os mem out interest inbox w" and progress: "duplex_progress os inbox" and op: "sends_only op ok says nxt"
    and ok: "\<forall>d a. ok d a \<longrightarrow> list_all (located memory (dx_place w)) (says d a)"
    and user: "user = duplex_user e os w op (Suc (Suc m))"
    and start: "duplex_at mem out interest inbox w fd memory out0 (inbox (kernel r0) fd) [] [] a0 r0"
    and reach: "duplex_reach e os mem out interest inbox w user fd r0 arrived r"
  shows "length arrived \<le> 2 ^ 62 \<Longrightarrow> fine ok nxt (fst (frames arrived)) a0 \<Longrightarrow>
    duplex_since mem out interest inbox w says nxt fd memory out0 arrived [] [] a0 r"
  using reach
proof (induction rule: duplex_reach.induct)
  case start
  show ?case by (rule duplex_since_refl [OF assms(6)])
next
  case (arrival arrived r c k)
  from arrival.prems have "length arrived \<le> 2 ^ 62" "fine ok nxt (fst (frames arrived)) a0"
    using fine_prefix by auto
  from arrival.IH [OF this] show ?case
    using duplex_at_arrival [OF _ arrival.hyps(2)] unfolding duplex_since_def by blast
next
  case (readable arrived r)
  have "length ([] @ arrived) \<le> 2 ^ 62" "fine ok nxt (new_messages [] arrived) a0"
    "duplex_since mem out interest inbox w says nxt fd memory out0 ([] @ arrived) [] [] a0 r"
    using readable by (simp_all add: new_messages_first)
  from duplex_since_readable(1) [OF laws progress op ok user this readable.hyps(2) refl] show ?case by simp
next
  case (writable arrived r)
  show ?case
    by (rule duplex_since_writable(1) [OF laws progress user writable.IH [OF writable.prems] refl])
qed

subsection \<open>A kernel for the example\<close>

text \<open>Its memory \<open>sv_mem\<close> holds the string of the example and is not written; \<^verbatim>\<open>send\<close> takes four bytes at most, \<^verbatim>\<open>recv\<close> gives three.\<close>

record 'a service_kernel =
  sv_mem :: "nat \<Rightarrow> u8"
  sv_interest :: "int \<Rightarrow> events option"
  sv_out :: "int \<Rightarrow> bytes"
  sv_inbox :: "int \<Rightarrow> bytes"
  sv_vector :: "nat \<Rightarrow> u8"
  sv_queue :: "bytes list"
  sv_conn :: "dynamic_buffer \<times> 'a"

definition sv_response :: bytes where
  "sv_response = frame Little_endian [9]"

definition heap_of :: "bytes \<Rightarrow> nat \<Rightarrow> u8" where
  "heap_of bs i = (if i < length bs then bs ! i else 0)"

definition sv_ctl :: "epoll_op \<Rightarrow> int \<Rightarrow> events \<Rightarrow> 'a service_kernel \<Rightarrow> int \<times> 'a service_kernel" where
  "sv_ctl p fd ev k =
     (if p = EPOLL_CTL_ADD \<and> sv_interest k fd \<noteq> None then (17, k)
      else if p \<noteq> EPOLL_CTL_ADD \<and> sv_interest k fd = None then (ENOENT, k)
      else (0, k\<lparr>sv_interest := (sv_interest k)(fd := (if p = EPOLL_CTL_DEL then None else Some ev))\<rparr>))"

definition sv_send :: "int \<Rightarrow> nat \<Rightarrow> nat \<Rightarrow> 'a service_kernel \<Rightarrow> (int + nat) \<times> 'a service_kernel" where
  "sv_send fd p len k =
     (Inr (min 4 len), k\<lparr>sv_out := (sv_out k)(fd := sv_out k fd @ take (min 4 len) (map (sv_mem k) [p ..< p + len]))\<rparr>)"

definition sv_recv :: "int \<Rightarrow> nat \<Rightarrow> nat \<Rightarrow> 'a service_kernel \<Rightarrow> (int + nat) \<times> 'a service_kernel" where
  "sv_recv fd p len k =
     (let n = min 3 (min len (length (sv_inbox k fd)))
      in (Inr n, k\<lparr>sv_inbox := (sv_inbox k)(fd := drop n (sv_inbox k fd)),
                  sv_vector := (\<lambda>i. if p \<le> i \<and> i < p + n then sv_inbox k fd ! (i - p) else sv_vector k i)\<rparr>))"

definition sv_os :: "'a service_kernel os" where
  "sv_os =
     \<lparr>os_epoll_ctl = sv_ctl, os_epoll_wait = (\<lambda>n k. (Inl EINTR, k)),
      os_socket = (\<lambda>f t k. (Inr 3, k)), os_getfl = (\<lambda>fd k. 0), os_setfl = (\<lambda>fd fl k. k), os_close = (\<lambda>fd k. (0, k)),
      os_recv = sv_recv, os_send = sv_send,
      os_recvfrom = (\<lambda>fd a n k. (Inr (0, []), k)), os_sendto = (\<lambda>fd a n ad k. (Inr n, k)),
      os_accept = (\<lambda>fd k. (Inr 4, k)), os_connect = (\<lambda>fd ad k. (0, k)), os_so_error = (\<lambda>fd k. (0, k)),
      os_bind = (\<lambda>fd ad k. (0, k)), os_listen = (\<lambda>fd n k. (0, k)), os_setsockopt = (\<lambda>fd opt v k. (0, k)),
      os_shutdown = (\<lambda>fd h k. (0, k)), os_getpeername = (\<lambda>fd n k. (Inr [], k)), os_getsockname = (\<lambda>fd n k. (Inr [], k)),
      os_signalfd = (\<lambda>fd sigs k. (Inr 6, k)), os_sigmask = (\<lambda>b sigs k. k), os_read_siginfo = (\<lambda>fd k. (2, k))\<rparr>"

definition sv_duplex :: "('a, 'a service_kernel) duplex" where
  "sv_duplex =
     \<lparr>dx_socket = 0, dx_place = (\<lambda>d. \<lparr>cb_ptr = 0, cb_len = length d\<rparr>), dx_vec = (\<lambda>b. 4096), dx_memory = sv_vector,
      dx_queue = sv_queue, dx_put = (\<lambda>q k. k\<lparr>sv_queue := q\<rparr>), dx_conn = sv_conn, dx_set_conn = (\<lambda>c k. k\<lparr>sv_conn := c\<rparr>),
      dx_crash = (\<lambda>k. k)\<rparr>"

definition sv_io :: "bytes \<Rightarrow> 'a \<Rightarrow> (conn_callback, 'a service_kernel) io" where
  "sv_io bs a =
     \<lparr>quit = True, event_array_size = 128, fd_opinfo_umap = [],
      kernel = \<lparr>sv_mem = heap_of bs, sv_interest = (\<lambda>_. None), sv_out = (\<lambda>_. []), sv_inbox = (\<lambda>_. []), sv_vector = (\<lambda>_. 0), sv_queue = [],
        sv_conn = (DynamicBuffer 1024, a)\<rparr>,
      tcp_sockfd = (\<lambda>_. 3), udp_sockfd = (\<lambda>_. - 1), endpoints = (\<lambda>_. Endpoint)\<rparr>"

lemma sv_laws: "duplex_laws sv_os sv_mem sv_out sv_interest sv_inbox sv_duplex"
  unfolding duplex_laws_def
proof (intro conjI)
  show "wire_laws sv_os sv_mem sv_out sv_interest (dx_queue sv_duplex) (dx_put sv_duplex)"
    unfolding wire_laws_def
  proof (intro conjI)
    show "send_ok sv_os sv_mem sv_out (dx_queue sv_duplex)"
      by (auto simp: send_ok_def untouched_def sv_os_def sv_ctl_def sv_send_def send_law_def sv_duplex_def min_def)
    show "epoll_reliable sv_os sv_interest"
      by (auto simp: epoll_reliable_def epoll_laws_def epoll_law_def sv_os_def sv_ctl_def ENOENT_def)
  qed (auto simp: sv_os_def sv_send_def sv_duplex_def)
  show "\<forall>fd p len k. recv_law (dx_memory sv_duplex) sv_inbox fd p len k (fst (os_recv sv_os fd p len k)) (snd (os_recv sv_os fd p len k))"
    by (auto simp: recv_law_def sv_os_def sv_recv_def sv_duplex_def Let_def intro!: nth_equalityI)
qed (auto simp: sv_os_def sv_ctl_def sv_send_def sv_recv_def sv_duplex_def Let_def)

lemma sv_progress: "duplex_progress sv_os sv_inbox"
  by (auto simp: duplex_progress_def wire_progress_def sv_os_def sv_send_def sv_recv_def Let_def)

subsection \<open>The property\<close>

text \<open>C3: A connection of an RPC server, from \<open>start_recv\<close> on, with its reads and writes going through the socket and the
  reactor: whenever its bytes arrive, whatever part of them each \<^verbatim>\<open>recv\<close> gives and each \<^verbatim>\<open>send\<close> takes, in any order of
  events, the kernel has taken a prefix of the framed responses to the messages that have arrived, in their order. When the socket is polled
  further, all of them are out after as many rounds as there are bytes to read and to write, and one more for each response.\<close>

theorem rpc_server_over_socket:
  assumes "duplex_laws os mem out interest inbox w" and "duplex_progress os inbox"
    and "op = Some (server_message_op e prs ser services)" and "user = duplex_user e os w op (Suc (Suc m))"
    and "duplex_fresh interest w fd () r1" and "duplex_start os user w (read_buf Connection) r1 = Inr r0"
    and "duplex_reach e os mem out interest inbox w user fd r0 arrived r" and "length arrived \<le> 2 ^ 62"
    and "list_all (located (mem (kernel r1)) (dx_place w)) (responses e prs ser services (fst (frames arrived)))"
  shows "(\<exists>sent. out (kernel r) fd = out (kernel r1) fd @ take sent (concat (responses e prs ser services (fst (frames arrived))))) \<and>
    (length (inbox (kernel r) fd) + cost (responses e prs ser services (fst (frames arrived))) \<le> n \<longrightarrow>
       out (kernel ((duplex_round e os user inbox fd ^^ n) r)) fd =
         out (kernel r1) fd @ concat (responses e prs ser services (fst (frames arrived))))"
proof -
  let ?says = "server_says e prs ser services" and ?ok = "\<lambda>d u. list_all (located (mem (kernel r1)) (dx_place w)) (server_says e prs ser services d u)"
  let ?all = "responses e prs ser services (fst (frames arrived))"
  have op: "sends_only op ?ok ?says (\<lambda>_. id)"
    unfolding assms(3) by (rule server_sends_only)
  have ok: "\<forall>d u. ?ok d u \<longrightarrow> list_all (located (mem (kernel r1)) (dx_place w)) (?says d u)" by simp
  have fine: "fine ?ok (\<lambda>_. id) (fst (frames arrived)) ()"
    using assms(9) by (simp only: server_fine)
  have "duplex_at mem out interest inbox w fd (mem (kernel r1)) (out (kernel r1) fd) (inbox (kernel r0) fd) [] [] () r0"
    by (rule duplex_started(1) [OF assms(1,5) assms(6) [unfolded assms(4)]])
  from duplex_reach_since [OF assms(1,2) op ok assms(4) this assms(7,8) fine] obtain c where
    at: "duplex_at mem out interest inbox w fd (mem (kernel r1)) (out (kernel r1) fd) arrived c (responses e prs ser services (fst (frames c))) () r"
    by (auto simp: duplex_since_def new_messages_first server_replies)
  let ?rest = "inbox (kernel r) fd"
  have arrived: "arrived = c @ ?rest" by (rule duplex_at_arrived [OF at])
  have all: "?all = responses e prs ser services (fst (frames c)) @ responses e prs ser services (new_messages c ?rest)"
    unfolding arrived frames_new by (simp add: responses_def)
  obtain sent where "out (kernel r) fd = out (kernel r1) fd @ take sent (concat (responses e prs ser services (fst (frames c))))"
    using duplex_at_out [OF at] by blast
  then have "out (kernel r) fd = out (kernel r1) fd @ take (min sent (length (concat (responses e prs ser services (fst (frames c)))))) (concat ?all)"
    by (simp add: all min_def)
  moreover have "out (kernel ((duplex_round e os user inbox fd ^^ n) r)) fd = out (kernel r1) fd @ concat ?all"
    if "length ?rest + cost ?all \<le> n"
  proof -
    have "fine ?ok (\<lambda>_. id) (new_messages c ?rest) ()"
      using fine unfolding arrived frames_new by (simp add: fine_append)
    from duplex_rounds(2) [OF assms(1,2) op ok assms(4) _ this at [unfolded arrived] _ refl, of n] show ?thesis
      using that assms(8) by (simp add: server_replies all arrived [symmetric])
  qed
  ultimately show ?thesis by blast
qed

definition sv_op :: "(bytes list \<times> unit) message_op option" where
  "sv_op = Some (server_message_op Little_endian (\<lambda>_. Some echo_request) (\<lambda>_. [9]) (registerService echo_service []))"

definition sv_user :: "(conn_callback, unit service_kernel) user" where
  "sv_user = duplex_user Little_endian sv_os sv_duplex sv_op (Suc (Suc 0))"

lemma sv_responses:
  "responses Little_endian (\<lambda>_. Some echo_request) (\<lambda>_. [9]) (registerService echo_service []) [[1]] = [sv_response]"
  by (simp add: responses_def answers_def echo_answer sv_response_def)

lemma sv_fresh: "duplex_fresh sv_interest sv_duplex 3 a (sv_io bs a)"
  by (simp add: duplex_fresh_def sv_duplex_def sv_io_def opinfo_at_def umap_find_def Connection_def)

theorem rpc_server_over_socket_witness:
  "\<exists>r. sv_inbox (kernel r) 3 = frame Little_endian [1] \<and>
     sv_out (kernel ((duplex_round Little_endian sv_os sv_user sv_inbox 3 ^^ 11) r)) 3 = sv_response"
proof -
  have "\<exists>b n. start_recv (read_buf Connection) = Inr (b, [Async_read n])"
    using start_recv_ready [of "DynamicBuffer 1024" 100]
    by (simp add: Connection_def DynamicBuffer_inv) (auto simp: DynamicBuffer_def)
  then obtain r0 where r0: "duplex_start sv_os sv_user sv_duplex (read_buf Connection) (sv_io sv_response ()) = Inr r0"
    by (auto simp: duplex_start_def)
  have none: "sv_inbox (kernel r0) 3 = []"
    using duplex_started(2) [OF sv_laws sv_fresh r0 [unfolded sv_user_def]] by (simp add: sv_io_def)
  let ?request = "frame Little_endian [1]"
  define k where "k = (kernel r0)\<lparr>sv_inbox := (\<lambda>_. ?request)\<rparr>"
  let ?reach = "duplex_reach Little_endian sv_os sv_mem sv_out sv_interest sv_inbox sv_duplex sv_user 3 r0"
  have "?reach (sv_inbox (kernel r0) 3) r0" by (rule duplex_reach.start)
  then have "?reach [] r0" by (simp only: none)
  then have reach: "?reach ([] @ ?request) (r0\<lparr>kernel := k\<rparr>)"
    by (rule duplex_reach.arrival) (use none in \<open>auto simp: arrives_def k_def sv_duplex_def\<close>)
  have frames: "frames ([] @ ?request) = ([[1]], [])"
    using frames_frame [of "[[1]]" Little_endian "[]"] by (simp add: frames_Nil)
  have len: "length ?request = 5" "length sv_response = 5"
    by (simp_all add: frame_def sv_response_def)
  have "list_all (located (sv_mem (kernel (sv_io sv_response ()))) (dx_place sv_duplex))
      (responses Little_endian (\<lambda>_. Some echo_request) (\<lambda>_. [9]) (registerService echo_service []) (fst (frames ([] @ ?request))))"
    unfolding frames fst_conv sv_responses
    by (auto simp: located_def sv_duplex_def buffer_bytes_def len size_mod_def sv_io_def heap_of_def intro!: nth_equalityI)
  note served = rpc_server_over_socket [OF sv_laws sv_progress sv_op_def sv_user_def sv_fresh r0 reach _ this, of 11]
  have "cost [sv_response] = 6" by (simp add: cost_def len)
  then have "sv_out (kernel ((duplex_round Little_endian sv_os sv_user sv_inbox 3 ^^ 11) (r0\<lparr>kernel := k\<rparr>))) 3 = sv_response"
    using served unfolding frames fst_conv sv_responses by (simp add: k_def len sv_io_def)
  then show ?thesis
    by (intro exI [of _ "r0\<lparr>kernel := k\<rparr>"]) (simp add: k_def)
qed

end
