(* ===== verification/Rpc_End_To_End.thy ===== *)
theory Rpc_End_To_End
  imports Rpc_Client Rpc_Service
begin

section \<open>A client and a server, each on its own socket\<close>

text \<open>
  The two ends of the RPC library as two processes: a channel and a connection of a server, each on its socket and its reactor
  (\<open>Rpc_Client\<close>, \<open>Rpc_Service\<close>), and the network, which brings what one kernel has taken to the other in pieces
  of any size. Calls are made at any time, also while responses to earlier ones come in; the closure of a call makes no calls itself.
\<close>

subsection \<open>One side\<close>

text \<open>What belongs to one side: its kernel, seen through the functions of \<open>Rpc_Duplex\<close>, and its connection. \<open>sd_deliver\<close> is
  what bytes from the network do to the kernel.\<close>

record ('a, 'k) side =
  sd_endian :: endian
  sd_os :: "'k os"
  sd_mem :: "'k \<Rightarrow> nat \<Rightarrow> u8"
  sd_out :: "'k \<Rightarrow> int \<Rightarrow> bytes"
  sd_interest :: "'k \<Rightarrow> int \<Rightarrow> events option"
  sd_inbox :: "'k \<Rightarrow> int \<Rightarrow> bytes"
  sd_deliver :: "bytes \<Rightarrow> 'k \<Rightarrow> 'k"
  sd_duplex :: "('a, 'k) duplex"
  sd_op :: "(bytes list \<times> 'a) message_op option"
  sd_depth :: nat
  sd_fd :: int

definition sd_user :: "('a, 'k) side \<Rightarrow> (conn_callback, 'k) user" where
  "sd_user S = duplex_user (sd_endian S) (sd_os S) (sd_duplex S) (sd_op S) (sd_depth S)"

definition side_laws :: "('a, 'k) side \<Rightarrow> bool" where
  "side_laws S \<longleftrightarrow>
     duplex_laws (sd_os S) (sd_mem S) (sd_out S) (sd_interest S) (sd_inbox S) (sd_duplex S) \<and>
     duplex_progress (sd_os S) (sd_inbox S) \<and>
     (\<forall>c k. arrives (sd_mem S) (sd_out S) (sd_interest S) (sd_inbox S) (sd_duplex S) (sd_fd S) c k (sd_deliver S c k)) \<and>
     (\<exists>m. sd_depth S = Suc (Suc m))"

definition side_inbox :: "('a, 'k) side \<Rightarrow> (conn_callback, 'k) io \<Rightarrow> bytes" where
  "side_inbox S r = sd_inbox S (kernel r) (sd_fd S)"

definition side_out :: "('a, 'k) side \<Rightarrow> (conn_callback, 'k) io \<Rightarrow> bytes" where
  "side_out S r = sd_out S (kernel r) (sd_fd S)"

definition side_event :: "('a, 'k) side \<Rightarrow> events \<Rightarrow> (conn_callback, 'k) io \<Rightarrow> (conn_callback, 'k) io" where
  "side_event S ev r = dispatch_event (io_call (sd_endian S) (sd_os S) (sd_user S)) (sd_fd S, ev) r"

definition side_deliver :: "('a, 'k) side \<Rightarrow> bytes \<Rightarrow> (conn_callback, 'k) io \<Rightarrow> (conn_callback, 'k) io" where
  "side_deliver S c r = r\<lparr>kernel := sd_deliver S c (kernel r)\<rparr>"

definition side_rounds :: "('a, 'k) side \<Rightarrow> nat \<Rightarrow> (conn_callback, 'k) io \<Rightarrow> (conn_callback, 'k) io" where
  "side_rounds S N r = (duplex_round (sd_endian S) (sd_os S) (sd_user S) (sd_inbox S) (sd_fd S) ^^ N) r"

definition side_call :: "('h channel, 'k) side \<Rightarrow> serialize_message \<Rightarrow> 'h call \<Rightarrow> (conn_callback, 'k) io \<Rightarrow> (conn_callback, 'k) io" where
  "side_call S ser c r = duplex_call (sd_endian S) ser (sd_os S) (sd_user S) (sd_duplex S) c r"

text \<open>A new connection that has sent and received nothing, and \<open>start_recv\<close> on it.\<close>

definition side_start :: "('a, 'k) side \<Rightarrow> 'a \<Rightarrow> (conn_callback, 'k) io \<Rightarrow> (conn_callback, 'k) io \<Rightarrow> bool" where
  "side_start S a0 r1 r0 \<longleftrightarrow>
     duplex_fresh (sd_interest S) (sd_duplex S) (sd_fd S) a0 r1 \<and> side_out S r1 = [] \<and> side_inbox S r1 = [] \<and>
     duplex_start (sd_os S) (sd_user S) (sd_duplex S) (read_buf Connection) r1 = Inr r0"

abbreviation side_at :: "('a, 'k) side \<Rightarrow> (nat \<Rightarrow> u8) \<Rightarrow> bytes \<Rightarrow> bytes \<Rightarrow> bytes list \<Rightarrow> 'a \<Rightarrow> (conn_callback, 'k) io \<Rightarrow> bool" where
  "side_at S memory \<equiv> duplex_at (sd_mem S) (sd_out S) (sd_interest S) (sd_inbox S) (sd_duplex S) (sd_fd S) memory []"

lemma side_lawsE:
  assumes "side_laws S"
  obtains m where "duplex_laws (sd_os S) (sd_mem S) (sd_out S) (sd_interest S) (sd_inbox S) (sd_duplex S)"
    and "duplex_progress (sd_os S) (sd_inbox S)"
    and "\<And>c k. arrives (sd_mem S) (sd_out S) (sd_interest S) (sd_inbox S) (sd_duplex S) (sd_fd S) c k (sd_deliver S c k)"
    and "sd_user S = duplex_user (sd_endian S) (sd_os S) (sd_duplex S) (sd_op S) (Suc (Suc m))"
  using assms unfolding side_laws_def sd_user_def by metis

lemma side_started:
  assumes "side_laws S" and "side_start S a0 r1 r0"
  shows "side_at S (sd_mem S (kernel r1)) [] [] [] a0 r0"
proof (rule side_lawsE [OF assms(1)])
  fix m
  assume laws: "duplex_laws (sd_os S) (sd_mem S) (sd_out S) (sd_interest S) (sd_inbox S) (sd_duplex S)"
    and user: "sd_user S = duplex_user (sd_endian S) (sd_os S) (sd_duplex S) (sd_op S) (Suc (Suc m))"
  have start: "duplex_fresh (sd_interest S) (sd_duplex S) (sd_fd S) a0 r1" "sd_out S (kernel r1) (sd_fd S) = []"
    "sd_inbox S (kernel r1) (sd_fd S) = []" "duplex_start (sd_os S) (sd_user S) (sd_duplex S) (read_buf Connection) r1 = Inr r0"
    using assms(2) by (simp_all add: side_start_def side_out_def side_inbox_def)
  from duplex_started [OF laws start(1) start(4) [unfolded user]] start(2,3) show ?thesis by simp
qed

lemma side_deliver_at:
  assumes "side_laws S" and "side_at S memory arrived got said a r"
  shows "side_at S memory (arrived @ c) got said a (side_deliver S c r)"
  unfolding side_deliver_def by (rule duplex_at_arrival [OF assms(2)]) (use assms(1) in \<open>simp add: side_laws_def\<close>)

lemma side_out_at: "side_at S memory arrived got said a r \<Longrightarrow> \<exists>rest. concat said = side_out S r @ rest"
  using duplex_at_out [of "sd_mem S" "sd_out S"] unfolding side_out_def by (metis append_Nil append_take_drop_id)

lemma side_writable_at:
  assumes "side_laws S" and "side_at S memory arrived got said a r"
  shows "side_at S memory arrived got said a (side_event S EPOLLOUT r)"
proof (rule side_lawsE [OF assms(1)])
  fix m
  assume laws: "duplex_laws (sd_os S) (sd_mem S) (sd_out S) (sd_interest S) (sd_inbox S) (sd_duplex S)"
    "duplex_progress (sd_os S) (sd_inbox S)"
    and user: "sd_user S = duplex_user (sd_endian S) (sd_os S) (sd_duplex S) (sd_op S) (Suc (Suc m))"
  from duplex_at_writable(1) [OF laws user assms(2) refl] show ?thesis
    by (simp add: side_event_def)
qed

lemma side_readable_at:
  assumes "side_laws S" and "sends_only (sd_op S) ok says nxt"
    and "\<forall>d a. ok d a \<longrightarrow> list_all (located memory (dx_place (sd_duplex S))) (says d a)"
    and at: "side_at S memory (got @ rest) got said a r" and "side_inbox S r \<noteq> []" and "length (got @ rest) \<le> 2 ^ 62"
    and "fine ok nxt (new_messages got rest) a"
  shows "\<exists>c rest'. rest = c @ rest' \<and> side_at S memory (got @ rest) (got @ c) (said @ replies says nxt (new_messages got c) a)
      (fold nxt (new_messages got c) a) (side_event S EPOLLIN r)"
proof (rule side_lawsE [OF assms(1)])
  fix m
  assume laws: "duplex_laws (sd_os S) (sd_mem S) (sd_out S) (sd_interest S) (sd_inbox S) (sd_duplex S)"
    "duplex_progress (sd_os S) (sd_inbox S)"
    and user: "sd_user S = duplex_user (sd_endian S) (sd_os S) (sd_duplex S) (sd_op S) (Suc (Suc m))"
  have rest: "rest = sd_inbox S (kernel r) (sd_fd S)"
    using duplex_at_arrived [OF at] by simp
  from duplex_at_readable [OF laws assms(2,3) user at _ assms(6) _ refl] assms(5,7) show ?thesis
    unfolding side_event_def rest side_inbox_def by blast
qed

lemma side_rounds_at:
  assumes "side_laws S" and "sends_only (sd_op S) ok says nxt"
    and "\<forall>d a. ok d a \<longrightarrow> list_all (located memory (dx_place (sd_duplex S))) (says d a)"
    and "side_at S memory (got @ rest) got said a r" and "length (got @ rest) \<le> 2 ^ 62" and "fine ok nxt (new_messages got rest) a"
    and "length rest + cost (said @ replies says nxt (new_messages got rest) a) \<le> N"
  shows "side_at S memory (got @ rest) (got @ rest) (said @ replies says nxt (new_messages got rest) a)
      (fold nxt (new_messages got rest) a) (side_rounds S N r)"
    and "side_out S (side_rounds S N r) = concat (said @ replies says nxt (new_messages got rest) a)"
proof -
  obtain m where user: "sd_user S = duplex_user (sd_endian S) (sd_os S) (sd_duplex S) (sd_op S) (Suc (Suc m))"
    and laws: "duplex_laws (sd_os S) (sd_mem S) (sd_out S) (sd_interest S) (sd_inbox S) (sd_duplex S)" "duplex_progress (sd_os S) (sd_inbox S)"
    using assms(1) by (rule side_lawsE)
  note rounds = duplex_rounds [OF laws assms(2,3) user assms(5,6,4,7) refl]
  show "side_at S memory (got @ rest) (got @ rest) (said @ replies says nxt (new_messages got rest) a)
      (fold nxt (new_messages got rest) a) (side_rounds S N r)"
    using rounds(1) by (simp add: side_rounds_def)
  show "side_out S (side_rounds S N r) = concat (said @ replies says nxt (new_messages got rest) a)"
    using rounds(2) by (simp add: side_rounds_def side_out_def)
qed

subsection \<open>Streams of frames\<close>

text \<open>What a part of a stream of frames contains is a part of the messages.\<close>

lemma frames_prefix:
  assumes "concat (map (frame e) ms) = bs @ rest" and "list_all (\<lambda>d. length d < 2 ^ 32) ms"
  shows "\<exists>later. ms = fst (frames bs) @ later" and "rest = [] \<Longrightarrow> fst (frames bs) = ms"
proof -
  have "frames (bs @ rest) = (ms, [])"
    using frames_frame [OF assms(2), of e "[]"] assms(1) by (simp add: frames_Nil)
  then show "\<exists>later. ms = fst (frames bs) @ later" and "rest = [] \<Longrightarrow> fst (frames bs) = ms"
    using frames_append [of bs rest] by auto
qed

text \<open>The responses to the first requests.\<close>

lemma responses_requests:
  assumes "list_all (carries prs ser) ms" and "map ser ms = ds @ later"
  shows "responses e prs ser services ds = map (\<lambda>r. frame e (ser r)) (answered (answer services) (take (length ds) ms))"
proof -
  have ds: "ds = map ser (take (length ds) ms)"
    using assms(2) by (metis append_eq_conv_conj take_map)
  have "concat (map (answers prs services) (map ser (take (length ds) ms))) = answered (answer services) (take (length ds) ms)"
    by (rule answers_requests) (use assms(1) in \<open>auto simp: carries_def list_all_iff dest: in_set_takeD\<close>)
  then show ?thesis
    by (simp only: responses_def ds [symmetric])
qed

subsection \<open>Both sides\<close>

text \<open>\<open>jn_there\<close> and \<open>jn_back\<close>: what the network has brought to the server and to the client.\<close>

record ('h, 'k, 'j) joint =
  jn_made :: nat
  jn_there :: bytes
  jn_back :: bytes
  jn_client :: "(conn_callback, 'k) io"
  jn_server :: "(conn_callback, 'j) io"

inductive joint_step ::
  "('h channel, 'k) side \<Rightarrow> (unit, 'j) side \<Rightarrow> serialize_message \<Rightarrow> 'h call list \<Rightarrow> ('h, 'k, 'j) joint \<Rightarrow> ('h, 'k, 'j) joint \<Rightarrow> bool"
  for C S ser calls where
  call: "jn_made j < length calls \<Longrightarrow>
    joint_step C S ser calls j (j\<lparr>jn_made := Suc (jn_made j), jn_client := side_call C ser (calls ! jn_made j) (jn_client j)\<rparr>)"
| client_readable: "side_inbox C (jn_client j) \<noteq> [] \<Longrightarrow>
    joint_step C S ser calls j (j\<lparr>jn_client := side_event C EPOLLIN (jn_client j)\<rparr>)"
| client_writable: "joint_step C S ser calls j (j\<lparr>jn_client := side_event C EPOLLOUT (jn_client j)\<rparr>)"
| server_readable: "side_inbox S (jn_server j) \<noteq> [] \<Longrightarrow>
    joint_step C S ser calls j (j\<lparr>jn_server := side_event S EPOLLIN (jn_server j)\<rparr>)"
| server_writable: "joint_step C S ser calls j (j\<lparr>jn_server := side_event S EPOLLOUT (jn_server j)\<rparr>)"
| bring_there: "side_out C (jn_client j) = jn_there j @ c @ rest \<Longrightarrow>
    joint_step C S ser calls j (j\<lparr>jn_there := jn_there j @ c, jn_server := side_deliver S c (jn_server j)\<rparr>)"
| bring_back: "side_out S (jn_server j) = jn_back j @ c @ rest \<Longrightarrow>
    joint_step C S ser calls j (j\<lparr>jn_back := jn_back j @ c, jn_client := side_deliver C c (jn_client j)\<rparr>)"

text \<open>A schedule that brings everything to its end: the client's rounds, the network, the server's rounds, the network, the client's.\<close>

definition joint_rounds :: "('h channel, 'k) side \<Rightarrow> (unit, 'j) side \<Rightarrow> nat \<Rightarrow> ('h, 'k, 'j) joint \<Rightarrow> ('h, 'k, 'j) joint" where
  "joint_rounds C S N j =
     (let c = side_rounds C N (jn_client j);
          s = side_rounds S N (side_deliver S (drop (length (jn_there j)) (side_out C c)) (jn_server j))
      in j\<lparr>jn_there := side_out C c, jn_back := side_out S s,
           jn_client := side_rounds C N (side_deliver C (drop (length (jn_back j)) (side_out S s)) c), jn_server := s\<rparr>)"

definition completed :: "('h channel, 'k) side \<Rightarrow> (conn_callback, 'k) io \<Rightarrow> ('h \<times> bytes) list" where
  "completed C r = ch_completed (snd (dx_conn (sd_duplex C) (kernel r)))"

definition request_strings :: "('h channel, 'k) side \<Rightarrow> serialize_message \<Rightarrow> 'h call list \<Rightarrow> bytes list" where
  "request_strings C ser calls = map (\<lambda>m. frame (sd_endian C) (ser m)) (requests 0 calls)"

definition response_strings :: "(unit, 'j) side \<Rightarrow> serialize_message \<Rightarrow> 'q service_umap \<Rightarrow> 'h call list \<Rightarrow> bytes list" where
  "response_strings S ser services calls = map (\<lambda>r. frame (sd_endian S) (ser r)) (answered (answer services) (requests 0 calls))"

text \<open>The calls fit: the codec knows their messages, the ids do not wrap around, each string is where the connection's queue has it, and no
  stream is longer than the buffers' arithmetic allows.\<close>

definition calls_fit where
  "calls_fit C S prs ser services calls memc mems \<longleftrightarrow>
     length calls < 2 ^ 64 \<and> list_all (carries prs ser) (requests 0 calls) \<and>
     list_all (carries prs ser) (answered (answer services) (requests 0 calls)) \<and>
     list_all (located memc (dx_place (sd_duplex C))) (request_strings C ser calls) \<and>
     list_all (located mems (dx_place (sd_duplex S))) (response_strings S ser services calls) \<and>
     length (concat (request_strings C ser calls)) \<le> 2 ^ 62 \<and> length (concat (response_strings S ser services calls)) \<le> 2 ^ 62"

definition sides_fit where
  "sides_fit C S prs ser services \<longleftrightarrow>
     side_laws C \<and> side_laws S \<and> sd_op C = Some (onMessageOp prs) \<and> sd_op S = Some (server_message_op (sd_endian S) prs ser services)"

subsection \<open>The invariant\<close>

definition client_at where
  "client_at C ser services calls memc n back r \<longleftrightarrow>
     (\<exists>got ch. side_at C memc back got (take n (request_strings C ser calls)) ch r \<and>
        channel_at (answer services) calls n (length (fst (frames got))) ch)"

definition server_at where
  "server_at S prs ser services mems there said r \<longleftrightarrow>
     (\<exists>got. side_at S mems there got said () r \<and> said = responses (sd_endian S) prs ser services (fst (frames got)))"

definition joint_at where
  "joint_at C S prs ser services calls memc mems j \<longleftrightarrow>
     (\<exists>said rest rest'. jn_made j \<le> length calls \<and> client_at C ser services calls memc (jn_made j) (jn_back j) (jn_client j) \<and>
        server_at S prs ser services mems (jn_there j) said (jn_server j) \<and>
        concat (take (jn_made j) (request_strings C ser calls)) = jn_there j @ rest \<and> concat said = jn_back j @ rest')"

text \<open>The streams: what has come to the server are requests, and what the server has said are the responses to some of the calls made.\<close>

lemma there_requests:
  assumes "calls_fit C S prs ser services calls memc mems" and "concat (take n (request_strings C ser calls)) = there @ rest"
  shows "\<exists>ds. map ser (take n (requests 0 calls)) = fst (frames there) @ ds"
    and "rest = [] \<Longrightarrow> fst (frames there) = map ser (take n (requests 0 calls))"
proof -
  have strings: "concat (map (frame (sd_endian C)) (map ser (take n (requests 0 calls)))) = there @ rest"
    using assms(2) by (simp add: request_strings_def take_map comp_def)
  have "list_all (carries prs ser) (requests 0 calls)"
    using assms(1) by (simp add: calls_fit_def)
  then have "list_all (\<lambda>d. length d < 2 ^ 32) (map ser (take n (requests 0 calls)))"
    by (auto simp: list_all_iff carries_def dest: in_set_takeD)
  note parts = frames_prefix [OF strings this]
  show "\<exists>ds. map ser (take n (requests 0 calls)) = fst (frames there) @ ds" by (rule parts(1))
  show "rest = [] \<Longrightarrow> fst (frames there) = map ser (take n (requests 0 calls))" by (rule parts(2))
qed

lemma there_responses:
  assumes fit: "calls_fit C S prs ser services calls memc mems" and "concat (take n (request_strings C ser calls)) = (got @ rest) @ rest'"
  shows "\<exists>m \<le> n. responses (sd_endian S) prs ser services (fst (frames got)) =
      map (\<lambda>r. frame (sd_endian S) (ser r)) (answered (answer services) (take m (requests 0 calls)))"
    and "rest = [] \<Longrightarrow> rest' = [] \<Longrightarrow> responses (sd_endian S) prs ser services (fst (frames got)) =
      map (\<lambda>r. frame (sd_endian S) (ser r)) (answered (answer services) (take n (requests 0 calls)))"
proof -
  have ms: "list_all (carries prs ser) (take n (requests 0 calls))"
    using fit by (auto simp: calls_fit_def list_all_iff dest: in_set_takeD)
  have out: "concat (take n (request_strings C ser calls)) = got @ rest @ rest'" using assms(2) by simp
  obtain ds where ds: "map ser (take n (requests 0 calls)) = fst (frames got) @ ds"
    using there_requests(1) [OF fit out] by blast
  note eq = responses_requests [OF ms ds, of "sd_endian S" services]
  show "\<exists>m \<le> n. responses (sd_endian S) prs ser services (fst (frames got)) =
      map (\<lambda>r. frame (sd_endian S) (ser r)) (answered (answer services) (take m (requests 0 calls)))"
    using eq by (intro exI [of _ "min (length (fst (frames got))) n"]) simp
  assume "rest = []" "rest' = []"
  then have "fst (frames got) = map ser (take n (requests 0 calls))"
    using there_requests(2) [OF fit out] by simp
  then show "responses (sd_endian S) prs ser services (fst (frames got)) =
      map (\<lambda>r. frame (sd_endian S) (ser r)) (answered (answer services) (take n (requests 0 calls)))"
    using eq by (cases "n \<le> length calls") simp_all
qed

text \<open>What has come back to the client.\<close>

lemma back_answers:
  assumes fit: "calls_fit C S prs ser services calls memc mems" and "m \<le> n"
    and "concat (map (\<lambda>r. frame (sd_endian S) (ser r)) (answered (answer services) (take m (requests 0 calls)))) = back @ rest"
  shows "\<exists>k. fst (frames back) = map ser (take k (answered (answer services) (requests 0 calls))) \<and>
      k = length (fst (frames back)) \<and> k \<le> length (answered (answer services) (take n (requests 0 calls)))"
proof -
  let ?A = "answered (answer services)" and ?reqs = "requests 0 calls"
  have strings: "concat (map (frame (sd_endian S)) (map ser (?A (take m ?reqs)))) = back @ rest"
    using assms(3) by (simp add: comp_def)
  obtain l1 where l1: "?A (take n ?reqs) = ?A (take m ?reqs) @ l1"
    using answered_take [of "answer services" "take n ?reqs" m] assms(2) by (auto simp: min_def)
  obtain l2 where l2: "?A ?reqs = ?A (take n ?reqs) @ l2"
    using answered_take by blast
  have "list_all (carries prs ser) (?A ?reqs)"
    using fit by (simp add: calls_fit_def)
  then have "list_all (\<lambda>d. length d < 2 ^ 32) (map ser (?A (take m ?reqs)))"
    by (auto simp: list_all_iff carries_def l1 l2)
  from frames_prefix(1) [OF strings this] obtain ds where ds: "map ser (?A (take m ?reqs)) = fst (frames back) @ ds" by blast
  let ?k = "length (fst (frames back))"
  have "fst (frames back) = take ?k (map ser (?A (take m ?reqs)))" and "?k \<le> length (map ser (?A (take m ?reqs)))"
    by (simp_all only: ds) simp_all
  then show ?thesis
    by (intro exI [of _ ?k]) (simp add: l1 l2 take_map)
qed

subsection \<open>Steps of the server\<close>

lemma server_fits:
  assumes "sides_fit C S prs ser services"
  shows "side_laws S" and "sends_only (sd_op S) (\<lambda>d u. list_all P (server_says (sd_endian S) prs ser services d u))
    (server_says (sd_endian S) prs ser services) (\<lambda>_. id)"
  using assms server_sends_only unfolding sides_fit_def by metis+

lemma server_new:
  assumes fit: "calls_fit C S prs ser services calls memc mems" and "concat (take n (request_strings C ser calls)) = (got @ rest) @ rest'"
  shows "length (got @ rest) \<le> 2 ^ 62"
    and "fine (\<lambda>d u. list_all (located mems (dx_place (sd_duplex S))) (server_says (sd_endian S) prs ser services d u)) (\<lambda>_. id) (new_messages got rest) ()"
    and "responses (sd_endian S) prs ser services (fst (frames (got @ c))) =
      responses (sd_endian S) prs ser services (fst (frames got)) @ replies (server_says (sd_endian S) prs ser services) nxt (new_messages got c) ()"
proof -
  have "request_strings C ser calls = take n (request_strings C ser calls) @ drop n (request_strings C ser calls)" by simp
  then have "length (concat (request_strings C ser calls)) \<ge> length (concat (take n (request_strings C ser calls)))"
    by (metis concat_append le_add1 length_append)
  then show "length (got @ rest) \<le> 2 ^ 62"
    using fit assms(2) by (simp add: calls_fit_def)
  show new: "responses (sd_endian S) prs ser services (fst (frames (got @ c))) =
      responses (sd_endian S) prs ser services (fst (frames got)) @ replies (server_says (sd_endian S) prs ser services) nxt (new_messages got c) ()"
    for c and nxt :: "bytes \<Rightarrow> unit \<Rightarrow> unit"
    by (simp add: frames_new server_replies) (simp add: responses_def)
  have "concat (take n (request_strings C ser calls)) = ((got @ rest) @ []) @ rest'" using assms(2) by simp
  from there_responses(1) [OF fit this] obtain m where
    "responses (sd_endian S) prs ser services (fst (frames (got @ rest))) =
      map (\<lambda>r. frame (sd_endian S) (ser r)) (answered (answer services) (take m (requests 0 calls)))" by blast
  moreover obtain l where "answered (answer services) (requests 0 calls) = answered (answer services) (take m (requests 0 calls)) @ l"
    using answered_take by blast
  ultimately have "list_all (located mems (dx_place (sd_duplex S))) (responses (sd_endian S) prs ser services (fst (frames (got @ rest))))"
    using fit by (simp add: calls_fit_def response_strings_def)
  then show "fine (\<lambda>d u. list_all (located mems (dx_place (sd_duplex S))) (server_says (sd_endian S) prs ser services d u)) (\<lambda>_. id) (new_messages got rest) ()"
    by (simp add: server_fine frames_new) (simp add: responses_def)
qed

lemma server_in:
  assumes sides: "sides_fit C S prs ser services" and fit: "calls_fit C S prs ser services calls memc mems"
    and at: "server_at S prs ser services mems there said r" and there: "concat (take n (request_strings C ser calls)) = there @ rest"
    and inbox: "side_inbox S r \<noteq> []"
  shows "\<exists>x. server_at S prs ser services mems there (said @ x) (side_event S EPOLLIN r)"
proof -
  obtain got where got: "side_at S mems there got said () r" "said = responses (sd_endian S) prs ser services (fst (frames got))"
    using at unfolding server_at_def by blast
  obtain new where new: "there = got @ new"
    using duplex_at_arrived [OF got(1)] by blast
  note ready = server_new [OF fit there [unfolded new]]
  obtain c where "side_at S mems (got @ new) (got @ c)
      (said @ replies (server_says (sd_endian S) prs ser services) (\<lambda>_. id) (new_messages got c) ()) () (side_event S EPOLLIN r)"
    using side_readable_at [OF server_fits [OF sides] _ got(1) [unfolded new] inbox ready(1,2)] by auto
  then show ?thesis
    using ready(3) got(2) new unfolding server_at_def by metis
qed

lemma server_all:
  assumes sides: "sides_fit C S prs ser services" and fit: "calls_fit C S prs ser services calls memc mems"
    and at: "server_at S prs ser services mems there said r" and there: "concat (request_strings C ser calls) = there"
    and N: "length there + cost (response_strings S ser services calls) \<le> N"
  shows "server_at S prs ser services mems there (response_strings S ser services calls) (side_rounds S N r)"
    and "side_out S (side_rounds S N r) = concat (response_strings S ser services calls)"
proof -
  obtain got where got: "side_at S mems there got said () r" "said = responses (sd_endian S) prs ser services (fst (frames got))"
    using at unfolding server_at_def by blast
  obtain new where new: "there = got @ new"
    using duplex_at_arrived [OF got(1)] by blast
  have all: "concat (take (length calls) (request_strings C ser calls)) = (got @ new) @ []"
    using there new by (simp add: request_strings_def)
  note ready = server_new [OF fit all]
  have "responses (sd_endian S) prs ser services (fst (frames (got @ new))) = response_strings S ser services calls"
    using there_responses(2) [where got = "got @ new" and rest = "[]" and rest' = "[]", OF fit] all by (simp add: response_strings_def)
  then have said: "said @ replies (server_says (sd_endian S) prs ser services) (\<lambda>_. id) (new_messages got new) () = response_strings S ser services calls"
    and resp: "responses (sd_endian S) prs ser services (fst (frames there)) = response_strings S ser services calls"
    using ready(3) got(2) new by simp_all
  have bound: "length new + cost (said @ replies (server_says (sd_endian S) prs ser services) (\<lambda>_. id) (new_messages got new) ()) \<le> N"
    using N by (simp add: said new)
  note rounds = side_rounds_at [OF server_fits [OF sides] _ got(1) [unfolded new] ready(1,2) bound, unfolded said]
  show "server_at S prs ser services mems there (response_strings S ser services calls) (side_rounds S N r)"
    using rounds(1) resp unfolding server_at_def new by fastforce
  show "side_out S (side_rounds S N r) = concat (response_strings S ser services calls)"
    using rounds(2) by simp
qed

lemma server_out: "sides_fit C S prs ser services \<Longrightarrow> server_at S prs ser services mems there said r \<Longrightarrow>
    server_at S prs ser services mems there said (side_event S EPOLLOUT r)"
  unfolding server_at_def sides_fit_def by (auto intro: side_writable_at)

lemma server_deliver: "sides_fit C S prs ser services \<Longrightarrow> server_at S prs ser services mems there said r \<Longrightarrow>
    server_at S prs ser services mems (there @ c) said (side_deliver S c r)"
  unfolding server_at_def sides_fit_def by (auto intro: side_deliver_at)

lemma server_stream:
  assumes fit: "calls_fit C S prs ser services calls memc mems" and at: "server_at S prs ser services mems there said r"
    and there: "concat (take n (request_strings C ser calls)) = there @ rest"
  shows "\<exists>m \<le> n. said = map (\<lambda>r. frame (sd_endian S) (ser r)) (answered (answer services) (take m (requests 0 calls)))"
proof -
  obtain got where got: "side_at S mems there got said () r" "said = responses (sd_endian S) prs ser services (fst (frames got))"
    using at unfolding server_at_def by blast
  obtain new where "there = got @ new"
    using duplex_at_arrived [OF got(1)] by blast
  from there_responses(1) [OF fit there [unfolded this]] show ?thesis
    using got(2) by simp
qed

lemma server_taken: "server_at S prs ser services mems there said r \<Longrightarrow> \<exists>rest. concat said = side_out S r @ rest"
  unfolding server_at_def by (auto dest: side_out_at)

subsection \<open>Steps of the client\<close>

lemma client_fits:
  assumes "sides_fit C S prs ser services"
  shows "side_laws C" and "sends_only (sd_op C) (client_ok prs) (\<lambda>_ _. []) (client_next prs)"
    and "\<forall>d a. client_ok prs d a \<longrightarrow> list_all P []"
  using assms client_sends_only unfolding sides_fit_def by auto

lemma client_new:
  assumes fit: "calls_fit C S prs ser services calls memc mems" and at: "channel_at (answer services) calls n (length (fst (frames got))) ch"
    and n: "m \<le> n" "n \<le> length calls"
    and from_server: "concat (map (\<lambda>r. frame (sd_endian S) (ser r)) (answered (answer services) (take m (requests 0 calls)))) = (got @ rest) @ rest'"
  shows "length (got @ rest) \<le> 2 ^ 62" and "fine (client_ok prs) (client_next prs) (new_messages got rest) ch"
    and "channel_at (answer services) calls n (length (fst (frames (got @ rest)))) (fold (client_next prs) (new_messages got rest) ch)"
proof -
  let ?A = "answered (answer services)" and ?reqs = "requests 0 calls" and ?j = "length (fst (frames got))" and ?ds = "new_messages got rest"
  obtain l where l: "?A ?reqs = ?A (take m ?reqs) @ l"
    using answered_take by blast
  have "concat (response_strings S ser services calls) = ((got @ rest) @ rest') @ concat (map (\<lambda>r. frame (sd_endian S) (ser r)) l)"
    unfolding response_strings_def l map_append concat_append from_server ..
  then show "length (got @ rest) \<le> 2 ^ 62"
    using fit by (simp add: calls_fit_def)
  obtain k where k: "fst (frames (got @ rest)) = map ser (take k (?A ?reqs))" "k = length (fst (frames (got @ rest)))" "k \<le> length (?A (take n ?reqs))"
    using back_answers [OF fit n(1) from_server] by blast
  have len: "?j + length ?ds = k"
    using k(2) by (simp only: frames_new length_append)
  have "fst (frames got) @ ?ds = map ser (take (?j + length ?ds) (?A ?reqs))"
    using k(1) unfolding len frames_new .
  then have "drop ?j (fst (frames got) @ ?ds) = drop ?j (map ser (take (?j + length ?ds) (?A ?reqs)))"
    by (rule arg_cong)
  then have "?ds = map ser (take (length ?ds) (drop ?j (?A ?reqs)))"
    by (simp add: drop_map drop_take)
  moreover have "\<forall>r \<in> set (?A ?reqs). prs (ser r) = Some r" "length calls < 2 ^ 64"
    using fit by (simp_all add: calls_fit_def list_all_iff carries_def)
  ultimately have "fine (client_ok prs) (client_next prs) ?ds ch \<and>
      channel_at (answer services) calls n (?j + length ?ds) (fold (client_next prs) ?ds ch)"
    using channel_at_responses [OF _ n(2) _ at] k(3) len by blast
  then show "fine (client_ok prs) (client_next prs) ?ds ch"
    and "channel_at (answer services) calls n (length (fst (frames (got @ rest)))) (fold (client_next prs) ?ds ch)"
    using k(2) len by simp_all
qed

lemma client_in:
  assumes sides: "sides_fit C S prs ser services" and fit: "calls_fit C S prs ser services calls memc mems"
    and at: "client_at C ser services calls memc n back r" and n: "m \<le> n" "n \<le> length calls"
    and from_server: "concat (map (\<lambda>r. frame (sd_endian S) (ser r)) (answered (answer services) (take m (requests 0 calls)))) = back @ rest'"
    and inbox: "side_inbox C r \<noteq> []"
  shows "client_at C ser services calls memc n back (side_event C EPOLLIN r)"
proof -
  obtain got ch where got: "side_at C memc back got (take n (request_strings C ser calls)) ch r"
    and ch: "channel_at (answer services) calls n (length (fst (frames got))) ch"
    using at unfolding client_at_def by blast
  obtain new where new: "back = got @ new"
    using duplex_at_arrived [OF got] by blast
  note ready = client_new [OF fit ch n from_server [unfolded new]]
  obtain c c' where c: "new = c @ c'" "side_at C memc (got @ new) (got @ c) (take n (request_strings C ser calls))
      (fold (client_next prs) (new_messages got c) ch) (side_event C EPOLLIN r)"
    using side_readable_at [OF client_fits [OF sides] got [unfolded new] inbox ready(1,2)] by auto
  have "channel_at (answer services) calls n (length (fst (frames (got @ c)))) (fold (client_next prs) (new_messages got c) ch)"
    by (rule client_new(3) [OF fit ch n, where rest' = "c' @ rest'"]) (use from_server new c(1) in simp)
  then show ?thesis
    using c(2) new unfolding client_at_def by blast
qed

lemma client_all:
  assumes sides: "sides_fit C S prs ser services" and fit: "calls_fit C S prs ser services calls memc mems"
    and at: "client_at C ser services calls memc n back r" and n: "m \<le> n" "n \<le> length calls"
    and from_server: "concat (map (\<lambda>r. frame (sd_endian S) (ser r)) (answered (answer services) (take m (requests 0 calls)))) = back @ rest'"
    and N: "length back + cost (request_strings C ser calls) \<le> N"
  shows "client_at C ser services calls memc n back (side_rounds C N r)"
    and "n = length calls \<Longrightarrow> side_out C (side_rounds C N r) = concat (request_strings C ser calls)"
    and "completed C (side_rounds C N r) =
      take (length (fst (frames back))) (completions (answer services) (requests 0 calls) calls)"
proof -
  let ?said = "take n (request_strings C ser calls)"
  obtain got ch where got: "side_at C memc back got ?said ch r"
    and ch: "channel_at (answer services) calls n (length (fst (frames got))) ch"
    using at unfolding client_at_def by blast
  obtain new where new: "back = got @ new"
    using duplex_at_arrived [OF got] by blast
  note ready = client_new [OF fit ch n from_server [unfolded new]]
  have "cost ?said \<le> cost (request_strings C ser calls)"
    using append_take_drop_id [of n "request_strings C ser calls"] unfolding cost_def
    by (metis le_add1 map_append sum_list_append)
  then have "length new + cost (?said @ replies (\<lambda>_ _. []) (client_next prs) (new_messages got new) ch) \<le> N"
    using N by (simp add: new)
  note rounds = side_rounds_at [OF client_fits [OF sides] got [unfolded new] ready(1,2) this, unfolded no_replies append_Nil2]
  show "client_at C ser services calls memc n back (side_rounds C N r)"
    using rounds(1) ready(3) unfolding client_at_def new by blast
  show "side_out C (side_rounds C N r) = concat (request_strings C ser calls)" if "n = length calls"
    using rounds(2) that by (simp add: request_strings_def)
  show "completed C (side_rounds C N r) =
      take (length (fst (frames back))) (completions (answer services) (requests 0 calls) calls)"
    by (rule duplex_atE [OF rounds(1)]) (use ready(3) in \<open>simp add: completed_def channel_at_def new\<close>)
qed

lemma client_out: "sides_fit C S prs ser services \<Longrightarrow> client_at C ser services calls memc n back r \<Longrightarrow>
    client_at C ser services calls memc n back (side_event C EPOLLOUT r)"
  unfolding client_at_def sides_fit_def by (auto intro: side_writable_at)

lemma client_deliver: "sides_fit C S prs ser services \<Longrightarrow> client_at C ser services calls memc n back r \<Longrightarrow>
    client_at C ser services calls memc n (back @ c) (side_deliver C c r)"
  unfolding client_at_def sides_fit_def by (auto intro: side_deliver_at)

lemma client_taken: "client_at C ser services calls memc n back r \<Longrightarrow> \<exists>rest. concat (take n (request_strings C ser calls)) = side_out C r @ rest"
  unfolding client_at_def by (auto dest: side_out_at)

lemma client_call:
  assumes sides: "sides_fit C S prs ser services" and fit: "calls_fit C S prs ser services calls memc mems"
    and at: "client_at C ser services calls memc n back r" and n: "n < length calls"
  shows "client_at C ser services calls memc (Suc n) back (side_call C ser (calls ! n) r)"
proof -
  obtain got ch where got: "side_at C memc back got (take n (request_strings C ser calls)) ch r"
    and ch: "channel_at (answer services) calls n (length (fst (frames got))) ch"
    using at unfolding client_at_def by blast
  obtain m where laws: "duplex_laws (sd_os C) (sd_mem C) (sd_out C) (sd_interest C) (sd_inbox C) (sd_duplex C)"
    and user: "sd_user C = duplex_user (sd_endian C) (sd_os C) (sd_duplex C) (sd_op C) (Suc (Suc m))"
    using client_fits(1) [OF sides] by (rule side_lawsE)
  have conn: "snd (dx_conn (sd_duplex C) (kernel r)) = ch"
    by (rule duplex_atE [OF got]) simp
  have len: "length calls < 2 ^ 64" and inv: "channel_inv ch" and next_id: "id_allocator ch = of_nat n"
    using fit ch by (simp_all add: calls_fit_def channel_at_def)
  have "id_allocator ch \<noteq> -1"
  proof
    assume "id_allocator ch = -1"
    then have "n = unat (-1 :: u64)"
      using unat_of_nat_len [of n] n len by (simp add: next_id)
    then show False
      using n len by (simp add: unsigned_minus_1_eq_mask mask_eq_exp_minus_1)
  qed
  from duplex_call_sends [where w = "sd_duplex C" and r = r and e = "sd_endian C" and ser = ser and os = "sd_os C" and user = "sd_user C"
      and c = "calls ! n", unfolded conn, OF inv this, folded side_call_def] obtain ch' ds where
    ds: "ds = [frame (sd_endian C) (ser (call_request (id_allocator ch) (call_service (calls ! n)) (call_method (calls ! n)) (call_args (calls ! n))))]"
    and r': "side_call C ser (calls ! n) r = fold (duplex_perform (sd_os C) (sd_user C) (sd_duplex C))
      (if dx_queue (sd_duplex C) (kernel r) = [] \<and> ds \<noteq> [] then [Async_write (hd ds)] else [])
      (r\<lparr>kernel := dx_set_conn (sd_duplex C) (fst (dx_conn (sd_duplex C) (kernel r)), ch')
        (dx_put (sd_duplex C) (dx_queue (sd_duplex C) (kernel r) @ ds) (kernel r))\<rparr>)"
    and ch': "channel_inv ch'" "id_allocator ch' = id_allocator ch + 1" "ch_completed ch' = ch_completed ch"
      "\<forall>i. umap_find i (id_method_umap ch') = (if i = id_allocator ch then Some (Some (call_handle (calls ! n))) else umap_find i (id_method_umap ch))"
    by (elim exE conjE) (rule that)
  have one: "ds = [request_strings C ser calls ! n]"
    using n by (simp add: ds request_strings_def requests_nth next_id)
  have "n < length (request_strings C ser calls)"
    using n by (simp add: request_strings_def)
  moreover have "list_all (located memc (dx_place (sd_duplex C))) (request_strings C ser calls)"
    using fit by (simp only: calls_fit_def)
  ultimately have "located memc (dx_place (sd_duplex C)) (request_strings C ser calls ! n)"
    by (simp only: list_all_length)
  then have "list_all (located memc (dx_place (sd_duplex C))) ds"
    unfolding one by simp
  note sent = duplex_at_send [OF laws got this r' [unfolded user]]
  have "take (Suc n) (request_strings C ser calls) = take n (request_strings C ser calls) @ ds"
    unfolding one by (rule take_Suc_conv_app_nth) (use n in \<open>simp add: request_strings_def\<close>)
  with sent have "side_at C memc back got (take (Suc n) (request_strings C ser calls)) ch' (side_call C ser (calls ! n) r)"
    by (simp only:)
  moreover have "channel_at (answer services) calls (Suc n) (length (fst (frames got))) ch'"
    by (rule channel_at_call [OF ch n len ch'])
  ultimately show ?thesis
    unfolding client_at_def by blast
qed

lemma client_completed:
  assumes "client_at C ser services calls memc n back r"
  shows "\<exists>open. completions (answer services) (requests 0 calls) calls = completed C r @ open"
proof -
  obtain got ch where got: "side_at C memc back got (take n (request_strings C ser calls)) ch r"
    and ch: "channel_at (answer services) calls n (length (fst (frames got))) ch"
    using assms unfolding client_at_def by blast
  have "completed C r = ch_completed ch"
    by (rule duplex_atE [OF got]) (simp add: completed_def)
  then show ?thesis
    using ch by (metis channel_at_def append_take_drop_id)
qed

subsection \<open>Steps of both\<close>

lemma joint_at_step:
  assumes sides: "sides_fit C S prs ser services" and fit: "calls_fit C S prs ser services calls memc mems"
    and "joint_step C S ser calls j j'" and "joint_at C S prs ser services calls memc mems j"
  shows "joint_at C S prs ser services calls memc mems j'"
proof -
  obtain said rest rest' where n: "jn_made j \<le> length calls"
    and client: "client_at C ser services calls memc (jn_made j) (jn_back j) (jn_client j)"
    and server: "server_at S prs ser services mems (jn_there j) said (jn_server j)"
    and there: "concat (take (jn_made j) (request_strings C ser calls)) = jn_there j @ rest"
    and from_server: "concat said = jn_back j @ rest'"
    using assms(4) unfolding joint_at_def by blast
  obtain m where m: "m \<le> jn_made j" "said = map (\<lambda>r. frame (sd_endian S) (ser r)) (answered (answer services) (take m (requests 0 calls)))"
    using server_stream [OF fit server there] by blast
  show ?thesis
    using assms(3)
  proof cases
    case call
    have "concat (take (Suc (jn_made j)) (request_strings C ser calls)) =
        jn_there j @ rest @ request_strings C ser calls ! jn_made j"
      using call(2) there by (simp add: take_Suc_conv_app_nth request_strings_def)
    then show ?thesis
      using call client_call [OF sides fit client call(2)] server from_server unfolding joint_at_def by auto
  next
    case client_readable
    then show ?thesis
      using client_in [OF sides fit client m(1) n from_server [unfolded m(2)]] n server there from_server
      unfolding joint_at_def by auto
  next
    case client_writable
    then show ?thesis
      using client_out [OF sides client] n server there from_server unfolding joint_at_def by auto
  next
    case server_readable
    obtain x where "server_at S prs ser services mems (jn_there j) (said @ x) (side_event S EPOLLIN (jn_server j))"
      using server_in [OF sides fit server there server_readable(2)] by blast
    then show ?thesis
      using server_readable(1) n client there from_server unfolding joint_at_def by auto
  next
    case server_writable
    then show ?thesis
      using server_out [OF sides server] n client there from_server unfolding joint_at_def by auto
  next
    case (bring_there c out_rest)
    obtain left where "concat (take (jn_made j) (request_strings C ser calls)) = side_out C (jn_client j) @ left"
      using client_taken [OF client] by blast
    then show ?thesis
      using bring_there server_deliver [OF sides server, of c] n client from_server unfolding joint_at_def by auto
  next
    case (bring_back c out_rest)
    obtain left where "concat said = side_out S (jn_server j) @ left"
      using server_taken [OF server] by blast
    then show ?thesis
      using bring_back client_deliver [OF sides client, of c] n server there unfolding joint_at_def by auto
  qed
qed

lemma joint_at_steps:
  assumes "sides_fit C S prs ser services" and "calls_fit C S prs ser services calls memc mems"
    and "(joint_step C S ser calls)\<^sup>*\<^sup>* j j'" and "joint_at C S prs ser services calls memc mems j"
  shows "joint_at C S prs ser services calls memc mems j'"
  using assms(3,4) by (induction rule: rtranclp_induct) (use joint_at_step [OF assms(1,2)] in blast)+

lemma joint_at_start:
  assumes "sides_fit C S prs ser services"
    and "side_start C (Channel\<lparr>ch_is_connected := True\<rparr>) rc rc0" and "side_start S () rs rs0"
  shows "joint_at C S prs ser services calls (sd_mem C (kernel rc)) (sd_mem S (kernel rs))
    \<lparr>jn_made = 0, jn_there = [], jn_back = [], jn_client = rc0, jn_server = rs0\<rparr>"
proof -
  have "side_at C (sd_mem C (kernel rc)) [] [] [] (Channel\<lparr>ch_is_connected := True\<rparr>) rc0"
    by (rule side_started [OF _ assms(2)]) (use assms(1) in \<open>simp add: sides_fit_def\<close>)
  moreover have "side_at S (sd_mem S (kernel rs)) [] [] [] () rs0"
    by (rule side_started [OF _ assms(3)]) (use assms(1) in \<open>simp add: sides_fit_def\<close>)
  ultimately have "client_at C ser services calls (sd_mem C (kernel rc)) 0 [] rc0" "server_at S prs ser services (sd_mem S (kernel rs)) [] [] rs0"
    unfolding client_at_def server_at_def using channel_at_new [of "answer services" calls]
    by (auto simp: frames_Nil responses_def intro!: exI [of _ "[]"])
  then show ?thesis
    by (auto simp: joint_at_def)
qed

lemma joint_at_rounds:
  assumes sides: "sides_fit C S prs ser services" and fit: "calls_fit C S prs ser services calls memc mems"
    and "joint_at C S prs ser services calls memc mems j" and all: "jn_made j = length calls"
    and N: "cost (request_strings C ser calls) + cost (response_strings S ser services calls) \<le> N"
  shows "completed C (jn_client (joint_rounds C S N j)) = completions (answer services) (requests 0 calls) calls"
proof -
  let ?reqs = "request_strings C ser calls" and ?resps = "response_strings S ser services calls"
  obtain said rest rest' where client: "client_at C ser services calls memc (length calls) (jn_back j) (jn_client j)"
    and server: "server_at S prs ser services mems (jn_there j) said (jn_server j)"
    and there: "concat (take (length calls) ?reqs) = jn_there j @ rest" and from_server: "concat said = jn_back j @ rest'"
    using assms(3) all unfolding joint_at_def by auto
  obtain m where m: "m \<le> length calls" "said = map (\<lambda>r. frame (sd_endian S) (ser r)) (answered (answer services) (take m (requests 0 calls)))"
    using server_stream [OF fit server there] by blast
  obtain l where l: "answered (answer services) (requests 0 calls) = answered (answer services) (take m (requests 0 calls)) @ l"
    using answered_take by blast
  have bytes: "length (concat ds) \<le> cost ds" for ds
    by (induction ds) (simp_all add: cost_def)
  have resps: "concat ?resps = jn_back j @ rest' @ concat (map (\<lambda>r. frame (sd_endian S) (ser r)) l)"
    using from_server by (simp add: response_strings_def l m(2))
  define c where "c = side_rounds C N (jn_client j)"
  have "length (jn_back j) \<le> cost ?resps"
    using bytes [of ?resps] by (simp add: resps)
  then have c: "client_at C ser services calls memc (length calls) (jn_back j) c" "side_out C c = concat ?reqs"
    using client_all(1,2) [OF sides fit client m(1) order_refl from_server [unfolded m(2)], of N] N by (simp_all add: c_def)
  define s where "s = side_rounds S N (side_deliver S (drop (length (jn_there j)) (side_out C c)) (jn_server j))"
  have "jn_there j @ drop (length (jn_there j)) (side_out C c) = concat ?reqs"
    using there c(2) by (simp add: request_strings_def)
  then have "server_at S prs ser services mems (concat ?reqs) said (side_deliver S (drop (length (jn_there j)) (side_out C c)) (jn_server j))"
    using server_deliver [OF sides server] by metis
  then have s: "side_out S s = concat ?resps"
    unfolding s_def by (rule server_all(2) [OF sides fit _ refl]) (use bytes [of ?reqs] N in simp)
  have eq: "jn_back j @ drop (length (jn_back j)) (side_out S s) = concat ?resps"
    by (simp add: s resps)
  have last: "client_at C ser services calls memc (length calls) (concat ?resps) (side_deliver C (drop (length (jn_back j)) (side_out S s)) c)"
    using client_deliver [OF sides c(1)] eq by metis
  have strings: "concat (map (\<lambda>r. frame (sd_endian S) (ser r)) (answered (answer services) (take (length calls) (requests 0 calls)))) =
      concat ?resps @ []"
    by (simp add: response_strings_def)
  have "frames (concat (map (frame (sd_endian S)) (map ser (answered (answer services) (requests 0 calls)))) @ []) =
      (map ser (answered (answer services) (requests 0 calls)) @ fst (frames []), snd (frames []))"
    by (rule frames_frame) (use fit in \<open>simp add: calls_fit_def list_all_iff carries_def\<close>)
  then have "fst (frames (concat ?resps)) = map ser (answered (answer services) (requests 0 calls))"
    by (simp add: response_strings_def comp_def frames_Nil)
  then have "completed C (side_rounds C N (side_deliver C (drop (length (jn_back j)) (side_out S s)) c)) =
      completions (answer services) (requests 0 calls) calls"
    using client_all(3) [OF sides fit last order_refl order_refl strings, of N] bytes [of ?resps] N
    by (simp add: answered_length)
  then show ?thesis
    by (simp add: joint_rounds_def Let_def c_def [symmetric] s_def [symmetric])
qed

subsection \<open>The property\<close>

text \<open>C1: A channel and a server on its new connection, each in its process, with a network that brings what the kernels take in pieces
  of any size: whatever the order of calls, events and deliveries, at any moment the calls that are completed are the first of those the
  services answer, each once, in the order of the calls and with the bytes the server answered to that very call. When all calls are made,
  and the client, the network, the server, the network and the client have their turn, with at least as many rounds of the loops as
  there are bytes to send plus one for each string, every call the services answer is completed.\<close>

theorem rpc_end_to_end:
  assumes "sides_fit C S prs ser services"
    and "calls_fit C S prs ser services calls (sd_mem C (kernel rc)) (sd_mem S (kernel rs))"
    and "side_start C (Channel\<lparr>ch_is_connected := True\<rparr>) rc rc0" and "side_start S () rs rs0"
    and "(joint_step C S ser calls)\<^sup>*\<^sup>* \<lparr>jn_made = 0, jn_there = [], jn_back = [], jn_client = rc0, jn_server = rs0\<rparr> j"
  shows "(\<exists>open. completions (answer services) (requests 0 calls) calls = completed C (jn_client j) @ open) \<and>
    (jn_made j = length calls \<longrightarrow> cost (request_strings C ser calls) + cost (response_strings S ser services calls) \<le> N \<longrightarrow>
       completed C (jn_client (joint_rounds C S N j)) = completions (answer services) (requests 0 calls) calls)"
proof -
  have at: "joint_at C S prs ser services calls (sd_mem C (kernel rc)) (sd_mem S (kernel rs)) j"
    by (rule joint_at_steps [OF assms(1,2,5) joint_at_start [OF assms(1,3,4)]])
  then obtain n bs where "client_at C ser services calls (sd_mem C (kernel rc)) n bs (jn_client j)"
    unfolding joint_at_def by blast
  then show ?thesis
    using client_completed joint_at_rounds [OF assms(1,2) at] by blast
qed

text \<open>One call of the echo service, by a big-endian client and a little-endian server.\<close>

definition echo_services :: "bytes service_umap" where
  "echo_services = registerService echo_service []"

definition sv_side :: "endian \<Rightarrow> (bytes list \<times> 'a) message_op \<Rightarrow> ('a, 'a service_kernel) side" where
  "sv_side e op =
     \<lparr>sd_endian = e, sd_os = sv_os, sd_mem = sv_mem, sd_out = sv_out, sd_interest = sv_interest, sd_inbox = sv_inbox,
      sd_deliver = (\<lambda>c k. k\<lparr>sv_inbox := (sv_inbox k)(3 := sv_inbox k 3 @ c)\<rparr>), sd_duplex = sv_duplex, sd_op = Some op, sd_depth = 2, sd_fd = 3\<rparr>"

definition echo_client :: "(nat channel, nat channel service_kernel) side" where
  "echo_client = sv_side Big_endian (onMessageOp echo_prs)"

definition echo_server :: "(unit, unit service_kernel) side" where
  "echo_server = sv_side Little_endian (server_message_op Little_endian echo_prs echo_ser echo_services)"

lemma sv_side_laws: "side_laws (sv_side e op)"
  using sv_laws sv_progress by (auto simp: side_laws_def sv_side_def arrives_def sv_duplex_def numeral_2_eq_2)

lemma sv_side_start: "\<exists>r. side_start (sv_side e op) a (sv_io bs a) r"
proof -
  have "\<exists>b n. start_recv (read_buf Connection) = Inr (b, [Async_read n])"
    using start_recv_ready [of "DynamicBuffer 1024" 100]
    by (simp add: Connection_def DynamicBuffer_inv) (auto simp: DynamicBuffer_def)
  then show ?thesis
    using sv_fresh by (auto simp: side_start_def sv_side_def side_out_def side_inbox_def sv_io_def duplex_start_def)
qed

lemma echo_sides: "sides_fit echo_client echo_server echo_prs echo_ser echo_services"
  unfolding sides_fit_def echo_client_def echo_server_def by (intro conjI sv_side_laws) (simp_all add: sv_side_def)

lemma echo_requests: "requests 0 [echo_call] = [call_request 0 ''Echo'' ''Call'' [1, 2]]"
  "answered (answer echo_services) [call_request 0 ''Echo'' ''Call'' [1, 2]] = [success_response 0 [1, 2]]"
  using echo_call_answer by (simp_all add: echo_call_def answered_def echo_services_def)

lemma echo_strings: "request_strings echo_client echo_ser [echo_call] = [frame Big_endian [1]]"
  "response_strings echo_server echo_ser echo_services [echo_call] = [frame Little_endian [2]]"
  unfolding request_strings_def response_strings_def echo_requests
  by (simp_all add: echo_client_def echo_server_def sv_side_def echo_ser_def call_request_def success_response_def rpc_constants)

lemma echo_located: "length bs = 5 \<Longrightarrow> located (heap_of bs) (dx_place sv_duplex) bs"
  by (auto simp: located_def sv_duplex_def buffer_bytes_def size_mod_def heap_of_def intro!: nth_equalityI)

lemma echo_fit: "calls_fit echo_client echo_server echo_prs echo_ser echo_services [echo_call]
    (heap_of (frame Big_endian [1])) (heap_of (frame Little_endian [2]))"
proof -
  have len: "length (frame e [b]) = 5" for e b by (simp add: frame_def)
  have "sd_duplex echo_client = sv_duplex" "sd_duplex echo_server = sv_duplex"
    by (simp_all add: echo_client_def echo_server_def sv_side_def)
  then show ?thesis
    unfolding calls_fit_def echo_strings echo_requests
    by (simp add: len echo_located carries_def echo_prs_def echo_ser_def call_request_def success_response_def rpc_constants)
qed

theorem rpc_end_to_end_witness:
  "\<exists>j. jn_made j = 1 \<and> completed echo_client (jn_client (joint_rounds echo_client echo_server 12 j)) = [(5, [1, 2])]"
proof -
  let ?rc = "sv_io (frame Big_endian [1]) (Channel\<lparr>ch_is_connected := True\<rparr>) :: (conn_callback, nat channel service_kernel) io"
  let ?rs = "sv_io (frame Little_endian [2]) () :: (conn_callback, unit service_kernel) io"
  obtain rc0 rs0 where start: "side_start echo_client (Channel\<lparr>ch_is_connected := True\<rparr>) ?rc rc0" "side_start echo_server () ?rs rs0"
    using sv_side_start unfolding echo_client_def echo_server_def by metis
  define j0 where "j0 = \<lparr>jn_made = 0, jn_there = [], jn_back = [], jn_client = rc0, jn_server = rs0\<rparr>"
  define j where "j = j0\<lparr>jn_made := Suc (jn_made j0), jn_client := side_call echo_client echo_ser ([echo_call] ! jn_made j0) (jn_client j0)\<rparr>"
  have "joint_step echo_client echo_server echo_ser [echo_call] j0 j"
    unfolding j_def by (rule joint_step.call) (simp add: j0_def)
  then have reach: "(joint_step echo_client echo_server echo_ser [echo_call])\<^sup>*\<^sup>*
      \<lparr>jn_made = 0, jn_there = [], jn_back = [], jn_client = rc0, jn_server = rs0\<rparr> j"
    by (simp add: j0_def)
  have "sd_mem echo_client (kernel ?rc) = heap_of (frame Big_endian [1])" "sd_mem echo_server (kernel ?rs) = heap_of (frame Little_endian [2])"
    by (simp_all add: echo_client_def echo_server_def sv_side_def sv_io_def)
  then have fit: "calls_fit echo_client echo_server echo_prs echo_ser echo_services [echo_call]
      (sd_mem echo_client (kernel ?rc)) (sd_mem echo_server (kernel ?rs))"
    using echo_fit by simp
  have made: "jn_made j = 1" by (simp add: j_def j0_def)
  have "cost [frame Big_endian [1]] + cost [frame Little_endian [2]] \<le> 12"
    by (simp add: cost_def frame_def)
  then have "completed echo_client (jn_client (joint_rounds echo_client echo_server 12 j)) =
      completions (answer echo_services) (requests 0 [echo_call]) [echo_call]"
    using rpc_end_to_end [OF echo_sides fit start reach, of 12] made by (simp add: echo_strings)
  also have "\<dots> = [(5, [1, 2])]"
    unfolding echo_requests using echo_call_answer
    by (simp add: completions_def echo_services_def success_response_def echo_call_def get_response_def)
  finally show ?thesis
    using made by blast
qed

end
