(* ===== verification/Http_Session.thy ===== *)
theory Http_Session
  imports Http_Connection
begin

section \<open>A session of the example HTTP server\<close>

text \<open>
  A connection with the reads and writes its socket has not completed yet, what was given to the socket, and how often it was shut down.
  The events are the completions, in any order; one that does not match anything outstanding is left out. The lemmas show what a
  connection has answered after any events, and that it never waits for nothing.
\<close>

record 's http_run =
  hx_conn :: "'s http_connection"
  hx_state :: 's
  hx_reading :: "nat list"
  hx_writing :: "(string \<times> bool) list"
  hx_issued :: "string list"
  hx_shutdowns :: nat

datatype http_event = Read_done int bytes | Write_done int

fun http_perform :: "http_action \<Rightarrow> 's http_run \<Rightarrow> 's http_run" where
  "http_perform (Http_read n) t = t\<lparr>hx_reading := hx_reading t @ [n]\<rparr>"
| "http_perform (Http_write msg op) t = t\<lparr>hx_writing := hx_writing t @ [(msg, op)], hx_issued := hx_issued t @ [msg]\<rparr>"
| "http_perform Http_shutdown t = t\<lparr>hx_shutdowns := hx_shutdowns t + 1\<rparr>"

fun http_event_step ::
  "((string, string) umap \<Rightarrow> (string, string) umap) \<Rightarrow> http_event \<Rightarrow> 's http_run \<Rightarrow> 's http_run cpp" where
  "http_event_step order (Read_done ec data) t =
     (case hx_reading t of
        [] \<Rightarrow> Inr t
      | n # ns \<Rightarrow>
          if n < length data then Inr t
          else cpp_bind (http_on_read order ec data (hx_conn t) (hx_state t)) (\<lambda>(c, s, acts).
            Inr (fold http_perform acts (t\<lparr>hx_conn := c, hx_state := s, hx_reading := ns\<rparr>))))"
| "http_event_step order (Write_done ec) t =
     (case hx_writing t of
        [] \<Rightarrow> Inr t
      | (msg, op) # ws \<Rightarrow>
          cpp_bind (http_on_write ec op (hx_conn t)) (\<lambda>(c, acts).
            Inr (fold http_perform acts (t\<lparr>hx_conn := c, hx_writing := ws\<rparr>))))"

fun http_session ::
  "((string, string) umap \<Rightarrow> (string, string) umap) \<Rightarrow> http_event list \<Rightarrow> 's http_run \<Rightarrow> 's http_run cpp" where
  "http_session order [] t = Inr t"
| "http_session order (ev # evs) t = cpp_bind (http_event_step order ev t) (http_session order evs)"

text \<open>A connection as the server makes it, with its operation, after \<open>start()\<close>.\<close>

definition http_begin :: "'s http_op option \<Rightarrow> 's \<Rightarrow> 's http_run cpp" where
  "http_begin http_op s =
     cpp_bind (http_start (setHttpOperation http_op HttpConnection)) (\<lambda>(c, acts).
       Inr (fold http_perform acts
         \<lparr>hx_conn = c, hx_state = s, hx_reading = [], hx_writing = [], hx_issued = [], hx_shutdowns = 0\<rparr>))"

lemma http_session_append:
  "http_session order (a @ b) t = cpp_bind (http_session order a t) (http_session order b)"
proof (induction a arbitrary: t)
  case (Cons ev a)
  then show ?case by (cases "http_event_step order ev t") simp_all
qed simp

subsection \<open>What a connection waits for\<close>

text \<open>
  While the socket is not shut down: at most one write is outstanding, for the front of the queue, and none only if the queue
  is empty; only the last response of the queue may ask for a shutdown, and then nothing is read any more; otherwise one read is outstanding.
\<close>

definition closing :: "(string \<times> bool) list \<Rightarrow> bool" where
  "closing q \<longleftrightarrow> q \<noteq> [] \<and> snd (last q)"

definition http_waiting :: "'s http_run \<Rightarrow> bool" where
  "http_waiting t \<longleftrightarrow>
     (let q = hc_deque (hx_conn t)
      in hx_writing t = take 1 q \<and> list_all (\<lambda>x. \<not> snd x) (butlast q) \<and>
         length (hx_reading t) = (if closing q then 0 else 1))"

lemma closing_simps [simp]: "\<not> closing []" "closing (q @ [x]) = snd x" "closing [x] = snd x" "closing (y # q @ [x]) = snd x"
  by (simp_all add: closing_def)

lemma not_closing: "list_all (\<lambda>x. \<not> snd x) (butlast q) \<Longrightarrow> \<not> closing q \<Longrightarrow> list_all (\<lambda>x. \<not> snd x) q"
  by (cases q rule: rev_cases) simp_all

text \<open>What a read that brings bytes does to the queue, and what it asks for.\<close>

definition read_outcome :: "(string \<times> bool) list \<Rightarrow> (string \<times> bool) list \<Rightarrow> http_action list \<Rightarrow> bool" where
  "read_outcome q q' acts \<longleftrightarrow>
     (\<exists>m. q' = q \<and> acts = [Http_read m]) \<or>
     (\<exists>msg. q' = q @ [(msg, True)] \<and> acts = (if q = [] then [Http_write msg True] else [])) \<or>
     (\<exists>msg m. q' = q @ [(msg, False)] \<and> acts = (if q = [] then [Http_write msg False] else []) @ [Http_read m])"

lemma http_answer_outcome:
  assumes "http_answer order c s = Inr (c', s', acts)"
  shows "read_outcome (hc_deque c) (hc_deque c') acts"
proof -
  obtain op resp s1 where op: "hc_op c = Some op" "op (hc_request c) http_Response s = Inr (resp, s1)"
    using assms by (auto simp: http_answer_def cpp_bind_eq_Inr_iff split: option.splits)
  show ?thesis
  proof (cases "hm_version (hc_request c) = HTTP_1_0")
    case True
    then show ?thesis
      using assms op by (auto simp: http_answer_def http_start_send_eq read_outcome_def)
  next
    case False
    then show ?thesis
      using assms op by (auto simp: http_answer_def http_start_send_eq read_outcome_def cpp_bind_eq_Inr_iff dest!: http_start_readD)
  qed
qed

lemma http_on_read_outcome:
  assumes "http_on_read order 0 data c s = Inr (c', s', acts)" and "data \<noteq> []"
  shows "read_outcome (hc_deque c) (hc_deque c') acts"
proof -
  obtain b bs rc p msg where "store data (hc_buffer c) = Inr b"
    and parse: "http_parse (hc_parser c) (chars_of bs) (RequestObject (hc_request c)) = Inr (rc, p, msg)"
    and rest: "(let c1 = c\<lparr>hc_buffer := b, hc_parser := p, hc_request := request_of msg\<rparr>
       in if rc = ERROR then cpp_bind (http_start_send bad_request True c1) (\<lambda>(c2, acts). Inr (c2, s, acts))
          else if rc = WAITING_DATA then cpp_bind (http_start_read c1) (\<lambda>(c2, acts). Inr (c2, s, acts))
          else http_answer order c1 s) = Inr (c', s', acts)"
    using assms by (force simp: http_on_read_def cpp_bind_eq_Inr_iff)
  show ?thesis
  proof (cases rc)
    case READY
    then show ?thesis using rest by (auto simp: Let_def dest: http_answer_outcome)
  next
    case WAITING_DATA
    then show ?thesis
      using rest by (auto simp: Let_def cpp_bind_eq_Inr_iff read_outcome_def dest!: http_start_readD)
  next
    case ERROR
    then show ?thesis
      using rest by (auto simp: Let_def http_start_send_eq read_outcome_def)
  qed
qed

lemma read_outcome_waiting:
  assumes "read_outcome q (hc_deque c) acts" and "hx_writing t = take 1 q" and "list_all (\<lambda>x. \<not> snd x) q"
    and u: "u = fold http_perform acts (t\<lparr>hx_conn := c, hx_state := s, hx_reading := []\<rparr>)"
  shows "http_waiting u" and "hx_shutdowns u = hx_shutdowns t"
proof -
  have butlast: "list_all (\<lambda>x. \<not> snd x) (butlast q)"
    using assms(3) by (cases q rule: rev_cases) simp_all
  have "\<not> closing q"
    using assms(3) by (cases q rule: rev_cases) simp_all
  then have "http_waiting u \<and> hx_shutdowns u = hx_shutdowns t"
    using assms(1) unfolding read_outcome_def
  proof (elim disjE exE conjE)
    fix m assume "hc_deque c = q" "acts = [Http_read m]"
    then show ?thesis using butlast \<open>\<not> closing q\<close> assms(2) by (simp add: u http_waiting_def)
  next
    fix msg assume "hc_deque c = q @ [(msg, True)]" "acts = (if q = [] then [Http_write msg True] else [])"
    then show ?thesis using assms(2,3) by (cases q) (simp_all add: u http_waiting_def)
  next
    fix msg m assume "hc_deque c = q @ [(msg, False)]" "acts = (if q = [] then [Http_write msg False] else []) @ [Http_read m]"
    then show ?thesis using assms(2,3) by (cases q) (simp_all add: u http_waiting_def)
  qed
  then show "http_waiting u" and "hx_shutdowns u = hx_shutdowns t" by simp_all
qed

lemma http_on_read_waiting:
  assumes "http_on_read order ec data (hx_conn t) s = Inr (c, s', acts)" and "http_waiting t" and "hx_reading t = [n]"
    and "ec \<noteq> err_EOPCANCELED" and u: "u = fold http_perform acts (t\<lparr>hx_conn := c, hx_state := s', hx_reading := []\<rparr>)"
  shows "hx_shutdowns t < hx_shutdowns u \<or> (hx_shutdowns u = hx_shutdowns t \<and> http_waiting u)"
proof (cases "ec = 0 \<and> data \<noteq> []")
  case False
  then have "acts = [Http_shutdown]"
    using assms(1,4) by (cases "ec = 0") (simp_all add: http_on_read_def)
  then show ?thesis by (simp add: u)
next
  case True
  let ?q = "hc_deque (hx_conn t)"
  have w: "hx_writing t = take 1 ?q" "list_all (\<lambda>x. \<not> snd x) (butlast ?q)" "\<not> closing ?q"
    using assms(2,3) unfolding http_waiting_def Let_def by (cases "closing ?q"; simp)+
  note q = w(1) not_closing [OF w(2,3)]
  have "read_outcome ?q (hc_deque c) acts"
    using http_on_read_outcome [of order data "hx_conn t" s c s' acts] assms(1) True by simp
  from read_outcome_waiting [OF this q u] show ?thesis by blast
qed

lemma http_on_write_waiting:
  assumes "http_on_write ec op (hx_conn t) = Inr (c, acts)" and "http_waiting t" and "hx_writing t = (msg, op) # ws"
    and "ec \<noteq> err_EOPCANCELED" and u: "u = fold http_perform acts (t\<lparr>hx_conn := c, hx_writing := ws\<rparr>)"
  shows "hx_shutdowns t < hx_shutdowns u \<or> (hx_shutdowns u = hx_shutdowns t \<and> http_waiting u)"
proof (cases "ec = 0 \<and> \<not> op")
  case False
  then have "acts = [Http_shutdown]"
    using assms(1,4) by (auto simp: http_on_write_def Let_def split: if_splits list.splits)
  then show ?thesis by (simp add: u)
next
  case True
  obtain q where q: "hc_deque (hx_conn t) = (msg, op) # q" "ws = []"
    using assms(2,3) by (cases "hc_deque (hx_conn t)") (auto simp: http_waiting_def)
  show ?thesis
  proof (cases q)
    case Nil
    then show ?thesis
      using assms(1,2) True q by (auto simp: u http_on_write_def http_waiting_def closing_def)
  next
    case (Cons x xs)
    then have "c = (hx_conn t)\<lparr>hc_deque := q\<rparr>" "acts = [Http_write (fst x) (snd x)]"
      using assms(1) True q by (auto simp: http_on_write_def http_start_send_impl_def split: prod.splits)
    then show ?thesis
      using assms(2) q Cons by (auto simp: u http_waiting_def closing_def Let_def)
  qed
qed

lemma http_perform_shutdowns: "hx_shutdowns t \<le> hx_shutdowns (fold http_perform acts t)"
proof (induction acts arbitrary: t)
  case (Cons a acts)
  have "hx_shutdowns t \<le> hx_shutdowns (http_perform a t)" by (cases a) simp_all
  then show ?case using Cons [of "http_perform a t"] by simp
qed simp

fun event_code :: "http_event \<Rightarrow> int" where
  "event_code (Read_done ec data) = ec"
| "event_code (Write_done ec) = ec"

lemma http_event_waiting:
  assumes "http_event_step order ev t = Inr u" and "http_waiting t" and "event_code ev \<noteq> err_EOPCANCELED"
  shows "http_waiting u \<or> hx_shutdowns t < hx_shutdowns u"
proof (cases ev)
  case (Read_done ec data)
  show ?thesis
  proof (cases "hx_reading t")
    case Nil
    then show ?thesis using assms Read_done by simp
  next
    case (Cons n ns)
    then have t: "hx_reading t = [n]" using assms(2) by (auto simp: http_waiting_def Let_def split: if_splits)
    show ?thesis
    proof (cases "n < length data")
      case True
      then show ?thesis using assms Read_done t by simp
    next
      case False
      then obtain c s acts where o: "http_on_read order ec data (hx_conn t) (hx_state t) = Inr (c, s, acts)"
        "u = fold http_perform acts (t\<lparr>hx_conn := c, hx_state := s, hx_reading := []\<rparr>)"
        using assms(1) Read_done t by (auto simp: cpp_bind_eq_Inr_iff)
      then show ?thesis
        using http_on_read_waiting [OF o(1) assms(2) t _ o(2)] assms(3) Read_done by auto
    qed
  qed
next
  case (Write_done ec)
  show ?thesis
  proof (cases "hx_writing t")
    case Nil
    then show ?thesis using assms Write_done by simp
  next
    case (Cons w ws)
    obtain msg op where w: "hx_writing t = (msg, op) # ws" using Cons by (cases w) simp
    then obtain c acts where o: "http_on_write ec op (hx_conn t) = Inr (c, acts)"
      "u = fold http_perform acts (t\<lparr>hx_conn := c, hx_writing := ws\<rparr>)"
      using assms(1) Write_done by (auto simp: cpp_bind_eq_Inr_iff)
    then show ?thesis
      using http_on_write_waiting [OF o(1) assms(2) w _ o(2)] assms(3) Write_done by auto
  qed
qed

lemma http_event_shutdowns:
  assumes "http_event_step order ev t = Inr u"
  shows "hx_shutdowns t \<le> hx_shutdowns u"
proof -
  have "\<exists>acts v. u = fold http_perform acts v \<and> hx_shutdowns v = hx_shutdowns t"
  proof (cases "u = t")
    case True
    then show ?thesis by (intro exI [of _ "[]"]) simp
  next
    case False
    then show ?thesis
      using assms by (cases ev) (force simp: cpp_bind_eq_Inr_iff split: list.splits if_splits)+
  qed
  then show ?thesis using http_perform_shutdowns by metis
qed

text \<open>Whatever the client sends and in whatever order the completions come, as long as none reports a cancellation.\<close>

lemma http_session_waiting:
  assumes "http_session order evs t = Inr u" and "http_waiting t \<or> 0 < hx_shutdowns t"
    and "list_all (\<lambda>ev. event_code ev \<noteq> err_EOPCANCELED) evs"
  shows "http_waiting u \<or> 0 < hx_shutdowns u"
  using assms
proof (induction evs arbitrary: t)
  case (Cons ev evs)
  obtain t1 where t1: "http_event_step order ev t = Inr t1" "http_session order evs t1 = Inr u"
    using Cons.prems(1) by (auto simp: cpp_bind_eq_Inr_iff)
  then have "http_waiting t1 \<or> 0 < hx_shutdowns t1"
    using http_event_waiting [OF t1(1)] http_event_shutdowns [OF t1(1)] Cons.prems(2,3) by fastforce
  then show ?case using Cons.IH t1(2) Cons.prems(3) by simp
qed simp

lemma http_begin_waiting:
  assumes "http_begin http_op s = Inr t"
  shows "http_waiting t" and "hx_shutdowns t = 0"
  using assms
  by (auto simp: http_begin_def http_start_def cpp_bind_eq_Inr_iff http_waiting_def setHttpOperation_def HttpConnection_def
      dest!: http_start_readD)

text \<open>C14: Whatever the client sends and in whatever order reads and writes complete, a connection that was not shut down
  waits for a read or a write: at most one of each, a write exactly when responses are queued, no read only
  if the last queued response closes the connection; and no completion of a write finds the queue empty.\<close>

theorem http_connection_never_stalls:
  assumes "http_begin http_op s = Inr t" and "http_session order evs t = Inr u"
    and "list_all (\<lambda>ev. event_code ev \<noteq> err_EOPCANCELED) evs" and "hx_shutdowns u = 0"
  shows "length (hx_reading u) \<le> 1 \<and> length (hx_writing u) \<le> 1 \<and> (hx_reading u \<noteq> [] \<or> hx_writing u \<noteq> []) \<and>
    (hx_writing u = [] \<longleftrightarrow> hc_deque (hx_conn u) = []) \<and>
    (hx_reading u = [] \<longrightarrow> (\<exists>msg. last (hc_deque (hx_conn u)) = (msg, True))) \<and>
    (\<forall>w ec op. hx_writing u = [w] \<longrightarrow> (\<exists>c acts. http_on_write ec op (hx_conn u) = Inr (c, acts)))"
proof -
  have "http_waiting u"
    using http_session_waiting [OF assms(2) _ assms(3)] http_begin_waiting [OF assms(1)] assms(4) by auto
  moreover obtain q where q: "hc_deque (hx_conn u) = q" by simp
  moreover have "\<exists>c acts. http_on_write ec op (hx_conn u) = Inr (c, acts)" if "q \<noteq> []" for ec op
    using that q by (cases q; cases "tl q")
      (auto simp: http_on_write_def http_start_send_impl_def Let_def)
  moreover have "length (take 1 q) \<le> 1" by simp
  moreover have "q \<noteq> [] \<and> (\<exists>msg. last q = (msg, True))" if "closing q"
    using that by (cases "last q") (simp add: closing_def)
  ultimately show ?thesis
    unfolding http_waiting_def Let_def q by (cases "closing q"; cases "q = []") (auto simp: length_Suc_conv)
qed

subsection \<open>Which requests are answered\<close>

text \<open>The parser leaves the message the object it was.\<close>

lemma parseHeader_request:
  "parseHeader data msg n = Inr (rc, msg', n') \<Longrightarrow> \<exists>r. msg = RequestObject r \<Longrightarrow> \<exists>r'. msg' = RequestObject r'"
proof (induction data msg n rule: parseHeader.induct)
  case (1 data msg n)
  obtain r where "msg = RequestObject r" using 1(3) by blast
  with 1(2) [unfolded parseHeader.simps [of data msg n]] 1(1)
  show ?case by (auto split: option.splits if_splits sum.splits)
qed

lemma chunk_loop_request:
  "chunk_loop ptr msg n body = Inr (rc, msg', n', body') \<Longrightarrow> \<exists>r. msg = RequestObject r \<Longrightarrow> \<exists>r'. msg' = RequestObject r'"
proof (induction ptr msg n body rule: chunk_loop.induct)
  case (1 ptr msg n body)
  obtain r where "msg = RequestObject r" using 1(3) by blast
  with 1(2) [unfolded chunk_loop.simps [of ptr msg n body]] 1(1)
  show ?case
    by (auto simp: Let_def cpp_bind_eq_Inr_iff split: option.splits if_splits prod.splits sum.splits)
qed

lemma http_parse_request:
  "http_parse p data msg = Inr (rc, q, msg') \<Longrightarrow> \<exists>r. msg = RequestObject r \<Longrightarrow> \<exists>r'. msg' = RequestObject r'"
proof (induction p data msg rule: http_parse.induct)
  case (1 p data msg)
  obtain r where r: "msg = RequestObject r" using 1(5) by blast
  note eq = 1(4) [unfolded http_parse.simps [of p data msg]]
  show ?case
  proof (cases "hp_tag p = DONE \<or> length data < hp_already_parse p")
    case True
    then show ?thesis using eq r by (auto split: if_splits)
  next
    case False
    then have rest: "hp_tag p \<noteq> DONE" "\<not> length data < hp_already_parse p" by simp_all
    show ?thesis
    proof (cases "hp_tag p")
      case LINE
      then obtain rc1 m1 np where line: "parseLine data msg = Inr (rc1, m1, np)"
        using eq rest by (auto simp: cpp_bind_eq_Inr_iff)
      then have m1: "\<exists>r'. m1 = RequestObject r'"
        using r by (auto simp: parseLine_def cpp_bind_eq_Inr_iff case_prod_beta split: option.splits)
      show ?thesis
        using eq rest LINE line m1 1(1) [OF rest LINE line refl refl] by (auto split: if_splits)
    next
      case HEADER
      then obtain rc1 m1 np where header: "parseHeader (drop (hp_already_parse p) data) msg 0 = Inr (rc1, m1, np)"
        using eq rest by (auto simp: cpp_bind_eq_Inr_iff)
      then have m1: "\<exists>r'. m1 = RequestObject r'" using parseHeader_request r by blast
      show ?thesis
        using eq rest HEADER header m1 1(2) [OF rest HEADER header refl refl]
        by (auto simp: cpp_bind_eq_Inr_iff split: if_splits)
    next
      case BODY
      then obtain rc1 m1 np body where b: "parseBody (drop (hp_already_parse p) data) msg (hp_content_length p)
          (hp_chunked_transfer p) (hp_body_buf p) = Inr (rc1, m1, np, body)"
        using eq rest by (auto simp: cpp_bind_eq_Inr_iff)
      then have m1: "\<exists>r'. m1 = RequestObject r'"
        using r chunk_loop_request by (auto simp: parseBody_def Let_def cpp_bind_eq_Inr_iff split: if_splits)
      show ?thesis
        using eq rest BODY b m1 1(3) [OF rest BODY b refl refl refl] by (auto split: if_splits)
    qed (use rest in simp)
  qed
qed

text \<open>
  A connection \<open>awaits\<close> a request when the parser, which has seen the data \<open>buf\<close>, will be ready with that request on
  any continuation of \<open>buf\<close> to a text that begins with the request's.
\<close>

definition seen :: "((string, string) umap \<Rightarrow> (string, string) umap) \<Rightarrow> http_request \<Rightarrow> http_request" where
  "seen order req = req\<lparr>hm_headers := order (hm_headers req)\<rparr>"

definition awaits ::
  "((string, string) umap \<Rightarrow> (string, string) umap) \<Rightarrow> http_request \<Rightarrow> string \<Rightarrow> http_parser \<Rightarrow> http_request \<Rightarrow> bool" where
  "awaits order req buf p m \<longleftrightarrow>
     http_valid p \<and> http_nparse p \<le> length buf \<and>
     (\<forall>x rest. buf @ x = request_dump order req @ rest \<longrightarrow>
        (\<exists>q. http_parse p (buf @ x) (RequestObject m) = Inr (READY, q, RequestObject (seen order req)) \<and> http_safe q \<and>
          http_nparse q = length (request_dump order req)))"

lemma awaits_new: "writable_request req \<Longrightarrow> iteration_order order \<Longrightarrow> awaits order req buf http_Parser http_Request"
  using request_dump_parse [of req order] by (fastforce simp: awaits_def seen_def)

lemma awaits_piece:
  assumes "awaits order req buf p m" and "buf @ c @ y = request_dump order req @ rest"
  shows "if length (request_dump order req) \<le> length (buf @ c)
    then \<exists>q. http_parse p (buf @ c) (RequestObject m) = Inr (READY, q, RequestObject (seen order req)) \<and>
           http_nparse q = length (request_dump order req)
    else \<exists>q m'. http_parse p (buf @ c) (RequestObject m) = Inr (WAITING_DATA, q, RequestObject m') \<and> awaits order req (buf @ c) q m'"
proof -
  let ?d = "request_dump order req"
  have p: "http_valid p" "http_nparse p \<le> length buf" "http_nparse p \<le> length (buf @ c)"
    and ready: "\<And>x rest. buf @ x = ?d @ rest \<Longrightarrow>
      \<exists>q. http_parse p (buf @ x) (RequestObject m) = Inr (READY, q, RequestObject (seen order req)) \<and> http_safe q \<and> http_nparse q = length ?d"
    using assms(1) by (auto simp: awaits_def)
  show ?thesis
  proof (cases "length ?d \<le> length (buf @ c)")
    case True
    have "take (length ?d) ((buf @ c) @ y) = ?d"
      using assms(2) by simp
    then have "take (length ?d) (buf @ c) = ?d"
      using True by (simp only: take_append) simp
    then have "buf @ c = ?d @ drop (length ?d) (buf @ c)"
      using append_take_drop_id [of "length ?d" "buf @ c"] by simp
    then show ?thesis using ready [of c] True by auto
  next
    case False
    obtain q where q: "http_parse p ((buf @ c) @ y) (RequestObject m) = Inr (READY, q, RequestObject (seen order req))"
      "http_safe q" "http_nparse q = length ?d"
      using ready [OF assms(2)] by auto
    obtain rc p1 m1 where one: "http_parse p (buf @ c) (RequestObject m) = Inr (rc, p1, m1)"
      using http.parse_stable_fault [OF p(1,3), of "RequestObject m" _ y] q(1)
      by (cases "http_parse p (buf @ c) (RequestObject m)") auto
    note bounded = http.parse_bounded [OF p(1,3) one]
    have wait: "rc = WAITING_DATA"
    proof (rule ccontr)
      assume "rc \<noteq> WAITING_DATA"
      then have "p1 = q" using http.parse_stable [OF p(1,3) one, of y] q(1) by simp
      then show False using bounded q(3) False by simp
    qed
    note one = one [unfolded wait]
    have safe: "http_safe p1" using http.parse_unsafe [OF p(1,3) one _ q(1)] q(2) by blast
    obtain m' where m': "m1 = RequestObject m'" using http_parse_request [OF one] by blast
    have "\<exists>q. http_parse p1 ((buf @ c) @ x) (RequestObject m') = Inr (READY, q, RequestObject (seen order req)) \<and> http_safe q \<and>
        http_nparse q = length ?d" if "(buf @ c) @ x = ?d @ rest" for x rest
    proof -
      obtain q where q: "http_parse p ((buf @ c) @ x) (RequestObject m) = Inr (READY, q, RequestObject (seen order req))"
        "http_safe q" "http_nparse q = length ?d"
        using ready [of "c @ x" rest] \<open>(buf @ c) @ x = ?d @ rest\<close> by auto
      have "http_parse p1 ((buf @ c) @ x) (RequestObject m') = Inr (READY, q, RequestObject (seen order req))"
        using http.parse_resume [OF p(1,3) one safe, of x] unfolding q(1) m' same_answer_def by simp
      then show ?thesis using q by blast
    qed
    then have "awaits order req (buf @ c) p1 m'"
      using bounded by (simp add: awaits_def)
    then show ?thesis using one m' False by auto
  qed
qed

text \<open>Between two reads there are more than 8192 bytes of room.\<close>

definition http_room :: "nat \<Rightarrow> dynamic_buffer \<Rightarrow> bool" where
  "http_room tot b \<longleftrightarrow>
     buffer_inv b \<and> expand_size b = 1024 \<and> 8192 < availableBytes b \<and> length (char_vector b) \<le> tot + 17408"

lemma http_start_read_room:
  assumes "hc_buffer c = b0" and "buffer_inv b0" and "expand_size b0 = 1024" and "length (unread b0) \<le> tot"
    and "length (char_vector b0) \<le> tot + 17408" and "tot \<le> 2 ^ 62"
  shows "\<exists>b n. http_start_read c = Inr (c\<lparr>hc_buffer := b\<rparr>, [Http_read n]) \<and> http_room tot b \<and> unread b = unread b0 \<and> 8192 < n"
proof -
  have "room_for 8192 b0"
    using assms by (simp add: room_for_def max_size_def)
  then obtain b where b: "reserve 8192 b0 = Inr b" "buffer_inv b" "unread b = unread b0"
    "8192 < availableBytes b" "expand_size b = expand_size b0"
    "length (char_vector b) \<le> max (length (char_vector b0)) (length (unread b0) + 2 * 8192 + expand_size b0)"
    using reserve_unread [OF assms(2)] by blast
  then have "writeBegin b = Inr (write_index b)"
    by (simp add: writeBegin_def buffer_sizes)
  then show ?thesis
    using b assms by (auto simp: http_start_read_def http_room_def)
qed

lemma request_clear_eq: "request_clear r = http_Request"
  by (simp add: request_clear_def message_clear_def http_Request_def)

lemma http_on_read_piece:
  assumes room: "http_room tot (hc_buffer c)" and data: "data \<noteq> []" "length data \<le> 8192"
    and tot: "length (unread (hc_buffer c) @ data) \<le> tot" "tot \<le> 2 ^ 62"
    and await: "awaits ord req (chars_of (unread (hc_buffer c))) (hc_parser c) (hc_request c)"
    and stream: "chars_of (unread (hc_buffer c)) @ chars_of data @ y = request_dump ord req @ rest"
    and op: "hc_op c = Some (\<lambda>r resp s. Inr (answer r resp s))" and version: "hm_version req \<noteq> HTTP_1_0"
    and len_def: "len = length (request_dump ord req)" and msg_def: "msg = response_dump order (fst (answer (seen ord req) http_Response s))"
  shows "\<exists>c' n. http_room tot (hc_buffer c') \<and> hc_op c' = hc_op c \<and> 8192 < n \<and>
    (if len \<le> length (unread (hc_buffer c) @ data)
     then http_on_read order 0 data c s =
            Inr (c', snd (answer (seen ord req) http_Response s), (if hc_deque c = [] then [Http_write msg False] else []) @ [Http_read n]) \<and>
          hc_deque c' = hc_deque c @ [(msg, False)] \<and> unread (hc_buffer c') = drop len (unread (hc_buffer c) @ data) \<and>
          hc_parser c' = http_Parser \<and> hc_request c' = http_Request
     else http_on_read order 0 data c s = Inr (c', s, [Http_read n]) \<and>
          hc_deque c' = hc_deque c \<and> unread (hc_buffer c') = unread (hc_buffer c) @ data \<and>
          awaits ord req (chars_of (unread (hc_buffer c) @ data)) (hc_parser c') (hc_request c'))"
proof -
  have b0: "buffer_inv (hc_buffer c)" "expand_size (hc_buffer c) = 1024" "length data \<le> availableBytes (hc_buffer c)"
    "length (char_vector (hc_buffer c)) \<le> tot + 17408"
    using room data by (simp_all add: http_room_def)
  obtain b where b: "store data (hc_buffer c) = Inr b" "buffer_inv b" "unread b = unread (hc_buffer c) @ data"
    "expand_size b = 1024" "length (char_vector b) \<le> tot + 17408"
    using store_unread [OF b0(1,3)] b0 by auto
  have bs: "readBegin b = Inr (read_index b)" "copy_out (char_vector b) (read_index b) (dataBytes b) = Inr (unread b)"
    using copy_out_unread [OF b(2), of 0 "length (unread b)"] buffer_sizes [OF b(2)] by simp_all
  let ?parse = "http_parse (hc_parser c) (chars_of (unread b)) (RequestObject (hc_request c))"
  note piece = awaits_piece [OF await stream]
  have chars: "chars_of (unread b) = chars_of (unread (hc_buffer c)) @ chars_of data" by (simp add: b(3))
  show ?thesis
  proof (cases "len \<le> length (unread (hc_buffer c) @ data)")
    case True
    then obtain q where q: "?parse = Inr (READY, q, RequestObject (seen ord req))" "http_nparse q = len"
      using piece by (auto simp: chars len_def)
    let ?c1 = "c\<lparr>hc_buffer := b, hc_parser := q, hc_request := seen ord req\<rparr>"
    let ?c2 = "c\<lparr>hc_deque := hc_deque c @ [(msg, False)], hc_buffer := buffer_read len b, hc_request := http_Request, hc_parser := http_Parser\<rparr>"
    have r: "buffer_inv (buffer_read len b)" "unread (buffer_read len b) = drop len (unread b)"
      using buffer_read_unread [OF b(2), of len] True b(3) by simp_all
    have keep: "expand_size (buffer_read len b) = 1024" "char_vector (buffer_read len b) = char_vector b"
      using b(4) by (simp_all add: buffer_read_def Let_def)
    have "length (unread (buffer_read len b)) \<le> tot" "length (char_vector (buffer_read len b)) \<le> tot + 17408"
      using tot(1) r(2) b(3,5) keep by simp_all
    from http_start_read_room [OF _ r(1) keep(1) this tot(2), of ?c2] obtain b' n
      where n: "http_start_read ?c2 = Inr (?c2\<lparr>hc_buffer := b'\<rparr>, [Http_read n])" "http_room tot b'"
        "unread b' = unread (buffer_read len b)" "8192 < n"
      by auto
    have "http_answer order ?c1 s = Inr (?c2\<lparr>hc_buffer := b'\<rparr>, snd (answer (seen ord req) http_Response s),
        (if hc_deque c = [] then [Http_write msg False] else []) @ [Http_read n])"
      using op version n(1) q(2) by (cases "answer (seen ord req) http_Response s"; cases "hc_deque c = []")
        (simp_all add: http_answer_def http_start_send_eq msg_def seen_def request_clear_eq)
    then have "http_on_read order 0 data c s = Inr (?c2\<lparr>hc_buffer := b'\<rparr>, snd (answer (seen ord req) http_Response s),
        (if hc_deque c = [] then [Http_write msg False] else []) @ [Http_read n])"
      using data(1) b(1) bs q(1) by (simp add: http_on_read_def)
    then show ?thesis
      using True n(2-4) r(2) b(3) by (intro exI [of _ "?c2\<lparr>hc_buffer := b'\<rparr>"] exI [of _ n]) simp
  next
    case False
    then obtain q m' where q: "?parse = Inr (WAITING_DATA, q, RequestObject m')"
      "awaits ord req (chars_of (unread (hc_buffer c)) @ chars_of data) q m'"
      using piece by (auto simp: chars len_def)
    let ?c1 = "c\<lparr>hc_buffer := b, hc_parser := q, hc_request := m'\<rparr>"
    have "length (unread b) \<le> tot" using tot(1) b(3) by simp
    from http_start_read_room [OF _ b(2,4) this b(5) tot(2), of ?c1] obtain b' n
      where n: "http_start_read ?c1 = Inr (?c1\<lparr>hc_buffer := b'\<rparr>, [Http_read n])" "http_room tot b'"
        "unread b' = unread b" "8192 < n"
      by auto
    then have "http_on_read order 0 data c s = Inr (?c1\<lparr>hc_buffer := b'\<rparr>, s, [Http_read n])"
      using data(1) b(1) bs q(1) by (simp add: http_on_read_def)
    then show ?thesis
      using False n(2-4) q(2) b(3) by (intro exI [of _ "?c1\<lparr>hc_buffer := b'\<rparr>"] exI [of _ n]) simp
  qed
qed

text \<open>
  The number of requests answered after pieces of the given lengths: each piece completes at most one, the first that is not yet
  answered; \<open>have\<close> bytes are there already. And the responses to requests, one after the other.
\<close>

fun requests_answered :: "nat list \<Rightarrow> nat \<Rightarrow> nat list \<Rightarrow> nat" where
  "requests_answered lens have_len [] = 0"
| "requests_answered [] have_len (n # ns) = 0"
| "requests_answered (l # ls) have_len (n # ns) =
     (if l \<le> have_len + n then Suc (requests_answered ls (have_len + n - l) ns) else requests_answered (l # ls) (have_len + n) ns)"

type_synonym 's answer = "http_request \<Rightarrow> http_response \<Rightarrow> 's \<Rightarrow> http_response \<times> 's"

fun http_answers ::
  "((string, string) umap \<Rightarrow> (string, string) umap) \<Rightarrow> 's answer \<Rightarrow> http_request list \<Rightarrow> 's \<Rightarrow> string list \<times> 's" where
  "http_answers order answer [] s = ([], s)"
| "http_answers order answer (r # rs) s =
     (case answer r http_Response s of (resp, s1) \<Rightarrow>
       case http_answers order answer rs s1 of (msgs, s2) \<Rightarrow> (response_dump order resp # msgs, s2))"

definition http_op_of :: "'s answer \<Rightarrow> 's http_op" where
  "http_op_of answer = (\<lambda>r resp s. Inr (answer r resp s))"

fun pieces :: "http_event list \<Rightarrow> bytes list" where
  "pieces [] = []"
| "pieces (Read_done ec data # evs) = data # pieces evs"
| "pieces (Write_done ec # evs) = pieces evs"

definition http_serving ::
  "nat \<Rightarrow> 's answer \<Rightarrow> ((string, string) umap \<Rightarrow> (string, string) umap) \<Rightarrow> http_request list \<Rightarrow> string list \<Rightarrow> 's http_run \<Rightarrow> bool" where
  "http_serving tot answer ord rs done_msgs t \<longleftrightarrow>
     (let c = hx_conn t; q = hc_deque c
      in http_room tot (hc_buffer c) \<and> hc_op c = Some (http_op_of answer) \<and> hx_shutdowns t = 0 \<and>
         (\<exists>n>8192. hx_reading t = [n]) \<and> list_all (\<lambda>x. \<not> snd x) q \<and> hx_writing t = take 1 q \<and>
         hx_issued t @ map fst (drop 1 q) = done_msgs \<and>
         (case rs of [] \<Rightarrow> True | r # _ \<Rightarrow> awaits ord r (chars_of (unread (hc_buffer c))) (hc_parser c) (hc_request c)))"

lemma http_serving_write:
  assumes "http_serving tot answer ord rs msgs t"
  shows "\<exists>u. http_event_step order (Write_done 0) t = Inr u \<and> http_serving tot answer ord rs msgs u \<and>
    hx_state u = hx_state t \<and> hc_buffer (hx_conn u) = hc_buffer (hx_conn t)"
proof (cases "hc_deque (hx_conn t)")
  case Nil
  then have "hx_writing t = []" using assms by (simp add: http_serving_def Let_def)
  then show ?thesis using assms by simp
next
  case (Cons x q)
  then obtain msg where x: "hx_writing t = [(msg, False)]" "x = (msg, False)"
    using assms by (cases x) (auto simp: http_serving_def Let_def)
  define u where "u = t\<lparr>hx_conn := (hx_conn t)\<lparr>hc_deque := q\<rparr>, hx_writing := take 1 q, hx_issued := hx_issued t @ map fst (take 1 q)\<rparr>"
  have "http_event_step order (Write_done 0) t = Inr u"
    using Cons x by (cases q) (auto simp: u_def http_on_write_def http_start_send_impl_def)
  moreover have "map fst q = map fst (take 1 q) @ map fst (drop 1 q)"
    by (simp flip: map_append)
  then have "http_serving tot answer ord rs msgs u"
    using assms Cons x(2) by (cases rs) (auto simp: http_serving_def Let_def u_def simp flip: append_assoc)
  ultimately show ?thesis by (auto simp: u_def)
qed

lemma http_serving_read:
  assumes "http_serving tot answer ord (r # rs) msgs t" and data: "data \<noteq> []" "length data \<le> 8192"
    and tot: "length (unread (hc_buffer (hx_conn t)) @ data) \<le> tot" "tot \<le> 2 ^ 62"
    and stream: "chars_of (unread (hc_buffer (hx_conn t))) @ chars_of data @ y = request_dump ord r @ rest"
    and ok: "hm_version r \<noteq> HTTP_1_0" "list_all writable_request rs" "iteration_order ord"
  shows "\<exists>u. http_event_step order (Read_done 0 data) t = Inr u \<and>
    (if length (request_dump ord r) \<le> length (unread (hc_buffer (hx_conn t)) @ data)
     then hx_state u = snd (answer (seen ord r) http_Response (hx_state t)) \<and>
       unread (hc_buffer (hx_conn u)) = drop (length (request_dump ord r)) (unread (hc_buffer (hx_conn t)) @ data) \<and>
       http_serving tot answer ord rs
         (msgs @ [response_dump order (fst (answer (seen ord r) http_Response (hx_state t)))]) u
     else hx_state u = hx_state t \<and> unread (hc_buffer (hx_conn u)) = unread (hc_buffer (hx_conn t)) @ data \<and>
       http_serving tot answer ord (r # rs) msgs u)"
proof -
  let ?c = "hx_conn t" and ?q = "hc_deque (hx_conn t)"
  obtain n0 where s: "http_room tot (hc_buffer ?c)" "hc_op ?c = Some (http_op_of answer)" "hx_shutdowns t = 0" "8192 < n0"
    "hx_reading t = [n0]" "list_all (\<lambda>x. \<not> snd x) ?q" "hx_writing t = take 1 ?q" "hx_issued t @ map fst (drop 1 ?q) = msgs"
    "awaits ord r (chars_of (unread (hc_buffer ?c))) (hc_parser ?c) (hc_request ?c)"
    using assms(1) by (auto simp: http_serving_def Let_def)
  define msg where "msg = response_dump order (fst (answer (seen ord r) http_Response (hx_state t)))"
  obtain c' n where c': "http_room tot (hc_buffer c')" "hc_op c' = hc_op ?c" "8192 < n"
    and step: "if length (request_dump ord r) \<le> length (unread (hc_buffer ?c) @ data)
     then http_on_read order 0 data ?c (hx_state t) =
            Inr (c', snd (answer (seen ord r) http_Response (hx_state t)), (if ?q = [] then [Http_write msg False] else []) @ [Http_read n]) \<and>
          hc_deque c' = ?q @ [(msg, False)] \<and> unread (hc_buffer c') = drop (length (request_dump ord r)) (unread (hc_buffer ?c) @ data) \<and>
          hc_parser c' = http_Parser \<and> hc_request c' = http_Request
     else http_on_read order 0 data ?c (hx_state t) = Inr (c', hx_state t, [Http_read n]) \<and>
          hc_deque c' = ?q \<and> unread (hc_buffer c') = unread (hc_buffer ?c) @ data \<and>
          awaits ord r (chars_of (unread (hc_buffer ?c) @ data)) (hc_parser c') (hc_request c')"
    using http_on_read_piece [OF s(1) data tot s(9) stream s(2) [unfolded http_op_of_def] ok(1) refl refl, of order "hx_state t"]
    unfolding msg_def by blast
  show ?thesis
  proof (cases "length (request_dump ord r) \<le> length (unread (hc_buffer ?c) @ data)")
    case True
    let ?acts = "(if ?q = [] then [Http_write msg False] else []) @ [Http_read n]"
    define u where "u = fold http_perform ?acts (t\<lparr>hx_conn := c', hx_state := snd (answer (seen ord r) http_Response (hx_state t)), hx_reading := []\<rparr>)"
    have "http_event_step order (Read_done 0 data) t = Inr u"
      using step True s(4,5) data by (simp add: u_def)
    moreover have "case rs of [] \<Rightarrow> True | r' # _ \<Rightarrow> awaits ord r' (chars_of (unread (hc_buffer c'))) (hc_parser c') (hc_request c')"
      using step True ok(2,3) by (cases rs) (simp_all add: awaits_new)
    then have "http_serving tot answer ord rs (msgs @ [msg]) u"
      using step True s c' by (cases ?q) (auto simp: http_serving_def Let_def u_def)
    ultimately show ?thesis
      using step True by (auto simp: msg_def u_def)
  next
    case False
    define u where "u = t\<lparr>hx_conn := c', hx_reading := [n]\<rparr>"
    have "http_event_step order (Read_done 0 data) t = Inr u"
      using step False s(4,5) data by (simp add: u_def)
    moreover have "http_serving tot answer ord (r # rs) msgs u"
      using step False s c' by (simp add: http_serving_def Let_def u_def)
    ultimately show ?thesis
      using step False by (auto simp: u_def)
  qed
qed

definition good_event :: "http_event \<Rightarrow> bool" where
  "good_event ev \<longleftrightarrow> event_code ev = 0 \<and> list_all (\<lambda>d. d \<noteq> [] \<and> length d \<le> 8192) (pieces [ev])"

lemma http_session_serving:
  assumes "http_serving tot answer ord rs msgs t" and "list_all good_event evs"
    and "list_all (\<lambda>r. writable_request r \<and> hm_version r \<noteq> HTTP_1_0) rs" and "iteration_order ord"
    and "chars_of (unread (hc_buffer (hx_conn t))) @ concat (map chars_of (pieces evs)) @ future = concat (map (request_dump ord) rs)"
    and "length (concat (map (request_dump ord) rs)) \<le> tot" and "tot \<le> 2 ^ 62"
    and "k = requests_answered (map (\<lambda>r. length (request_dump ord r)) rs) (length (unread (hc_buffer (hx_conn t)))) (map length (pieces evs))"
  shows "\<exists>u. http_session order evs t = Inr u \<and>
    http_serving tot answer ord (drop k rs) (msgs @ fst (http_answers order answer (map (seen ord) (take k rs)) (hx_state t))) u \<and>
    hx_state u = snd (http_answers order answer (map (seen ord) (take k rs)) (hx_state t)) \<and>
    chars_of (unread (hc_buffer (hx_conn u))) @ future = concat (map (request_dump ord) (drop k rs))"
  using assms
proof (induction evs arbitrary: rs msgs t k)
  case Nil
  then show ?case by simp
next
  case (Cons ev evs)
  show ?case
  proof (cases ev)
    case (Write_done ec)
    obtain u where u: "http_event_step order ev t = Inr u" "http_serving tot answer ord rs msgs u"
      "hx_state u = hx_state t" "hc_buffer (hx_conn u) = hc_buffer (hx_conn t)"
      using http_serving_write [OF Cons.prems(1)] Cons.prems(2) Write_done by (auto simp: good_event_def)
    show ?thesis
      using Cons.IH [OF u(2) _ Cons.prems(3,4) _ Cons.prems(6,7)] Cons.prems(2,5,8) u Write_done by simp
  next
    case (Read_done ec data)
    have "good_event ev" and good: "list_all good_event evs" using Cons.prems(2) by simp_all
    then have "data \<noteq> []" "length data \<le> 8192" "ec = 0"
      by (simp_all add: good_event_def Read_done)
    note data = this good
    let ?b = "unread (hc_buffer (hx_conn t))"
    let ?len = "\<lambda>r. length (request_dump ord r)"
    have stream: "chars_of ?b @ chars_of data @ concat (map chars_of (pieces evs)) @ future = concat (map (request_dump ord) rs)"
      using Cons.prems(5) Read_done by simp
    have "rs \<noteq> []"
      using stream data(1) by (auto simp: chars_of_def)
    then obtain r rs' where rs: "rs = r # rs'" by (cases rs) auto
    have stream_r: "chars_of ?b @ chars_of data @ (concat (map chars_of (pieces evs)) @ future) =
        request_dump ord r @ concat (map (request_dump ord) rs')"
      using stream rs by simp
    have "length (chars_of ?b @ chars_of data) \<le> length (concat (map (request_dump ord) rs))"
      using arg_cong [OF stream, of length] by simp
    then have tot: "length (?b @ data) \<le> tot" using Cons.prems(6) by simp
    have ok: "hm_version r \<noteq> HTTP_1_0" "list_all writable_request rs'"
      using Cons.prems(3) rs by (auto simp: list_all_iff)
    obtain u where u: "http_event_step order ev t = Inr u"
      and step: "if ?len r \<le> length (?b @ data)
        then hx_state u = snd (answer (seen ord r) http_Response (hx_state t)) \<and>
          unread (hc_buffer (hx_conn u)) = drop (?len r) (?b @ data) \<and>
          http_serving tot answer ord rs' (msgs @ [response_dump order (fst (answer (seen ord r) http_Response (hx_state t)))]) u
        else hx_state u = hx_state t \<and> unread (hc_buffer (hx_conn u)) = ?b @ data \<and> http_serving tot answer ord rs msgs u"
      using http_serving_read [OF Cons.prems(1) [unfolded rs] data(1,2) tot Cons.prems(7) stream_r ok Cons.prems(4), of order]
      unfolding Read_done data(3) rs by blast
    have session: "http_session order (ev # evs) t = http_session order evs u" using u by simp
    show ?thesis
    proof (cases "?len r \<le> length (?b @ data)")
      case True
      have rest: "chars_of (unread (hc_buffer (hx_conn u))) @ concat (map chars_of (pieces evs)) @ future = concat (map (request_dump ord) rs')"
        using arg_cong [OF stream_r, of "drop (?len r)"] step True by simp
      have k: "k = Suc (requests_answered (map ?len rs') (length (unread (hc_buffer (hx_conn u)))) (map length (pieces evs)))"
      proof -
        have "unread (hc_buffer (hx_conn u)) = drop (?len r) (?b @ data)" using step True by simp
        then have "length (unread (hc_buffer (hx_conn u))) = length ?b + length data - ?len r"
          by (simp only: length_drop length_append)
        then show ?thesis using Cons.prems(8) Read_done rs True by simp
      qed
      let ?m = "response_dump order (fst (answer (seen ord r) http_Response (hx_state t)))"
      let ?k = "requests_answered (map ?len rs') (length (unread (hc_buffer (hx_conn u)))) (map length (pieces evs))"
      have su: "hx_state u = snd (answer (seen ord r) http_Response (hx_state t))" "http_serving tot answer ord rs' (msgs @ [?m]) u"
        using step True by simp_all
      have rs': "list_all (\<lambda>r. writable_request r \<and> hm_version r \<noteq> HTTP_1_0) rs'"
        "length (concat (map (request_dump ord) rs')) \<le> tot"
        using Cons.prems(3,6) rs by simp_all
      obtain v where v: "http_session order evs u = Inr v"
        "http_serving tot answer ord (drop ?k rs') ((msgs @ [?m]) @ fst (http_answers order answer (map (seen ord) (take ?k rs')) (hx_state u))) v"
        "hx_state v = snd (http_answers order answer (map (seen ord) (take ?k rs')) (hx_state u))"
        "chars_of (unread (hc_buffer (hx_conn v))) @ future = concat (map (request_dump ord) (drop ?k rs'))"
        using Cons.IH [OF su(2) data(4) rs'(1) Cons.prems(4) rest rs'(2) Cons.prems(7) refl] by blast
      show ?thesis
        unfolding session k rs using v su(1) by (auto split: prod.split)
    next
      case False
      have k: "k = requests_answered (map ?len rs) (length (unread (hc_buffer (hx_conn u)))) (map length (pieces evs))"
        using Cons.prems(8) Read_done rs step False by simp
      show ?thesis
        using Cons.IH [of rs msgs u k] step False data(4) Cons.prems(3,4,6,7) stream k
        unfolding session by simp
    qed
  qed
qed

lemma http_begin_serving:
  assumes "list_all writable_request rs" and "iteration_order ord" and "tot \<le> 2 ^ 62"
  shows "\<exists>t. http_begin (Some (http_op_of answer)) s = Inr t \<and> http_serving tot answer ord rs [] t \<and>
    unread (hc_buffer (hx_conn t)) = [] \<and> hx_state t = s"
proof -
  let ?c = "setHttpOperation (Some (http_op_of answer)) HttpConnection"
  have c: "hc_buffer ?c = DynamicBuffer 1024" "hc_parser ?c = http_Parser" "hc_request ?c = http_Request"
    "hc_deque ?c = []" "hc_op ?c = Some (http_op_of answer)"
    by (simp_all add: setHttpOperation_def HttpConnection_def)
  have b: "buffer_inv (DynamicBuffer 1024)" "unread (DynamicBuffer 1024) = []" "expand_size (DynamicBuffer 1024) = 1024"
    "length (char_vector (DynamicBuffer 1024)) = 1"
    by (simp_all add: DynamicBuffer_inv) (simp_all add: DynamicBuffer_def)
  obtain b' n where r: "http_start_read ?c = Inr (?c\<lparr>hc_buffer := b'\<rparr>, [Http_read n])" "http_room tot b'" "unread b' = []" "8192 < n"
    using http_start_read_room [OF c(1) b(1,3), of tot] b assms(3) by auto
  have "case rs of [] \<Rightarrow> True | r # _ \<Rightarrow> awaits ord r [] http_Parser http_Request"
    using assms(1,2) by (cases rs) (simp_all add: awaits_new)
  then show ?thesis
    using r c by (cases rs) (simp_all add: http_begin_def http_start_def http_serving_def Let_def)
qed

lemma http_connection_run:
  assumes "list_all (\<lambda>r. writable_request r \<and> hm_version r \<noteq> HTTP_1_0) reqs" and "iteration_order ord"
    and "list_all good_event evs" and "concat (map chars_of (pieces evs)) @ future = concat (map (request_dump ord) reqs)"
    and "length (concat (map (request_dump ord) reqs)) \<le> 2 ^ 62"
    and "k = requests_answered (map (\<lambda>r. length (request_dump ord r)) reqs) 0 (map length (pieces evs))"
    and "http_answers order answer (map (seen ord) (take k reqs)) s = (msgs, s')"
  shows "\<exists>t u. http_begin (Some (http_op_of answer)) s = Inr t \<and> http_session order evs t = Inr u \<and> hx_state u = s' \<and>
    http_serving (2 ^ 62) answer ord (drop k reqs) msgs u \<and>
    chars_of (unread (hc_buffer (hx_conn u))) @ future = concat (map (request_dump ord) (drop k reqs))"
proof -
  have "list_all writable_request reqs" using assms(1) by (auto simp: list_all_iff)
  then obtain t where t: "http_begin (Some (http_op_of answer)) s = Inr t" "http_serving (2 ^ 62) answer ord reqs [] t"
    "unread (hc_buffer (hx_conn t)) = []" "hx_state t = s"
    using http_begin_serving [OF _ assms(2), of reqs "2 ^ 62" answer s] by auto
  then show ?thesis
    using http_session_serving [OF t(2) assms(3,1,2) _ assms(5) order.refl, of future k order] assms(4,6,7) by auto
qed

lemma http_serving_responses:
  assumes "http_serving tot answer ord rs msgs u"
  shows "hx_issued u @ map fst (drop 1 (hc_deque (hx_conn u))) = msgs" and "hx_writing u = [] \<longrightarrow> hx_issued u = msgs"
    and "hx_reading u \<noteq> []" and "hx_shutdowns u = 0"
proof -
  show "hx_issued u @ map fst (drop 1 (hc_deque (hx_conn u))) = msgs" "hx_reading u \<noteq> []" "hx_shutdowns u = 0"
    using assms by (auto simp: http_serving_def Let_def)
  then show "hx_writing u = [] \<longrightarrow> hx_issued u = msgs"
    using assms by (cases "hc_deque (hx_conn u)") (simp_all add: http_serving_def Let_def)
qed

text \<open>C12: An HTTP/1.1 client whose requests arrive cut in any way, while responses are written in any order relative to the reads:
  each piece that arrives completes at most one request; the operation is called with exactly those requests in their order, their responses
  are written in that order, all of them once no write is outstanding, the bytes behind the answered requests stay in the
  buffer, and the connection keeps reading.\<close>

theorem http_connection_answers:
  assumes "list_all (\<lambda>r. writable_request r \<and> hm_version r \<noteq> HTTP_1_0) reqs" and "iteration_order ord"
    and "list_all good_event evs" and "concat (map chars_of (pieces evs)) @ future = concat (map (request_dump ord) reqs)"
    and "length (concat (map (request_dump ord) reqs)) \<le> 2 ^ 62"
    and "k = requests_answered (map (\<lambda>r. length (request_dump ord r)) reqs) 0 (map length (pieces evs))"
    and "http_answers order answer (map (seen ord) (take k reqs)) s = (msgs, s')"
  shows "\<exists>t u. http_begin (Some (http_op_of answer)) s = Inr t \<and> http_session order evs t = Inr u \<and> hx_state u = s' \<and>
    hx_issued u @ map fst (drop 1 (hc_deque (hx_conn u))) = msgs \<and> (hx_writing u = [] \<longrightarrow> hx_issued u = msgs) \<and>
    chars_of (unread (hc_buffer (hx_conn u))) @ future = concat (map (request_dump ord) (drop k reqs)) \<and>
    hx_reading u \<noteq> [] \<and> hx_shutdowns u = 0"
proof -
  obtain t u where u: "http_begin (Some (http_op_of answer)) s = Inr t" "http_session order evs t = Inr u" "hx_state u = s'"
    "http_serving (2 ^ 62) answer ord (drop k reqs) msgs u"
    "chars_of (unread (hc_buffer (hx_conn u))) @ future = concat (map (request_dump ord) (drop k reqs))"
    using http_connection_run [OF assms] by blast
  show ?thesis
    using u(1-3,5) http_serving_responses [OF u(4)] by (intro exI [of _ t] exI [of _ u] conjI)
qed

text \<open>Requests that are sent one at a time, each in pieces of its own, are all answered.\<close>

lemma requests_answered_one:
  "ns \<noteq> [] \<Longrightarrow> list_all (\<lambda>n. 0 < n) ns \<Longrightarrow> have_len + sum_list ns = l \<Longrightarrow>
   requests_answered (l # ls) have_len (ns @ rest) = Suc (requests_answered ls 0 rest)"
proof (induction ns arbitrary: have_len)
  case (Cons n ns)
  show ?case
  proof (cases "ns = []")
    case False
    then have "0 < sum_list ns" using Cons.prems(2) by (cases ns) auto
    then show ?thesis using Cons False by simp
  qed (use Cons.prems in simp)
qed simp

lemma requests_answered_in_turn:
  "list_all2 (\<lambda>l ns. ns \<noteq> [] \<and> list_all (\<lambda>n. 0 < n) ns \<and> sum_list ns = l) ls nss \<Longrightarrow> requests_answered ls 0 (concat nss) = length ls"
  by (induction ls nss rule: list_all2_induct) (simp_all add: requests_answered_one)

text \<open>The example request on which the sessions are run, twice.\<close>

lemma example_request_text:
  "request_dump (\<lambda>m. m) example_request = ''GET /a HTTP/1.1'' @ CRLF_str @ ''Content-Length: 2'' @ CRLF_str @ CRLF_str @ ''hi''"
  by (simp add: request_dump_def example_request_def dump_headers_def MethodToString_def HTTP_METHOD_MAP_def VersionToString_def)

lemma example_request_length: "length (request_dump (\<lambda>m. m) example_request) = 40"
  by (simp add: example_request_text)

lemma example_request_version: "hm_version example_request = HTTP_1_1" "seen (\<lambda>m. m) example_request = example_request"
  by (simp_all add: example_request_def seen_def)

text \<open>Two requests that arrive together: the first is answered, the second stays in the buffer until more data come.\<close>

definition count_answer :: "nat answer" where
  "count_answer r resp n = (resp\<lparr>hs_state := 200\<rparr>, n + 1)"

theorem http_connection_answers_witness:
  "\<exists>t u. http_begin (Some (http_op_of count_answer)) 0 = Inr t \<and>
    http_session (\<lambda>m. m) [Read_done 0 (bytes_of (concat (replicate 2 (request_dump (\<lambda>m. m) example_request)))), Write_done 0] t = Inr u \<and>
    hx_state u = 1 \<and> chars_of (unread (hc_buffer (hx_conn u))) = request_dump (\<lambda>m. m) example_request"
proof -
  let ?d = "request_dump (\<lambda>m. m) example_request"
  let ?evs = "[Read_done 0 (bytes_of (concat (replicate 2 ?d))), Write_done 0]"
  have len: "length (bytes_of s) = length s" for s by (simp add: bytes_of_def)
  have evs: "list_all good_event ?evs"
  proof -
    have "length (bytes_of (concat (replicate 2 ?d))) = 80"
      by (simp add: len numeral_2_eq_2 example_request_length)
    then have "bytes_of (concat (replicate 2 ?d)) \<noteq> [] \<and> length (bytes_of (concat (replicate 2 ?d))) \<le> 8192"
      by fastforce
    then show ?thesis by (simp add: good_event_def)
  qed
  have k: "1 = requests_answered (map (\<lambda>r. length (request_dump (\<lambda>m. m) r)) [example_request, example_request]) 0 (map length (pieces ?evs))"
    by (simp add: len numeral_2_eq_2 example_request_length)
  have a: "http_answers (\<lambda>m. m) count_answer (map (seen (\<lambda>m. m)) (take 1 [example_request, example_request])) 0 =
      ([response_dump (\<lambda>m. m) (http_Response\<lparr>hs_state := 200\<rparr>)], 1)"
    by (simp add: count_answer_def)
  show ?thesis
  proof -
    have p: "concat (map chars_of (pieces ?evs)) @ [] = concat (map (request_dump (\<lambda>m. m)) [example_request, example_request])"
      by (simp add: numeral_2_eq_2)
    have r: "list_all (\<lambda>r. writable_request r \<and> hm_version r \<noteq> HTTP_1_0) [example_request, example_request]"
      "length (concat (map (request_dump (\<lambda>m. m)) [example_request, example_request])) \<le> 2 ^ 62"
      using example_writable(1) by (simp_all add: example_request_version example_request_length)
    obtain t u where "http_begin (Some (http_op_of count_answer)) 0 = Inr t" "http_session (\<lambda>m. m) ?evs t = Inr u" "hx_state u = 1"
      "chars_of (unread (hc_buffer (hx_conn u))) @ [] = concat (map (request_dump (\<lambda>m. m)) (drop 1 [example_request, example_request]))"
      using http_connection_answers [OF r(1) example_writable(3) evs p r(2) k a] by blast
    then show ?thesis by (intro exI [of _ t] exI [of _ u] conjI) simp_all
  qed
qed

subsection \<open>The example program and its client\<close>

text \<open>What the program's operation answers, and the response it makes.\<close>

definition main_answer :: "'s answer" where
  "main_answer request response s = (setState 200 (setVersion (hm_version request) response), s)"

lemma main_http_op_eq: "main_http_op = http_op_of main_answer"
  by (simp add: fun_eq_iff main_http_op_def http_op_of_def main_answer_def)

definition ok_response :: http_response where
  "ok_response = http_Response\<lparr>hm_version := HTTP_1_1, hs_state := 200\<rparr>"

lemma http_answers_main:
  "list_all (\<lambda>r. hm_version r = HTTP_1_1) rs \<Longrightarrow>
   http_answers order main_answer rs s = (replicate (length rs) (response_dump order ok_response), s)"
  by (induction rs) (simp_all add: main_answer_def ok_response_def setState_def setVersion_def)

lemma ok_response_writable: "writable_response ok_response" "SP \<notin> set (StateToDesc (hs_state ok_response))"
  by (simp_all add: writable_response_def writable_message_def ok_response_def http_Response_def
      umap_ok_def getHeader_def umap_find_def known_state_def HTTP_STATUS_MAP_def StateToDesc_def show_nat.simps char_of_def bit_0)

text \<open>C13: A client that sends HTTP/1.1 requests to the example program, each cut in any way but in pieces of its own, gets one response
  for each of them, and the library's parser reads every response, in whatever pieces it arrives, as \<open>200 OK\<close>.\<close>

theorem main_server_answers:
  assumes "list_all (\<lambda>r. writable_request r \<and> hm_version r = HTTP_1_1) reqs" and "iteration_order ord" and "iteration_order order"
    and "list_all2 (\<lambda>r cs. concat (map chars_of cs) = request_dump ord r) reqs css"
    and "list_all good_event evs" and "pieces evs = concat css"
    and "length (concat (map (request_dump ord) reqs)) \<le> 2 ^ 62"
  shows "\<exists>t u. http_begin (Some main_http_op) s = Inr t \<and> http_session order evs t = Inr u \<and> hx_shutdowns u = 0 \<and>
    hx_issued u @ map fst (drop 1 (hc_deque (hx_conn u))) = replicate (length reqs) (response_dump order ok_response) \<and>
    (\<forall>cs rest. cs \<noteq> [] \<and> concat cs = response_dump order ok_response @ rest \<longrightarrow>
       (\<exists>p. feed http_parse http_Parser [] (ResponseObject http_Response) cs = Inr (READY, p, ResponseObject ok_response) \<and>
          http_nparse p = length (response_dump order ok_response)))"
proof -
  have reqs: "list_all (\<lambda>r. writable_request r \<and> hm_version r \<noteq> HTTP_1_0) reqs"
    "list_all (\<lambda>r. hm_version r = HTTP_1_1) (map (seen ord) reqs)"
    using assms(1) by (auto simp: list_all_iff seen_def)
  have stream: "concat (map chars_of (concat css)) = concat (map (request_dump ord) reqs)"
    using assms(4) by (induction reqs css rule: list_all2_induct) simp_all
  have good: "list_all (\<lambda>d. d \<noteq> [] \<and> length d \<le> 8192) (pieces evs)"
    using assms(5) by (induction evs rule: pieces.induct) (simp_all add: good_event_def)
  have "list_all2 (\<lambda>l ns. ns \<noteq> [] \<and> list_all (\<lambda>n. 0 < n) ns \<and> sum_list ns = l)
      (map (\<lambda>r. length (request_dump ord r)) reqs) (map (map length) css)"
    using assms(4) good [unfolded assms(6)]
  proof (induction reqs css rule: list_all2_induct)
    case (Cons r reqs cs css)
    have sum: "sum_list (map length cs) = length (request_dump ord r)"
      using arg_cong [OF Cons.hyps(1), of length] by (simp add: length_concat comp_def)
    moreover have "0 < length (request_dump ord r)"
      by (simp add: request_dump_def CRLF_str_def)
    ultimately show ?case
      using Cons by (auto simp: list_all_iff)
  qed simp
  from requests_answered_in_turn [OF this]
  have k: "length reqs = requests_answered (map (\<lambda>r. length (request_dump ord r)) reqs) 0 (map length (pieces evs))"
    by (simp add: assms(6) map_concat)
  have a: "http_answers order main_answer (map (seen ord) (take (length reqs) reqs)) s =
      (replicate (length reqs) (response_dump order ok_response), s)"
    using http_answers_main [OF reqs(2), of order s] by simp
  have st: "concat (map chars_of (pieces evs)) @ [] = concat (map (request_dump ord) reqs)"
    using stream assms(6) by simp
  have "\<exists>p. feed http_parse http_Parser [] (ResponseObject http_Response) cs = Inr (READY, p, ResponseObject ok_response) \<and>
      http_nparse p = length (response_dump order ok_response)"
    if "cs \<noteq> []" and "concat cs = response_dump order ok_response @ rest" for cs rest
  proof -
    have "order [] = []" using assms(3) unfolding iteration_order_def by (metis mset_zero_iff)
    then have "ok_response\<lparr>hm_headers := order (hm_headers ok_response)\<rparr> = ok_response"
      by (simp add: ok_response_def http_Response_def)
    then show ?thesis
      using response_dump_parse [OF ok_response_writable(1) assms(3) ok_response_writable(2), of rest] http_feed_READY [OF _ _ that(1)]
        that(2) by fastforce
  qed
  then have client: "\<forall>cs rest. cs \<noteq> [] \<and> concat cs = response_dump order ok_response @ rest \<longrightarrow>
       (\<exists>p. feed http_parse http_Parser [] (ResponseObject http_Response) cs = Inr (READY, p, ResponseObject ok_response) \<and>
          http_nparse p = length (response_dump order ok_response))" by blast
  obtain t u where u: "http_begin (Some main_http_op) s = Inr t" "http_session order evs t = Inr u"
    "http_serving (2 ^ 62) main_answer ord (drop (length reqs) reqs) (replicate (length reqs) (response_dump order ok_response)) u"
    using http_connection_run [OF reqs(1) assms(2,5) st assms(7) k a] unfolding main_http_op_eq by blast
  show ?thesis
    by (intro exI [of _ t] exI [of _ u] conjI u(1,2) http_serving_responses(1,4) [OF u(3)] client)
qed

theorem main_server_answers_witness:
  "\<exists>t u. http_begin (Some main_http_op) () = Inr t \<and>
    http_session (\<lambda>m. m) [Read_done 0 (bytes_of (take 9 (request_dump (\<lambda>m. m) example_request))),
      Read_done 0 (bytes_of (drop 9 (request_dump (\<lambda>m. m) example_request))), Write_done 0] t = Inr u \<and> hx_shutdowns u = 0"
proof -
  let ?d = "request_dump (\<lambda>m. m) example_request"
  let ?a = "bytes_of (take 9 ?d)" and ?b = "bytes_of (drop 9 ?d)"
  let ?evs = "[Read_done 0 ?a, Read_done 0 ?b, Write_done 0]"
  have "length ?a = 9" "length ?b = 31"
    by (simp_all add: bytes_of_def example_request_length)
  then have "?a \<noteq> [] \<and> length ?a \<le> 8192" "?b \<noteq> [] \<and> length ?b \<le> 8192" by fastforce+
  then have evs: "list_all good_event ?evs" by (simp add: good_event_def)
  have css: "list_all2 (\<lambda>r cs. concat (map chars_of cs) = request_dump (\<lambda>m. m) r) [example_request] [[?a, ?b]]"
    by simp
  have r: "list_all (\<lambda>r. writable_request r \<and> hm_version r = HTTP_1_1) [example_request]"
    "length (concat (map (request_dump (\<lambda>m. m)) [example_request])) \<le> 2 ^ 62"
    using example_writable(1) by (simp_all add: example_request_version example_request_length)
  show ?thesis
    using main_server_answers [OF r(1) example_writable(3,3) css evs _ r(2), of "()"] by auto
qed

theorem http_connection_never_stalls_witness:
  "\<exists>t. http_begin (Some main_http_op) () = Inr t \<and> length (hx_reading t) \<le> 1"
proof -
  obtain t where t: "http_begin (Some main_http_op) () = Inr t"
    using http_begin_serving [of "[]" "\<lambda>m. m" 0 main_answer "()"] by (auto simp: main_http_op_eq iteration_order_def)
  have e: "http_session (\<lambda>m. m) [] t = Inr t" by simp
  show ?thesis
    using http_connection_never_stalls [OF t e _ http_begin_waiting(2) [OF t]] t by simp
qed

subsection \<open>A request the parser refuses\<close>

text \<open>The text the example answers with is what \<open>dump\<close> writes for the state 400, whose reason phrase has two words.\<close>

lemma bad_request_dump: "bad_request = response_dump (\<lambda>m. m) (http_Response\<lparr>hm_version := HTTP_1_1, hs_state := 400\<rparr>)"
  by (simp add: bad_request_def response_dump_def VersionToString_def show_int_def show_nat.simps char_of_def bit_0
      StateToDesc_def HTTP_STATUS_MAP_def dump_headers_def http_Response_def)

lemma bad_request_state: "known_state 400" "SP \<in> set (StateToDesc 400)"
  by (simp_all add: known_state_def StateToDesc_def HTTP_STATUS_MAP_def)

text \<open>C39: When the first data of a client are refused, the operation is not called, the connection reads nothing more, writes one
  \<open>400 Bad Request\<close> and shuts the socket down when that is written, after which no event has an effect; but a client with the library's own parser
  cannot read that response.\<close>

theorem http_bad_request:
  assumes "http_parse http_Parser (chars_of data) (RequestObject http_Request) = Inr (ERROR, p, m)" and "length data \<le> 8192"
  shows "\<exists>t u v. http_begin http_op s = Inr t \<and>
    http_session order [Read_done 0 data] t = Inr u \<and> hx_writing u = [(bad_request, True)] \<and> hx_reading u = [] \<and>
    hx_shutdowns u = 0 \<and> hx_state u = s \<and>
    http_session order [Read_done 0 data, Write_done 0] t = Inr v \<and> hx_shutdowns v = 1 \<and> hx_issued v = [bad_request] \<and>
    (\<forall>evs. http_session order evs v = Inr v) \<and>
    (\<exists>q. http_parse http_Parser (bad_request @ rest) (ResponseObject r) = Inr (ERROR, q, ResponseObject r))"
proof -
  let ?c = "setHttpOperation http_op HttpConnection"
  have b: "buffer_inv (DynamicBuffer 1024)" "unread (DynamicBuffer 1024) = []" "expand_size (DynamicBuffer 1024) = 1024"
    "length (char_vector (DynamicBuffer 1024)) = 1" "hc_buffer ?c = DynamicBuffer 1024"
    by (simp_all add: DynamicBuffer_inv) (simp_all add: DynamicBuffer_def setHttpOperation_def HttpConnection_def)
  obtain b' n where n: "http_start_read ?c = Inr (?c\<lparr>hc_buffer := b'\<rparr>, [Http_read n])" "http_room 0 b'" "unread b' = []" "8192 < n"
    using http_start_read_room [OF b(5,1,3), of 0] b(2,4) by auto
  then obtain b2 where b2: "store data b' = Inr b2" "buffer_inv b2" "unread b2 = data"
    using store_unread [of b' data] assms(2) by (auto simp: http_room_def)
  have bs: "readBegin b2 = Inr (read_index b2)" "copy_out (char_vector b2) (read_index b2) (dataBytes b2) = Inr data"
    using copy_out_unread [OF b2(2), of 0 "length (unread b2)"] buffer_sizes [OF b2(2)] b2(3) by simp_all
  have data: "data \<noteq> []"
    using assms(1) by (auto simp: http_parse_LINE http_Parser_def parseLine_def)
  define t where "t = \<lparr>hx_conn = ?c\<lparr>hc_buffer := b'\<rparr>, hx_state = s, hx_reading = [n], hx_writing = [], hx_issued = [], hx_shutdowns = 0\<rparr>"
  define c2 where "c2 = ?c\<lparr>hc_buffer := b2, hc_parser := p, hc_request := request_of m, hc_deque := [(bad_request, True)]\<rparr>"
  define u where "u = t\<lparr>hx_conn := c2, hx_reading := [], hx_writing := [(bad_request, True)], hx_issued := [bad_request]\<rparr>"
  define v where "v = u\<lparr>hx_conn := c2\<lparr>hc_deque := []\<rparr>, hx_writing := [], hx_shutdowns := 1\<rparr>"
  have c: "hc_deque ?c = []" "hc_parser ?c = http_Parser" "hc_request ?c = http_Request"
    by (simp_all add: setHttpOperation_def HttpConnection_def)
  have t: "http_begin http_op s = Inr t"
    using n(1) by (simp add: http_begin_def http_start_def t_def)
  have "http_on_read order 0 data (?c\<lparr>hc_buffer := b'\<rparr>) s = Inr (c2, s, [Http_write bad_request True])"
    using data b2(1) bs assms(1) c by (simp add: http_on_read_def Let_def http_start_send_eq c2_def)
  then have u: "http_session order [Read_done 0 data] t = Inr u"
    using n(4) assms(2) by (simp add: t_def u_def)
  moreover have "http_event_step order (Write_done 0) u = Inr v"
    by (simp add: u_def v_def c2_def http_on_write_def t_def)
  ultimately have v: "http_session order [Read_done 0 data, Write_done 0] t = Inr v"
    using http_session_append [of order "[Read_done 0 data]" "[Write_done 0]" t] by simp
  have "http_session order evs v = Inr v" for evs
  proof (induction evs)
    case (Cons ev evs)
    have "http_event_step order ev v = Inr v" by (cases ev) (simp_all add: v_def u_def)
    then show ?case using Cons by simp
  qed simp
  moreover have "\<exists>q. http_parse http_Parser (bad_request @ rest) (ResponseObject r) = Inr (ERROR, q, ResponseObject r)"
    using response_reason_words_rejected [of "http_Response\<lparr>hm_version := HTTP_1_1, hs_state := 400\<rparr>" "\<lambda>m. m" rest r] bad_request_state
    by (simp add: bad_request_dump)
  ultimately show ?thesis
    using t u v by (intro exI [of _ t] exI [of _ u] exI [of _ v]) (simp add: u_def v_def t_def)
qed

theorem http_bad_request_witness:
  "\<exists>t v. http_begin (Some main_http_op) () = Inr t \<and>
    http_session (\<lambda>m. m) [Read_done 0 (bytes_of (''HELLO'' @ CRLF_str)), Write_done 0] t = Inr v \<and> hx_issued v = [bad_request]"
proof -
  have "http_parse http_Parser (chars_of (bytes_of (''HELLO'' @ CRLF_str))) (RequestObject http_Request) =
      Inr (ERROR, http_Parser, RequestObject http_Request)"
    by (simp add: http_parse_LINE http_Parser_def parseLine_def CRLF_str_def parseRequestLine_def lineSplit_def CRLF_def INT_MAX_def)
  from http_bad_request [OF this, of "Some main_http_op" "()" "\<lambda>m. m" "[]" http_Response] show ?thesis
    by (auto simp: bytes_of_def CRLF_str_def)
qed

end
