(* ===== verification/Example_Server.thy ===== *)
theory Example_Server
  imports Accept_Contract Http_Session
begin

section \<open>The example server (examples/tcp_server.hpp, used by both example programs)\<close>

text \<open>
  \<^verbatim>\<open>TCPServer<T>\<close> accepts connections of any class for the contexts of its pool. It provides the contract of \<open>Accept_Contract\<close>, with
  \<open>conn_init_op_\<close> in the place of the RPC server's \<open>connect_op_\<close> and the posted \<open>start()\<close> of the connection in the place of \<open>start_recv\<close>.
\<close>

record tcp_server =
  tcps_pool :: thread_pool
  tcps_init_op :: bool   \<comment> \<open>whether \<open>conn_init_op_\<close> is set\<close>

definition TCPServer :: "nat \<Rightarrow> tcp_server cpp" where
  "TCPServer thread_num = cpp_bind (ThreadPool thread_num) (\<lambda>p. Inr \<lparr>tcps_pool = p, tcps_init_op = False\<rparr>)"

definition setConnInitOp :: "bool \<Rightarrow> tcp_server \<Rightarrow> tcp_server" where
  "setConnInitOp init_op sv = sv\<lparr>tcps_init_op := init_op\<rparr>"

definition tcps_start_accept :: "tcp_server \<Rightarrow> (tcp_server \<times> accept_action list) cpp" where
  "tcps_start_accept sv =
     cpp_bind (nextContext (tcps_pool sv)) (\<lambda>(ioc, p). Inr (sv\<lparr>tcps_pool := p\<rparr>, [Acceptor_async_accept ioc]))"

definition tcps_accept_completed :: "int \<Rightarrow> nat \<Rightarrow> tcp_server \<Rightarrow> (tcp_server \<times> accept_action list) cpp" where
  "tcps_accept_completed ec ioc sv =
     (if ec = 0 then
        cpp_bind (tcps_start_accept sv) (\<lambda>(sv1, acts).
          Inr (sv1, (if tcps_init_op sv then [Run_connect_op ioc] else []) @ [Post_start_recv ioc] @ acts))
      else Inr (sv, []))"

definition tcps_start :: "(nat \<Rightarrow> nat) \<Rightarrow> endpoint \<Rightarrow> tcp_server \<Rightarrow> (tcp_server \<times> accept_action list) cpp" where
  "tcps_start addr ep sv =
     cpp_bind (tcps_start_accept (sv\<lparr>tcps_pool := pool_start addr (tcps_pool sv)\<rparr>)) (\<lambda>(sv1, acts). Inr (sv1, Acceptor_setup ep # acts))"

text \<open>The destructor.\<close>

definition tcps_destroy :: "tcp_server \<Rightarrow> (tcp_server \<times> accept_action list) cpp" where
  "tcps_destroy sv = cpp_bind (pool_stop (tcps_pool sv)) (\<lambda>p. Inr (sv\<lparr>tcps_pool := p\<rparr>, [Acceptor_cancel]))"

lemma tcps_start_accept_turn:
  assumes "pool_turn n addr i (tcps_pool sv)"
  shows "\<exists>sv1. tcps_start_accept sv = Inr (sv1, [Acceptor_async_accept (addr (i mod n))]) \<and> pool_turn n addr (Suc i) (tcps_pool sv1)"
  using nextContext_turn [OF assms] by (auto simp: tcps_start_accept_def)

interpretation example: pool_acceptor tcps_accept_completed "\<lambda>n addr i sv. pool_turn n addr i (tcps_pool sv)"
proof unfold_locales
  fix n addr i and sv :: tcp_server and ioc :: nat
  assume "pool_turn n addr i (tcps_pool sv)"
  then obtain sv1 where sv1: "tcps_start_accept sv = Inr (sv1, [Acceptor_async_accept (addr (i mod n))])" "pool_turn n addr (Suc i) (tcps_pool sv1)"
    using tcps_start_accept_turn by blast
  let ?acts = "if tcps_init_op sv then [Run_connect_op ioc] else []"
  have "tcps_accept_completed 0 ioc sv = Inr (sv1, ?acts @ [Post_start_recv ioc, Acceptor_async_accept (addr (i mod n))])"
    using sv1(1) by (simp add: tcps_accept_completed_def)
  then show "\<exists>sv1 acts. tcps_accept_completed 0 ioc sv = Inr (sv1, acts @ [Post_start_recv ioc, Acceptor_async_accept (addr (i mod n))]) \<and>
      accepts_pending acts = [] \<and> connections acts = [] \<and> pool_turn n addr (Suc i) (tcps_pool sv1)"
    using sv1(2) by (intro exI [of _ sv1] exI [of _ ?acts]) simp
qed (simp add: tcps_accept_completed_def)

text \<open>A started example server gives its connections to the contexts of its pool in turn, up to the first accept that fails.\<close>

lemma example_server_connections:
  assumes "0 < n" and "n < size_mod" and "TCPServer n = Inr sv" and "tcps_start addr ep (setConnInitOp b sv) = Inr (sv1, acts1)"
  shows "\<exists>sv2 pending acts2. accept_run tcps_accept_completed ecs (accepts_pending acts1) sv1 = Inr (sv2, pending, acts2) \<and>
    connections acts2 = map (\<lambda>j. addr (j mod n)) [0 ..< length (takeWhile (\<lambda>ec. ec = 0) ecs)] \<and>
    (pending = [] \<longleftrightarrow> \<not> list_all (\<lambda>ec. ec = 0) ecs)"
proof -
  let ?sv = "(setConnInitOp b sv)\<lparr>tcps_pool := pool_start addr (tcps_pool sv)\<rparr>"
  have "pool_turn n addr 0 (tcps_pool ?sv)"
    using assms(1-3) started_pool_turn [of n "tcps_pool sv" addr]
    by (auto simp: TCPServer_def cpp_bind_eq_Inr_iff)
  from tcps_start_accept_turn [OF this]
  have "pool_turn n addr 1 (tcps_pool sv1)" "accepts_pending acts1 = [addr (0 mod n)]"
    using assms(4) by (auto simp: tcps_start_def setConnInitOp_def)
  then show ?thesis
    using example.connections_in_turn [of n addr 0 sv1 ecs] by simp
qed

end
