(* ===== verification/Example_Main.thy ===== *)
theory Example_Main
  imports Example_Server Socket_Events Loop_Wait
begin

section \<open>The example programs (examples/protocol_examples/http_examples/main.cc, examples/asio_examples/main.cc)\<close>

text \<open>
  Both programs wait for \<^verbatim>\<open>SIGINT\<close> with a signal set and accept connections with the server of \<open>Example_Server\<close>, on one
  context: the reactor has the signal set's read and at most one accept. \<open>main_user\<close> is what their callbacks do; what
  goes to the pool's contexts and the user's \<open>conn_init_op_\<close> is \<open>mn_elsewhere\<close>. The server object lives in the state outside the reactor.
\<close>

datatype main_callback = Sigset_waited | Accepted nat nat   \<comment> \<open>the new connection's socket and context\<close>

record 'k main_view =
  mn_server :: "'k \<Rightarrow> tcp_server"
  mn_put :: "tcp_server \<Rightarrow> 'k \<Rightarrow> 'k"
  mn_socket :: "'k \<Rightarrow> nat"     \<comment> \<open>the number of the next connection's socket\<close>
  mn_elsewhere :: "accept_action \<Rightarrow> 'k \<Rightarrow> 'k"
  mn_crash :: "'k \<Rightarrow> 'k"

text \<open>What the server asks for, with the acceptor \<open>a\<close>.\<close>

definition main_perform ::
  "endian \<Rightarrow> 'k os \<Rightarrow> (main_callback, 'k) user \<Rightarrow> 'k main_view \<Rightarrow> nat \<Rightarrow> accept_action \<Rightarrow> (main_callback, 'k) io \<Rightarrow> (main_callback, 'k) io" where
  "main_perform e os user w a act r =
     (case act of
        Acceptor_setup ep \<Rightarrow> snd (acceptor_setup e os user a ep r)
      | Acceptor_async_accept ioc \<Rightarrow>
          (let s = mn_socket w (kernel r) in acceptor_async_accept os user a s (Accepted s ioc) (TCPSocket s r))
      | Acceptor_cancel \<Rightarrow> acceptor_cancel os user a r
      | _ \<Rightarrow> r\<lparr>kernel := mn_elsewhere w act (kernel r)\<rparr>)"

primrec main_user :: "endian \<Rightarrow> 'k os \<Rightarrow> 'k main_view \<Rightarrow> nat \<Rightarrow> nat \<Rightarrow> (main_callback, 'k) user" where
  "main_user e os w a 0 = (\<lambda>u ec n r. r\<lparr>kernel := mn_crash w (kernel r)\<rparr>)"
| "main_user e os w a (Suc m) = (\<lambda>u ec n r.
     case u of
       Sigset_waited \<Rightarrow> if ec = 0 then reactor_quit r else r
     | Accepted s ioc \<Rightarrow>
         (case tcps_accept_completed ec ioc (mn_server w (kernel r)) of
            Inl _ \<Rightarrow> r\<lparr>kernel := mn_crash w (kernel r)\<rparr>
          | Inr (sv, acts) \<Rightarrow>
              fold (main_perform e os (main_user e os w a m) w a) acts (r\<lparr>kernel := mn_put w sv (kernel r)\<rparr>)))"

lemma main_user_signal [simp]: "main_user e os w a (Suc m) Sigset_waited ec n r = (if ec = 0 then reactor_quit r else r)"
  by simp

declare main_user.simps(2) [simp del]

text \<open>\<open>main\<close> up to the loop. \<open>n\<close> is the number of threads, \<open>init_op\<close> whether the program sets \<open>conn_init_op_\<close>.\<close>

definition main_setup ::
  "(string \<Rightarrow> bytes option) \<Rightarrow> (string \<Rightarrow> bytes option) \<Rightarrow> endian \<Rightarrow> 'k os \<Rightarrow> (main_callback, 'k) user \<Rightarrow> 'k main_view \<Rightarrow> nat \<Rightarrow>
   int \<Rightarrow> nat \<Rightarrow> bool \<Rightarrow> (nat \<Rightarrow> nat) \<Rightarrow> (main_callback, 'k) io \<Rightarrow> (signal_set \<times> (main_callback, 'k) io) cpp" where
  "main_setup pton4 pton6 e os user w a sigint n init_op addr r =
     cpp_bind (SignalSet os sigint r) (\<lambda>(sigset, r1).
     cpp_bind (Endpoint_ip pton4 pton6 e ''0.0.0.0'' 9950) (\<lambda>endpoint.
     let r2 = Acceptor a (signal_async_wait os user Sigset_waited sigset r1)
     in cpp_bind (TCPServer n) (\<lambda>server.
        cpp_bind (tcps_start addr endpoint (setConnInitOp init_op server)) (\<lambda>(server1, acts).
          Inr (sigset, fold (main_perform e os user w a) acts (r2\<lparr>kernel := mn_put w server1 (kernel r2)\<rparr>))))))"

text \<open>The whole of \<open>main\<close>, as long as \<open>fuel\<close> calls of \<^verbatim>\<open>epoll_wait\<close> take; its own value is 0 whatever the loop returns.\<close>

definition main_program ::
  "(string \<Rightarrow> bytes option) \<Rightarrow> (string \<Rightarrow> bytes option) \<Rightarrow> endian \<Rightarrow> 'k os \<Rightarrow> (main_callback, 'k) user \<Rightarrow> 'k main_view \<Rightarrow> nat \<Rightarrow>
   int \<Rightarrow> nat \<Rightarrow> bool \<Rightarrow> (nat \<Rightarrow> nat) \<Rightarrow> nat \<Rightarrow> (main_callback, 'k) io \<Rightarrow> (int \<times> (main_callback, 'k) io) option cpp" where
  "main_program pton4 pton6 e os user w a sigint n init_op addr fuel r =
     cpp_bind (main_setup pton4 pton6 e os user w a sigint n init_op addr r) (\<lambda>(sigset, r1).
       Inr (loop_wait os (io_call e os user) fuel r1))"

text \<open>The HTTP server and the echo server.\<close>

definition SIGINT :: int where "SIGINT = 2"

definition http_main ::
  "(string \<Rightarrow> bytes option) \<Rightarrow> (string \<Rightarrow> bytes option) \<Rightarrow> endian \<Rightarrow> 'k os \<Rightarrow> (main_callback, 'k) user \<Rightarrow> 'k main_view \<Rightarrow> nat \<Rightarrow>
   (nat \<Rightarrow> nat) \<Rightarrow> nat \<Rightarrow> (main_callback, 'k) io \<Rightarrow> (int \<times> (main_callback, 'k) io) option cpp" where
  "http_main pton4 pton6 e os user w a addr fuel r = main_program pton4 pton6 e os user w a SIGINT 6 True addr fuel r"

definition asio_main ::
  "(string \<Rightarrow> bytes option) \<Rightarrow> (string \<Rightarrow> bytes option) \<Rightarrow> endian \<Rightarrow> 'k os \<Rightarrow> (main_callback, 'k) user \<Rightarrow> 'k main_view \<Rightarrow> nat \<Rightarrow>
   (nat \<Rightarrow> nat) \<Rightarrow> nat \<Rightarrow> (main_callback, 'k) io \<Rightarrow> (int \<times> (main_callback, 'k) io) option cpp" where
  "asio_main pton4 pton6 e os user w a addr fuel r = main_program pton4 pton6 e os user w a SIGINT 5 False addr fuel r"

subsection \<open>What the reactor of such a program has\<close>

definition main_inv :: "nat \<Rightarrow> int \<Rightarrow> (main_callback, 'k) io \<Rightarrow> bool" where
  "main_inv a sfd r \<longleftrightarrow> tcp_sockfd r a \<noteq> sfd \<and>
     (\<forall>fd. write_op (opinfo_at fd r) = None \<and>
        (case read_op (opinfo_at fd r) of
           None \<Rightarrow> True
         | Some op \<Rightarrow> if fd = sfd then op = Signal_read sfd Sigset_waited else (\<exists>s ioc. s \<noteq> a \<and> op = Tcp_accept fd s (Accepted s ioc))))"

lemma main_inv_read:
  assumes "main_inv a sfd r" and "read_op (opinfo_at fd r) = Some op"
  shows "if fd = sfd then op = Signal_read sfd Sigset_waited else \<exists>s ioc. s \<noteq> a \<and> op = Tcp_accept fd s (Accepted s ioc)"
proof -
  have "case read_op (opinfo_at fd r) of None \<Rightarrow> True
    | Some op \<Rightarrow> if fd = sfd then op = Signal_read sfd Sigset_waited else (\<exists>s ioc. s \<noteq> a \<and> op = Tcp_accept fd s (Accepted s ioc))"
    using assms(1) unfolding main_inv_def by blast
  then show ?thesis using assms(2) by simp
qed

definition waiting :: "int \<Rightarrow> (main_callback, 'k) io \<Rightarrow> bool" where
  "waiting sfd r \<longleftrightarrow> read_op (opinfo_at sfd r) \<noteq> None"

text \<open>A function that has nothing to do with the signal set and \<open>quit\<close>.\<close>

definition main_keeps :: "nat \<Rightarrow> int \<Rightarrow> ((main_callback, 'k) io \<Rightarrow> (main_callback, 'k) io) \<Rightarrow> bool" where
  "main_keeps a sfd f \<longleftrightarrow>
     (\<forall>r. main_inv a sfd r \<longrightarrow> main_inv a sfd (f r) \<and> quit (f r) = quit r \<and> opinfo_at sfd (f r) = opinfo_at sfd r)"

lemma main_keepsD:
  "main_keeps a sfd f \<Longrightarrow> main_inv a sfd r \<Longrightarrow> main_inv a sfd (f r) \<and> quit (f r) = quit r \<and> opinfo_at sfd (f r) = opinfo_at sfd r"
  by (simp add: main_keeps_def)

lemma main_keeps_comp: "main_keeps a sfd f \<Longrightarrow> main_keeps a sfd g \<Longrightarrow> main_keeps a sfd (\<lambda>r. f (g r))"
  by (simp add: main_keeps_def)

lemma main_keeps_fold: "(\<And>x. x \<in> set xs \<Longrightarrow> main_keeps a sfd (f x)) \<Longrightarrow> main_keeps a sfd (fold f xs)"
  by (induction xs) (simp_all add: main_keeps_def)

lemma main_inv_same:
  "tcp_sockfd r' a = tcp_sockfd r a \<Longrightarrow> (\<And>fd. opinfo_at fd r' = opinfo_at fd r) \<Longrightarrow> main_inv a sfd r' \<longleftrightarrow> main_inv a sfd r"
  by (simp add: main_inv_def)

lemma main_keeps_kernel: "main_keeps a sfd (\<lambda>r. r\<lparr>kernel := g (kernel r)\<rparr>)"
  unfolding main_keeps_def by (intro allI impI conjI, subst main_inv_same) (simp_all add: opinfo_at_kernel)

lemma opinfo_at_sockets [reactor_simps]: "opinfo_at fd (r\<lparr>tcp_sockfd := g\<rparr>) = opinfo_at fd r"
  by (simp add: opinfo_at_def)

lemma main_keeps_socket: "s \<noteq> a \<Longrightarrow> main_keeps a sfd (\<lambda>r. r\<lparr>tcp_sockfd := (tcp_sockfd r)(s := v r)\<rparr>)"
  unfolding main_keeps_def by (intro allI impI conjI, subst main_inv_same) (simp_all add: opinfo_at_sockets)

lemma main_keeps_sys: "main_keeps a sfd (\<lambda>r. snd (sys f r))"
  unfolding main_keeps_def sys_def
  by (intro allI impI conjI, subst main_inv_same) (simp_all add: opinfo_at_kernel split: prod.split)

lemma steady_quit: "steady quit"
  by (simp add: steady_def)

lemmas steady_here = steady_basic [OF steady_quit] steady_basic [OF steady_sockfd]

lemma main_keeps_remove:
  assumes "fd \<noteq> sfd"
  shows "main_keeps a sfd (removeReadOperation os fd)"
  unfolding main_keeps_def
proof (intro allI impI)
  fix r :: "(main_callback, 'a) io"
  assume inv: "main_inv a sfd r"
  have same: "tcp_sockfd (remove_operation os Reading fd r) = tcp_sockfd r" "quit (remove_operation os Reading fd r) = quit r"
    by (rule steady_remove [OF steady_sockfd], rule steady_remove [OF steady_quit])
  have "opinfo_at g (remove_operation os Reading fd r) = (if g = fd then (opinfo_at fd r)\<lparr>read_op := None\<rparr> else opinfo_at g r)" for g
    by (cases "read_op (opinfo_at fd r)")
      (simp_all add: remove_operation_None remove_operation_opinfo operation_simps(1) set_operation_def)
  then show "main_inv a sfd (removeReadOperation os fd r) \<and> quit (removeReadOperation os fd r) = quit r \<and>
      opinfo_at sfd (removeReadOperation os fd r) = opinfo_at sfd r"
    using inv same assms by (auto simp: main_inv_def remove_operation_def)
qed

lemma main_keeps_accept:
  assumes call: "\<And>ec. main_keeps a sfd (call (Tcp_accept fd s (Accepted s ioc)) ec)" and "fd \<noteq> sfd" and "s \<noteq> a"
  shows "main_keeps a sfd (registerReadOperation os call fd (Tcp_accept fd s (Accepted s ioc)))"
  unfolding main_keeps_def register_eqs
proof (intro allI impI)
  fix r :: "(main_callback, 'a) io"
  let ?op = "Tcp_accept fd s (Accepted s ioc)"
  assume inv: "main_inv a sfd r"
  have same: "tcp_sockfd r2 = tcp_sockfd r \<and> quit r2 = quit r \<and> (\<forall>g. opinfo_at g r2 = opinfo_at g r)"
    if "epoll_ctl os p g ev (need_opinfo fd r) = (c, r2)" for p g ev c r2
  proof -
    have r2: "r2 = snd (epoll_ctl os p g ev (need_opinfo fd r))" by (simp add: that)
    show ?thesis
      unfolding r2 by (simp only: steady_here epoll_ctl_opinfo opinfo_at_need) simp
  qed
  have need: "main_inv a sfd (need_opinfo fd r)" "quit (need_opinfo fd r) = quit r" "opinfo_at sfd (need_opinfo fd r) = opinfo_at sfd r"
    using inv by (simp_all add: main_inv_def opinfo_at_need steady_here)
  have keeps: "main_inv a sfd r2" if "tcp_sockfd r2 = tcp_sockfd r" "\<forall>g. opinfo_at g r2 = opinfo_at g r" for r2 :: "(main_callback, 'a) io"
    using that inv by (simp add: main_inv_def)
  have put: "main_inv a sfd (put_opinfo fd (set_operation Reading (Some ?op) (opinfo_at fd r2)) r2) \<and>
      quit (put_opinfo fd (set_operation Reading (Some ?op) (opinfo_at fd r2)) r2) = quit r2 \<and>
      opinfo_at sfd (put_opinfo fd (set_operation Reading (Some ?op) (opinfo_at fd r2)) r2) = opinfo_at sfd r2"
    if "main_inv a sfd r2" for r2 :: "(main_callback, 'a) io"
    using that assms(2,3) by (auto simp: main_inv_def opinfo_at_put set_operation_def steady_here)
  show "main_inv a sfd (register os Reading call fd ?op r) \<and> quit (register os Reading call fd ?op r) = quit r \<and>
      opinfo_at sfd (register os Reading call fd ?op r) = opinfo_at sfd r"
  proof (cases "operation Reading (opinfo_at fd (need_opinfo fd r)) = None")
    case False
    then have "register os Reading call fd ?op r = call ?op err_EOPEXISTS (need_opinfo fd r)"
      by (simp add: register_def Let_def)
    then show ?thesis
      using main_keepsD [OF call need(1), of err_EOPEXISTS] need(2,3) by simp
  next
    case True
    define p where "p = (if operation (other Reading) (opinfo_at fd (need_opinfo fd r)) \<noteq> None then EPOLL_CTL_MOD else EPOLL_CTL_ADD)"
    define ev where "ev = (if operation (other Reading) (opinfo_at fd (need_opinfo fd r)) \<noteq> None
      then waits_for Reading OR waits_for (other Reading) else waits_for Reading)"
    obtain c r2 where ctl: "epoll_ctl os p fd ev (need_opinfo fd r) = (c, r2)" by fastforce
    then have eq: "register os Reading call fd ?op r =
        (if c \<noteq> 0 then call ?op c r2 else put_opinfo fd (set_operation Reading (Some ?op) (opinfo_at fd r2)) r2)"
      using True by (auto simp: register_def p_def ev_def Let_def)
    have r2: "main_inv a sfd r2" "quit r2 = quit r" "opinfo_at sfd r2 = opinfo_at sfd r"
      using same [OF ctl] keeps by simp_all
    show ?thesis
      using main_keepsD [OF call r2(1), of c] put [OF r2(1)] r2(2,3) by (simp add: eq)
  qed
qed

subsection \<open>Accepting\<close>

lemma main_keeps_start:
  assumes fresh: "\<And>k. mn_socket w k \<noteq> a" and user: "\<And>s ec. main_keeps a sfd (user (Accepted s ioc) ec 0)"
  shows "main_keeps a sfd (main_perform e os user w a (Acceptor_async_accept ioc))"
  unfolding main_keeps_def
proof (intro allI impI)
  fix r :: "(main_callback, 'a) io"
  assume inv: "main_inv a sfd r"
  let ?s = "mn_socket w (kernel r)" and ?r = "TCPSocket (mn_socket w (kernel r)) r"
  have r: "main_inv a sfd ?r" "quit ?r = quit r" "opinfo_at sfd ?r = opinfo_at sfd r"
    using main_keepsD [OF main_keeps_socket [OF fresh] inv, of "kernel r" "\<lambda>_. - 1"] by (simp_all add: TCPSocket_def)
  have "main_keeps a sfd (io_failed user (Tcp_accept (tcp_sockfd ?r a) ?s (Accepted ?s ioc)) ec)" for ec
    using user [of ?s ec] by (simp add: io_failed_def [abs_def])
  moreover have "tcp_sockfd ?r a \<noteq> sfd" using r(1) by (simp add: main_inv_def)
  ultimately have "main_keeps a sfd (registerReadOperation os (io_failed user) (tcp_sockfd ?r a) (Tcp_accept (tcp_sockfd ?r a) ?s (Accepted ?s ioc)))"
    using fresh by (intro main_keeps_accept) simp_all
  from main_keepsD [OF this r(1)] r(2,3)
  show "main_inv a sfd (main_perform e os user w a (Acceptor_async_accept ioc) r) \<and>
      quit (main_perform e os user w a (Acceptor_async_accept ioc) r) = quit r \<and>
      opinfo_at sfd (main_perform e os user w a (Acceptor_async_accept ioc) r) = opinfo_at sfd r"
    by (simp add: main_perform_def acceptor_async_accept_def tcp_async_accept_def Let_def)
qed

lemma main_keeps_accepted:
  assumes fresh: "\<And>k. mn_socket w k \<noteq> a"
  shows "main_keeps a sfd (main_user e os w a m (Accepted s ioc) ec n)"
proof (induction m arbitrary: s ioc ec n)
  case 0
  show ?case by (simp add: main_keeps_kernel)
next
  case (Suc m)
  let ?user = "main_user e os w a m"
  have accept: "main_keeps a sfd (main_perform e os ?user w a (Acceptor_async_accept ioc'))" for ioc'
    by (rule main_keeps_start [where user = ?user, OF fresh Suc])
  have act: "main_keeps a sfd (main_perform e os ?user w a act)" if "act \<in> {Run_connect_op x, Post_start_recv x} \<union> range Acceptor_async_accept" for act x
    using that accept main_keeps_kernel [of a sfd "mn_elsewhere w act"] by (auto simp: main_perform_def [abs_def])
  have acts: "main_keeps a sfd (fold (main_perform e os ?user w a) acts)" if "tcps_accept_completed ec ioc sv = Inr (sv1, acts)" for sv sv1 acts
    using that
    by (intro main_keeps_fold act [of _ ioc]) (auto simp: tcps_accept_completed_def tcps_start_accept_def cpp_bind_eq_Inr_iff split: if_splits)
  show ?case
    unfolding main_keeps_def
  proof (intro allI impI)
    fix r :: "(main_callback, 'a) io"
    assume inv: "main_inv a sfd r"
    show "main_inv a sfd (main_user e os w a (Suc m) (Accepted s ioc) ec n r) \<and>
        quit (main_user e os w a (Suc m) (Accepted s ioc) ec n r) = quit r \<and>
        opinfo_at sfd (main_user e os w a (Suc m) (Accepted s ioc) ec n r) = opinfo_at sfd r"
    proof (cases "tcps_accept_completed ec ioc (mn_server w (kernel r))")
      case (Inl err)
      then show ?thesis
        using main_keepsD [OF main_keeps_kernel inv, of "mn_crash w"] by (simp add: main_user.simps(2))
    next
      case (Inr p)
      obtain sv acts_r where p: "p = (sv, acts_r)" by (cases p)
      note put = main_keepsD [OF main_keeps_kernel inv, of "mn_put w sv"]
      from main_keepsD [OF acts [OF Inr [unfolded p]] conjunct1 [OF put]] put show ?thesis
        by (simp add: Inr p main_user.simps(2))
    qed
  qed
qed

lemma main_keeps_accept_wrap:
  assumes fresh: "\<And>k. mn_socket w k \<noteq> a" and "fd \<noteq> sfd" and "s \<noteq> a"
  shows "main_keeps a sfd (io_call e os (main_user e os w a m) (Tcp_accept fd s (Accepted s ioc)) ec)"
  unfolding main_keeps_def
proof (intro allI impI)
  fix r :: "(main_callback, 'a) io"
  assume inv: "main_inv a sfd r"
  let ?user = "main_user e os w a m (Accepted s ioc)" and ?r0 = "removeReadOperation os fd r"
  note user = main_keepsD [OF main_keeps_accepted [OF fresh]]
  note removed = main_keepsD [OF main_keeps_remove [OF assms(2)] inv, of os]
  obtain res r1 where sys: "sys (os_accept os fd) ?r0 = (res, r1)" by fastforce
  note r1 = main_keepsD [OF main_keeps_sys conjunct1 [OF removed], of "os_accept os fd", unfolded sys snd_conv]
  have r2: "main_inv a sfd (r1\<lparr>tcp_sockfd := (tcp_sockfd r1)(s := v)\<rparr>) \<and> quit (r1\<lparr>tcp_sockfd := (tcp_sockfd r1)(s := v)\<rparr>) = quit r1 \<and>
      opinfo_at sfd (r1\<lparr>tcp_sockfd := (tcp_sockfd r1)(s := v)\<rparr>) = opinfo_at sfd r1" for v
    by (rule main_keepsD [OF main_keeps_socket [OF assms(3)], of _ _ "\<lambda>_. v"]) (use r1 in blast)
  show "main_inv a sfd (io_call e os (main_user e os w a m) (Tcp_accept fd s (Accepted s ioc)) ec r) \<and>
      quit (io_call e os (main_user e os w a m) (Tcp_accept fd s (Accepted s ioc)) ec r) = quit r \<and>
      opinfo_at sfd (io_call e os (main_user e os w a m) (Tcp_accept fd s (Accepted s ioc)) ec r) = opinfo_at sfd r"
  proof (cases "ec = 0")
    case False
    then show ?thesis using user [OF inv] by (simp add: io_call_def tcp_accept_op_wrap_def)
  next
    case True
    show ?thesis
    proof (cases res)
      case (Inl errno)
      then show ?thesis
        using user [OF conjunct1 [OF r2 [of "- 1"]], of e os m s ioc errno 0] r2 [of "- 1"] r1 removed sys True
        by (simp add: io_call_def tcp_accept_op_wrap_def)
    next
      case (Inr v)
      then show ?thesis
        using user [OF conjunct1 [OF r2 [of v]], of e os m s ioc 0 0] r2 [of v] r1 removed sys True
        by (simp add: io_call_def tcp_accept_op_wrap_def)
    qed
  qed
qed

subsection \<open>Events\<close>

text \<open>The event of the signal set: its descriptor is readable, with no error. \<open>wait_events\<close> are the events of the next round.\<close>

definition signalled :: "int \<Rightarrow> (int \<times> events) list \<Rightarrow> bool" where
  "signalled sfd evs \<longleftrightarrow> list_ex (\<lambda>(fd, ev). fd = sfd \<and> ev AND (EPOLLERR OR EPOLLHUP) = 0 \<and> ev AND (EPOLLIN OR EPOLLPRI) \<noteq> 0) evs"

definition wait_events :: "'k os \<Rightarrow> ('op, 'k, 'z) reactor_scheme \<Rightarrow> (int \<times> events) list" where
  "wait_events os r = (case fst (os_epoll_wait os (event_array_size r) (kernel r)) of Inl errno \<Rightarrow> [] | Inr evs \<Rightarrow> evs)"

lemma main_dispatch:
  assumes fresh: "\<And>k. mn_socket w k \<noteq> a" and inv: "main_inv a sfd r" and r': "r' = dispatch_event (io_call e os (main_user e os w a (Suc m))) ev r"
  shows "main_inv a sfd r' \<and> (quit r' \<longleftrightarrow> quit r \<or> waiting sfd r \<and> signalled sfd [ev]) \<and> (waiting sfd r' \<longleftrightarrow> waiting sfd r \<and> \<not> signalled sfd [ev])"
proof -
  let ?call = "io_call e os (main_user e os w a (Suc m))"
  obtain fd events where ev: "ev = (fd, events)" by (cases ev)
  have no_write: "doWriteOperation ?call fd' ec s = s" if "main_inv a sfd s" for fd' ec s
    using that by (simp add: doWriteOperation_def main_inv_def)
  have other_read: "main_keeps a sfd (doReadOperation ?call fd ec)" if else_fd: "fd \<noteq> sfd" for ec
    unfolding main_keeps_def
  proof (intro allI impI)
    fix s :: "(main_callback, 'a) io"
    assume s: "main_inv a sfd s"
    show "main_inv a sfd (doReadOperation ?call fd ec s) \<and> quit (doReadOperation ?call fd ec s) = quit s \<and>
        opinfo_at sfd (doReadOperation ?call fd ec s) = opinfo_at sfd s"
    proof (cases "read_op (opinfo_at fd s)")
      case None
      then show ?thesis using s by (simp add: doReadOperation_def)
    next
      case (Some op)
      then obtain t ioc where "t \<noteq> a" "op = Tcp_accept fd t (Accepted t ioc)"
        using main_inv_read [OF s Some] else_fd by auto
      then show ?thesis
        using main_keepsD [OF main_keeps_accept_wrap [OF fresh else_fd] s] Some by (simp add: doReadOperation_def)
    qed
  qed
  show ?thesis
  proof (cases "fd = sfd")
    case False
    then have "\<not> signalled sfd [ev]" by (simp add: signalled_def ev)
    moreover have "main_inv a sfd r' \<and> quit r' = quit r \<and> opinfo_at sfd r' = opinfo_at sfd r"
      using main_keepsD [OF other_read [OF False] inv] inv by (simp add: r' ev dispatch_event_def Let_def no_write)
    ultimately show ?thesis by (simp add: waiting_def)
  next
    case fd: True
    show ?thesis
    proof (cases "waiting sfd r")
      case False
      then have "r' = r"
        using inv by (simp add: r' ev fd dispatch_event_def Let_def waiting_def doReadOperation_def doWriteOperation_def main_inv_def)
      then show ?thesis using False inv by simp
    next
      case True
      then have op: "read_op (opinfo_at sfd r) = Some (Signal_read sfd Sigset_waited)"
        using main_inv_read [OF inv, of sfd] unfolding waiting_def by auto
      have failed: "doReadOperation ?call sfd ec r = r" if "ec \<noteq> 0" for ec
        using that by (simp add: doReadOperation_def op io_call_def signal_op_wrap_def)
      have ran: "main_inv a sfd (doReadOperation ?call sfd 0 r) \<and> quit (doReadOperation ?call sfd 0 r) \<and> \<not> waiting sfd (doReadOperation ?call sfd 0 r)"
      proof -
        have same: "tcp_sockfd (remove_operation os Reading sfd r) = tcp_sockfd r"
          by (rule steady_remove [OF steady_sockfd])
        have "opinfo_at g (remove_operation os Reading sfd r) = (if g = sfd then (opinfo_at sfd r)\<lparr>read_op := None\<rparr> else opinfo_at g r)" for g
          using op by (simp add: remove_operation_opinfo operation_simps(1) set_operation_def)
        then have "main_inv a sfd (removeReadOperation os sfd r)" "\<not> waiting sfd (removeReadOperation os sfd r)"
          using inv same by (auto simp: main_inv_def remove_operation_def waiting_def)
        moreover obtain c k where "os_read_siginfo os sfd (kernel (removeReadOperation os sfd r)) = (c, k)" by fastforce
        then have "doReadOperation ?call sfd 0 r = (removeReadOperation os sfd r)\<lparr>kernel := k, quit := True\<rparr>"
          by (simp add: doReadOperation_def op io_call_def signal_op_wrap_def sys_def reactor_quit_def)
        moreover have "main_inv a sfd (s\<lparr>kernel := k, quit := True\<rparr>) = main_inv a sfd s" "waiting sfd (s\<lparr>kernel := k, quit := True\<rparr>) = waiting sfd s"
          for s :: "(main_callback, 'a) io"
          by (simp_all add: main_inv_def waiting_def opinfo_at_kernel opinfo_at_quit)
        ultimately show ?thesis by simp
      qed
      show ?thesis
      proof (cases "signalled sfd [ev]")
        case signal: True
        then have "r' = doReadOperation ?call sfd 0 r"
          using no_write [OF conjunct1 [OF ran]] by (simp add: r' ev fd signalled_def dispatch_event_def Let_def err_codes)
        then show ?thesis using ran signal True by simp
      next
        case signal: False
        then have "r' = r"
          using inv by (auto simp: r' ev fd signalled_def dispatch_event_def Let_def err_codes no_write failed)
        then show ?thesis using signal inv by simp
      qed
    qed
  qed
qed

lemma main_dispatches:
  assumes fresh: "\<And>k. mn_socket w k \<noteq> a"
  shows "main_inv a sfd r \<Longrightarrow> r' = fold (dispatch_event (io_call e os (main_user e os w a (Suc m)))) evs r \<Longrightarrow>
    main_inv a sfd r' \<and> (quit r' \<longleftrightarrow> quit r \<or> waiting sfd r \<and> signalled sfd evs) \<and> (waiting sfd r' \<longleftrightarrow> waiting sfd r \<and> \<not> signalled sfd evs)"
proof (induction evs arbitrary: r)
  case Nil
  then show ?case by (simp add: signalled_def)
next
  case (Cons ev evs)
  have "signalled sfd (ev # evs) \<longleftrightarrow> signalled sfd [ev] \<or> signalled sfd evs"
    by (simp add: signalled_def)
  then show ?case
    using main_dispatch [OF fresh Cons.prems(1) refl, of e os m ev]
      Cons.IH [of "dispatch_event (io_call e os (main_user e os w a (Suc m))) ev r"] Cons.prems(2) by auto
qed

lemma main_round:
  assumes fresh: "\<And>k. mn_socket w k \<noteq> a" and inv: "main_inv a sfd r" and r': "r' = wait_round os (io_call e os (main_user e os w a (Suc m))) r"
  shows "main_inv a sfd r' \<and> (quit r' \<longleftrightarrow> quit r \<or> waiting sfd r \<and> signalled sfd (wait_events os r)) \<and>
    (waiting sfd r' \<longleftrightarrow> waiting sfd r \<and> \<not> signalled sfd (wait_events os r))"
proof -
  have kernel: "main_inv a sfd (r\<lparr>kernel := k\<rparr>)" "waiting sfd (r\<lparr>kernel := k\<rparr>) = waiting sfd r" for k
    using inv by (simp_all add: main_inv_def waiting_def opinfo_at_kernel)
  have size: "main_inv a sfd (s\<lparr>event_array_size := n\<rparr>) = main_inv a sfd s" "waiting sfd (s\<lparr>event_array_size := n\<rparr>) = waiting sfd s"
    for s :: "(main_callback, 'a) io" and n
    by (simp_all add: main_inv_def waiting_def opinfo_at_quit)
  obtain res k where wait: "os_epoll_wait os (event_array_size r) (reactor.kernel r) = (res, k)" by fastforce
  show ?thesis
  proof (cases res)
    case (Inl errno)
    then show ?thesis
      using wait kernel by (simp add: r' wait_round_def wait_events_def signalled_def)
  next
    case (Inr evs)
    from main_dispatches [OF fresh kernel(1) [of k] refl, of e os m evs]
    show ?thesis
      using wait Inr by (simp add: r' wait_round_def wait_events_def kernel(2) Let_def size)
  qed
qed

subsection \<open>The start\<close>

lemma main_setup_acceptor:
  assumes sockets: "\<And>family tp k. fst (os_socket os family tp k) \<noteq> Inr sfd" and "sfd \<noteq> - 1"
    and inv: "main_inv a sfd r" and "tcp_sockfd r a = - 1"
  shows "main_inv a sfd (snd (acceptor_setup e os user a ep r)) \<and> opinfo_at sfd (snd (acceptor_setup e os user a ep r)) = opinfo_at sfd r"
proof -
  define P where "P = (\<lambda>s :: (main_callback, 'a) io. main_inv a sfd s \<and> opinfo_at sfd s = opinfo_at sfd r)"
  have kernel: "P (s\<lparr>kernel := k\<rparr>) = P s" and acceptor: "v \<noteq> sfd \<Longrightarrow> P s \<Longrightarrow> P (s\<lparr>kernel := k, tcp_sockfd := (tcp_sockfd s)(a := v)\<rparr>)" for s k v
    by (simp_all add: P_def main_inv_def opinfo_at_kernel opinfo_at_sockets)
  have sys: "P (snd (sys f s)) = P s" for f :: "_ \<Rightarrow> int \<times> _" and s
    by (simp add: sys_def kernel split: prod.split)
  have start: "P r" using inv by (simp add: P_def)
  have and_then: "P (snd (and_then res f))" if "P (snd res)" "\<And>s. P s \<Longrightarrow> P (snd (f s))" for res f
    using that by (auto simp: and_then_def split: prod.split)
  have opened: "P (snd (tcp_open os user a family r))" for family
  proof (cases "os_socket os family SOCK_STREAM (kernel r)")
    case (Pair res k)
    then show ?thesis
      using sockets [of family SOCK_STREAM "kernel r"] assms(2,4) start
      by (cases res) (auto simp: tcp_open_def create_socket_def sys_def Let_def intro!: acceptor)
  qed
  have "P (snd (acceptor_setup e os user a ep r))"
    unfolding acceptor_setup_def
    by (auto intro!: and_then opened start simp: tcp_setReuseAddr_def tcp_bind_def tcp_listen_def tcp_setDelay_def tcp_setKeepAlive_def sys)
  then show ?thesis by (simp add: P_def)
qed

lemma main_signal_wait:
  assumes user: "user = main_user e os w a (Suc m)" and none: "\<And>fd. opinfo_at fd r = OperationInfo"
    and r': "r' = signal_async_wait os user Sigset_waited sigset r"
  shows "read_op (opinfo_at (ss_signal_fd sigset) r') =
      (if fst (os_epoll_ctl os EPOLL_CTL_ADD (ss_signal_fd sigset) (EPOLLIN OR EPOLLPRI) (kernel r)) = 0
       then Some (Signal_read (ss_signal_fd sigset) Sigset_waited) else None)"
    and "write_op (opinfo_at fd r') = None" and "fd \<noteq> ss_signal_fd sigset \<Longrightarrow> opinfo_at fd r' = OperationInfo"
proof -
  let ?fd = "ss_signal_fd sigset" and ?op = "Signal_read (ss_signal_fd sigset) Sigset_waited"
  obtain c r2 where ctl: "epoll_ctl os EPOLL_CTL_ADD ?fd (EPOLLIN OR EPOLLPRI) (need_opinfo ?fd r) = (c, r2)" by fastforce
  have c: "c = fst (os_epoll_ctl os EPOLL_CTL_ADD ?fd (EPOLLIN OR EPOLLPRI) (kernel r))"
    using ctl by (simp add: epoll_ctl_def kernel_need split: prod.splits)
  have r2: "opinfo_at g r2 = OperationInfo" for g
    using epoll_ctl_opinfo [of g os EPOLL_CTL_ADD ?fd "EPOLLIN OR EPOLLPRI" "need_opinfo ?fd r"] ctl none by (simp add: opinfo_at_need)
  have "registerReadOperation os (io_failed user) ?fd ?op r =
      (if c \<noteq> 0 then r2 else put_opinfo ?fd (set_operation Reading (Some ?op) (opinfo_at ?fd r2)) r2)"
    unfolding register_eqs register_def Let_def
    using ctl none by (simp add: opinfo_at_need operation_def OperationInfo_def other_def waits_for_def io_failed_def user)
  then have eq: "opinfo_at g r' = (if c = 0 \<and> g = ?fd then set_operation Reading (Some ?op) OperationInfo else OperationInfo)" for g
    by (auto simp: r' signal_async_wait_def signal_block_def update_signalfd_def sys_def opinfo_at_kernel opinfo_at_put r2 split: prod.split)
  show "read_op (opinfo_at ?fd r') = (if fst (os_epoll_ctl os EPOLL_CTL_ADD ?fd (EPOLLIN OR EPOLLPRI) (kernel r)) = 0 then Some ?op else None)"
    and "write_op (opinfo_at fd r') = None" and "fd \<noteq> ?fd \<Longrightarrow> opinfo_at fd r' = OperationInfo"
    by (simp_all add: eq c [symmetric] set_operation_def OperationInfo_def)
qed

lemma main_setup_inv:
  assumes made: "main_setup pton4 pton6 e os user w a sigint n init_op addr r = Inr (sigset, r1)"
    and user: "user = main_user e os w a (Suc m)" and fresh: "\<And>k. mn_socket w k \<noteq> a" and none: "\<And>fd. opinfo_at fd r = OperationInfo"
    and sockets: "\<And>family tp k. fst (os_socket os family tp k) \<noteq> Inr (ss_signal_fd sigset)" and "ss_signal_fd sigset \<noteq> - 1"
  shows "main_inv a (ss_signal_fd sigset) r1"
    and "waiting (ss_signal_fd sigset) r1 \<longleftrightarrow>
      fst (os_epoll_ctl os EPOLL_CTL_ADD (ss_signal_fd sigset) (EPOLLIN OR EPOLLPRI) (snd (os_signalfd os (- 1) [] (kernel r)))) = 0"
proof -
  let ?sfd = "ss_signal_fd sigset"
  obtain r0 ep server server1 acts where r0: "SignalSet os sigint r = Inr (sigset, r0)"
    and start: "tcps_start addr ep (setConnInitOp init_op server) = Inr (server1, acts)"
    and r1: "r1 = fold (main_perform e os user w a) acts ((Acceptor a (signal_async_wait os user Sigset_waited sigset r0))
      \<lparr>kernel := mn_put w server1 (kernel (Acceptor a (signal_async_wait os user Sigset_waited sigset r0)))\<rparr>)"
    using made by (auto simp: main_setup_def Let_def cpp_bind_eq_Inr_iff)
  have kernel0: "kernel r0 = snd (os_signalfd os (- 1) [] (kernel r))" "opinfo_at fd r0 = OperationInfo" for fd
    using r0 none by (auto simp: SignalSet_def create_signalfd_def sys_def cpp_bind_eq_Inr_iff opinfo_at_kernel split: prod.splits sum.splits)
  note waited = main_signal_wait [where sigset = sigset, OF user kernel0(2) refl]
  define r2 where "r2 = (Acceptor a (signal_async_wait os user Sigset_waited sigset r0))
      \<lparr>kernel := mn_put w server1 (kernel (Acceptor a (signal_async_wait os user Sigset_waited sigset r0)))\<rparr>"
  have same: "opinfo_at fd r2 = opinfo_at fd (signal_async_wait os user Sigset_waited sigset r0)" for fd
    by (simp add: r2_def Acceptor_def TCPSocket_def opinfo_at_kernel opinfo_at_sockets)
  have sock: "tcp_sockfd r2 a = - 1"
    by (simp add: r2_def Acceptor_def TCPSocket_def)
  have "case read_op (opinfo_at fd r2) of None \<Rightarrow> True | Some op \<Rightarrow>
      if fd = ?sfd then op = Signal_read ?sfd Sigset_waited else (\<exists>s ioc. s \<noteq> a \<and> op = Tcp_accept fd s (Accepted s ioc))" for fd
    using waited(1) waited(3) [of fd] by (cases "fd = ?sfd") (simp_all add: same OperationInfo_def)
  then have inv: "main_inv a ?sfd r2"
    unfolding main_inv_def using sock waited(2) assms(6) by (simp add: same)
  obtain ioc where acts: "acts = [Acceptor_setup ep, Acceptor_async_accept ioc]"
    using start by (auto simp: tcps_start_def tcps_start_accept_def cpp_bind_eq_Inr_iff)
  let ?r3 = "snd (acceptor_setup e os user a ep r2)"
  note r3 = main_setup_acceptor [OF sockets assms(6) inv sock, of e user ep]
  have last: "r1 = main_perform e os user w a (Acceptor_async_accept ioc) ?r3"
    by (simp add: r1 acts r2_def [symmetric]) (simp add: main_perform_def)
  have "main_keeps a ?sfd (main_perform e os user w a (Acceptor_async_accept ioc))"
    unfolding user by (rule main_keeps_start [where user = "main_user e os w a (Suc m)", OF fresh main_keeps_accepted [OF fresh]])
  from main_keepsD [OF this conjunct1 [OF r3]] have "main_inv a ?sfd r1" "opinfo_at ?sfd r1 = opinfo_at ?sfd ?r3"
    by (simp_all add: last)
  then show "main_inv a ?sfd r1" and "waiting ?sfd r1 \<longleftrightarrow>
      fst (os_epoll_ctl os EPOLL_CTL_ADD ?sfd (EPOLLIN OR EPOLLPRI) (snd (os_signalfd os (- 1) [] (kernel r)))) = 0"
    using r3 waited(1) kernel0(1) by (simp_all add: waiting_def same)
qed

subsection \<open>The property\<close>

lemma main_loop:
  assumes fresh: "\<And>k. mn_socket w k \<noteq> a" and call: "call = io_call e os (main_user e os w a (Suc m))"
  shows "main_inv a sfd r \<Longrightarrow> waiting sfd r \<Longrightarrow> \<not> quit r \<Longrightarrow> reactor_loop os call fuel r = Some (c, r') \<longleftrightarrow>
    (\<exists>n < fuel. r' = after_rounds os call (Suc n) r \<and>
       (\<forall>i < n. \<not> signalled sfd (wait_events os (after_rounds os call i r)) \<and> wait_error os (after_rounds os call i r) = None) \<and>
       (wait_error os (after_rounds os call n r) = Some c \<or>
        wait_error os (after_rounds os call n r) = None \<and> signalled sfd (wait_events os (after_rounds os call n r)) \<and> c = 0))"
proof (induction fuel arbitrary: r)
  case 0
  then show ?case by simp
next
  case (Suc fuel)
  let ?r = "wait_round os call r"
  note round = main_round [where e = e and os = os and m = m, OF fresh Suc.prems(1) refl, folded call]
  have quit: "reactor_loop os call fuel ?r = Some (0, ?r)" if "quit ?r"
    using that by (cases fuel) simp_all
  show ?case
    using Suc.IH [of ?r] round Suc.prems quit
    by (cases "wait_error os r"; cases "signalled sfd (wait_events os r)")
      (auto simp: reactor_loop_step Ex_less_Suc2 All_less_Suc2 simp del: reactor_loop.simps)
qed

text \<open>When epoll refuses the signal set's descriptor, \<open>async_wait\<close> blocks the signal all the same: the program prints the
  error, goes on, and no \<^verbatim>\<open>SIGINT\<close> ends it any more.\<close>

lemma main_loop_deaf:
  assumes fresh: "\<And>k. mn_socket w k \<noteq> a" and call: "call = io_call e os (main_user e os w a (Suc m))"
  shows "main_inv a sfd r \<Longrightarrow> \<not> waiting sfd r \<Longrightarrow> \<not> quit r \<Longrightarrow> reactor_loop os call fuel r = Some (c, r') \<Longrightarrow>
    \<exists>n < fuel. wait_error os (after_rounds os call n r) = Some c"
proof (induction fuel arbitrary: r)
  case 0
  then show ?case by simp
next
  case (Suc fuel)
  let ?r = "wait_round os call r"
  note round = main_round [where e = e and os = os and m = m, OF fresh Suc.prems(1) refl, folded call]
  show ?case
    using Suc.IH [of ?r] round Suc.prems
    by (cases "wait_error os r") (auto simp: reactor_loop_step Ex_less_Suc2 simp del: reactor_loop.simps)
qed

lemma main_setup_deaf:
  assumes "main_setup pton4 pton6 e os user w a sigint n init_op addr r0 = Inr (sigset, r)" and "user = main_user e os w a (Suc m)"
    and "\<forall>fd. opinfo_at fd r0 = OperationInfo" and "\<forall>k. mn_socket w k \<noteq> a"
    and "\<forall>family tp k. fst (os_socket os family tp k) \<noteq> Inr (ss_signal_fd sigset)" and "ss_signal_fd sigset \<noteq> - 1"
    and "fst (os_epoll_ctl os EPOLL_CTL_ADD (ss_signal_fd sigset) (EPOLLIN OR EPOLLPRI) (snd (os_signalfd os (- 1) [] (kernel r0)))) \<noteq> 0"
    and "loop_wait os (io_call e os user) fuel r = Some (c, r')"
  shows "\<exists>n < fuel. wait_error os (after_rounds os (io_call e os user) n (r\<lparr>quit := False\<rparr>)) = Some c"
proof -
  let ?sfd = "ss_signal_fd sigset"
  have "main_inv a ?sfd r" "\<not> waiting ?sfd r"
    using main_setup_inv [OF assms(1,2)] assms(3-7) by simp_all
  then have "main_inv a ?sfd (r\<lparr>quit := False\<rparr>)" "\<not> waiting ?sfd (r\<lparr>quit := False\<rparr>)" "\<not> quit (r\<lparr>quit := False\<rparr>)"
    by (simp_all add: main_inv_def waiting_def opinfo_at_quit)
  from main_loop_deaf [where w = w and e = e and os = os and m = m, OF _ refl this] show ?thesis
    using assms(4,8) by (simp add: loop_wait_def assms(2))
qed

text \<open>C10: Both example programs end when \<^verbatim>\<open>SIGINT\<close> arrives and not before: once the signal set's read is registered, the loop
  of \<^verbatim>\<open>main\<close> returns after the first round in which epoll reports the set's descriptor readable, with 0, or at the first error of
  \<^verbatim>\<open>epoll_wait\<close>, whatever else happens in the rounds before: connections accepted, accepts that fail, events of other
  descriptors, hang-ups.\<close>

theorem main_ends_on_signal:
  assumes "main_setup pton4 pton6 e os user w a sigint n init_op addr r0 = Inr (sigset, r)" and "user = main_user e os w a (Suc m)"
    and "sfd = ss_signal_fd sigset" and "sfd \<noteq> - 1" and "\<forall>fd. opinfo_at fd r0 = OperationInfo" and "\<forall>k. mn_socket w k \<noteq> a"
    and "\<forall>family tp k. fst (os_socket os family tp k) \<noteq> Inr sfd"
    and "fst (os_epoll_ctl os EPOLL_CTL_ADD sfd (EPOLLIN OR EPOLLPRI) (snd (os_signalfd os (- 1) [] (kernel r0)))) = 0"
    and "call = io_call e os user" and "state = (\<lambda>i. after_rounds os call i (r\<lparr>quit := False\<rparr>))"
  shows "loop_wait os call fuel r = Some (c, r') \<longleftrightarrow>
    (\<exists>n < fuel. r' = state (Suc n) \<and>
       (\<forall>i < n. \<not> signalled sfd (wait_events os (state i)) \<and> wait_error os (state i) = None) \<and>
       (wait_error os (state n) = Some c \<or> wait_error os (state n) = None \<and> signalled sfd (wait_events os (state n)) \<and> c = 0))"
proof -
  have inv: "main_inv a sfd r" "waiting sfd r"
    using main_setup_inv [OF assms(1,2)] assms(3-8) by simp_all
  have "main_inv a sfd (r\<lparr>quit := False\<rparr>)" "waiting sfd (r\<lparr>quit := False\<rparr>)" "\<not> quit (r\<lparr>quit := False\<rparr>)"
    using inv by (simp_all add: main_inv_def waiting_def opinfo_at_quit)
  from main_loop [OF _ assms(9) [unfolded assms(2)] this] show ?thesis
    using assms(6) unfolding loop_wait_def assms(10) by simp
qed

text \<open>A kernel whose state is the server object and nothing else: in every round the acceptor and the signal set are readable.\<close>

definition main_os :: "'k os" where
  "main_os =
     \<lparr>os_epoll_ctl = (\<lambda>p fd ev k. (0, k)), os_epoll_wait = (\<lambda>n k. (Inr [(3, EPOLLIN), (6, EPOLLIN)], k)),
      os_socket = (\<lambda>f t k. (Inr 3, k)), os_getfl = (\<lambda>fd k. 0), os_setfl = (\<lambda>fd fl k. k), os_close = (\<lambda>fd k. (0, k)),
      os_recv = (\<lambda>fd a n k. (Inr 0, k)), os_send = (\<lambda>fd a n k. (Inr n, k)),
      os_recvfrom = (\<lambda>fd a n k. (Inr (0, []), k)), os_sendto = (\<lambda>fd a n ad k. (Inr n, k)),
      os_accept = (\<lambda>fd k. (Inr 4, k)), os_connect = (\<lambda>fd ad k. (0, k)), os_so_error = (\<lambda>fd k. (0, k)),
      os_bind = (\<lambda>fd ad k. (0, k)), os_listen = (\<lambda>fd n k. (0, k)), os_setsockopt = (\<lambda>fd opt v k. (0, k)),
      os_shutdown = (\<lambda>fd h k. (0, k)), os_getpeername = (\<lambda>fd n k. (Inr [], k)), os_getsockname = (\<lambda>fd n k. (Inr [], k)),
      os_signalfd = (\<lambda>fd sigs k. (Inr 6, k)), os_sigmask = (\<lambda>b sigs k. k), os_read_siginfo = (\<lambda>fd k. (2, k))\<rparr>"

definition main_example_view :: "tcp_server main_view" where
  "main_example_view =
     \<lparr>mn_server = id, mn_put = (\<lambda>sv k. sv), mn_socket = (\<lambda>k. 1), mn_elsewhere = (\<lambda>act k. k), mn_crash = id\<rparr>"

definition main_example_io :: "(main_callback, tcp_server) io" where
  "main_example_io =
     \<lparr>quit = True, event_array_size = 128, fd_opinfo_umap = [], kernel = projr (TCPServer 0),
      tcp_sockfd = (\<lambda>_. - 1), udp_sockfd = (\<lambda>_. - 1), endpoints = (\<lambda>_. Endpoint)\<rparr>"

definition main_example_user :: "(main_callback, tcp_server) user" where
  "main_example_user = main_user Little_endian main_os main_example_view 0 (Suc 1)"

lemma main_example_setup:
  assumes "0 < n" and "n < size_mod"
  obtains sigset r where "main_setup (\<lambda>_. Some [0, 0, 0, 0]) (\<lambda>_. None) Little_endian main_os main_example_user main_example_view 0
      SIGINT n init_op id main_example_io = Inr (sigset, r)" and "ss_signal_fd sigset = 6"
proof -
  obtain server where server: "TCPServer n = Inr server"
    by (simp add: TCPServer_def ThreadPool_def)
  then have "ThreadPool n = Inr (tcps_pool server)"
    by (auto simp: TCPServer_def cpp_bind_eq_Inr_iff)
  then have "pool_turn n id 0 (tcps_pool ((setConnInitOp init_op server)\<lparr>tcps_pool := pool_start id (tcps_pool server)\<rparr>))"
    using started_pool_turn [of n "tcps_pool server" id] assms by simp
  from tcps_start_accept_turn [OF this] obtain server1 acts where
    "tcps_start id ep (setConnInitOp init_op server) = Inr (server1, Acceptor_setup ep # acts)" for ep
    by (auto simp: tcps_start_def setConnInitOp_def)
  then show ?thesis
    using that server
    by (simp add: main_setup_def SignalSet_def create_signalfd_def sys_def main_os_def Endpoint_ip_def ipv4_to_network_def Let_def)
qed

theorem main_ends_on_signal_witness:
  "\<exists>r1 r2. http_main (\<lambda>_. Some [0, 0, 0, 0]) (\<lambda>_. None) Little_endian main_os main_example_user main_example_view 0 id 1 main_example_io =
      Inr (Some (0, r1)) \<and>
    asio_main (\<lambda>_. Some [0, 0, 0, 0]) (\<lambda>_. None) Little_endian main_os main_example_user main_example_view 0 id 1 main_example_io =
      Inr (Some (0, r2))"
proof -
  have "\<exists>r'. main_program (\<lambda>_. Some [0, 0, 0, 0]) (\<lambda>_. None) Little_endian main_os main_example_user main_example_view 0
      SIGINT n init_op id 1 main_example_io = Inr (Some (0, r'))" if n: "0 < n" "n < size_mod" for n init_op
  proof (rule main_example_setup [OF n, of init_op])
    fix sigset r
    assume made: "main_setup (\<lambda>_. Some [0, 0, 0, 0]) (\<lambda>_. None) Little_endian main_os main_example_user main_example_view 0
      SIGINT n init_op id main_example_io = Inr (sigset, r)" and fd: "ss_signal_fd sigset = 6"
    define call where "call = io_call Little_endian main_os main_example_user"
    define state where "state = (\<lambda>i. after_rounds main_os call i (r\<lparr>quit := False\<rparr>))"
    have none: "\<forall>fd. opinfo_at fd main_example_io = OperationInfo"
      by (simp add: main_example_io_def opinfo_at_def umap_find_def)
    have "loop_wait main_os call 1 r = Some (0, state 1) \<longleftrightarrow>
      (\<exists>n < 1. state 1 = state (Suc n) \<and>
         (\<forall>i < n. \<not> signalled 6 (wait_events main_os (state i)) \<and> wait_error main_os (state i) = None) \<and>
         (wait_error main_os (state n) = Some 0 \<or> wait_error main_os (state n) = None \<and> signalled 6 (wait_events main_os (state n)) \<and> 0 = (0::int)))"
      by (rule main_ends_on_signal [OF made main_example_user_def fd [symmetric] _ none _ _ _ call_def state_def])
        (simp_all add: main_example_view_def main_os_def)
    moreover have "wait_error main_os (state 0) = None" "signalled 6 (wait_events main_os (state 0))"
      by (simp_all add: wait_error_def wait_events_def main_os_def signalled_def EPOLLIN_def EPOLLERR_def EPOLLHUP_def EPOLLPRI_def)
    ultimately show ?thesis
      using made by (auto simp: main_program_def call_def)
  qed
  then show ?thesis
    by (simp add: http_main_def asio_main_def size_mod_def)
qed

end
