(* ===== verification/Echo_Connection.thy ===== *)
theory Echo_Connection
  imports Dynamic_Buffer
begin

section \<open>The example echo server's connection (examples/asio_examples: tcp_connection.h, tcp_connection.cc)\<close>

text \<open>
  The connection copies what it has read behind what it still has to write and asks for a write of everything unwritten. Both
  buffers get their room once, when it is made; the copy is an unchecked \<^verbatim>\<open>memcpy\<close>. The socket refuses a write while another one is
  outstanding. The lemmas show that what is written is what was read, in order, that a client that waits for each echo gets it, and
  what happens to one that does not wait.
\<close>

datatype echo_action =
    Echo_read nat
  | Echo_write bytes
  | Echo_shutdown

record echo_connection =
  ec_read_buffer :: dynamic_buffer
  ec_write_buffer :: dynamic_buffer

definition TCPConnection :: "echo_connection cpp" where
  "TCPConnection =
     cpp_bind (reserve 4096 (DynamicBuffer 1024)) (\<lambda>r.
     cpp_bind (reserve 4096 (DynamicBuffer 1024)) (\<lambda>w. Inr \<lparr>ec_read_buffer = r, ec_write_buffer = w\<rparr>))"

definition echo_start_read :: "echo_connection \<Rightarrow> echo_action list cpp" where
  "echo_start_read c =
     cpp_bind (writeBegin (ec_read_buffer c)) (\<lambda>to. Inr [Echo_read (availableBytes (ec_read_buffer c))])"

definition echo_start :: "echo_connection \<Rightarrow> echo_action list cpp" where
  "echo_start c = echo_start_read c"

definition echo_shutdown :: "echo_action list" where
  "echo_shutdown = [Echo_shutdown]"

definition processData :: "echo_connection \<Rightarrow> (echo_connection \<times> echo_action list) cpp" where
  "processData c =
     (let nbytes = dataBytes (ec_read_buffer c) in
     cpp_bind (writeBegin (ec_write_buffer c)) (\<lambda>to.
     cpp_bind (readBegin (ec_read_buffer c)) (\<lambda>from.
     cpp_bind (copy_out (char_vector (ec_read_buffer c)) from nbytes) (\<lambda>bs.
     cpp_bind (copy_in (char_vector (ec_write_buffer c)) to bs) (\<lambda>v.
       let r = buffer_read nbytes (ec_read_buffer c);
           w = buffer_write nbytes ((ec_write_buffer c)\<lparr>char_vector := v\<rparr>)
       in cpp_bind (readBegin w) (\<lambda>p.
          cpp_bind (copy_out (char_vector w) p (dataBytes w)) (\<lambda>data.
            Inr (\<lparr>ec_read_buffer = r, ec_write_buffer = w\<rparr>, [Echo_write data]))))))))"

definition echo_on_read :: "int \<Rightarrow> bytes \<Rightarrow> echo_connection \<Rightarrow> (echo_connection \<times> echo_action list) cpp" where
  "echo_on_read ec data c =
     (if ec = 0 then
        (if length data = 0 then Inr (c, echo_shutdown)
         else
           cpp_bind (store data (ec_read_buffer c)) (\<lambda>r.
           cpp_bind (processData (c\<lparr>ec_read_buffer := r\<rparr>)) (\<lambda>(c1, acts).
           cpp_bind (echo_start_read c1) (\<lambda>acts2. Inr (c1, acts @ acts2)))))
      else Inr (c, []))"

definition echo_on_write :: "int \<Rightarrow> nat \<Rightarrow> echo_connection \<Rightarrow> echo_connection" where
  "echo_on_write ec nbytes c =
     (if ec = 0 then c\<lparr>ec_write_buffer := buffer_read nbytes (ec_write_buffer c)\<rparr> else c)"

subsection \<open>Runs\<close>

text \<open>The connection with what its socket has not completed, what the client sent and what was written. A write that is asked
  for while one is outstanding completes at once with \<^verbatim>\<open>EOPEXISTS\<close>, which changes nothing.\<close>

record echo_run =
  er_conn :: echo_connection
  er_reading :: "nat list"
  er_writing :: "bytes list"
  er_received :: bytes
  er_echoed :: bytes
  er_shutdowns :: nat

datatype echo_event = Echo_read_done int bytes | Echo_write_done int

fun echo_perform :: "echo_action \<Rightarrow> echo_run \<Rightarrow> echo_run" where
  "echo_perform (Echo_read n) t = t\<lparr>er_reading := er_reading t @ [n]\<rparr>"
| "echo_perform (Echo_write d) t = (if er_writing t = [] then t\<lparr>er_writing := [d]\<rparr> else t)"
| "echo_perform Echo_shutdown t = t\<lparr>er_shutdowns := er_shutdowns t + 1\<rparr>"

fun echo_event_step :: "echo_event \<Rightarrow> echo_run \<Rightarrow> echo_run cpp" where
  "echo_event_step (Echo_read_done ec data) t =
     (case er_reading t of
        [] \<Rightarrow> Inr t
      | n # ns \<Rightarrow>
          if n < length data then Inr t
          else cpp_bind (echo_on_read ec data (er_conn t)) (\<lambda>(c, acts).
            Inr (fold echo_perform acts
              (t\<lparr>er_conn := c, er_reading := ns, er_received := er_received t @ (if ec = 0 then data else [])\<rparr>))))"
| "echo_event_step (Echo_write_done ec) t =
     (case er_writing t of
        [] \<Rightarrow> Inr t
      | d # ds \<Rightarrow>
          Inr (t\<lparr>er_conn := echo_on_write ec (length d) (er_conn t), er_writing := ds,
                 er_echoed := er_echoed t @ (if ec = 0 then d else [])\<rparr>))"

fun echo_session :: "echo_event list \<Rightarrow> echo_run \<Rightarrow> echo_run cpp" where
  "echo_session [] t = Inr t"
| "echo_session (ev # evs) t = cpp_bind (echo_event_step ev t) (echo_session evs)"

lemma echo_session_append: "echo_session (a @ b) t = cpp_bind (echo_session a t) (echo_session b)"
proof (induction a arbitrary: t)
  case (Cons ev a)
  then show ?case by (cases "echo_event_step ev t") simp_all
qed simp

definition echo_begin :: "echo_run cpp" where
  "echo_begin =
     cpp_bind TCPConnection (\<lambda>c. cpp_bind (echo_start c) (\<lambda>acts.
       Inr (fold echo_perform acts
         \<lparr>er_conn = c, er_reading = [], er_writing = [], er_received = [], er_echoed = [], er_shutdowns = 0\<rparr>)))"

text \<open>Both vectors have 5121 bytes: 1 from the start and 5 times 1024. The read buffer is empty between two reads.\<close>

lemma reserve_4096: "reserve 4096 (DynamicBuffer 1024) = Inr ((DynamicBuffer 1024)\<lparr>char_vector := replicate 5121 0\<rparr>)"
proof -
  have "size_add (size_mul (size_add (4096 div 1024) 1) 1024) 1 = 5121"
    by (simp add: size_add_def size_mul_def size_mod_def)
  moreover have "availableBytes (DynamicBuffer 1024) = 1" "uselessBytes (DynamicBuffer 1024) = 0" "dataBytes (DynamicBuffer 1024) = 0"
    by (simp_all add: availableBytes_def uselessBytes_def dataBytes_def DynamicBuffer_def size_sub_def size_mod_def)
  moreover have "size_add 1 0 = 1" by (simp add: size_add_def size_mod_def)
  moreover have "[0] @ replicate 5120 (0 :: u8) = replicate 5121 0"
    by (simp add: numeral_eq_Suc)
  ultimately show ?thesis
    by (simp add: reserve_def vector_resize_def max_size_def readBegin_def copy_out_def copy_in_def DynamicBuffer_def)
qed

text \<open>A read that brings data: they are appended to what is unwritten, if there is room.\<close>

definition echo_ready :: "echo_connection \<Rightarrow> bool" where
  "echo_ready c \<longleftrightarrow>
     buffer_inv (ec_read_buffer c) \<and> unread (ec_read_buffer c) = [] \<and> length (char_vector (ec_read_buffer c)) = 5121 \<and>
     buffer_inv (ec_write_buffer c) \<and> length (char_vector (ec_write_buffer c)) = 5121"

definition echo_inv :: "echo_run \<Rightarrow> bool" where
  "echo_inv t \<longleftrightarrow>
     echo_ready (er_conn t) \<and>
     er_received t = er_echoed t @ unread (ec_write_buffer (er_conn t)) \<and>
     (er_writing t = [] \<or> (\<exists>d rest. er_writing t = [d] \<and> unread (ec_write_buffer (er_conn t)) = d @ rest))"

lemma echo_start_read_ready:
  assumes "echo_ready c"
  shows "echo_start_read c = Inr [Echo_read 5121]"
proof -
  have i: "read_index (ec_read_buffer c) = write_index (ec_read_buffer c)"
    using assms length_unread [of "ec_read_buffer c"] by (auto simp: echo_ready_def buffer_inv_def)
  then have "write_index (ec_read_buffer c) = 0" using assms by (auto simp: echo_ready_def buffer_inv_def)
  then show ?thesis
    using assms by (simp add: echo_start_read_def writeBegin_def echo_ready_def buffer_sizes)
qed

lemma echo_on_read_ready:
  assumes "echo_ready c" and "data \<noteq> []" and "length data \<le> 5121"
  shows "if write_index (ec_write_buffer c) + length data \<le> 5121
    then \<exists>c'. echo_on_read 0 data c = Inr (c', [Echo_write (unread (ec_write_buffer c) @ data), Echo_read 5121]) \<and>
      echo_ready c' \<and> unread (ec_write_buffer c') = unread (ec_write_buffer c) @ data \<and>
      write_index (ec_write_buffer c') = write_index (ec_write_buffer c) + length data
    else echo_on_read 0 data c = Inl (if write_index (ec_write_buffer c) < 5121 then Undefined_behaviour else Out_of_range)"
proof -
  let ?r = "ec_read_buffer c" and ?w = "ec_write_buffer c"
  have c: "buffer_inv ?r" "unread ?r = []" "length (char_vector ?r) = 5121" "buffer_inv ?w" "length (char_vector ?w) = 5121"
    using assms(1) by (simp_all add: echo_ready_def)
  have "write_index ?r = 0"
    using c(1,2) length_unread [OF c(1)] by (auto simp: buffer_inv_def)
  then have "length data \<le> availableBytes ?r" using c assms(3) by (simp add: buffer_sizes)
  then obtain r where r: "store data ?r = Inr r" "buffer_inv r" "unread r = data" "length (char_vector r) = 5121"
    using store_unread [OF c(1), of data] c by auto
  have n: "dataBytes r = length data" "readBegin r = Inr (read_index r)"
    "copy_out (char_vector r) (read_index r) (length data) = Inr data"
    using buffer_sizes [OF r(2)] copy_out_unread [OF r(2), of 0 "length data"] r(3) by simp_all
  have r1: "buffer_inv (buffer_read (length data) r)" "unread (buffer_read (length data) r) = []"
    "length (char_vector (buffer_read (length data) r)) = 5121"
    using buffer_read_unread [OF r(2), of "length data"] r(3,4) by (simp_all add: buffer_read_def Let_def)
  show ?thesis
  proof (cases "write_index ?w + length data \<le> 5121")
    case True
    then have to: "writeBegin ?w = Inr (write_index ?w)"
      using assms(2) c(5) by (cases data) (simp_all add: writeBegin_def)
    have "length data \<le> availableBytes ?w" using True c(4,5) by (simp add: buffer_sizes)
    then obtain w where w: "store data ?w = Inr w" "buffer_inv w" "unread w = unread ?w @ data" "length (char_vector w) = 5121"
      using store_unread [OF c(4), of data] c by auto
    obtain v where v: "copy_in (char_vector ?w) (write_index ?w) data = Inr v" "w = buffer_write (length data) (?w\<lparr>char_vector := v\<rparr>)"
      using w(1) by (auto simp: store_def cpp_bind_eq_Inr_iff)
    have "write_index w = write_index ?w + length data"
      using v(2) True by (simp add: buffer_write_def size_add_def size_mod_def)
    note w = w this
    have out: "readBegin w = Inr (read_index w)" "copy_out (char_vector w) (read_index w) (dataBytes w) = Inr (unread w)"
      using buffer_sizes [OF w(2)] copy_out_unread [OF w(2), of 0 "length (unread w)"] by simp_all
    let ?c = "\<lparr>ec_read_buffer = buffer_read (length data) r, ec_write_buffer = w\<rparr>"
    have p: "processData (c\<lparr>ec_read_buffer := r\<rparr>) = Inr (?c, [Echo_write (unread w)])"
      using n to v out by (simp add: processData_def Let_def)
    have ready: "echo_ready ?c" using r1 w by (simp add: echo_ready_def)
    then have "echo_on_read 0 data c = Inr (?c, [Echo_write (unread w), Echo_read 5121])"
      using assms(2) r(1) p echo_start_read_ready by (simp add: echo_on_read_def)
    then show ?thesis using True ready w(3,5) by auto
  next
    case False
    have "processData (c\<lparr>ec_read_buffer := r\<rparr>) = Inl (if write_index ?w < 5121 then Undefined_behaviour else Out_of_range)"
      using n False c(5) by (simp add: processData_def Let_def writeBegin_def copy_in_def)
    then show ?thesis
      using False assms(2) r(1) by (simp add: echo_on_read_def)
  qed
qed

lemma TCPConnection_ready: "\<exists>c. TCPConnection = Inr c \<and> echo_ready c \<and> unread (ec_write_buffer c) = [] \<and> write_index (ec_write_buffer c) = 0"
proof -
  let ?b = "(DynamicBuffer 1024)\<lparr>char_vector := replicate 5121 0\<rparr>"
  have "TCPConnection = Inr \<lparr>ec_read_buffer = ?b, ec_write_buffer = ?b\<rparr>"
    by (simp add: TCPConnection_def reserve_4096)
  moreover have "buffer_inv ?b" "unread ?b = []" "write_index ?b = 0" "length (char_vector ?b) = 5121"
    by (simp_all add: buffer_inv_def unread_def DynamicBuffer_def max_size_def)
  ultimately show ?thesis
    by (intro exI [of _ "\<lparr>ec_read_buffer = ?b, ec_write_buffer = ?b\<rparr>"]) (simp add: echo_ready_def)
qed

lemma echo_begin_ready:
  "\<exists>t. echo_begin = Inr t \<and> echo_inv t \<and> er_reading t = [5121] \<and> er_writing t = [] \<and> er_received t = [] \<and> er_echoed t = [] \<and>
     write_index (ec_write_buffer (er_conn t)) = 0 \<and> er_shutdowns t = 0"
proof -
  obtain c where c: "TCPConnection = Inr c" "echo_ready c" "unread (ec_write_buffer c) = []" "write_index (ec_write_buffer c) = 0"
    using TCPConnection_ready by blast
  define t where "t = \<lparr>er_conn = c, er_reading = [5121], er_writing = [], er_received = [], er_echoed = [], er_shutdowns = 0\<rparr>"
  have "echo_begin = Inr t"
    by (simp add: echo_begin_def echo_start_def c(1) echo_start_read_ready [OF c(2)] t_def)
  then show ?thesis
    using c by (intro exI [of _ t]) (simp add: echo_inv_def t_def)
qed

subsection \<open>What is echoed\<close>

lemma echo_inv_step:
  assumes "echo_inv t" and "list_all (\<lambda>n. n = 5121) (er_reading t)" and "echo_event_step ev t = Inr u"
  shows "echo_inv u \<and> list_all (\<lambda>n. n = 5121) (er_reading u)"
proof (cases ev)
  case (Echo_write_done ec)
  show ?thesis
  proof (cases "er_writing t")
    case Nil
    then show ?thesis using assms Echo_write_done by simp
  next
    case (Cons d ds)
    then obtain rest where d: "er_writing t = [d]" "unread (ec_write_buffer (er_conn t)) = d @ rest"
      using assms(1) by (auto simp: echo_inv_def)
    have w: "buffer_inv (ec_write_buffer (er_conn t))" "length (char_vector (ec_write_buffer (er_conn t))) = 5121"
      using assms(1) by (simp_all add: echo_inv_def echo_ready_def)
    have "buffer_inv (buffer_read (length d) (ec_write_buffer (er_conn t)))"
      "unread (buffer_read (length d) (ec_write_buffer (er_conn t))) = rest"
      "length (char_vector (buffer_read (length d) (ec_write_buffer (er_conn t)))) = 5121"
      using buffer_read_unread [OF w(1), of "length d"] d(2) w(2) by (simp_all add: buffer_read_def Let_def)
    then show ?thesis
      using assms Echo_write_done d by (auto simp: echo_inv_def echo_ready_def echo_on_write_def)
  qed
next
  case (Echo_read_done ec data)
  show ?thesis
  proof (cases "er_reading t = [] \<or> hd (er_reading t) < length data")
    case True
    then show ?thesis using assms Echo_read_done by (cases "er_reading t") simp_all
  next
    case False
    then obtain ns where n: "er_reading t = 5121 # ns" "length data \<le> 5121" "list_all (\<lambda>n. n = 5121) ns"
      using assms(2) by (cases "er_reading t") auto
    obtain c acts where c: "echo_on_read ec data (er_conn t) = Inr (c, acts)"
      "u = fold echo_perform acts (t\<lparr>er_conn := c, er_reading := ns, er_received := er_received t @ (if ec = 0 then data else [])\<rparr>)"
      using assms(3) Echo_read_done n by (auto simp: cpp_bind_eq_Inr_iff)
    show ?thesis
    proof (cases "ec = 0 \<and> data \<noteq> []")
      case False
      then have "c = er_conn t" "acts = [] \<or> acts = [Echo_shutdown]"
        using c(1) by (cases "ec = 0"; simp add: echo_on_read_def echo_shutdown_def)+
      then show ?thesis
        using assms(1) c(2) n(3) False by (auto simp: echo_inv_def)
    next
      case True
      have ready: "echo_ready (er_conn t)" using assms(1) by (simp add: echo_inv_def)
      have "echo_ready c" "unread (ec_write_buffer c) = unread (ec_write_buffer (er_conn t)) @ data"
        "acts = [Echo_write (unread (ec_write_buffer (er_conn t)) @ data), Echo_read 5121]"
        using echo_on_read_ready [OF ready _ n(2)] c(1) True by (auto split: if_splits)
      then show ?thesis
        using assms(1) c(2) n(3) True by (auto simp: echo_inv_def)
    qed
  qed
qed

lemma echo_inv_session:
  "echo_session evs t = Inr u \<Longrightarrow> echo_inv t \<Longrightarrow> list_all (\<lambda>n. n = 5121) (er_reading t) \<Longrightarrow> echo_inv u"
proof (induction evs arbitrary: t)
  case (Cons ev evs)
  then obtain t1 where "echo_event_step ev t = Inr t1" "echo_session evs t1 = Inr u"
    by (auto simp: cpp_bind_eq_Inr_iff)
  then show ?case using echo_inv_step [of t ev t1] Cons by blast
qed simp

text \<open>Whatever a client sends and in whatever order reads and writes complete, with whatever codes: what the echo connection has written is
  the beginning of what it has read, and the rest is exactly what its write buffer holds; at most one write is outstanding, and it
  is the beginning of that rest.\<close>

lemma echo_in_order:
  assumes "echo_begin = Inr t" and "echo_session evs t = Inr u"
  shows "er_received u = er_echoed u @ unread (ec_write_buffer (er_conn u)) \<and> length (er_writing u) \<le> 1 \<and>
    (\<forall>d. er_writing u = [d] \<longrightarrow> take (length d) (unread (ec_write_buffer (er_conn u))) = d)"
proof -
  obtain t0 where t0: "echo_begin = Inr t0" "echo_inv t0" "er_reading t0 = [5121]"
    using echo_begin_ready by blast
  then have "t0 = t" using assms(1) by (metis sum.inject(2))
  then have "echo_inv u" using echo_inv_session [OF assms(2)] t0(2,3) by simp
  then show ?thesis by (auto simp: echo_inv_def)
qed

text \<open>A read and the completion of a write, with nothing else outstanding.\<close>

lemma echo_read_event:
  assumes "echo_inv t" and "er_reading t = [5121]" and "data \<noteq> []" and "length data \<le> 5121"
  shows "if write_index (ec_write_buffer (er_conn t)) + length data \<le> 5121
    then \<exists>c. echo_event_step (Echo_read_done 0 data) t =
        Inr (t\<lparr>er_conn := c, er_received := er_received t @ data,
               er_writing := (if er_writing t = [] then [unread (ec_write_buffer (er_conn t)) @ data] else er_writing t),
               er_reading := [5121]\<rparr>) \<and>
      echo_ready c \<and> unread (ec_write_buffer c) = unread (ec_write_buffer (er_conn t)) @ data \<and>
      write_index (ec_write_buffer c) = write_index (ec_write_buffer (er_conn t)) + length data
    else echo_event_step (Echo_read_done 0 data) t =
      Inl (if write_index (ec_write_buffer (er_conn t)) < 5121 then Undefined_behaviour else Out_of_range)"
proof -
  have ready: "echo_ready (er_conn t)" using assms(1) by (simp add: echo_inv_def)
  show ?thesis
  proof (cases "write_index (ec_write_buffer (er_conn t)) + length data \<le> 5121")
    case True
    then obtain c where c: "echo_on_read 0 data (er_conn t) = Inr (c, [Echo_write (unread (ec_write_buffer (er_conn t)) @ data), Echo_read 5121])"
      "echo_ready c" "unread (ec_write_buffer c) = unread (ec_write_buffer (er_conn t)) @ data"
      "write_index (ec_write_buffer c) = write_index (ec_write_buffer (er_conn t)) + length data"
      using echo_on_read_ready [OF ready assms(3,4)] by auto
    have "echo_event_step (Echo_read_done 0 data) t =
        Inr (t\<lparr>er_conn := c, er_received := er_received t @ data,
               er_writing := (if er_writing t = [] then [unread (ec_write_buffer (er_conn t)) @ data] else er_writing t),
               er_reading := [5121]\<rparr>)"
      using c(1) assms(2,4) by simp
    then show ?thesis using c(2-4) True by auto
  next
    case False
    then show ?thesis
      using echo_on_read_ready [OF ready assms(3,4)] assms(2,4) by simp
  qed
qed

lemma empty_write_buffer: "echo_ready c \<Longrightarrow> unread (ec_write_buffer c) = [] \<Longrightarrow> write_index (ec_write_buffer c) = 0"
  using length_unread [of "ec_write_buffer c"] by (auto simp: echo_ready_def buffer_inv_def)

lemma echo_turn:
  assumes "echo_inv t" and "er_reading t = [5121]" and "er_writing t = []" and "unread (ec_write_buffer (er_conn t)) = []"
    and "data \<noteq> []" and "length data \<le> 5121"
  shows "\<exists>u. echo_session [Echo_read_done 0 data, Echo_write_done 0] t = Inr u \<and> echo_inv u \<and> er_reading u = [5121] \<and> er_writing u = [] \<and>
    unread (ec_write_buffer (er_conn u)) = [] \<and> er_echoed u = er_echoed t @ data"
proof -
  have ready: "echo_ready (er_conn t)" using assms(1) by (simp add: echo_inv_def)
  obtain c where c: "echo_event_step (Echo_read_done 0 data) t =
      Inr (t\<lparr>er_conn := c, er_received := er_received t @ data, er_writing := [data], er_reading := [5121]\<rparr>)" "echo_ready c"
      "unread (ec_write_buffer c) = data"
    using echo_read_event [OF assms(1,2,5,6)] empty_write_buffer [OF ready assms(4)] assms(3,4,6) by auto
  let ?u1 = "t\<lparr>er_conn := c, er_received := er_received t @ data, er_writing := [data], er_reading := [5121]\<rparr>"
  obtain u where u: "echo_event_step (Echo_write_done 0) ?u1 = Inr u" "er_writing u = []" "er_reading u = [5121]"
    "er_echoed u = er_echoed t @ data" "er_received u = er_received t @ data"
    using assms(2) by simp
  have "echo_inv ?u1" using c(2,3) assms(1,4) by (simp add: echo_inv_def)
  then have "echo_inv u" using echo_inv_step [OF _ _ u(1)] assms(2) by simp
  moreover have "unread (ec_write_buffer (er_conn u)) = []"
    using \<open>echo_inv u\<close> u(4,5) assms(1,4) by (simp add: echo_inv_def)
  ultimately show ?thesis
    using c(1) u by simp
qed

lemma echo_turns:
  "echo_inv t \<Longrightarrow> er_reading t = [5121] \<Longrightarrow> er_writing t = [] \<Longrightarrow> unread (ec_write_buffer (er_conn t)) = [] \<Longrightarrow>
   list_all (\<lambda>d. d \<noteq> [] \<and> length d \<le> 5121) ds \<Longrightarrow>
   \<exists>u. echo_session (concat (map (\<lambda>d. [Echo_read_done 0 d, Echo_write_done 0]) ds)) t = Inr u \<and>
     er_echoed u = er_echoed t @ concat ds \<and> er_writing u = []"
proof (induction ds arbitrary: t)
  case (Cons d ds)
  obtain u where u: "echo_session [Echo_read_done 0 d, Echo_write_done 0] t = Inr u" "echo_inv u" "er_reading u = [5121]" "er_writing u = []"
    "unread (ec_write_buffer (er_conn u)) = []" "er_echoed u = er_echoed t @ d"
    using echo_turn [OF Cons.prems(1-4)] Cons.prems(5) by auto
  have split: "concat (map (\<lambda>d. [Echo_read_done 0 d, Echo_write_done 0]) (d # ds)) =
      [Echo_read_done 0 d, Echo_write_done 0] @ concat (map (\<lambda>d. [Echo_read_done 0 d, Echo_write_done 0]) ds)" by simp
  obtain v where v: "echo_session (concat (map (\<lambda>d. [Echo_read_done 0 d, Echo_write_done 0]) ds)) u = Inr v"
    "er_echoed v = er_echoed u @ concat ds" "er_writing v = []"
    using Cons.IH [OF u(2-5)] Cons.prems(5) by auto
  then show ?case
    unfolding split echo_session_append u(1) cpp_bind_simps using u(6) by (intro exI [of _ v]) simp
qed simp

text \<open>C40: A client that waits for each of its pieces to come back before it sends the next gets all of them back, in order. One
  that sends a second piece before the first is written does not: when both fit into the write buffer, the second one stays there
  after the first is written, with no write outstanding; when they do not fit, the copy runs past the end of the buffer, or \<open>at()\<close> throws if it was full.\<close>

theorem echo_waiting_client:
  assumes "list_all (\<lambda>d. d \<noteq> [] \<and> length d \<le> 5121) (a # b # ds)"
  shows "\<exists>t. echo_begin = Inr t \<and>
    (\<exists>u. echo_session (concat (map (\<lambda>d. [Echo_read_done 0 d, Echo_write_done 0]) (a # b # ds))) t = Inr u \<and>
       er_echoed u = a @ b @ concat ds \<and> er_writing u = []) \<and>
    (if length a + length b \<le> 5121
     then \<exists>v. echo_session [Echo_read_done 0 a, Echo_read_done 0 b, Echo_write_done 0] t = Inr v \<and>
       er_echoed v = a \<and> er_writing v = [] \<and> unread (ec_write_buffer (er_conn v)) = b
     else echo_session [Echo_read_done 0 a, Echo_read_done 0 b] t =
       Inl (if length a < 5121 then Undefined_behaviour else Out_of_range))"
proof -
  have a: "a \<noteq> []" "length a \<le> 5121" "b \<noteq> []" "length b \<le> 5121" using assms by simp_all
  obtain t where t: "echo_begin = Inr t" "echo_inv t" "er_reading t = [5121]" "er_writing t = []" "er_received t = []" "er_echoed t = []"
    "write_index (ec_write_buffer (er_conn t)) = 0"
    using echo_begin_ready by blast
  have empty: "unread (ec_write_buffer (er_conn t)) = []"
    using t(7) by (simp add: unread_def)
  obtain u where u: "echo_session (concat (map (\<lambda>d. [Echo_read_done 0 d, Echo_write_done 0]) (a # b # ds))) t = Inr u"
    "er_echoed u = a @ b @ concat ds" "er_writing u = []"
    using echo_turns [OF t(2-4) empty assms] t(6) by auto
  obtain c where c: "echo_event_step (Echo_read_done 0 a) t = Inr (t\<lparr>er_conn := c, er_received := a, er_writing := [a], er_reading := [5121]\<rparr>)"
    "echo_ready c" "unread (ec_write_buffer c) = a" "write_index (ec_write_buffer c) = length a"
    using echo_read_event [OF t(2,3) a(1,2)] a(2) unfolding t(4-7) empty by auto
  define t1 where "t1 = t\<lparr>er_conn := c, er_received := a, er_writing := [a], er_reading := [5121]\<rparr>"
  have t1: "echo_event_step (Echo_read_done 0 a) t = Inr t1" "echo_inv t1" "er_reading t1 = [5121]" "er_writing t1 = [a]"
    "er_conn t1 = c" "er_received t1 = a" "er_echoed t1 = []"
    using c t(3,6) by (simp_all add: echo_inv_def t1_def)
  note second = echo_read_event [OF t1(2,3) a(3,4), unfolded t1(4-6) c(3,4)]
  have both: "if length a + length b \<le> 5121
     then \<exists>v. echo_session [Echo_read_done 0 a, Echo_read_done 0 b, Echo_write_done 0] t = Inr v \<and>
       er_echoed v = a \<and> er_writing v = [] \<and> unread (ec_write_buffer (er_conn v)) = b
     else echo_session [Echo_read_done 0 a, Echo_read_done 0 b] t =
       Inl (if length a < 5121 then Undefined_behaviour else Out_of_range)"
  proof (cases "length a + length b \<le> 5121")
    case False
    then show ?thesis
      using second t1(1) by (simp only: echo_session.simps cpp_bind_simps if_False)
  next
    case True
    then obtain c2 t2 where c2: "echo_event_step (Echo_read_done 0 b) t1 = Inr t2" "echo_ready c2" "unread (ec_write_buffer c2) = a @ b"
      "er_conn t2 = c2" "er_writing t2 = [a]" "er_reading t2 = [5121]" "er_echoed t2 = []" "er_received t2 = a @ b"
      using second t1(7) by fastforce
    obtain v where v: "echo_event_step (Echo_write_done 0) t2 = Inr v" "er_echoed v = a" "er_writing v = []" "er_received v = a @ b"
      using c2(5,7,8) by simp
    have "echo_inv t2" using c2 by (simp add: echo_inv_def)
    then have "echo_inv v" using echo_inv_step [OF _ _ v(1)] c2(6) by simp
    then have "unread (ec_write_buffer (er_conn v)) = b" using v by (simp add: echo_inv_def)
    then show ?thesis
      using True t1(1) c2(1) v by (simp only: echo_session.simps cpp_bind_simps if_True) blast
  qed
  show ?thesis using t(1) u both by blast
qed

theorem echo_waiting_client_witness:
  "\<exists>t u v. echo_begin = Inr t \<and>
    echo_session [Echo_read_done 0 [7], Echo_write_done 0, Echo_read_done 0 [8, 9], Echo_write_done 0] t = Inr u \<and> er_echoed u = [7, 8, 9] \<and>
    echo_session [Echo_read_done 0 [7], Echo_read_done 0 [8, 9], Echo_write_done 0] t = Inr v \<and> er_echoed v = [7]"
proof -
  have "list_all (\<lambda>d. d \<noteq> [] \<and> length d \<le> 5121) [[7], [8, 9 :: u8]]" by simp
  note c = echo_waiting_client [OF this, unfolded list.map concat.simps append.simps append_Nil2]
  have le: "length [7 :: u8] + length [8, 9 :: u8] \<le> 5121" by simp
  show ?thesis using c unfolding if_P [OF le] by blast
qed

lemma echo_in_order_witness:
  "\<exists>t u. echo_begin = Inr t \<and> echo_session [Echo_write_done 0] t = Inr u \<and>
    er_received u = er_echoed u @ unread (ec_write_buffer (er_conn u))"
proof -
  obtain t where t: "echo_begin = Inr t" "er_writing t = []" using echo_begin_ready by blast
  have e: "echo_session [Echo_write_done 0] t = Inr t" using t(2) by simp
  show ?thesis using echo_in_order [OF t(1) e] t(1) e by blast
qed

end
