(* ===== verification/Reactor_Destroy.thy ===== *)
theory Reactor_Destroy
  imports Reactor_Cancel
begin

section \<open>Making and deleting the reactor (asio/src/details/reactor_service.cc)\<close>

text \<open>
  The destructor walks the map, cancels what waits in each info and deletes the info. The callbacks it runs may still use
  the reactor, so the walk is done on a state that remembers the deleted infos (\<open>rd_deleted\<close>), and whether a request
  was made that is undefined behaviour (\<open>rd_undefined\<close>): one that follows a pointer to a deleted info, or one that puts a
  new descriptor into the map, which may rehash it under the iterator of the walk.
\<close>

definition EPOLL_CLOEXEC :: u32 where "EPOLL_CLOEXEC = 0x80000"

text \<open>\<open>epollfd\<close> is what \<^verbatim>\<open>epoll_create\<close> returned.\<close>

definition create_epollfd :: "'k os \<Rightarrow> int \<Rightarrow> 'k \<Rightarrow> (int \<times> 'k) cpp" where
  "create_epollfd os epollfd k =
     (if epollfd = - 1 then Inl Asio_exception
      else (let flags = os_getfl os epollfd k in Inr (epollfd, os_setfl os epollfd (EPOLL_CLOEXEC OR flags) k)))"

definition construct_ReactorService :: "'k os \<Rightarrow> int \<Rightarrow> 'k \<Rightarrow> (int \<times> ('op, 'k) reactor) cpp" where
  "construct_ReactorService os epollfd k =
     cpp_bind (create_epollfd os epollfd k) (\<lambda>(epoll_fd, k1). Inr (epoll_fd, ReactorService k1))"

definition destroy_epollfd :: "'k os \<Rightarrow> int \<Rightarrow> 'k \<Rightarrow> 'k" where
  "destroy_epollfd os fd k = (if fd \<noteq> - 1 then snd (os_close os fd k) else k)"

record ('op, 'k) dying = "('op, 'k) reactor" +
  rd_deleted :: "int list"
  rd_undefined :: bool

definition dying_of :: "('op, 'k) reactor \<Rightarrow> ('op, 'k) dying" where
  "dying_of r =
     \<lparr>quit = quit r, event_array_size = event_array_size r, fd_opinfo_umap = fd_opinfo_umap r, kernel = kernel r,
      rd_deleted = [], rd_undefined = False\<rparr>"

text \<open>The descriptor whose info a request looks at, and whether the request may put it into the map.\<close>

fun request_fd :: "'op request \<Rightarrow> (int \<times> bool) option" where
  "request_fd (Register_read fd _) = Some (fd, True)"
| "request_fd (Register_write fd _) = Some (fd, True)"
| "request_fd (Remove_read fd) = Some (fd, False)"
| "request_fd (Remove_write fd) = Some (fd, False)"
| "request_fd (Cancel_read fd) = Some (fd, False)"
| "request_fd (Cancel_write fd) = Some (fd, False)"
| "request_fd (Remove_all fd) = Some (fd, False)"
| "request_fd (Cancel_all fd) = Some (fd, False)"
| "request_fd Quit = None"

definition touch :: "'op request \<Rightarrow> ('op, 'k) dying \<Rightarrow> ('op, 'k) dying" where
  "touch req r =
     (case request_fd req of
        None \<Rightarrow> r
      | Some (fd, inserts) \<Rightarrow>
          if fd \<in> set (rd_deleted r) \<or> inserts \<and> umap_find fd (fd_opinfo_umap r) = None
          then r\<lparr>rd_undefined := True\<rparr> else r)"

text \<open>A callback of the reactor (\<open>run_body\<close>) while the destructor runs.\<close>

fun dying_body :: "'k os \<Rightarrow> ('op, 'k) body \<Rightarrow> nat \<Rightarrow> 'op \<Rightarrow> int \<Rightarrow> ('op, 'k) dying \<Rightarrow> ('op, 'k) dying" where
  "dying_body os body 0 op ec r = r\<lparr>kernel := snd (body op ec (kernel r))\<rparr>"
| "dying_body os body (Suc n) op ec r =
     (case body op ec (kernel r) of
        (requests, k) \<Rightarrow>
          fold (\<lambda>req r. perform os (dying_body os body n) req (touch req r)) requests (r\<lparr>kernel := k\<rparr>))"

definition destroy_opinfo ::
  "'k os \<Rightarrow> ('op \<Rightarrow> int \<Rightarrow> ('op, 'k) dying \<Rightarrow> ('op, 'k) dying) \<Rightarrow> int \<Rightarrow> ('op, 'k) dying \<Rightarrow> ('op, 'k) dying" where
  "destroy_opinfo os call fd r =
     (let r1 = (if hasOperation (opinfo_at fd r) then opinfo_cancelAll call fd (snd (epoll_remove os fd r)) else r)
      in r1\<lparr>rd_deleted := fd # rd_deleted r1\<rparr>)"

definition destroy_ReactorService ::
  "'k os \<Rightarrow> ('op \<Rightarrow> int \<Rightarrow> ('op, 'k) dying \<Rightarrow> ('op, 'k) dying) \<Rightarrow> ((int, 'op opinfo) umap \<Rightarrow> (int, 'op opinfo) umap) \<Rightarrow>
   int \<Rightarrow> ('op, 'k) reactor \<Rightarrow> 'k cpp" where
  "destroy_ReactorService os call order epoll_fd r =
     (let r1 = fold (destroy_opinfo os call) (map fst (order (fd_opinfo_umap r))) (dying_of r)
      in if rd_undefined r1 then Inl Undefined_behaviour else Inr (destroy_epollfd os epoll_fd (kernel r1)))"

subsection \<open>Every operation that waits is cancelled once\<close>













text \<open>The read operation 7 and the write operation 8 wait on descriptor 5, the read operation 9 on 6.\<close>

definition example_dying :: "(nat, small_kernel) reactor" where
  "example_dying =
     (ReactorService (small_kernel0\<lparr>sk_interest :=
        (\<lambda>_. None)(5 := Some (EPOLLIN OR EPOLLPRI OR EPOLLOUT), 6 := Some (EPOLLIN OR EPOLLPRI))\<rparr>))
       \<lparr>fd_opinfo_umap := [(5, \<lparr>read_op = Some 7, write_op = Some 8\<rparr>), (6, \<lparr>read_op = Some 9, write_op = None\<rparr>)]\<rparr>"


text \<open>What the callbacks may not do while the reactor is deleted. An operation that registers itself again for its
  descriptor, as \<^verbatim>\<open>cancelReadOperation\<close> allows, is deleted without a call; one that uses a descriptor whose info is gone
  reads freed memory.\<close>

lemma destroy_drops_reregistration:
  "map_sum id sk_log (destroy_ReactorService small_os (dying_body small_os (rereg_body small_note 6 9 9) 1) id 3 example_dying) =
     Inr [(7, err_EOPCANCELED), (8, err_EOPCANCELED), (9, err_EOPCANCELED)]"
  by code_simp

lemma destroy_uses_deleted:
  "map_sum id sk_log (destroy_ReactorService small_os (dying_body small_os (rereg_body small_note 5 9 9) 1) id 3 example_dying) =
     Inl Undefined_behaviour"
  by code_simp

end
