(* ===== verification/Spec2Isabelle.thy ===== *)
theory Spec2Isabelle
  imports Tlv_Variant Tlv_Parser Http_Body Rpc_System Rpc_Accept Timer_Service Bridge_Service Hang_Up
    Loop_Wait Socket_Program Context_Loop Socket_Info Rpc_Closure Rpc_End_To_End Example_Main Echo_Connection Reactor_Destroy
begin

text \<open>
  A model of the LCY library, a C++ library of three parts: \<^verbatim>\<open>src/asio\<close> (asynchronous input and output on epoll),
  \<^verbatim>\<open>src/protocol\<close> (message formats: TLV and HTTP) and \<^verbatim>\<open>src/rpc\<close> (remote calls of protobuf services over TCP).

  How the parts interact. An \<^verbatim>\<open>IOContext\<close> owns one service of each kind. Its reactor waits for epoll and runs the
  operations registered for the descriptors that are ready. Sockets and signal sets register operations with it; the timer
  service and the bridge service register the callback of one descriptor each (a timerfd, an eventfd). A thread pool has one context
  per thread; other threads hand it work through the bridge. An RPC connection uses one TCP socket: it reads into a dynamic
  buffer, cuts it into frames (a 32-bit length and a string) and keeps a queue of frames to send. An RPC server accepts connections on
  the contexts of a pool and answers the requests in their frames; an RPC channel sends requests and matches the answers by id. The
  parsers of \<^verbatim>\<open>src/protocol\<close> are used by applications on the bytes of a buffer; \<^verbatim>\<open>src/examples\<close> has two, a server that answers
  HTTP requests and an echo server, on a TCP server template that accepts connections for the contexts of a pool.

  Theories and sources. \<open>Prelude\<close> has the shared vocabulary: \<open>'a cpp\<close> is a result or a \<open>fault\<close> (an exception that is thrown, or
  undefined behaviour), with \<open>cpp_bind\<close> for what comes next; bytes, words, the arithmetic of \<^verbatim>\<open>size_t\<close> modulo \<open>2 ^ 64\<close>, the two byte orders.

  \<^item> \<^verbatim>\<open>src/protocol\<close>: \<open>Tlv_Variant\<close> (variant_encode.cc: both zigzag macros and the varints), \<open>Tlv_Message\<close> (message.cc),
    \<open>Tlv_Parser\<close> (parser.cc); \<open>Http_Message\<close> (message.cc, request.cc, response.cc, servlet.cc), \<open>Http_Parser\<close> (parser.cc),
    \<open>Http_Laws\<close>, \<open>Http_Properties\<close> and \<open>Http_Body\<close> (lemmas and properties of the parser). \<open>Parser_Contract\<close> is the
    contract of both parsers, which keep their place between calls: the locale \<open>resumable_parser\<close> and its extension \<open>total_parser\<close>,
    interpreted on \<open>http_parse\<close> and \<open>tlv_parse\<close>. \<open>Unordered_Map\<close> is \<^verbatim>\<open>std::unordered_map\<close>, an association list, with
    the locale \<open>key_value_store\<close>.
  \<^item> \<^verbatim>\<open>src/asio\<close>: \<open>Buffer\<close> (buffer.cc), \<open>Dynamic_Buffer\<close> (dynamic_buffer.cc; the locale \<open>byte_queue\<close> is what a reader relies
    on), \<open>Errinfo\<close> (errinfo.cc), \<open>Operating_System\<close> (the system calls), \<open>Reactor\<close> (details/reactor_service.cc),
    \<open>Reactor_Invariant\<close> and \<open>Reactor_Cancel\<close> (its lemmas), \<open>Reactor_Destroy\<close> (its destructor), \<open>Endpoint\<close> (ip/endpoint.cc), \<open>Async_Op\<close> (the closures that are
    registered, creating and closing sockets), \<open>Tcp_Socket\<close> (ip/details/tcp_socket.cc, acceptor.cc), \<open>Udp_Socket\<close>
    (ip/details/udp_socket.cc), \<open>Socket_Info\<close> (what both print), \<open>Signal_Set\<close> (signal_set.cc), \<open>Io_Loop\<close> (the function the loop calls on a closure, and a write followed
    through it), \<open>Socket_Events\<close>, \<open>Socket_Program\<close> and \<open>Loop_Wait\<close> (lemmas on events, on programs of socket operations and on the
    loop), \<open>Service\<close> (how a service is made and destroyed), \<open>Timer_Service\<close> (details/timer_service.cc,
    steady_timer.cc), \<open>Bridge_Service\<close> (details/bridge_service.cc, io_context.cc), \<open>Context_Loop\<close>
    (both services on the reactor), \<open>Thread_Pool\<close> (thread_pool.cc).
  \<^item> \<^verbatim>\<open>src/rpc\<close>: \<open>Rpc_Message\<close> (rpc.proto), \<open>Rpc_Connection\<close> (details/connection.cc), \<open>Rpc_Server\<close> (server.cc), \<open>Rpc_Closure\<close> (callback.h and the heap objects of a call in server.cc),
    \<open>Rpc_Channel\<close> (channel.cc), \<open>Rpc_System\<close> (a channel and a server together), \<open>Rpc_Accept\<close> (details/server.cc on the pool),
    \<open>Rpc_Wire\<close> (a connection's strings on its socket and the reactor), \<open>Rpc_Duplex\<close> (both directions of a connection on its
    socket), \<open>Rpc_Peer\<close> (such a connection as a machine on streams), \<open>Rpc_Service\<close> (the server's connections on theirs),
    \<open>Rpc_Client\<close> (a channel on its socket), \<open>Rpc_End_To_End\<close> (both ends and the network), \<open>Hang_Up\<close> (the reactor's hang-up event down to the
    connection's send queue). \<open>Accept_Contract\<close> is what the accepting servers of this library and of the examples share: the locale
    \<open>pool_acceptor\<close>, interpreted in \<open>Rpc_Accept\<close> and in \<open>Example_Server\<close>.
  \<^item> \<^verbatim>\<open>src/examples\<close>: \<open>Example_Server\<close> (tcp_server.hpp), \<open>Http_Connection\<close> (http_connection.cc and the message operation of the HTTP
    server's main.cc), \<open>Http_Session\<close> (a connection with a client that sends requests in pieces), \<open>Echo_Connection\<close>
    (tcp_connection.cc), \<open>Example_Main\<close> (both main.cc on one context).

  State and operations. Each class is a record with the class's fields and each member function a definition of the same name
  (with a prefix where names clash) that takes the object and gives it back changed. What an object asks of another part, where the parts
  are modelled apart, is a list of actions (\<open>Async_write\<close>, \<open>Post\<close>, requests to the reactor) in the order of the calls. On the
  reactor, sockets are modelled together with it: the state \<open>('u, 'k) io\<close> holds the reactor's map, the socket objects and the kernel, and
  an operation is a closure run by \<open>io_call\<close>. Threads are step relations (\<open>pool_step\<close>, \<open>bridge_step\<close>), one step
  for each atomic access or critical section.

  What the lemmas show.
  \<^item> Formats: what is written is read back (\<open>Tlv_Variant\<close>, \<open>Tlv_Parser\<close>, \<open>Http_Properties\<close>, chunked bodies in \<open>Http_Body\<close>), a
    message is parsed alike however the network cuts it (from \<open>Parser_Contract\<close>), nothing outside the data is read while what is parsed at once stays below \<open>INT_MAX\<close>, and what each
    format does at its limits: sizes beyond a word, several words in a header or a reason, a trailer in two pieces.
  \<^item> Buffers and endpoints: the dynamic buffer is a queue of bytes, its integers are read as written, an endpoint gives back its address.
  \<^item> Reactor and sockets: no registered operation is forgotten by epoll (\<open>Reactor_Invariant\<close>), every closure is in its place
    (\<open>Socket_Program\<close>), an event completes its operation (\<open>Socket_Events\<close>), a write hands over its bytes in order and completes
    (\<open>Io_Loop\<close>), when the loop returns (\<open>Loop_Wait\<close>), what cancelling (\<open>Reactor_Cancel\<close>), deleting the reactor (\<open>Reactor_Destroy\<close>) and a hang-up (\<open>Hang_Up\<close>) do.
  \<^item> Services and threads: every timer is waiting, due or done exactly once and the timerfd is set for the earliest
    (\<open>Timer_Service\<close>), every posted task runs, and the bridge is registered once, from the thread that posts first (\<open>Bridge_Service\<close>), both services stay registered on the reactor of their context and
    their events run what is due (\<open>Context_Loop\<close>), the pool is a round robin (\<open>Thread_Pool\<close>).
  \<^item> RPC: frames arrive whole and in order and are sent in order (\<open>Rpc_Connection\<close>), through the sockets and the reactor
    (\<open>Rpc_Wire\<close>, also what a failed \<^verbatim>\<open>send\<close>, a shutdown and, in \<open>Hang_Up\<close>, a hang-up do to the queue), each request is
    answered at most once, with the code of the first check that fails (\<open>Rpc_Server\<close>), without touching a dead object while the service keeps to its part, and what stays on the
    heap (\<open>Rpc_Closure\<close>), from the bytes that arrive at the socket to the bytes that leave it
    (\<open>Rpc_Service\<close>), a response completes its call (\<open>Rpc_Channel\<close>), all calls of a channel
    complete (\<open>Rpc_System\<close>), also with both ends on their sockets and a network between (\<open>Rpc_End_To_End\<close>), connections are spread over the pool until an accept fails (\<open>Rpc_Accept\<close>).
  \<^item> Examples: the HTTP server answers every complete request of a stream once and in order however the stream is cut, refuses what is not
    a request, and never waits with nothing under way (\<open>Http_Session\<close>); the echo server sends back what it reads, and what it
    does to a client that waits (\<open>Echo_Connection\<close>); both programs end at \<^verbatim>\<open>SIGINT\<close> and not before (\<open>Example_Main\<close>).

  Parameters. What is not in the sources is an argument: the system calls (the record \<open>'k os\<close>; the laws they are assumed to
  follow are the predicates \<open>epoll_laws\<close>, \<open>epoll_reliable\<close>, \<open>send_laws\<close>, \<open>send_progress\<close>, \<open>wire_laws\<close>, \<open>duplex_laws\<close>), the protobuf codec
  (\<open>parse_message\<close>, \<open>serialize_message\<close>, assumed to invert each other on the messages sent: \<open>carries\<close>) and the protobuf services,
  \<^verbatim>\<open>inet_pton\<close> and \<^verbatim>\<open>inet_ntop\<close> (\<open>inet_laws\<close>), the eventfd (\<open>eventfd_law\<close>), the descriptors that constructors get and what C++11 leaves to the
  compiler when they throw (\<open>service_env\<close>), readings of the clock, the byte order of the host, the order in which an unordered map is walked. Callbacks of the user are values of a type parameter, or functions on the state; where they may not do everything a predicate says what
  they leave alone: \<open>leaves_epoll\<close> and \<open>body_leaves_epoll\<close> name the descriptors they may close behind the reactor's back,
  \<open>body_elsewhere\<close> and \<open>timer_request\<close> keep them off the services' own descriptors and to the timers' operations, and \<open>quiet\<close> callbacks
  ask nothing of a reactor that is being deleted.
  Each property with such a hypothesis has a witness on a concrete kernel or codec.

  Bounds and fuel. Sizes are natural numbers with the operations of \<^verbatim>\<open>size_t\<close> written modulo \<open>2 ^ 64\<close>; what is received over one connection is
  bounded by \<open>2 ^ 62\<close> bytes, so that a vector can hold it. The \<^verbatim>\<open>int\<close> indices of the HTTP parser's search for line ends (\<open>CRLF\<close>) are
  undefined beyond \<open>INT_MAX\<close>; a timerfd is what it was set to and when (\<open>timerfd_expiry\<close>). The loops over data are functions with a termination proof. \<open>loop_wait\<close>
  has no end of its own, so \<open>reactor_loop\<close> counts the calls of \<^verbatim>\<open>epoll_wait\<close>: its argument is how many return, and the theorems hold
  for each count. \<open>run_body\<close> counts how deep callbacks register further operations while they run; the theorems
  hold for every depth; \<open>io_user\<close>, \<open>wire_user\<close>, \<open>duplex_user\<close> and \<open>cx_act\<close> count in the same way.

  Not modelled. The code that \<^verbatim>\<open>protoc\<close> generates (\<^verbatim>\<open>rpc.pb.cc\<close>); the tests; the memory of
  \<^verbatim>\<open>std::function\<close> (a closure is a value); weaker memory orders than one atomic step at a time; user callbacks that mix sockets with
  timers and tasks in the loop of one context (\<open>Context_Loop\<close> has the services, \<open>Io_Loop\<close> and \<open>Socket_Program\<close> the sockets); the exception classes
  of \<^verbatim>\<open>exception.h\<close>, which are values of \<open>cpp_fault\<close>.
\<close>

end
